(* ===== verification/Prelude.thy ===== *)
theory Prelude
  imports Main "HOL-Library.Word"
begin

unbundle bit_operations_syntax

text \<open>
  Shared vocabulary of the development: the address type, the named collections that the
  component theories fill, and generic lemmas on lists and functions they share.

  An \<open>addr\<close> is a 64-bit pointer value and \<open>NULL\<close> is the null pointer. A structure that
  lives in memory is a function from addresses to its record, one function per structure
  type (the component-as-array view of a typed C heap).
\<close>

type_synonym addr = "64 word"

abbreviation NULL :: addr where
  "NULL \<equiv> 0"

named_theorems heap_simps \<open>reads of a structure field after a field update\<close>
named_theorems rep_intros \<open>representation predicates after one operation\<close>

subsection \<open>Lists\<close>

lemma split_at_member:
  "x \<in> set xs \<Longrightarrow> \<exists>ys zs. xs = ys @ x # zs \<and> x \<notin> set ys"
  by (rule split_list_first)

lemma distinct_split:
  "distinct (ys @ x # zs) \<longleftrightarrow> x \<notin> set ys \<and> x \<notin> set zs \<and> distinct (ys @ zs)"
  by auto

lemma remove1_middle:
  "x \<notin> set ys \<Longrightarrow> remove1 x (ys @ x # zs) = ys @ zs"
  by (simp add: remove1_append)

lemma hd_append_singleton: "hd (xs @ [y]) = (if xs = [] then y else hd xs)"
  by simp

lemma last_Cons_if: "last (x # xs) = (if xs = [] then x else last xs)"
  by simp

end
