(* ===== verification/KList.thy ===== *)
theory KList
  imports Prelude
begin

text \<open>
  The intrusive circular doubly linked list of \<open>src/list.c\<close> and \<open>src/list.h\<close>, on an
  explicit heap. A \<open>lheap\<close> gives the \<open>list_head\<close> stored at each address; the list is
  the cycle through its head. \<open>dlist h head xs\<close> says that the cycle that starts at \<open>head\<close>
  visits exactly the entries \<open>xs\<close>, forwards along \<open>next\<close> and backwards along \<open>prev\<close>.
  Every operation is translated pointer write by pointer write and is shown to refine the
  corresponding operation on \<open>xs\<close>.
\<close>

subsection \<open>The structure and its pointer writes\<close>

record list_head =
  lnext :: addr
  lprev :: addr

type_synonym lheap = "addr \<Rightarrow> list_head"

definition set_next :: "addr \<Rightarrow> addr \<Rightarrow> lheap \<Rightarrow> lheap" where
  "set_next a v h = h(a := (h a)\<lparr>lnext := v\<rparr>)"

definition set_prev :: "addr \<Rightarrow> addr \<Rightarrow> lheap \<Rightarrow> lheap" where
  "set_prev a v h = h(a := (h a)\<lparr>lprev := v\<rparr>)"

lemma lnext_set_next [heap_simps, simp]:
  "lnext (set_next a v h x) = (if x = a then v else lnext (h x))"
  by (simp add: set_next_def)

lemma lprev_set_next [heap_simps, simp]: "lprev (set_next a v h x) = lprev (h x)"
  by (simp add: set_next_def)

lemma lprev_set_prev [heap_simps, simp]:
  "lprev (set_prev a v h x) = (if x = a then v else lprev (h x))"
  by (simp add: set_prev_def)

lemma lnext_set_prev [heap_simps, simp]: "lnext (set_prev a v h x) = lnext (h x)"
  by (simp add: set_prev_def)

lemma set_next_other [simp]: "x \<noteq> a \<Longrightarrow> set_next a v h x = h x"
  by (simp add: set_next_def)

lemma set_prev_other [simp]: "x \<noteq> a \<Longrightarrow> set_prev a v h x = h x"
  by (simp add: set_prev_def)

definition LIST_POISON1 :: addr where "LIST_POISON1 = 0x100"
definition LIST_POISON2 :: addr where "LIST_POISON2 = 0x200"

subsection \<open>The operations of list.c\<close>

definition INIT_LIST_HEAD :: "addr \<Rightarrow> lheap \<Rightarrow> lheap" where
  "INIT_LIST_HEAD l h = set_prev l l (set_next l l h)"

definition ll_list_add :: "addr \<Rightarrow> addr \<Rightarrow> addr \<Rightarrow> lheap \<Rightarrow> lheap" where
  "ll_list_add new prev nxt h =
     (let h = set_prev nxt new h;
          h = set_next new nxt h;
          h = set_prev new prev h
      in set_next prev new h)"

definition list_add :: "addr \<Rightarrow> addr \<Rightarrow> lheap \<Rightarrow> lheap" where
  "list_add new head h = ll_list_add new head (lnext (h head)) h"

definition list_add_tail :: "addr \<Rightarrow> addr \<Rightarrow> lheap \<Rightarrow> lheap" where
  "list_add_tail new head h = ll_list_add new (lprev (h head)) head h"

definition ll_list_del :: "addr \<Rightarrow> addr \<Rightarrow> lheap \<Rightarrow> lheap" where
  "ll_list_del prev nxt h = set_next prev nxt (set_prev nxt prev h)"

definition ll_list_del_entry :: "addr \<Rightarrow> lheap \<Rightarrow> lheap" where
  "ll_list_del_entry e h = ll_list_del (lprev (h e)) (lnext (h e)) h"

definition list_del :: "addr \<Rightarrow> lheap \<Rightarrow> lheap" where
  "list_del e h =
     (let h = ll_list_del (lprev (h e)) (lnext (h e)) h;
          h = set_next e LIST_POISON1 h
      in set_prev e LIST_POISON2 h)"

definition list_replace :: "addr \<Rightarrow> addr \<Rightarrow> lheap \<Rightarrow> lheap" where
  "list_replace old new h =
     (let h = set_next new (lnext (h old)) h;
          h = set_prev (lnext (h new)) new h;
          h = set_prev new (lprev (h old)) h
      in set_next (lprev (h new)) new h)"

definition list_replace_init :: "addr \<Rightarrow> addr \<Rightarrow> lheap \<Rightarrow> lheap" where
  "list_replace_init old new h = INIT_LIST_HEAD old (list_replace old new h)"

definition list_del_init :: "addr \<Rightarrow> lheap \<Rightarrow> lheap" where
  "list_del_init e h = INIT_LIST_HEAD e (ll_list_del_entry e h)"

definition list_move :: "addr \<Rightarrow> addr \<Rightarrow> lheap \<Rightarrow> lheap" where
  "list_move l head h = list_add l head (ll_list_del_entry l h)"

definition list_move_tail :: "addr \<Rightarrow> addr \<Rightarrow> lheap \<Rightarrow> lheap" where
  "list_move_tail l head h = list_add_tail l head (ll_list_del_entry l h)"

definition list_is_last :: "addr \<Rightarrow> addr \<Rightarrow> lheap \<Rightarrow> bool" where
  "list_is_last l head h \<longleftrightarrow> lnext (h l) = head"

definition list_empty :: "addr \<Rightarrow> lheap \<Rightarrow> bool" where
  "list_empty head h \<longleftrightarrow> lnext (h head) = head"

definition list_empty_careful :: "addr \<Rightarrow> lheap \<Rightarrow> bool" where
  "list_empty_careful head h \<longleftrightarrow>
     (let nxt = lnext (h head) in nxt = head \<and> nxt = lprev (h head))"

definition list_rotate_left :: "addr \<Rightarrow> lheap \<Rightarrow> lheap" where
  "list_rotate_left head h =
     (if \<not> list_empty head h then list_move_tail (lnext (h head)) head h else h)"

definition list_is_singular :: "addr \<Rightarrow> lheap \<Rightarrow> bool" where
  "list_is_singular head h \<longleftrightarrow> \<not> list_empty head h \<and> lnext (h head) = lprev (h head)"

definition ll_list_cut_position :: "addr \<Rightarrow> addr \<Rightarrow> addr \<Rightarrow> lheap \<Rightarrow> lheap" where
  "ll_list_cut_position l head e h =
     (let new_first = lnext (h e);
          h = set_next l (lnext (h head)) h;
          h = set_prev (lnext (h l)) l h;
          h = set_prev l e h;
          h = set_next e l h;
          h = set_next head new_first h
      in set_prev new_first head h)"

definition list_cut_position :: "addr \<Rightarrow> addr \<Rightarrow> addr \<Rightarrow> lheap \<Rightarrow> lheap" where
  "list_cut_position l head e h =
     (if list_empty head h then h
      else if list_is_singular head h \<and> (lnext (h head) \<noteq> e \<and> head \<noteq> e) then h
      else if e = head then INIT_LIST_HEAD l h
      else ll_list_cut_position l head e h)"

definition ll_list_splice :: "addr \<Rightarrow> addr \<Rightarrow> addr \<Rightarrow> lheap \<Rightarrow> lheap" where
  "ll_list_splice l prev nxt h =
     (let first = lnext (h l);
          last = lprev (h l);
          h = set_prev first prev h;
          h = set_next prev first h;
          h = set_next last nxt h
      in set_prev nxt last h)"

definition list_splice :: "addr \<Rightarrow> addr \<Rightarrow> lheap \<Rightarrow> lheap" where
  "list_splice l head h =
     (if \<not> list_empty l h then ll_list_splice l head (lnext (h head)) h else h)"

definition list_splice_tail :: "addr \<Rightarrow> addr \<Rightarrow> lheap \<Rightarrow> lheap" where
  "list_splice_tail l head h =
     (if \<not> list_empty l h then ll_list_splice l (lprev (h head)) head h else h)"

definition list_splice_init :: "addr \<Rightarrow> addr \<Rightarrow> lheap \<Rightarrow> lheap" where
  "list_splice_init l head h =
     (if \<not> list_empty l h then INIT_LIST_HEAD l (ll_list_splice l head (lnext (h head)) h) else h)"

definition list_splice_tail_init :: "addr \<Rightarrow> addr \<Rightarrow> lheap \<Rightarrow> lheap" where
  "list_splice_tail_init l head h =
     (if \<not> list_empty l h then INIT_LIST_HEAD l (ll_list_splice l (lprev (h head)) head h) else h)"

subsection \<open>The representation predicate\<close>

text \<open>
  \<open>dseg h p xs q\<close>: from \<open>p\<close> the \<open>next\<close> pointers lead through \<open>xs\<close> to \<open>q\<close>, and the
  \<open>prev\<close> pointers lead back. It reads \<open>next\<close> at \<open>p # xs\<close> and \<open>prev\<close> at \<open>xs @ [q]\<close>.
\<close>

fun dseg :: "lheap \<Rightarrow> addr \<Rightarrow> addr list \<Rightarrow> addr \<Rightarrow> bool" where
  "dseg h p [] q \<longleftrightarrow> lnext (h p) = q \<and> lprev (h q) = p"
| "dseg h p (x # xs) q \<longleftrightarrow> lnext (h p) = x \<and> lprev (h x) = p \<and> dseg h x xs q"

definition dlist :: "lheap \<Rightarrow> addr \<Rightarrow> addr list \<Rightarrow> bool" where
  "dlist h head xs \<longleftrightarrow> distinct (head # xs) \<and> dseg h head xs head"

lemma dseg_append [simp]: "dseg h p (xs @ x # ys) q \<longleftrightarrow> dseg h p xs x \<and> dseg h x ys q"
  by (induction xs arbitrary: p) auto

lemma dseg_cong:
  assumes "\<And>a. a \<in> set (p # xs) \<Longrightarrow> lnext (h' a) = lnext (h a)"
    and "\<And>a. a \<in> set (xs @ [q]) \<Longrightarrow> lprev (h' a) = lprev (h a)"
  shows "dseg h' p xs q = dseg h p xs q"
  using assms by (induction xs arbitrary: p) auto

lemma dseg_set_next [simp]:
  "a \<noteq> p \<Longrightarrow> a \<notin> set xs \<Longrightarrow> dseg (set_next a v h) p xs q = dseg h p xs q"
  by (rule dseg_cong) auto

lemma dseg_set_prev [simp]:
  "a \<noteq> q \<Longrightarrow> a \<notin> set xs \<Longrightarrow> dseg (set_prev a v h) p xs q = dseg h p xs q"
  by (rule dseg_cong) auto

lemma dseg_nextD: "dseg h p xs q \<Longrightarrow> lnext (h p) = hd (xs @ [q])"
  by (cases xs) auto

lemma dseg_prevD: "dseg h p xs q \<Longrightarrow> lprev (h q) = last (p # xs)"
  by (induction xs arbitrary: p) auto

lemma dseg_functional:
  assumes "dseg h p xs q" and "dseg h p ys q" and "q \<notin> set xs" and "q \<notin> set ys"
  shows "xs = ys"
  using assms
proof (induction xs arbitrary: p ys)
  case Nil
  then show ?case by (cases ys) auto
next
  case (Cons x xs)
  then show ?case by (cases ys) auto
qed

lemma dlist_functional: "dlist h head xs \<Longrightarrow> dlist h head ys \<Longrightarrow> xs = ys"
  by (auto simp: dlist_def intro: dseg_functional)

text \<open>A list depends on the heap at its own addresses only.\<close>

lemma dlist_frame:
  assumes "\<And>a. a \<in> set (head # xs) \<Longrightarrow> h' a = h a"
  shows "dlist h' head xs = dlist h head xs"
proof -
  have "dseg h' head xs head = dseg h head xs head"
    by (rule dseg_cong) (use assms in auto)
  then show ?thesis by (simp add: dlist_def)
qed

lemma dlist_next: "dlist h head xs \<Longrightarrow> lnext (h head) = hd (xs @ [head])"
  by (auto simp: dlist_def dest: dseg_nextD)

lemma dlist_prev: "dlist h head xs \<Longrightarrow> lprev (h head) = last (head # xs)"
  unfolding dlist_def by (blast dest: dseg_prevD)

lemma dlist_entry:
  assumes "dlist h head (ys @ x # zs)"
  shows "lprev (h x) = last (head # ys)" and "lnext (h x) = hd (zs @ [head])"
proof -
  have "dseg h head ys x" "dseg h x zs head"
    using assms by (auto simp: dlist_def)
  then show "lprev (h x) = last (head # ys)" and "lnext (h x) = hd (zs @ [head])"
    by (auto dest: dseg_prevD dseg_nextD)
qed

subsection \<open>Insertion and deletion at a position\<close>

text \<open>
  \<open>list_add\<close> and \<open>list_add_tail\<close> both splice an entry between two neighbours of the
  cycle, and every deletion links the two neighbours of an entry: one lemma for each.
\<close>

lemma dseg_insert:
  assumes "dseg h head ys x" and "dseg h x zs q" and "new \<notin> set (head # ys @ x # zs @ [q])"
    and "distinct (head # ys @ x # zs)" and "q \<notin> set (ys @ x # zs)"
  shows "dseg (ll_list_add new x (hd (zs @ [q])) h) head (ys @ x # new # zs) q"
  using assms by (cases zs) (auto simp: ll_list_add_def Let_def)

lemma dlist_insert:
  assumes "dlist h head (ys @ zs)" and "new \<notin> set (head # ys @ zs)"
  shows "dlist (ll_list_add new (last (head # ys)) (hd (zs @ [head])) h) head (ys @ new # zs)"
proof (cases ys rule: rev_cases)
  case Nil
  with assms show ?thesis
    by (cases zs) (auto simp: dlist_def ll_list_add_def Let_def)
next
  case (snoc ys' y)
  then have "dseg (ll_list_add new y (hd (zs @ [head])) h) head (ys' @ y # new # zs) head"
    using assms by (intro dseg_insert) (auto simp: dlist_def)
  with snoc assms show ?thesis by (auto simp: dlist_def)
qed

lemma dlist_delete:
  assumes "dlist h head (ys @ x # zs)"
  shows "dlist (ll_list_del (lprev (h x)) (lnext (h x)) h) head (ys @ zs)"
proof (cases ys rule: rev_cases)
  case Nil
  with assms show ?thesis
    by (cases zs) (auto simp: dlist_def ll_list_del_def)
next
  case (snoc ys' y)
  with assms show ?thesis
    by (cases zs) (auto simp: dlist_def ll_list_del_def)
qed

lemma dlist_set_outside:
  assumes "a \<notin> set (head # xs)"
  shows "dlist (set_next a v h) head xs = dlist h head xs"
    and "dlist (set_prev a v h) head xs = dlist h head xs"
  using assms by (auto simp: dlist_def)

lemma dlist_INIT_outside:
  "a \<notin> set (head # xs) \<Longrightarrow> dlist (INIT_LIST_HEAD a h) head xs = dlist h head xs"
  by (auto simp: dlist_def INIT_LIST_HEAD_def)

subsection \<open>The public operations refine operations on lists\<close>

lemma dlist_INIT: "dlist (INIT_LIST_HEAD l h) l []"
  by (simp add: dlist_def INIT_LIST_HEAD_def)

lemma dlist_list_add:
  "dlist h head xs \<Longrightarrow> new \<notin> set (head # xs) \<Longrightarrow> dlist (list_add new head h) head (new # xs)"
  using dlist_insert [of h head "[]" xs new] by (simp add: list_add_def dlist_next)

lemma dlist_list_add_tail:
  "dlist h head xs \<Longrightarrow> new \<notin> set (head # xs) \<Longrightarrow> dlist (list_add_tail new head h) head (xs @ [new])"
  using dlist_insert [of h head xs "[]" new] dlist_prev [of h head xs]
  by (simp add: list_add_tail_def)

lemma dlist_del_entry:
  "dlist h head (ys @ x # zs) \<Longrightarrow> dlist (ll_list_del_entry x h) head (ys @ zs)"
  unfolding ll_list_del_entry_def by (rule dlist_delete)

lemma dlist_list_del:
  assumes "dlist h head (ys @ x # zs)"
  shows "dlist (list_del x h) head (ys @ zs)"
proof -
  have "x \<notin> set (head # ys @ zs)" using assms by (auto simp: dlist_def)
  then show ?thesis
    using dlist_delete [OF assms] by (simp add: list_del_def Let_def dlist_set_outside)
qed

lemma dlist_list_del_init:
  assumes "dlist h head (ys @ x # zs)"
  shows "dlist (list_del_init x h) head (ys @ zs)" and "dlist (list_del_init x h) x []"
proof -
  have "x \<notin> set (head # ys @ zs)" using assms by (auto simp: dlist_def)
  then show "dlist (list_del_init x h) head (ys @ zs)"
    using dlist_del_entry [OF assms] by (simp add: list_del_init_def dlist_INIT_outside)
  show "dlist (list_del_init x h) x []" by (simp add: list_del_init_def dlist_INIT)
qed

lemma dlist_list_empty: "dlist h head xs \<Longrightarrow> list_empty head h \<longleftrightarrow> xs = []"
  by (cases xs) (auto simp: dlist_def list_empty_def)

lemma dlist_list_empty_careful: "dlist h head xs \<Longrightarrow> list_empty_careful head h \<longleftrightarrow> xs = []"
  by (cases xs) (auto simp: dlist_def list_empty_careful_def Let_def)

lemma dlist_list_is_last:
  assumes "dlist h head xs" and "x \<in> set xs"
  shows "list_is_last x head h \<longleftrightarrow> x = last xs"
proof -
  from assms(2) obtain ys zs where xs: "xs = ys @ x # zs" by (blast dest: split_at_member)
  have "head \<noteq> hd zs" "x \<noteq> last zs" if "zs \<noteq> []"
    using assms(1) that hd_in_set [OF that] last_in_set [OF that] unfolding xs by (auto simp: dlist_def)
  with dlist_entry(2) [OF assms(1) [unfolded xs]] xs show ?thesis
    by (cases zs) (auto simp: list_is_last_def)
qed

lemma dlist_list_is_singular:
  assumes "dlist h head xs"
  shows "list_is_singular head h \<longleftrightarrow> length xs = 1"
proof (cases xs)
  case Nil
  with assms show ?thesis by (simp add: list_is_singular_def dlist_list_empty)
next
  case (Cons x xs')
  have "lprev (h head) = last xs'" if "xs' \<noteq> []"
    using dlist_prev [OF assms] Cons that by simp
  moreover have "x \<noteq> last xs'" if "xs' \<noteq> []"
    using assms Cons last_in_set [OF that] by (auto simp: dlist_def)
  moreover have "lnext (h head) = x" using assms Cons by (simp add: dlist_def)
  moreover have "lprev (h head) = x" if "xs' = []"
    using dlist_prev [OF assms] Cons that by simp
  ultimately show ?thesis
    using assms Cons by (cases "xs' = []") (simp_all add: list_is_singular_def dlist_list_empty)
qed

lemma dlist_list_move:
  assumes "dlist h head (ys @ x # zs)"
  shows "dlist (list_move x head h) head (x # ys @ zs)"
  unfolding list_move_def
  by (rule dlist_list_add [OF dlist_del_entry [OF assms]]) (use assms in \<open>auto simp: dlist_def\<close>)

lemma dlist_list_move_tail:
  assumes "dlist h head (ys @ x # zs)"
  shows "dlist (list_move_tail x head h) head (ys @ zs @ [x])"
  using dlist_list_add_tail [OF dlist_del_entry [OF assms], of x] assms
  by (auto simp: dlist_def list_move_tail_def)

lemma dlist_list_rotate_left:
  assumes "dlist h head xs"
  shows "dlist (list_rotate_left head h) head (rotate1 xs)"
proof (cases xs)
  case Nil
  with assms show ?thesis by (simp add: list_rotate_left_def dlist_list_empty)
next
  case (Cons x xs')
  with assms have "lnext (h head) = x" by (simp add: dlist_def)
  with dlist_list_move_tail [of h head "[]" x xs'] assms Cons show ?thesis
    by (simp add: list_rotate_left_def dlist_list_empty)
qed

subsection \<open>Replacing, cutting and splicing\<close>

lemma list_replace_eq:
  assumes "lnext (h old) \<noteq> new" and "lprev (h old) \<noteq> new" and "old \<noteq> new" "old \<noteq> lnext (h old)"
  shows "list_replace old new h =
    set_next (lprev (h old)) new (set_prev new (lprev (h old))
      (set_prev (lnext (h old)) new (set_next new (lnext (h old)) h)))"
  using assms by (simp add: list_replace_def Let_def)

lemma dlist_list_replace:
  assumes dl: "dlist h head (ys @ old # zs)" and new: "new \<notin> set (head # ys @ old # zs)"
  shows "dlist (list_replace old new h) head (ys @ new # zs)"
proof -
  obtain p n where p: "p = last (head # ys)" and n: "n = hd (zs @ [head])" by simp
  have e: "lprev (h old) = p" "lnext (h old) = n"
    using dlist_entry [OF dl] p n by auto
  have seg: "dseg h head ys old" "dseg h old zs head" and dist: "distinct (head # ys @ old # zs)"
    using dl by (auto simp: dlist_def)
  have nmem: "n \<notin> set (new # old # ys)" and pmem: "p \<notin> set (new # old # zs)"
    using dist new p n by (cases zs; cases ys rule: rev_cases; auto)+
  have eq: "list_replace old new h = set_next p new (set_prev new p (set_prev n new (set_next new n h)))"
    using nmem pmem new e by (subst list_replace_eq) auto
  have "dseg (list_replace old new h) head ys new"
    using seg(1) dist new nmem p by (cases ys rule: rev_cases) (auto simp: eq)
  moreover have "dseg (list_replace old new h) new zs head"
    using seg(2) dist new pmem n by (cases zs) (auto simp: eq)
  ultimately show ?thesis using dist new by (auto simp: dlist_def)
qed

lemma dlist_list_replace_head:
  assumes "dlist h old xs" and "new \<notin> set (old # xs)" and "xs \<noteq> []"
  shows "dlist (list_replace old new h) new xs"
proof -
  obtain x xs' where xs: "xs = x # xs'" using assms(3) by (cases xs) auto
  show ?thesis
    using assms by (cases xs' rule: rev_cases) (auto simp: xs dlist_def list_replace_def Let_def)
qed

lemma dlist_list_replace_init:
  assumes "dlist h head (ys @ old # zs)" and "new \<notin> set (head # ys @ old # zs)"
  shows "dlist (list_replace_init old new h) head (ys @ new # zs)"
    and "dlist (list_replace_init old new h) old []"
proof -
  have "old \<notin> set (head # ys @ new # zs)" using assms by (auto simp: dlist_def)
  then show "dlist (list_replace_init old new h) head (ys @ new # zs)"
    using dlist_list_replace [OF assms] by (simp add: list_replace_init_def dlist_INIT_outside)
  show "dlist (list_replace_init old new h) old []"
    by (simp add: list_replace_init_def dlist_INIT)
qed

lemma dlist_cut_raw:
  assumes dl: "dlist h head (ys @ e # zs)" and l: "l \<notin> set (head # ys @ e # zs)"
  shows "dlist (ll_list_cut_position l head e h) l (ys @ [e])"
    and "dlist (ll_list_cut_position l head e h) head zs"
proof -
  obtain x xs where x: "ys @ [e] = x # xs" by (cases "ys @ [e]") auto
  obtain z where z: "z = hd (zs @ [head])" by simp
  have seg: "dseg h head ys e" "dseg h e zs head" and dist: "distinct (head # l # ys @ e # zs)"
    using dl l by (auto simp: dlist_def)
  have nx: "lnext (h head) = x" "lnext (h e) = z"
    using dseg_nextD [OF seg(1)] dseg_nextD [OF seg(2)] x z by auto
  have zmem: "z \<noteq> l" "z \<notin> set (ys @ [e])"
    using dist z by (cases zs; auto)+
  have "x \<in> set (ys @ [e])" using x by (metis list.set_intros(1))
  with dist have xmem: "x \<notin> set (head # l # zs)" by auto
  show "dlist (ll_list_cut_position l head e h) l (ys @ [e])"
    using seg(1) nx dist zmem x
    by (cases ys) (auto simp: dlist_def ll_list_cut_position_def Let_def)
  show "dlist (ll_list_cut_position l head e h) head zs"
    using seg(2) nx dist zmem z xmem
    by (cases zs) (auto simp: dlist_def ll_list_cut_position_def Let_def)
qed

lemma dlist_list_cut_position:
  assumes "dlist h head (ys @ e # zs)" and "l \<notin> set (head # ys @ e # zs)"
  shows "dlist (list_cut_position l head e h) l (ys @ [e])"
    and "dlist (list_cut_position l head e h) head zs"
proof -
  have "\<not> list_empty head h" using assms(1) by (simp add: dlist_list_empty)
  moreover have "\<not> (list_is_singular head h \<and> (lnext (h head) \<noteq> e \<and> head \<noteq> e))"
    using assms(1) dlist_next [OF assms(1)] by (auto simp: dlist_list_is_singular)
  moreover have "e \<noteq> head" using assms(1) by (auto simp: dlist_def)
  ultimately have "list_cut_position l head e h = ll_list_cut_position l head e h"
    by (auto simp: list_cut_position_def)
  with dlist_cut_raw [OF assms] show "dlist (list_cut_position l head e h) l (ys @ [e])"
    and "dlist (list_cut_position l head e h) head zs" by simp_all
qed

text \<open>Redirecting the end of a segment.\<close>

lemma dseg_retarget_end:
  assumes "dseg h p xs l" and "distinct (p # xs)" and "q \<notin> set (p # xs)"
  shows "dseg (set_prev q (last (p # xs)) (set_next (last (p # xs)) q h)) p xs q"
  using assms by (cases xs rule: rev_cases) auto

text \<open>Splicing the non-empty list at \<open>l\<close> between two neighbours of the list at \<open>head\<close>.\<close>

lemma dlist_splice_raw:
  assumes l: "dlist h l xs" and "xs \<noteq> []" and dl: "dlist h head (ys @ zs)"
    and disj: "set (l # xs) \<inter> set (head # ys @ zs) = {}"
  shows "dlist (ll_list_splice l (last (head # ys)) (hd (zs @ [head])) h) head (ys @ xs @ zs)"
proof -
  obtain x xs' where xs: "xs = x # xs'" using assms(2) by (cases xs) auto
  obtain p q w where p: "p = last (head # ys)" and q: "q = hd (zs @ [head])" and w: "w = last xs"
    by simp
  define h1 where "h1 = set_next p x (set_prev x p h)"
  define h2 where "h2 = set_prev q w (set_next w q h1)"
  have h2: "ll_list_splice l p q h = h2"
    using dlist_next [OF l] dlist_prev [OF l] xs w
    by (simp add: ll_list_splice_def Let_def h1_def h2_def)
  have pqw: "p \<in> set (head # ys)" "q \<in> set (zs @ [head])" "w \<in> set xs"
    using p q w xs by (cases zs; auto)+
  have dist: "distinct (head # ys @ zs)" "distinct (l # xs)"
    using dl l by (auto simp: dlist_def)
  have mem: "p \<notin> set xs" "q \<notin> set xs" "w \<notin> set (head # ys @ zs)"
    "x \<notin> set (head # ys @ zs)" "p \<notin> set zs" "q \<notin> set ys"
    using disj dist pqw xs by auto
  have "dseg h head ys (hd (zs @ [head]))"
    using dl by (cases zs) (auto simp: dlist_def)
  then have "dseg h1 head ys x"
    using mem dl p by (cases ys rule: rev_cases) (auto simp: h1_def dlist_def)
  then have a: "dseg h2 head ys x"
    using mem xs by (auto simp: h2_def)
  have "dseg h x xs' l" using l xs by (simp add: dlist_def)
  moreover have "p \<notin> set (x # xs')" "x \<notin> set (l # xs')" using mem dist xs by auto
  ultimately have "dseg h1 x xs' l" by (simp add: h1_def)
  then have b: "dseg h2 x xs' q"
    using dseg_retarget_end [of h1 x xs' l q] dist mem w xs by (simp add: h2_def)
  have "zs \<noteq> [] \<Longrightarrow> dseg h2 q (tl zs) head"
    using dl mem xs q by (cases zs) (auto simp: h2_def h1_def dlist_def)
  with a b xs q have "dseg h2 head (ys @ xs @ zs) head"
    by (cases zs) auto
  moreover have "distinct (head # ys @ xs @ zs)" using dist disj by auto
  ultimately have "dlist h2 head (ys @ xs @ zs)" by (simp add: dlist_def)
  then show ?thesis by (simp only: h2 p [symmetric] q [symmetric])
qed

lemma ll_list_splice_untouched:
  assumes "a \<notin> set (l # xs)" and "dlist h l xs" and "xs \<noteq> []" "a \<noteq> p" "a \<noteq> q"
  shows "ll_list_splice l p q h a = h a"
proof -
  obtain x xs' where xs: "xs = x # xs'" using assms(3) by (cases xs) auto
  have "lnext (h l) = hd xs" "lprev (h l) = last xs"
    using dlist_next [OF assms(2)] dlist_prev [OF assms(2)] assms(3) by auto
  moreover have "a \<noteq> hd xs" "a \<noteq> last xs" using assms(1,3) by auto
  ultimately show ?thesis using assms(4,5) by (simp add: ll_list_splice_def Let_def)
qed

lemma dlist_list_splice:
  assumes "dlist h l xs" and "dlist h head ys" and "set (l # xs) \<inter> set (head # ys) = {}"
  shows "dlist (list_splice l head h) head (xs @ ys)"
proof (cases "xs = []")
  case True
  with assms show ?thesis by (simp add: list_splice_def dlist_list_empty)
next
  case False
  with dlist_splice_raw [of h l xs head "[]" ys] assms show ?thesis
    by (simp add: list_splice_def dlist_list_empty dlist_next)
qed

lemma dlist_list_splice_tail:
  assumes "dlist h l xs" and "dlist h head ys" and "set (l # xs) \<inter> set (head # ys) = {}"
  shows "dlist (list_splice_tail l head h) head (ys @ xs)"
proof (cases "xs = []")
  case True
  with assms show ?thesis by (simp add: list_splice_tail_def dlist_list_empty)
next
  case False
  with dlist_splice_raw [of h l xs head ys "[]"] dlist_prev [OF assms(2)] assms show ?thesis
    by (simp add: list_splice_tail_def dlist_list_empty)
qed

lemma dlist_list_splice_init:
  assumes "dlist h l xs" and "dlist h head ys" and "set (l # xs) \<inter> set (head # ys) = {}"
  shows "dlist (list_splice_init l head h) head (xs @ ys)"
    and "dlist (list_splice_init l head h) l []"
proof -
  have out: "l \<notin> set (head # xs @ ys)" using assms by (auto simp: dlist_def)
  have eq: "list_splice_init l head h =
      (if xs = [] then h else INIT_LIST_HEAD l (list_splice l head h))"
    using assms(1) by (simp add: list_splice_init_def list_splice_def dlist_list_empty)
  show "dlist (list_splice_init l head h) head (xs @ ys)"
    using dlist_list_splice [OF assms] out assms(2) by (simp add: eq dlist_INIT_outside)
  show "dlist (list_splice_init l head h) l []"
    using assms(1) by (auto simp: eq dlist_INIT)
qed

lemma dlist_list_splice_tail_init:
  assumes "dlist h l xs" and "dlist h head ys" and "set (l # xs) \<inter> set (head # ys) = {}"
  shows "dlist (list_splice_tail_init l head h) head (ys @ xs)"
    and "dlist (list_splice_tail_init l head h) l []"
proof -
  have out: "l \<notin> set (head # ys @ xs)" using assms by (auto simp: dlist_def)
  have eq: "list_splice_tail_init l head h =
      (if xs = [] then h else INIT_LIST_HEAD l (list_splice_tail l head h))"
    using assms(1) by (simp add: list_splice_tail_init_def list_splice_tail_def dlist_list_empty)
  show "dlist (list_splice_tail_init l head h) head (ys @ xs)"
    using dlist_list_splice_tail [OF assms] out assms(2) by (simp add: eq dlist_INIT_outside)
  show "dlist (list_splice_tail_init l head h) l []"
    using assms(1) by (auto simp: eq dlist_INIT)
qed

subsection \<open>What the operations leave alone\<close>

text \<open>
  The addresses an operation may write: the entry itself, the head and the members of the
  list. A list that is disjoint from them keeps its representation (\<open>dlist_frame\<close>).
\<close>

lemma list_add_tail_frame:
  assumes "dlist h head xs" and "a \<notin> set (head # xs)" and "a \<noteq> new"
  shows "list_add_tail new head h a = h a"
proof -
  have "a \<noteq> lprev (h head)"
    using dlist_prev [OF assms(1)] assms(2) by (cases xs) auto
  with assms show ?thesis by (simp add: list_add_tail_def ll_list_add_def Let_def)
qed

lemma list_del_frame:
  assumes "dlist h head xs" and "x \<in> set xs" and "a \<notin> set (head # xs)"
  shows "list_del x h a = h a"
proof -
  from assms(2) obtain ys zs where xs: "xs = ys @ x # zs" by (blast dest: split_at_member)
  note e = dlist_entry [OF assms(1) [unfolded xs]]
  have "a \<noteq> last (head # ys)" "a \<noteq> hd (zs @ [head])"
    using assms(3) xs by (cases ys rule: rev_cases; cases zs; auto)+
  with assms(3) xs e show ?thesis by (simp add: list_del_def ll_list_del_def Let_def)
qed

lemma list_del_poisons:
  assumes "dlist h head (ys @ x # zs)"
  shows "lnext (list_del x h x) = LIST_POISON1" and "lprev (list_del x h x) = LIST_POISON2"
  by (simp_all add: list_del_def Let_def)

subsection \<open>The interface the clients use\<close>

text \<open>
  A queue of intrusive nodes: what the session pool needs of the list. Queues at different
  heads live in one heap, so the laws say what an operation leaves alone.
\<close>

locale intrusive_queue =
  fixes rep :: "'h \<Rightarrow> addr \<Rightarrow> addr list \<Rightarrow> bool"
    and enq :: "addr \<Rightarrow> addr \<Rightarrow> 'h \<Rightarrow> 'h"
    and del :: "addr \<Rightarrow> 'h \<Rightarrow> 'h"
    and is_empty :: "addr \<Rightarrow> 'h \<Rightarrow> bool"
    and first :: "addr \<Rightarrow> 'h \<Rightarrow> addr"
  assumes rep_distinct: "rep h q xs \<Longrightarrow> distinct (q # xs)"
    and enq_rep: "rep h q xs \<Longrightarrow> x \<notin> set (q # xs) \<Longrightarrow> rep (enq x q h) q (xs @ [x])"
    and del_rep: "rep h q (ys @ x # zs) \<Longrightarrow> rep (del x h) q (ys @ zs)"
    and empty_rep: "rep h q xs \<Longrightarrow> is_empty q h \<longleftrightarrow> xs = []"
    and first_rep: "rep h q (x # xs) \<Longrightarrow> first q h = x"
    and enq_other: "rep h q xs \<Longrightarrow> rep h r ys \<Longrightarrow> set (q # xs) \<inter> set (r # ys) = {} \<Longrightarrow>
      x \<notin> set (r # ys) \<Longrightarrow> rep (enq x q h) r ys"
    and del_other: "rep h q xs \<Longrightarrow> rep h r ys \<Longrightarrow> set (q # xs) \<inter> set (r # ys) = {} \<Longrightarrow>
      x \<in> set xs \<Longrightarrow> rep (del x h) r ys"
begin

lemma enq_all:
  "rep h q xs \<Longrightarrow> distinct ns \<Longrightarrow> set ns \<inter> set (q # xs) = {} \<Longrightarrow>
   rep (fold (\<lambda>x. enq x q) ns h) q (xs @ ns)"
proof (induction ns arbitrary: h xs)
  case (Cons n ns)
  have "rep (enq n q h) q (xs @ [n])" using Cons.prems by (intro enq_rep) auto
  then have "rep (fold (\<lambda>x. enq x q) ns (enq n q h)) q ((xs @ [n]) @ ns)"
    using Cons.prems by (intro Cons.IH) auto
  then show ?case by simp
qed simp

lemma enq_all_other:
  assumes "rep h q xs" and "rep h r ys" and "distinct ns" and "set ns \<inter> set (q # xs) = {}"
    and "set (q # xs @ ns) \<inter> set (r # ys) = {}"
  shows "rep (fold (\<lambda>x. enq x q) ns h) r ys"
  using assms
proof (induction ns arbitrary: h xs)
  case (Cons n ns)
  have "rep (enq n q h) q (xs @ [n])" using Cons.prems by (intro enq_rep) auto
  moreover have "rep (enq n q h) r ys" using Cons.prems by (intro enq_other [of h q xs]) auto
  ultimately show ?case using Cons.IH [of "enq n q h" "xs @ [n]"] Cons.prems by auto
qed simp

lemma take_first:
  assumes "rep h q (x # xs)"
  shows "first q h = x" and "rep (del x h) q xs"
  using first_rep [OF assms] del_rep [of h q "[]" x xs] assms by simp_all

end

definition list_first :: "addr \<Rightarrow> lheap \<Rightarrow> addr" where
  "list_first head h = lnext (h head)"

interpretation kl: intrusive_queue dlist list_add_tail list_del list_empty list_first
proof
  show "distinct (q # xs)" if "dlist h q xs" for h q xs using that by (simp add: dlist_def)
  show "dlist (list_add_tail x q h) q (xs @ [x])" if "dlist h q xs" "x \<notin> set (q # xs)" for h q xs x
    using that by (rule dlist_list_add_tail)
  show "dlist (list_del x h) q (ys @ zs)" if "dlist h q (ys @ x # zs)" for h q ys x zs
    using that by (rule dlist_list_del)
  show "list_empty q h \<longleftrightarrow> xs = []" if "dlist h q xs" for h q xs
    using that by (rule dlist_list_empty)
  show "list_first q h = x" if "dlist h q (x # xs)" for h q x xs
    using dlist_next [OF that] by (simp add: list_first_def)
  show "dlist (list_add_tail x q h) r ys"
    if "dlist h q xs" "dlist h r ys" "set (q # xs) \<inter> set (r # ys) = {}" "x \<notin> set (r # ys)" for h q xs r ys x
  proof -
    have "list_add_tail x q h a = h a" if "a \<in> set (r # ys)" for a
      using \<open>dlist h q xs\<close> \<open>set (q # xs) \<inter> set (r # ys) = {}\<close> \<open>x \<notin> set (r # ys)\<close> that
      by (intro list_add_tail_frame) auto
    then show ?thesis using dlist_frame [of r ys "list_add_tail x q h" h] that(2) by blast
  qed
  show "dlist (list_del x h) r ys"
    if "dlist h q xs" "dlist h r ys" "set (q # xs) \<inter> set (r # ys) = {}" "x \<in> set xs" for h q xs r ys x
  proof -
    have "list_del x h a = h a" if "a \<in> set (r # ys)" for a
      using \<open>dlist h q xs\<close> \<open>set (q # xs) \<inter> set (r # ys) = {}\<close> \<open>x \<in> set xs\<close> that
      by (intro list_del_frame) auto
    then show ?thesis using dlist_frame [of r ys "list_del x h" h] that(2) by blast
  qed
qed

end
