(* ===== verification/Rbtree.thy ===== *)
theory Rbtree
  imports Prelude
begin

text \<open>
  The Linux red-black tree of \<open>src/rbtree.h\<close> and \<open>src/rbtree.c\<close>: the node structure with
  its packed parent-and-colour word, the macros that read and write it, and every function
  of the file, translated pointer write by pointer write. The loops are
  \<open>partial_function (option)\<close>: \<open>None\<close> means that the loop does not end, which
  RbInsert and RbErase exclude for every well-formed tree.
\<close>

record rb_node =
  rb_parent_color :: "64 word"
  rb_right :: addr
  rb_left :: addr

text \<open>The nodes in memory and the root pointer \<open>root->rb_node\<close> of the one tree at hand.\<close>

record rbst =
  rbn :: "addr \<Rightarrow> rb_node"
  rb_root :: addr

subsection \<open>Field writes\<close>

definition set_pc :: "addr \<Rightarrow> 64 word \<Rightarrow> rbst \<Rightarrow> rbst" where
  "set_pc n v s = s\<lparr>rbn := (rbn s)(n := (rbn s n)\<lparr>rb_parent_color := v\<rparr>)\<rparr>"

definition set_left :: "addr \<Rightarrow> addr \<Rightarrow> rbst \<Rightarrow> rbst" where
  "set_left n v s = s\<lparr>rbn := (rbn s)(n := (rbn s n)\<lparr>rb_left := v\<rparr>)\<rparr>"

definition set_right :: "addr \<Rightarrow> addr \<Rightarrow> rbst \<Rightarrow> rbst" where
  "set_right n v s = s\<lparr>rbn := (rbn s)(n := (rbn s n)\<lparr>rb_right := v\<rparr>)\<rparr>"

definition left_of :: "addr \<Rightarrow> rbst \<Rightarrow> addr" where
  "left_of n s = rb_left (rbn s n)"

definition right_of :: "addr \<Rightarrow> rbst \<Rightarrow> addr" where
  "right_of n s = rb_right (rbn s n)"

subsection \<open>The macros of rbtree.h\<close>

definition RB_RED :: "64 word" where "RB_RED = 0"
definition RB_BLACK :: "64 word" where "RB_BLACK = 1"

definition rb_parent :: "addr \<Rightarrow> rbst \<Rightarrow> addr" where
  "rb_parent r s = rb_parent_color (rbn s r) AND NOT 3"

definition rb_color :: "addr \<Rightarrow> rbst \<Rightarrow> 64 word" where
  "rb_color r s = rb_parent_color (rbn s r) AND 1"

definition rb_is_red :: "addr \<Rightarrow> rbst \<Rightarrow> bool" where
  "rb_is_red r s \<longleftrightarrow> rb_color r s = 0"

definition rb_is_black :: "addr \<Rightarrow> rbst \<Rightarrow> bool" where
  "rb_is_black r s \<longleftrightarrow> rb_color r s \<noteq> 0"

definition rb_set_red :: "addr \<Rightarrow> rbst \<Rightarrow> rbst" where
  "rb_set_red r s = set_pc r (rb_parent_color (rbn s r) AND NOT 1) s"

definition rb_set_black :: "addr \<Rightarrow> rbst \<Rightarrow> rbst" where
  "rb_set_black r s = set_pc r (rb_parent_color (rbn s r) OR 1) s"

definition RB_EMPTY_ROOT :: "rbst \<Rightarrow> bool" where
  "RB_EMPTY_ROOT s \<longleftrightarrow> rb_root s = NULL"

definition RB_EMPTY_NODE :: "addr \<Rightarrow> rbst \<Rightarrow> bool" where
  "RB_EMPTY_NODE n s \<longleftrightarrow> rb_parent n s = n"

subsection \<open>Parent, colour and rotations\<close>

definition rb_set_parent :: "addr \<Rightarrow> addr \<Rightarrow> rbst \<Rightarrow> rbst" where
  "rb_set_parent rb p s = set_pc rb ((rb_parent_color (rbn s rb) AND 3) OR p) s"

definition rb_set_color :: "addr \<Rightarrow> 64 word \<Rightarrow> rbst \<Rightarrow> rbst" where
  "rb_set_color rb color s = set_pc rb ((rb_parent_color (rbn s rb) AND NOT 1) OR color) s"

definition RB_CLEAR_NODE :: "addr \<Rightarrow> rbst \<Rightarrow> rbst" where
  "RB_CLEAR_NODE n s = rb_set_parent n n s"

definition rb_rotate_left :: "addr \<Rightarrow> rbst \<Rightarrow> rbst" where
  "rb_rotate_left node s =
     (let right = right_of node s;
          parent = rb_parent node s;
          s = set_right node (left_of right s) s;
          s = (if right_of node s \<noteq> NULL then rb_set_parent (left_of right s) node s else s);
          s = set_left right node s;
          s = rb_set_parent right parent s;
          s = (if parent \<noteq> NULL
               then (if node = left_of parent s then set_left parent right s
                     else set_right parent right s)
               else s\<lparr>rb_root := right\<rparr>)
      in rb_set_parent node right s)"

definition rb_rotate_right :: "addr \<Rightarrow> rbst \<Rightarrow> rbst" where
  "rb_rotate_right node s =
     (let left = left_of node s;
          parent = rb_parent node s;
          s = set_left node (right_of left s) s;
          s = (if left_of node s \<noteq> NULL then rb_set_parent (right_of left s) node s else s);
          s = set_right left node s;
          s = rb_set_parent left parent s;
          s = (if parent \<noteq> NULL
               then (if node = right_of parent s then set_right parent left s
                     else set_left parent left s)
               else s\<lparr>rb_root := left\<rparr>)
      in rb_set_parent node left s)"

subsection \<open>Insertion\<close>

text \<open>
  A \<open>struct rb_node **\<close> is the address of a child field or of the root pointer.
\<close>

datatype rb_link = RootLink | LeftLink addr | RightLink addr

fun read_link :: "rb_link \<Rightarrow> rbst \<Rightarrow> addr" where
  "read_link RootLink s = rb_root s"
| "read_link (LeftLink a) s = left_of a s"
| "read_link (RightLink a) s = right_of a s"

fun write_link :: "rb_link \<Rightarrow> addr \<Rightarrow> rbst \<Rightarrow> rbst" where
  "write_link RootLink v s = s\<lparr>rb_root := v\<rparr>"
| "write_link (LeftLink a) v s = set_left a v s"
| "write_link (RightLink a) v s = set_right a v s"

definition rb_link_node :: "addr \<Rightarrow> addr \<Rightarrow> rb_link \<Rightarrow> rbst \<Rightarrow> rbst" where
  "rb_link_node node parent rb_link s =
     (let s = set_pc node parent s;
          s = set_right node NULL s;
          s = set_left node NULL s
      in write_link rb_link node s)"

partial_function (option) rb_insert_color :: "addr \<Rightarrow> rbst \<Rightarrow> rbst option" where
  "rb_insert_color node s =
     (let parent = rb_parent node s in
      if parent \<noteq> NULL \<and> rb_is_red parent s then
        (let gparent = rb_parent parent s in
         if parent = left_of gparent s then
           (let uncle = right_of gparent s in
            if uncle \<noteq> NULL \<and> rb_is_red uncle s then
              (let s = rb_set_black uncle s;
                   s = rb_set_black parent s;
                   s = rb_set_red gparent s
               in rb_insert_color gparent s)
            else
              (let (node, parent, s) =
                     (if right_of parent s = node then (parent, node, rb_rotate_left parent s)
                      else (node, parent, s));
                   s = rb_set_black parent s;
                   s = rb_set_red gparent s;
                   s = rb_rotate_right gparent s
               in rb_insert_color node s))
         else
           (let uncle = left_of gparent s in
            if uncle \<noteq> NULL \<and> rb_is_red uncle s then
              (let s = rb_set_black uncle s;
                   s = rb_set_black parent s;
                   s = rb_set_red gparent s
               in rb_insert_color gparent s)
            else
              (let (node, parent, s) =
                     (if left_of parent s = node then (parent, node, rb_rotate_right parent s)
                      else (node, parent, s));
                   s = rb_set_black parent s;
                   s = rb_set_red gparent s;
                   s = rb_rotate_left gparent s
               in rb_insert_color node s)))
      else Some (rb_set_black (rb_root s) s))"

subsection \<open>Removal\<close>

text \<open>The two tests of \<open>__rb_erase_color\<close> on a possibly missing node.\<close>

definition rb_black_or_null :: "addr \<Rightarrow> rbst \<Rightarrow> bool" where
  "rb_black_or_null n s \<longleftrightarrow> n = NULL \<or> rb_is_black n s"

definition rb_erase_left_final :: "addr \<Rightarrow> addr \<Rightarrow> rbst \<Rightarrow> rbst" where
  \<comment> \<open>the last branch of the loop body when the node is a left child, up to the \<open>break\<close>\<close>
  "rb_erase_left_final parent other s =
     (let (other, s) =
            (if rb_black_or_null (right_of other s) s then
               (let s = rb_set_black (left_of other s) s;
                    s = rb_set_red other s;
                    s = rb_rotate_right other s
                in (right_of parent s, s))
             else (other, s));
          s = rb_set_color other (rb_color parent s) s;
          s = rb_set_black parent s;
          s = rb_set_black (right_of other s) s
      in rb_rotate_left parent s)"

definition rb_erase_right_final :: "addr \<Rightarrow> addr \<Rightarrow> rbst \<Rightarrow> rbst" where
  "rb_erase_right_final parent other s =
     (let (other, s) =
            (if rb_black_or_null (left_of other s) s then
               (let s = rb_set_black (right_of other s) s;
                    s = rb_set_red other s;
                    s = rb_rotate_left other s
                in (left_of parent s, s))
             else (other, s));
          s = rb_set_color other (rb_color parent s) s;
          s = rb_set_black parent s;
          s = rb_set_black (left_of other s) s
      in rb_rotate_right parent s)"

partial_function (option) rb_erase_color :: "addr \<Rightarrow> addr \<Rightarrow> rbst \<Rightarrow> rbst option" where
  "rb_erase_color node parent s =
     (if rb_black_or_null node s \<and> node \<noteq> rb_root s then
        (if left_of parent s = node then
           (let other = right_of parent s;
                (other, s) =
                  (if rb_is_red other s then
                     (let s = rb_set_black other s;
                          s = rb_set_red parent s;
                          s = rb_rotate_left parent s
                      in (right_of parent s, s))
                   else (other, s))
            in if rb_black_or_null (left_of other s) s \<and> rb_black_or_null (right_of other s) s then
                 (let s = rb_set_red other s
                  in rb_erase_color parent (rb_parent parent s) s)
               else
                 (let s = rb_erase_left_final parent other s
                  in Some (if rb_root s \<noteq> NULL then rb_set_black (rb_root s) s else s)))
         else
           (let other = left_of parent s;
                (other, s) =
                  (if rb_is_red other s then
                     (let s = rb_set_black other s;
                          s = rb_set_red parent s;
                          s = rb_rotate_right parent s
                      in (left_of parent s, s))
                   else (other, s))
            in if rb_black_or_null (left_of other s) s \<and> rb_black_or_null (right_of other s) s then
                 (let s = rb_set_red other s
                  in rb_erase_color parent (rb_parent parent s) s)
               else
                 (let s = rb_erase_right_final parent other s
                  in Some (if rb_root s \<noteq> NULL then rb_set_black (rb_root s) s else s))))
      else Some (if node \<noteq> NULL then rb_set_black node s else s))"

text \<open>Walking down the left (right) spine: \<open>while (n->rb_left) n = n->rb_left;\<close>\<close>

partial_function (option) rb_leftmost :: "addr \<Rightarrow> rbst \<Rightarrow> addr option" where
  "rb_leftmost n s = (if left_of n s \<noteq> NULL then rb_leftmost (left_of n s) s else Some n)"

partial_function (option) rb_rightmost :: "addr \<Rightarrow> rbst \<Rightarrow> addr option" where
  "rb_rightmost n s = (if right_of n s \<noteq> NULL then rb_rightmost (right_of n s) s else Some n)"

text \<open>The part of \<open>rb_erase\<close> for a node with at most one child.\<close>

definition rb_erase_one :: "addr \<Rightarrow> addr \<Rightarrow> rbst \<Rightarrow> rbst option" where
  "rb_erase_one node child s =
     (let parent = rb_parent node s;
          color = rb_color node s;
          s = (if child \<noteq> NULL then rb_set_parent child parent s else s);
          s = (if parent \<noteq> NULL
               then (if left_of parent s = node then set_left parent child s
                     else set_right parent child s)
               else s\<lparr>rb_root := child\<rparr>)
      in if color = RB_BLACK then rb_erase_color child parent s else Some s)"

text \<open>The part for a node with two children: its successor \<open>node\<close> takes its place.\<close>

definition rb_erase_two :: "addr \<Rightarrow> addr \<Rightarrow> rbst \<Rightarrow> rbst option" where
  "rb_erase_two old node s =
     (let s = (if rb_parent old s \<noteq> NULL
               then (if left_of (rb_parent old s) s = old then set_left (rb_parent old s) node s
                     else set_right (rb_parent old s) node s)
               else s\<lparr>rb_root := node\<rparr>);
          child = right_of node s;
          parent = rb_parent node s;
          color = rb_color node s;
          (parent, s) =
            (if parent = old then (node, s)
             else
               (let s = (if child \<noteq> NULL then rb_set_parent child parent s else s);
                    s = set_left parent child s;
                    s = set_right node (right_of old s) s
                in (parent, rb_set_parent (right_of old s) node s)));
          s = set_pc node (rb_parent_color (rbn s old)) s;
          s = set_left node (left_of old s) s;
          s = rb_set_parent (left_of old s) node s
      in if color = RB_BLACK then rb_erase_color child parent s else Some s)"

definition rb_erase :: "addr \<Rightarrow> rbst \<Rightarrow> rbst option" where
  "rb_erase node s =
     (if left_of node s = NULL then rb_erase_one node (right_of node s) s
      else if right_of node s = NULL then rb_erase_one node (left_of node s) s
      else (case rb_leftmost (right_of node s) s of
              None \<Rightarrow> None
            | Some m \<Rightarrow> rb_erase_two node m s))"

subsection \<open>Traversal and replacement\<close>

definition rb_first :: "rbst \<Rightarrow> addr option" where
  "rb_first s = (let n = rb_root s in if n = NULL then Some NULL else rb_leftmost n s)"

definition rb_last :: "rbst \<Rightarrow> addr option" where
  "rb_last s = (let n = rb_root s in if n = NULL then Some NULL else rb_rightmost n s)"

partial_function (option) rb_climb_right :: "addr \<Rightarrow> rbst \<Rightarrow> addr option" where
  \<comment> \<open>\<open>while ((parent = rb_parent(node)) && node == parent->rb_right) node = parent;\<close>\<close>
  "rb_climb_right node s =
     (let parent = rb_parent node s in
      if parent \<noteq> NULL \<and> node = right_of parent s then rb_climb_right parent s else Some parent)"

partial_function (option) rb_climb_left :: "addr \<Rightarrow> rbst \<Rightarrow> addr option" where
  "rb_climb_left node s =
     (let parent = rb_parent node s in
      if parent \<noteq> NULL \<and> node = left_of parent s then rb_climb_left parent s else Some parent)"

definition rb_next :: "addr \<Rightarrow> rbst \<Rightarrow> addr option" where
  "rb_next node s =
     (if rb_parent node s = node then Some NULL
      else if right_of node s \<noteq> NULL then rb_leftmost (right_of node s) s
      else rb_climb_right node s)"

definition rb_prev :: "addr \<Rightarrow> rbst \<Rightarrow> addr option" where
  "rb_prev node s =
     (if rb_parent node s = node then Some NULL
      else if left_of node s \<noteq> NULL then rb_rightmost (left_of node s) s
      else rb_climb_left node s)"

definition rb_replace_node :: "addr \<Rightarrow> addr \<Rightarrow> rbst \<Rightarrow> rbst" where
  "rb_replace_node victim new s =
     (let parent = rb_parent victim s;
          s = (if parent \<noteq> NULL
               then (if victim = left_of parent s then set_left parent new s
                     else set_right parent new s)
               else s\<lparr>rb_root := new\<rparr>);
          s = (if left_of victim s \<noteq> NULL then rb_set_parent (left_of victim s) new s else s);
          s = (if right_of victim s \<noteq> NULL then rb_set_parent (right_of victim s) new s else s)
      in s\<lparr>rbn := (rbn s)(new := rbn s victim)\<rparr>)"

end
