(* ===== verification/RbRep.thy ===== *)
theory RbRep
  imports Rbtree
begin

text \<open>
  The abstraction of the pointer tree: a functional red-black tree of node addresses, a
  zipper (\<open>frame list\<close>) for the path to the root, and the representation predicate
  \<open>treerep s t\<close>. Every pointer-level primitive (recolouring, rotation, attaching and
  replacing a subtree) is shown here, once, to perform its functional counterpart at an
  arbitrary place of the tree; RbInsert and RbErase then compose these facts.
\<close>

datatype rbcolor = Red | Black

datatype rtree = RLeaf | RNode rtree addr rbcolor rtree

datatype frame = FL addr rbcolor rtree | FR rtree addr rbcolor

text \<open>\<open>FL a c r\<close>: the hole is the left child of the node \<open>a\<close>; \<open>FR l a c\<close>: the right child.\<close>

subsection \<open>The packed word\<close>

fun cbit :: "rbcolor \<Rightarrow> 64 word" where
  "cbit Red = RB_RED"
| "cbit Black = RB_BLACK"

definition aligned :: "addr \<Rightarrow> bool" where
  "aligned a \<longleftrightarrow> a AND 3 = 0"

definition pack :: "addr \<Rightarrow> rbcolor \<Rightarrow> 64 word" where
  "pack p c = p OR cbit c"

declare bit_numeral_word_iff [simp del] bit_neg_numeral_word_iff [simp del]

lemma bit_3: "bit (3 :: 64 word) n \<longleftrightarrow> n = 0 \<or> n = 1"
proof -
  have "(3 :: 64 word) = mask 2" by (simp add: mask_eq_exp_minus_1)
  then have "bit (3 :: 64 word) n = bit (mask 2 :: 64 word) n" by (rule arg_cong)
  also have "\<dots> \<longleftrightarrow> n < 2" by (simp only: bit_mask_iff possible_bit_word) auto
  also have "\<dots> \<longleftrightarrow> n = 0 \<or> n = 1" by auto
  finally show ?thesis .
qed

lemma aligned_bits: "aligned p \<longleftrightarrow> \<not> bit p 0 \<and> \<not> bit p 1"
proof
  assume "aligned p"
  then have "\<not> bit (p AND 3) n" for n by (simp add: aligned_def)
  from this [of 0] this [of 1] show "\<not> bit p 0 \<and> \<not> bit p 1" by (simp add: bit_and_iff bit_3)
next
  assume a: "\<not> bit p 0 \<and> \<not> bit p 1"
  have "\<not> bit (p AND 3) n" for n
    using a by (cases "n = 0"; cases "n = 1") (auto simp: bit_and_iff bit_3)
  then show "aligned p" unfolding aligned_def by (intro bit_word_eqI) simp
qed

lemma bit_cbit: "bit (cbit c) n \<longleftrightarrow> n = 0 \<and> c = Black"
  by (cases c) (auto simp: RB_RED_def RB_BLACK_def bit_1_iff)

lemma bit_NOT_3: "bit (- 4 :: 64 word) n \<longleftrightarrow> n < 64 \<and> n \<noteq> 0 \<and> n \<noteq> 1"
proof -
  have "bit (NOT 3 :: 64 word) n \<longleftrightarrow> n < 64 \<and> \<not> (n = 0 \<or> n = 1)"
    by (simp only: bit_not_iff bit_3) simp
  then show ?thesis by simp
qed

lemma bit_NOT_1: "bit (- 2 :: 64 word) n \<longleftrightarrow> n < 64 \<and> n \<noteq> 0"
proof -
  have "bit (NOT 1 :: 64 word) n \<longleftrightarrow> n < 64 \<and> n \<noteq> 0"
    by (simp only: bit_not_iff bit_1_iff) simp
  then show ?thesis by simp
qed

lemma word_eq_low2I:
  fixes x y :: "64 word"
  assumes "bit x 0 = bit y 0" and "bit x 1 = bit y 1"
    and "\<And>n. n \<noteq> 0 \<Longrightarrow> n \<noteq> 1 \<Longrightarrow> n < 64 \<Longrightarrow> bit x n = bit y n"
  shows "x = y"
proof (rule bit_word_eqI)
  fix n assume "n < LENGTH(64)"
  then show "bit x n = bit y n" using assms by (cases "n = 0"; cases "n = 1") auto
qed

lemma bit_RB: "bit RB_BLACK n \<longleftrightarrow> n = 0" "\<not> bit RB_RED n"
  by (auto simp: RB_RED_def RB_BLACK_def bit_1_iff)

lemmas pack_bits = bit_RB bit_and_iff bit_or_iff bit_not_iff bit_1_iff bit_3 bit_NOT_3 bit_NOT_1
  bit_cbit aligned_bits

lemma aligned_0 [simp]: "aligned 0"
  by (simp add: aligned_def)

lemma pack_parent [simp]: "aligned p \<Longrightarrow> pack p c AND - 4 = p"
  unfolding pack_def by (rule word_eq_low2I) (auto simp: pack_bits)

lemma pack_color [simp]: "aligned p \<Longrightarrow> pack p c AND 1 = cbit c"
  unfolding pack_def by (rule word_eq_low2I) (auto simp: pack_bits)

lemma pack_set_parent [simp]: "aligned p \<Longrightarrow> pack p c AND 3 OR q = pack q c"
  unfolding pack_def by (rule word_eq_low2I) (auto simp: pack_bits)

lemma pack_set_color [simp]: "aligned p \<Longrightarrow> pack p c AND - 2 OR cbit d = pack p d"
  unfolding pack_def by (rule word_eq_low2I) (auto simp: pack_bits)

lemma pack_Red [simp]: "pack p Red = p"
  by (simp add: pack_def RB_RED_def)

lemma pack_set_red [simp]: "aligned p \<Longrightarrow> pack p c AND - 2 = p"
  by (rule word_eq_low2I) (auto simp: pack_bits pack_def)

lemma pack_set_black [simp]: "aligned p \<Longrightarrow> pack p c OR 1 = pack p Black"
  unfolding pack_def by (rule word_eq_low2I) (auto simp: pack_bits)

lemma or_cbit [simp]: "p OR cbit c = pack p c"
  by (simp add: pack_def)

lemma cbit_eq_0 [simp]: "cbit c = 0 \<longleftrightarrow> c = Red"
  by (cases c) (auto simp: RB_RED_def RB_BLACK_def)

lemma cbit_eq_black [simp]: "cbit c = RB_BLACK \<longleftrightarrow> c = Black"
  by (cases c) (auto simp: RB_RED_def RB_BLACK_def)

subsection \<open>Functional trees and zippers\<close>

fun ptr :: "rtree \<Rightarrow> addr" where
  "ptr RLeaf = NULL"
| "ptr (RNode l a c r) = a"

fun addrs :: "rtree \<Rightarrow> addr list" where
  "addrs RLeaf = []"
| "addrs (RNode l a c r) = addrs l @ a # addrs r"

fun colour :: "rtree \<Rightarrow> rbcolor" where
  "colour RLeaf = Black"
| "colour (RNode l a c r) = c"

fun paint :: "rbcolor \<Rightarrow> rtree \<Rightarrow> rtree" where
  "paint d RLeaf = RLeaf"
| "paint d (RNode l a c r) = RNode l a d r"

fun fill :: "frame \<Rightarrow> rtree \<Rightarrow> rtree" where
  "fill (FL a c r) t = RNode t a c r"
| "fill (FR l a c) t = RNode l a c t"

fun plug :: "frame list \<Rightarrow> rtree \<Rightarrow> rtree" where
  "plug [] t = t"
| "plug (f # k) t = plug k (fill f t)"

fun faddr :: "frame \<Rightarrow> addr" where
  "faddr (FL a c r) = a"
| "faddr (FR l a c) = a"

fun fcol :: "frame \<Rightarrow> rbcolor" where
  "fcol (FL a c r) = c"
| "fcol (FR l a c) = c"

fun cptr :: "frame list \<Rightarrow> addr" where
  "cptr [] = NULL"
| "cptr (f # k) = faddr f"

fun cleft :: "frame list \<Rightarrow> addr list" where
  "cleft [] = []"
| "cleft (FL a c r # k) = cleft k"
| "cleft (FR l a c # k) = cleft k @ addrs l @ [a]"

fun cright :: "frame list \<Rightarrow> addr list" where
  "cright [] = []"
| "cright (FL a c r # k) = a # addrs r @ cright k"
| "cright (FR l a c # k) = cright k"

lemma addrs_plug: "addrs (plug k t) = cleft k @ addrs t @ cright k"
proof (induction k arbitrary: t)
  case Nil
  then show ?case by simp
next
  case (Cons f k)
  then show ?case by (cases f) simp_all
qed

lemma plug_append [simp]: "plug (j @ k) t = plug k (plug j t)"
  by (induction j arbitrary: t) auto

lemma cleft_append: "cleft (j @ k) = cleft k @ cleft j"
proof (induction j)
  case Nil
  then show ?case by simp
next
  case (Cons f j)
  then show ?case by (cases f) simp_all
qed

lemma cright_append: "cright (j @ k) = cright j @ cright k"
proof (induction j)
  case Nil
  then show ?case by simp
next
  case (Cons f j)
  then show ?case by (cases f) simp_all
qed

lemma addrs_paint [simp]: "addrs (paint c t) = addrs t"
  by (cases t) auto

lemma ptr_paint [simp]: "ptr (paint c t) = ptr t"
  by (cases t) auto

lemma plug_eq_RLeaf [simp]: "plug k t = RLeaf \<longleftrightarrow> k = [] \<and> t = RLeaf"
proof (induction k arbitrary: t)
  case Nil
  then show ?case by simp
next
  case (Cons f k)
  then show ?case by (cases f) simp_all
qed

lemma ptr_plug: "ptr (plug k t) = (if k = [] then ptr t else faddr (last k))"
proof (induction k arbitrary: t)
  case Nil
  then show ?case by simp
next
  case (Cons f k)
  then show ?case by (cases f) simp_all
qed

subsection \<open>Representation\<close>

fun trep :: "(addr \<Rightarrow> rb_node) \<Rightarrow> addr \<Rightarrow> rtree \<Rightarrow> bool" where
  "trep h p RLeaf = True"
| "trep h p (RNode l a c r) \<longleftrightarrow>
     a \<noteq> NULL \<and> aligned a \<and>
     h a = \<lparr>rb_parent_color = pack p c, rb_right = ptr r, rb_left = ptr l\<rparr> \<and>
     trep h a l \<and> trep h a r"

fun crep :: "(addr \<Rightarrow> rb_node) \<Rightarrow> frame list \<Rightarrow> addr \<Rightarrow> bool" where
  "crep h [] x = True"
| "crep h (FL a c r # k) x \<longleftrightarrow>
     a \<noteq> NULL \<and> aligned a \<and>
     h a = \<lparr>rb_parent_color = pack (cptr k) c, rb_right = ptr r, rb_left = x\<rparr> \<and>
     trep h a r \<and> crep h k a"
| "crep h (FR l a c # k) x \<longleftrightarrow>
     a \<noteq> NULL \<and> aligned a \<and>
     h a = \<lparr>rb_parent_color = pack (cptr k) c, rb_right = x, rb_left = ptr l\<rparr> \<and>
     trep h a l \<and> crep h k a"

definition treerep :: "rbst \<Rightarrow> rtree \<Rightarrow> bool" where
  "treerep s t \<longleftrightarrow> trep (rbn s) NULL t \<and> rb_root s = ptr t \<and> distinct (addrs t)"

definition rootrep :: "rbst \<Rightarrow> frame list \<Rightarrow> addr \<Rightarrow> bool" where
  "rootrep s k x \<longleftrightarrow> rb_root s = (if k = [] then x else faddr (last k))"

lemma trep_plug: "trep h NULL (plug k t) \<longleftrightarrow> crep h k (ptr t) \<and> trep h (cptr k) t"
proof (induction k arbitrary: t)
  case Nil
  then show ?case by simp
next
  case (Cons f k)
  then show ?case by (cases f) auto
qed

lemma treerep_plug:
  "treerep s (plug k t) \<longleftrightarrow>
     crep (rbn s) k (ptr t) \<and> trep (rbn s) (cptr k) t \<and> rootrep s k (ptr t) \<and>
     distinct (cleft k @ addrs t @ cright k)"
  by (auto simp: treerep_def trep_plug ptr_plug rootrep_def addrs_plug)

lemma trep_cong: "(\<And>a. a \<in> set (addrs t) \<Longrightarrow> h' a = h a) \<Longrightarrow> trep h' p t = trep h p t"
  by (induction t arbitrary: p) auto

lemma crep_cong:
  "(\<And>a. a \<in> set (cleft k) \<union> set (cright k) \<Longrightarrow> h' a = h a) \<Longrightarrow> crep h' k x = crep h k x"
proof (induction k arbitrary: x)
  case Nil
  then show ?case by simp
next
  case (Cons f k)
  show ?case
  proof (cases f)
    case (FL a c r)
    with Cons.prems have "trep h' a r = trep h a r" by (intro trep_cong) auto
    moreover from Cons.prems FL have "crep h' k a = crep h k a" by (intro Cons.IH) auto
    ultimately show ?thesis using FL Cons.prems by simp
  next
    case (FR l a c)
    with Cons.prems have "trep h' a l = trep h a l" by (intro trep_cong) auto
    moreover from Cons.prems FR have "crep h' k a = crep h k a" by (intro Cons.IH) auto
    ultimately show ?thesis using FR Cons.prems by simp
  qed
qed

lemma trep_upd [simp]: "a \<notin> set (addrs t) \<Longrightarrow> trep (h(a := n)) p t = trep h p t"
  by (rule trep_cong) auto

lemma crep_upd [simp]:
  "a \<notin> set (cleft k) \<Longrightarrow> a \<notin> set (cright k) \<Longrightarrow> crep (h(a := n)) k x = crep h k x"
  by (rule crep_cong) auto

lemma treerep_frame:
  "(\<And>a. a \<in> set (addrs t) \<Longrightarrow> rbn s' a = rbn s a) \<Longrightarrow> rb_root s' = rb_root s \<Longrightarrow>
   treerep s' t = treerep s t"
  unfolding treerep_def using trep_cong [of t "rbn s'" "rbn s"] by auto

lemma trep_nonnull: "trep h p t \<Longrightarrow> NULL \<notin> set (addrs t)"
  by (induction t arbitrary: p) auto

lemma trep_aligned: "trep h p t \<Longrightarrow> a \<in> set (addrs t) \<Longrightarrow> aligned a"
  by (induction t arbitrary: p) auto

lemma trep_ptr: "trep h p t \<Longrightarrow> ptr t = NULL \<longleftrightarrow> t = RLeaf"
  by (cases t) auto

lemma ptr_mem: "t \<noteq> RLeaf \<Longrightarrow> ptr t \<in> set (addrs t)"
  by (cases t) auto

lemma crep_cptr: "crep h k x \<Longrightarrow> cptr k = NULL \<longleftrightarrow> k = []"
  by (cases k rule: cleft.cases) auto

lemma crep_cptr_aligned [simp]: "crep h k x \<Longrightarrow> aligned (cptr k)"
  by (cases k rule: cleft.cases) auto

lemma cptr_mem: "k \<noteq> [] \<Longrightarrow> cptr k \<in> set (cleft k) \<union> set (cright k)"
  by (cases k rule: cleft.cases) auto


subsection \<open>Reading a represented tree\<close>

lemmas field_defs = rb_parent_def rb_color_def left_of_def right_of_def
  rb_is_red_def rb_is_black_def

lemma treerep_node_eq:
  assumes "treerep s (plug k (RNode l a c r))"
  shows "rbn s a = \<lparr>rb_parent_color = pack (cptr k) c, rb_right = ptr r, rb_left = ptr l\<rparr>"
    and "a \<noteq> NULL" and "aligned a" and "crep (rbn s) k a" and "aligned (cptr k)"
  using assms by (auto simp: treerep_plug)

lemma treerep_node:
  assumes "treerep s (plug k (RNode l a c r))"
  shows "rb_parent a s = cptr k" and "rb_color a s = cbit c" and "left_of a s = ptr l"
    and "right_of a s = ptr r" and "rb_is_red a s \<longleftrightarrow> c = Red" and "rb_is_black a s \<longleftrightarrow> c = Black"
proof -
  note n = treerep_node_eq [OF assms]
  show "rb_parent a s = cptr k" "left_of a s = ptr l" "right_of a s = ptr r"
    using n by (simp_all add: field_defs)
  show c: "rb_color a s = cbit c"
    using n by (simp add: field_defs)
  show "rb_is_red a s \<longleftrightarrow> c = Red"
    by (simp add: rb_is_red_def c)
  show "rb_is_black a s \<longleftrightarrow> c = Black"
    by (cases c) (simp_all add: rb_is_black_def c RB_RED_def RB_BLACK_def)
qed

lemma treerep_null_iff: "treerep s (plug k t) \<Longrightarrow> ptr t = NULL \<longleftrightarrow> t = RLeaf"
  by (auto simp: treerep_plug trep_ptr)

lemma treerep_cptr: "treerep s (plug k t) \<Longrightarrow> cptr k = NULL \<longleftrightarrow> k = []"
  by (auto simp: treerep_plug crep_cptr)

lemma treerep_black_or_null:
  assumes "treerep s (plug k t)"
  shows "rb_black_or_null (ptr t) s \<longleftrightarrow> colour t = Black"
proof (cases t)
  case RLeaf
  then show ?thesis by (simp add: rb_black_or_null_def)
next
  case (RNode l a c r)
  with assms treerep_node [of s k l a c r] treerep_node_eq [of s k l a c r]
  show ?thesis by (simp add: rb_black_or_null_def)
qed

text \<open>The side of the parent on which a node hangs.\<close>

lemma ptr_eq_disjoint:
  assumes "trep h p t" and "trep h q u" and "t \<noteq> RLeaf" and "ptr u = ptr t"
  shows "ptr t \<in> set (addrs t) \<inter> set (addrs u)"
proof -
  have "u \<noteq> RLeaf" using assms trep_ptr by auto
  with ptr_mem [of t] ptr_mem [of u] assms(3,4) show ?thesis by auto
qed

lemma treerep_side:
  assumes "treerep s (plug k (RNode l a c r))"
  shows "l \<noteq> RLeaf \<Longrightarrow> ptr r \<noteq> ptr l" and "r \<noteq> RLeaf \<Longrightarrow> ptr l \<noteq> ptr r"
proof -
  have d: "set (addrs l) \<inter> set (addrs r) = {}" and t: "trep (rbn s) a l" "trep (rbn s) a r"
    using assms by (auto simp: treerep_plug)
  show "l \<noteq> RLeaf \<Longrightarrow> ptr r \<noteq> ptr l" using ptr_eq_disjoint [OF t] d by blast
  show "r \<noteq> RLeaf \<Longrightarrow> ptr l \<noteq> ptr r" using ptr_eq_disjoint [OF t(2,1)] d by blast
qed

subsection \<open>Recolouring\<close>

lemmas write_defs = set_pc_def set_left_def set_right_def

lemma treerep_set_pc:
  assumes "treerep s (plug k (RNode l a c r))" and "v = pack (cptr k) d"
  shows "treerep (set_pc a v s) (plug k (RNode l a d r))"
  using assms by (auto simp: treerep_plug write_defs rootrep_def)

lemma treerep_set_black:
  assumes "treerep s (plug k (RNode l a c r))"
  shows "treerep (rb_set_black a s) (plug k (RNode l a Black r))"
proof -
  have "crep (rbn s) k a" using assms by (simp add: treerep_plug)
  then show ?thesis
    unfolding rb_set_black_def using assms treerep_node_eq [OF assms]
    by (intro treerep_set_pc [of s k l a c r]) simp_all
qed

lemma treerep_set_red:
  assumes "treerep s (plug k (RNode l a c r))"
  shows "treerep (rb_set_red a s) (plug k (RNode l a Red r))"
proof -
  have "crep (rbn s) k a" using assms by (simp add: treerep_plug)
  then show ?thesis
    unfolding rb_set_red_def using assms treerep_node_eq [OF assms]
    by (intro treerep_set_pc [of s k l a c r]) simp_all
qed

lemma treerep_set_color:
  assumes "treerep s (plug k (RNode l a c r))" and "w = cbit d"
  shows "treerep (rb_set_color a w s) (plug k (RNode l a d r))"
proof -
  have "crep (rbn s) k a" using assms by (simp add: treerep_plug)
  then show ?thesis
    unfolding rb_set_color_def using assms treerep_node_eq [OF assms(1)]
    by (intro treerep_set_pc [of s k l a c r]) simp_all
qed

lemma treerep_set_parent_pack:
  assumes "rb_parent_color (rbn s a) = pack p c" and "aligned p"
  shows "rb_set_parent a q s = set_pc a (pack q c) s"
  using assms by (simp add: rb_set_parent_def)

subsection \<open>Rotations\<close>

text \<open>The link from the parent (or the root pointer) to the hole of a context.\<close>

definition relink_left_first :: "addr \<Rightarrow> addr \<Rightarrow> addr \<Rightarrow> rbst \<Rightarrow> rbst" where
  "relink_left_first parent old new s =
     (if parent \<noteq> NULL
      then (if old = left_of parent s then set_left parent new s else set_right parent new s)
      else s\<lparr>rb_root := new\<rparr>)"

definition relink_right_first :: "addr \<Rightarrow> addr \<Rightarrow> addr \<Rightarrow> rbst \<Rightarrow> rbst" where
  "relink_right_first parent old new s =
     (if parent \<noteq> NULL
      then (if old = right_of parent s then set_right parent new s else set_left parent new s)
      else s\<lparr>rb_root := new\<rparr>)"

lemma relink_left_first:
  assumes "crep (rbn s) k x" and "x \<noteq> NULL" and "x \<notin> set (cleft k) \<union> set (cright k)"
    and "distinct (cleft k @ cright k)" and "rootrep s k x"
  shows "crep (rbn (relink_left_first (cptr k) x y s)) k y"
    and "rootrep (relink_left_first (cptr k) x y s) k y"
    and "a \<notin> set (cleft k) \<union> set (cright k) \<Longrightarrow> rbn (relink_left_first (cptr k) x y s) a = rbn s a"
proof -
  have other: "ptr u \<noteq> x" if "set (addrs u) \<subseteq> set (cleft k) \<union> set (cright k)" for u
    using assms(2,3) that by (cases u) auto
  show "crep (rbn (relink_left_first (cptr k) x y s)) k y"
    using assms other
    by (cases k rule: cleft.cases) (auto simp: relink_left_first_def write_defs field_defs)
  show "rootrep (relink_left_first (cptr k) x y s) k y"
    using assms(1,5) crep_cptr [OF assms(1)]
    by (auto simp: relink_left_first_def write_defs rootrep_def)
  show "rbn (relink_left_first (cptr k) x y s) a = rbn s a"
    if "a \<notin> set (cleft k) \<union> set (cright k)"
  proof -
    have "k \<noteq> [] \<Longrightarrow> cptr k \<noteq> a" using that cptr_mem by metis
    then show ?thesis
      using crep_cptr [OF assms(1)] by (auto simp: relink_left_first_def write_defs)
  qed
qed

lemma relink_right_first:
  assumes "crep (rbn s) k x" and "x \<noteq> NULL" and "x \<notin> set (cleft k) \<union> set (cright k)"
    and "distinct (cleft k @ cright k)" and "rootrep s k x"
  shows "relink_right_first (cptr k) x y s = relink_left_first (cptr k) x y s"
proof -
  have other: "ptr u \<noteq> x" if "set (addrs u) \<subseteq> set (cleft k) \<union> set (cright k)" for u
    using assms(2,3) that by (cases u) auto
  show ?thesis
    using assms other
    by (cases k rule: cleft.cases)
       (auto simp: relink_left_first_def relink_right_first_def field_defs)
qed

text \<open>Giving a subtree a new parent: \<open>if (child) rb_set_parent(child, q)\<close>.\<close>

lemma reparent:
  fixes q :: addr
  assumes "trep (rbn s) p m" and "distinct (addrs m)" and "aligned p"
  defines "s' \<equiv> (if ptr m \<noteq> NULL then rb_set_parent (ptr m) q s else s)"
  shows "trep (rbn s') q m" and "a \<notin> set (addrs m) \<Longrightarrow> rbn s' a = rbn s a"
    and "rb_root s' = rb_root s"
  using assms by (cases m; auto simp: rb_set_parent_def write_defs)+

lemma set_parent_eq:
  assumes "rbn s a = \<lparr>rb_parent_color = pack p c, rb_right = x, rb_left = y\<rparr>" and "aligned p"
  shows "rb_set_parent a q s =
    s\<lparr>rbn := (rbn s)(a := \<lparr>rb_parent_color = pack q c, rb_right = x, rb_left = y\<rparr>)\<rparr>"
  using assms by (simp add: rb_set_parent_def write_defs)

lemma treerep_rotate_left:
  assumes T: "treerep s (plug k (RNode l x c (RNode m y d r)))"
  shows "treerep (rb_rotate_left x s) (plug k (RNode (RNode l x c m) y d r))"
    and "a \<notin> set (addrs (plug k (RNode l x c (RNode m y d r)))) \<Longrightarrow>
         rbn (rb_rotate_left x s) a = rbn s a"
proof -
  define s1 where "s1 = set_right x (ptr m) s"
  define s2 where "s2 = (if ptr m \<noteq> NULL then rb_set_parent (ptr m) x s1 else s1)"
  define s3 where "s3 = set_left y x s2"
  define s4 where "s4 = rb_set_parent y (cptr k) s3"
  define s5 where "s5 = relink_left_first (cptr k) x y s4"
  define s6 where "s6 = rb_set_parent x y s5"
  let ?K = "set (cleft k) \<union> set (cright k)"
  have k: "crep (rbn s) k x" and l: "trep (rbn s) x l" and m: "trep (rbn s) y m"
    and r: "trep (rbn s) y r" and root: "rootrep s k x"
    and nz: "x \<noteq> NULL" "y \<noteq> NULL" "aligned x" "aligned y"
    and hx: "rbn s x = \<lparr>rb_parent_color = pack (cptr k) c, rb_right = y, rb_left = ptr l\<rparr>"
    and hy: "rbn s y = \<lparr>rb_parent_color = pack x d, rb_right = ptr r, rb_left = ptr m\<rparr>"
    using T by (auto simp: treerep_plug)
  have dist: "distinct (cleft k @ (addrs l @ x # addrs m @ y # addrs r) @ cright k)"
    using T by (simp add: treerep_plug)
  have neq: "x \<noteq> y" "x \<notin> ?K" "y \<notin> ?K" "x \<notin> set (addrs m)" "y \<notin> set (addrs m)"
    using dist by auto
  have s1: "rbn s1 = (rbn s)(x := \<lparr>rb_parent_color = pack (cptr k) c, rb_right = ptr m, rb_left = ptr l\<rparr>)"
    "rb_root s1 = rb_root s"
    by (simp_all add: s1_def write_defs hx)
  have "trep (rbn s1) y m" using m neq by (simp add: s1)
  note s2 = reparent [OF this _ nz(4), where q = x, folded s2_def]
  have s3: "rbn s3 = (rbn s2)(y := \<lparr>rb_parent_color = pack x d, rb_right = ptr r, rb_left = x\<rparr>)"
    "rb_root s3 = rb_root s"
    using s2 dist neq by (simp_all add: s3_def write_defs s1 hy)
  have "rbn s3 y = \<lparr>rb_parent_color = pack x d, rb_right = ptr r, rb_left = x\<rparr>" by (simp add: s3)
  note s4' = set_parent_eq [OF this nz(3), where q = "cptr k", folded s4_def]
  have s4: "rbn s4 = (rbn s2)(y := \<lparr>rb_parent_color = pack (cptr k) d, rb_right = ptr r, rb_left = x\<rparr>)"
    "rb_root s4 = rb_root s"
    by (simp_all add: s4' s3)
  have fr4: "rbn s4 a = rbn s a" if "a \<notin> set (addrs m)" "a \<noteq> x" "a \<noteq> y" for a
    using that s2 dist by (simp add: s4 s1)
  have "rbn s4 a = rbn s a" if "a \<in> ?K" for a
    using that dist by (intro fr4) auto
  then have k4: "crep (rbn s4) k x" using k crep_cong [of k "rbn s4" "rbn s" x] by blast
  have root4: "rootrep s4 k x" using root by (simp add: rootrep_def s4)
  note s5 = relink_left_first [OF k4 nz(1) neq(2) _ root4, where y = y, folded s5_def]
  have dK: "distinct (cleft k @ cright k)" using dist by auto
  have x4: "rbn s4 x = \<lparr>rb_parent_color = pack (cptr k) c, rb_right = ptr m, rb_left = ptr l\<rparr>"
    using s2 dist neq by (simp add: s4 s1)
  have "rbn s5 x = \<lparr>rb_parent_color = pack (cptr k) c, rb_right = ptr m, rb_left = ptr l\<rparr>"
    using s5 dK neq x4 by simp
  note s6 = set_parent_eq [OF this, where q = y, folded s6_def]
  have al: "aligned (cptr k)" using k by simp
  have fr6: "rbn s6 a = rbn s4 a" if "a \<notin> ?K" "a \<noteq> x" for a
    using that s5 dK by (simp add: s6 al)
  have "crep (rbn s6) k y" using s5 dK neq by (simp add: s6 al)
  moreover have "rootrep s6 k y" using s5 dK by (simp add: s6 al rootrep_def)
  moreover have "rbn s6 y = \<lparr>rb_parent_color = pack (cptr k) d, rb_right = ptr r, rb_left = x\<rparr>"
    using fr6 neq by (simp add: s4)
  moreover have "rbn s6 x = \<lparr>rb_parent_color = pack y c, rb_right = ptr m, rb_left = ptr l\<rparr>"
    by (simp add: s6 al)
  moreover have lr: "rbn s6 a = rbn s a" if "a \<in> set (addrs l) \<union> set (addrs r)" for a
  proof -
    have "a \<notin> ?K" "a \<noteq> x" "a \<noteq> y" "a \<notin> set (addrs m)" using that dist by auto
    then show ?thesis using fr6 fr4 by simp
  qed
  moreover have "trep (rbn s6) x l" using l lr trep_cong [of l "rbn s6" "rbn s" x] by blast
  moreover have "trep (rbn s6) y r" using r lr trep_cong [of r "rbn s6" "rbn s" y] by blast
  moreover have "trep (rbn s6) x m"
  proof -
    have "rbn s6 a = rbn s2 a" if "a \<in> set (addrs m)" for a
    proof -
      have "a \<notin> ?K" "a \<noteq> x" "a \<noteq> y" using that dist by auto
      then show ?thesis using fr6 by (simp add: s4)
    qed
    moreover have "trep (rbn s2) x m" using s2(1) dist by simp
    ultimately show ?thesis using trep_cong [of m "rbn s6" "rbn s2" x] by blast
  qed
  moreover have rot: "rb_rotate_left x s = s6"
    using hx hy nz k neq
    by (simp add: rb_rotate_left_def Let_def field_defs s1_def s2_def s3_def s4_def s5_def s6_def
        relink_left_first_def write_defs)
  ultimately show "treerep (rb_rotate_left x s) (plug k (RNode (RNode l x c m) y d r))"
    using nz dist by (simp add: treerep_plug)
  show "rbn (rb_rotate_left x s) a = rbn s a"
    if "a \<notin> set (addrs (plug k (RNode l x c (RNode m y d r))))"
    using that fr6 [of a] fr4 [of a] by (auto simp: rot addrs_plug)
qed

subsection \<open>Mirror images\<close>

text \<open>
  The code treats left and right symmetrically. Swapping the two child fields of every node
  turns each left-hand branch into the right-hand one, so each fact is proved once.
\<close>

definition mnode :: "rb_node \<Rightarrow> rb_node" where
  "mnode n = n\<lparr>rb_right := rb_left n, rb_left := rb_right n\<rparr>"

definition mir :: "rbst \<Rightarrow> rbst" where
  "mir s = s\<lparr>rbn := (\<lambda>a. mnode (rbn s a))\<rparr>"

fun mirror :: "rtree \<Rightarrow> rtree" where
  "mirror RLeaf = RLeaf"
| "mirror (RNode l a c r) = RNode (mirror r) a c (mirror l)"

fun mframe :: "frame \<Rightarrow> frame" where
  "mframe (FL a c r) = FR (mirror r) a c"
| "mframe (FR l a c) = FL a c (mirror l)"

lemma mnode_simps [simp]:
  "rb_parent_color (mnode n) = rb_parent_color n" "rb_left (mnode n) = rb_right n"
  "rb_right (mnode n) = rb_left n" "mnode (mnode n) = n"
  by (simp_all add: mnode_def)

lemma mir_simps [simp]:
  "rbn (mir s) a = mnode (rbn s a)" "rb_root (mir s) = rb_root s" "mir (mir s) = s"
  "(mir s)\<lparr>rb_root := x\<rparr> = mir (s\<lparr>rb_root := x\<rparr>)"
  by (simp_all add: mir_def)

lemma mir_field [simp]:
  "left_of a (mir s) = right_of a s" "right_of a (mir s) = left_of a s"
  "rb_parent a (mir s) = rb_parent a s" "rb_color a (mir s) = rb_color a s"
  "rb_is_red a (mir s) = rb_is_red a s" "rb_is_black a (mir s) = rb_is_black a s"
  "rb_black_or_null a (mir s) = rb_black_or_null a s"
  by (simp_all add: field_defs rb_black_or_null_def)

lemma mir_set [simp]:
  "set_left a v (mir s) = mir (set_right a v s)" "set_right a v (mir s) = mir (set_left a v s)"
  "set_pc a v (mir s) = mir (set_pc a v s)"
  by (auto simp: write_defs mir_def mnode_def fun_eq_iff)

lemma mir_color [simp]:
  "rb_set_parent a p (mir s) = mir (rb_set_parent a p s)"
  "rb_set_color a w (mir s) = mir (rb_set_color a w s)"
  "rb_set_black a (mir s) = mir (rb_set_black a s)" "rb_set_red a (mir s) = mir (rb_set_red a s)"
  by (simp_all add: rb_set_parent_def rb_set_color_def rb_set_black_def rb_set_red_def)

lemma mir_if: "(if b then mir x else mir y) = mir (if b then x else y)"
  by simp

lemma mir_rotate [simp]:
  "rb_rotate_left x (mir s) = mir (rb_rotate_right x s)"
  "rb_rotate_right x (mir s) = mir (rb_rotate_left x s)"
  by (simp_all add: rb_rotate_left_def rb_rotate_right_def Let_def)

lemma mirror_simps [simp]:
  "mirror (mirror t) = t" "addrs (mirror t) = rev (addrs t)" "ptr (mirror t) = ptr t"
  "colour (mirror t) = colour t" "mirror (paint c t) = paint c (mirror t)"
  "mirror t = RLeaf \<longleftrightarrow> t = RLeaf"
  by (induction t; auto)+

lemma mframe_mframe [simp]: "mframe (mframe f) = f"
  by (cases f) auto

lemma mirror_fill [simp]: "mirror (fill f t) = fill (mframe f) (mirror t)"
  by (cases f) auto

lemma mirror_plug [simp]: "mirror (plug k t) = plug (map mframe k) (mirror t)"
  by (induction k arbitrary: t) auto

lemma trep_mirror: "trep (\<lambda>a. mnode (h a)) p (mirror t) = trep h p t"
proof (induction t arbitrary: p)
  case RLeaf
  then show ?case by simp
next
  case (RNode l a c r)
  have "mnode (h a) = \<lparr>rb_parent_color = v, rb_right = x, rb_left = y\<rparr> \<longleftrightarrow>
    h a = \<lparr>rb_parent_color = v, rb_right = y, rb_left = x\<rparr>" for v x y
    by (cases "h a") (auto simp: mnode_def)
  with RNode show ?case by auto
qed

lemma treerep_mir [simp]: "treerep (mir s) (mirror t) = treerep s t"
proof -
  have "rbn (mir s) = (\<lambda>a. mnode (rbn s a))" by (simp add: mir_def)
  then show ?thesis by (simp add: treerep_def trep_mirror)
qed

lemma treerep_mirD: "treerep (mir s) t \<Longrightarrow> treerep s (mirror t)"
  using treerep_mir [of s "mirror t"] by simp

lemma mnode_inj: "mnode x = mnode y \<longleftrightarrow> x = y"
  by (metis mnode_simps(4))

lemma treerep_rotate_right:
  assumes "treerep s (plug k (RNode (RNode l x c m) y d r))"
  shows "treerep (rb_rotate_right y s) (plug k (RNode l x c (RNode m y d r)))"
    and "a \<notin> set (addrs (plug k (RNode (RNode l x c m) y d r))) \<Longrightarrow>
         rbn (rb_rotate_right y s) a = rbn s a"
proof -
  have "treerep (mir s) (mirror (plug k (RNode (RNode l x c m) y d r)))"
    using assms by (simp only: treerep_mir)
  then have M: "treerep (mir s)
      (plug (map mframe k) (RNode (mirror r) y d (RNode (mirror m) x c (mirror l))))"
    by simp
  from treerep_rotate_left(1) [OF M]
  have "treerep (rb_rotate_right y s)
      (mirror (plug (map mframe k) (RNode (RNode (mirror r) y d (mirror m)) x c (mirror l))))"
    unfolding mir_rotate by (rule treerep_mirD)
  then show "treerep (rb_rotate_right y s) (plug k (RNode l x c (RNode m y d r)))"
    by (simp add: comp_def)
  have "addrs (plug (map mframe k) (RNode (mirror r) y d (RNode (mirror m) x c (mirror l)))) =
      rev (addrs (plug k (RNode (RNode l x c m) y d r)))"
    using mirror_plug [of k "RNode (RNode l x c m) y d r"]
      mirror_simps(2) [of "plug k (RNode (RNode l x c m) y d r)"] by simp
  then show "rbn (rb_rotate_right y s) a = rbn s a"
    if "a \<notin> set (addrs (plug k (RNode (RNode l x c m) y d r)))"
    using treerep_rotate_left(2) [OF M, of a] that by (simp add: mnode_inj)
qed

end
