(* ===== verification/RbInsert.thy ===== *)
theory RbInsert
  imports RbRep
begin

text \<open>
  \<open>rb_link_node\<close> and \<open>rb_insert_color\<close> on represented trees. \<open>ins_fix\<close> is the functional
  rebalancing on the zipper; the pointer loop refines it, and it keeps the inorder sequence
  and the red-black invariants. The loop's termination is part of the refinement.
\<close>

subsection \<open>Steps that keep the node set\<close>

definition rep_step :: "rbst \<Rightarrow> rtree \<Rightarrow> rbst \<Rightarrow> rtree \<Rightarrow> bool" where
  "rep_step s t s' t' \<longleftrightarrow>
     treerep s' t' \<and> set (addrs t') = set (addrs t) \<and>
     (\<forall>a. a \<notin> set (addrs t) \<longrightarrow> rbn s' a = rbn s a)"

lemma rep_step_refl: "treerep s t \<Longrightarrow> rep_step s t s t"
  by (simp add: rep_step_def)

lemma rep_step_trans: "rep_step s t s' t' \<Longrightarrow> rep_step s' t' s'' t'' \<Longrightarrow> rep_step s t s'' t''"
  by (auto simp: rep_step_def)

lemma rep_step_treerep: "rep_step s t s' t' \<Longrightarrow> treerep s' t'"
  by (simp add: rep_step_def)

lemma rb_set_black_other [simp]: "b \<noteq> a \<Longrightarrow> rbn (rb_set_black a s) b = rbn s b"
  by (simp add: rb_set_black_def write_defs)

lemma rb_set_red_other [simp]: "b \<noteq> a \<Longrightarrow> rbn (rb_set_red a s) b = rbn s b"
  by (simp add: rb_set_red_def write_defs)

lemma rb_set_color_other [simp]: "b \<noteq> a \<Longrightarrow> rbn (rb_set_color a w s) b = rbn s b"
  by (simp add: rb_set_color_def write_defs)

lemma rep_step_black:
  "treerep s (plug k (RNode l a c r)) \<Longrightarrow>
   rep_step s (plug k (RNode l a c r)) (rb_set_black a s) (plug k (RNode l a Black r))"
  unfolding rep_step_def by (auto simp: treerep_set_black addrs_plug)

lemma rep_step_red:
  "treerep s (plug k (RNode l a c r)) \<Longrightarrow>
   rep_step s (plug k (RNode l a c r)) (rb_set_red a s) (plug k (RNode l a Red r))"
  unfolding rep_step_def by (auto simp: treerep_set_red addrs_plug)

lemma rep_step_color:
  "treerep s (plug k (RNode l a c r)) \<Longrightarrow> w = cbit d \<Longrightarrow>
   rep_step s (plug k (RNode l a c r)) (rb_set_color a w s) (plug k (RNode l a d r))"
  unfolding rep_step_def by (auto simp: treerep_set_color addrs_plug)

lemma rep_step_rotate_left:
  "treerep s (plug k (RNode l x c (RNode m y d r))) \<Longrightarrow>
   rep_step s (plug k (RNode l x c (RNode m y d r)))
     (rb_rotate_left x s) (plug k (RNode (RNode l x c m) y d r))"
  unfolding rep_step_def using treerep_rotate_left by (auto simp: addrs_plug)

lemma rep_step_rotate_right:
  "treerep s (plug k (RNode (RNode l x c m) y d r)) \<Longrightarrow>
   rep_step s (plug k (RNode (RNode l x c m) y d r))
     (rb_rotate_right y s) (plug k (RNode l x c (RNode m y d r)))"
  unfolding rep_step_def using treerep_rotate_right by (auto simp: addrs_plug)

text \<open>Recolouring the root of a subtree, wherever it hangs.\<close>

lemma rep_step_black_ptr:
  "treerep s (plug k t) \<Longrightarrow> t \<noteq> RLeaf \<Longrightarrow>
   rep_step s (plug k t) (rb_set_black (ptr t) s) (plug k (paint Black t))"
  by (cases t) (auto intro: rep_step_black)

lemma rep_step_red_ptr:
  "treerep s (plug k t) \<Longrightarrow> t \<noteq> RLeaf \<Longrightarrow>
   rep_step s (plug k t) (rb_set_red (ptr t) s) (plug k (paint Red t))"
  by (cases t) (auto intro: rep_step_red)

lemma rep_step_root_black:
  assumes "treerep s t" and "t \<noteq> RLeaf"
  shows "rep_step s t (rb_set_black (rb_root s) s) (paint Black t)"
  using rep_step_black_ptr [of s "[]" t] assms by (simp add: treerep_def)

subsection \<open>Linking a fresh leaf\<close>

fun hole_link :: "frame list \<Rightarrow> rb_link" where
  "hole_link [] = RootLink"
| "hole_link (FL a c r # k) = LeftLink a"
| "hole_link (FR l a c # k) = RightLink a"

lemma rb_node_full:
  "n\<lparr>rb_parent_color := v, rb_right := x, rb_left := y\<rparr> =
   \<lparr>rb_parent_color = v, rb_right = x, rb_left = y\<rparr>"
  by (cases n) simp

lemma write_hole:
  assumes "crep (rbn s) k y" and "distinct (cleft k @ cright k)" and "rootrep s k y"
  shows "crep (rbn (write_link (hole_link k) x s)) k x"
    and "rootrep (write_link (hole_link k) x s) k x"
    and "a \<notin> set (cleft k) \<union> set (cright k) \<Longrightarrow> rbn (write_link (hole_link k) x s) a = rbn s a"
  using assms by (cases k rule: cleft.cases; simp add: write_defs rootrep_def)+

lemma treerep_link:
  assumes T: "treerep s (plug k RLeaf)" and x: "x \<noteq> NULL" "aligned x"
    and fresh: "x \<notin> set (addrs (plug k RLeaf))"
  shows "treerep (rb_link_node x (cptr k) (hole_link k) s) (plug k (RNode RLeaf x Red RLeaf))"
    and "a \<notin> insert x (set (addrs (plug k RLeaf))) \<Longrightarrow>
         rbn (rb_link_node x (cptr k) (hole_link k) s) a = rbn s a"
proof -
  define s1 where "s1 = s\<lparr>rbn := (rbn s)(x := \<lparr>rb_parent_color = cptr k, rb_right = NULL, rb_left = NULL\<rparr>)\<rparr>"
  have l: "rb_link_node x (cptr k) (hole_link k) s = write_link (hole_link k) x s1"
    by (simp add: rb_link_node_def Let_def write_defs s1_def rb_node_full)
  have T': "crep (rbn s) k NULL" "rootrep s k NULL" "distinct (cleft k @ cright k)"
    and f: "x \<notin> set (cleft k)" "x \<notin> set (cright k)"
    using T fresh by (auto simp: treerep_plug addrs_plug)
  have s1: "crep (rbn s1) k NULL" "rootrep s1 k NULL"
    using T' f by (simp_all add: s1_def rootrep_def)
  note w = write_hole [OF s1(1) T'(3) s1(2), where x = x]
  have "rbn (write_link (hole_link k) x s1) x =
      \<lparr>rb_parent_color = cptr k, rb_right = NULL, rb_left = NULL\<rparr>"
    using w(3) f by (simp add: s1_def)
  then show "treerep (rb_link_node x (cptr k) (hole_link k) s) (plug k (RNode RLeaf x Red RLeaf))"
    using w(1,2) T'(3) f x by (simp add: treerep_plug l)
  show "rbn (rb_link_node x (cptr k) (hole_link k) s) a = rbn s a"
    if "a \<notin> insert x (set (addrs (plug k RLeaf)))"
    using that w(3) [of a] by (simp add: l s1_def addrs_plug)
qed

subsection \<open>The functional rebalancing\<close>

fun fsib :: "frame \<Rightarrow> rtree" where
  "fsib (FL a c r) = r"
| "fsib (FR l a c) = l"

fun recolour_frame :: "frame \<Rightarrow> frame" where
  "recolour_frame (FL a c r) = FL a Red (paint Black r)"
| "recolour_frame (FR l a c) = FR (paint Black l) a Red"

fun ins_rot :: "frame \<Rightarrow> frame \<Rightarrow> rtree \<Rightarrow> rtree" where
  "ins_rot (FL p pc r) (FL g gc u) t = RNode t p Black (RNode r g Red u)"
| "ins_rot (FR l p pc) (FL g gc u) (RNode nl n nc nr) =
     RNode (RNode l p pc nl) n Black (RNode nr g Red u)"
| "ins_rot (FR l p pc) (FR u g gc) t = RNode (RNode u g Red l) p Black t"
| "ins_rot (FL p pc r) (FR u g gc) (RNode nl n nc nr) =
     RNode (RNode u g Red nl) n Black (RNode nr p pc r)"
| "ins_rot f g RLeaf = fill g (fill f RLeaf)"

fun ins_fix :: "frame list \<Rightarrow> rtree \<Rightarrow> rtree" where
  "ins_fix [] t = paint Black t"
| "ins_fix [f] t = paint Black (fill f t)"
| "ins_fix (f # g # k) t =
     (if fcol f = Red then
        (if colour (fsib g) = Red
         then ins_fix k (fill (recolour_frame g) (paint Black (fill f t)))
         else paint Black (plug k (ins_rot f g t)))
      else paint Black (plug k (fill g (fill f t))))"

lemma addrs_fill: "addrs (fill f t) = cleft [f] @ addrs t @ cright [f]"
  by (cases f) auto

lemma addrs_ins_rot: "addrs (ins_rot f g t) = addrs (fill g (fill f t))"
  by (cases "(f, g, t)" rule: ins_rot.cases) auto

lemma addrs_recolour: "cleft [recolour_frame g] = cleft [g]" "cright [recolour_frame g] = cright [g]"
  by (cases g; simp)+

text \<open>Rebalancing keeps the inorder sequence of nodes.\<close>

lemma addrs_ins_fix: "addrs (ins_fix k t) = addrs (plug k t)"
  by (induction k t rule: ins_fix.induct)
     (auto simp: addrs_plug addrs_ins_rot addrs_recolour addrs_fill)

lemma fill_neq_RLeaf [simp]: "fill f t \<noteq> RLeaf"
  by (cases f) auto

subsection \<open>The pointer loop refines it\<close>

lemma rb_insert_color_exit:
  assumes "treerep s (plug k t)" and "t \<noteq> RLeaf"
    and "k = [] \<or> \<not> rb_is_red (cptr k) s"
  shows "rb_insert_color (ptr t) s = Some (rb_set_black (rb_root s) s)"
    and "rep_step s (plug k t) (rb_set_black (rb_root s) s) (paint Black (plug k t))"
proof -
  obtain l a c r where t: "t = RNode l a c r" using assms(2) by (cases t) auto
  have "rb_parent a s = cptr k" using treerep_node assms(1) unfolding t by blast
  then have cond: "\<not> (rb_parent a s \<noteq> NULL \<and> rb_is_red (rb_parent a s) s)"
    using assms treerep_cptr by auto
  show "rb_insert_color (ptr t) s = Some (rb_set_black (rb_root s) s)"
    by (subst rb_insert_color.simps) (simp only: t ptr.simps Let_def cond if_False)
  show "rep_step s (plug k t) (rb_set_black (rb_root s) s) (paint Black (plug k t))"
    by (rule rep_step_root_black) (use assms in auto)
qed

text \<open>The four rotation cases, and the recolouring step.\<close>

lemma ins_case_LL:
  assumes T: "treerep s (plug k (RNode (RNode t p pc r) g gc u))"
  shows "rep_step s (plug k (RNode (RNode t p pc r) g gc u))
    (rb_rotate_right g (rb_set_red g (rb_set_black p s)))
    (plug k (RNode t p Black (RNode r g Red u)))"
proof -
  have 1: "rep_step s (plug k (RNode (RNode t p pc r) g gc u)) (rb_set_black p s)
      (plug k (RNode (RNode t p Black r) g gc u))"
    using rep_step_black [of s "FL g gc u # k" t p pc r] T by simp
  note 2 = rep_step_red [OF rep_step_treerep [OF 1]]
  note 3 = rep_step_rotate_right [OF rep_step_treerep [OF 2]]
  from 1 2 3 show ?thesis by (blast intro: rep_step_trans)
qed

lemma ins_case_LR:
  assumes T: "treerep s (plug k (RNode (RNode l p pc (RNode nl n nc nr)) g gc u))"
  shows "rep_step s (plug k (RNode (RNode l p pc (RNode nl n nc nr)) g gc u))
    (rb_rotate_right g (rb_set_red g (rb_set_black n (rb_rotate_left p s))))
    (plug k (RNode (RNode l p pc nl) n Black (RNode nr g Red u)))"
proof -
  have 1: "rep_step s (plug k (RNode (RNode l p pc (RNode nl n nc nr)) g gc u)) (rb_rotate_left p s)
      (plug k (RNode (RNode (RNode l p pc nl) n nc nr) g gc u))"
    using rep_step_rotate_left [of s "FL g gc u # k" l p pc nl n nc nr] T by simp
  note 2 = ins_case_LL [OF rep_step_treerep [OF 1]]
  from 1 2 show ?thesis by (rule rep_step_trans)
qed

lemma ins_case_RR:
  assumes T: "treerep s (plug k (RNode u g gc (RNode l p pc t)))"
  shows "rep_step s (plug k (RNode u g gc (RNode l p pc t)))
    (rb_rotate_left g (rb_set_red g (rb_set_black p s)))
    (plug k (RNode (RNode u g Red l) p Black t))"
proof -
  have 1: "rep_step s (plug k (RNode u g gc (RNode l p pc t))) (rb_set_black p s)
      (plug k (RNode u g gc (RNode l p Black t)))"
    using rep_step_black [of s "FR u g gc # k" l p pc t] T by simp
  note 2 = rep_step_red [OF rep_step_treerep [OF 1]]
  note 3 = rep_step_rotate_left [OF rep_step_treerep [OF 2]]
  from 1 2 3 show ?thesis by (blast intro: rep_step_trans)
qed

lemma ins_case_RL:
  assumes T: "treerep s (plug k (RNode u g gc (RNode (RNode nl n nc nr) p pc r)))"
  shows "rep_step s (plug k (RNode u g gc (RNode (RNode nl n nc nr) p pc r)))
    (rb_rotate_left g (rb_set_red g (rb_set_black n (rb_rotate_right p s))))
    (plug k (RNode (RNode u g Red nl) n Black (RNode nr p pc r)))"
proof -
  have 1: "rep_step s (plug k (RNode u g gc (RNode (RNode nl n nc nr) p pc r))) (rb_rotate_right p s)
      (plug k (RNode u g gc (RNode nl n nc (RNode nr p pc r))))"
    using rep_step_rotate_right [of s "FR u g gc # k" nl n nc nr p pc r] T by simp
  note 2 = ins_case_RR [OF rep_step_treerep [OF 1]]
  from 1 2 show ?thesis by (rule rep_step_trans)
qed

lemma ins_case_recolour:
  assumes T: "treerep s (plug k (fill g t))" and "t \<noteq> RLeaf" and "fsib g \<noteq> RLeaf"
  shows "rep_step s (plug k (fill g t))
    (rb_set_red (faddr g) (rb_set_black (ptr t) (rb_set_black (ptr (fsib g)) s)))
    (plug k (fill (recolour_frame g) (paint Black t)))"
proof (cases g)
  case (FL a c u)
  have 1: "rep_step s (plug k (RNode t a c u)) (rb_set_black (ptr u) s)
      (plug k (RNode t a c (paint Black u)))"
    using rep_step_black_ptr [of s "FR t a c # k" u] assms FL by simp
  have 2: "rep_step (rb_set_black (ptr u) s) (plug k (RNode t a c (paint Black u)))
      (rb_set_black (ptr t) (rb_set_black (ptr u) s))
      (plug k (RNode (paint Black t) a c (paint Black u)))"
    using rep_step_black_ptr [of "rb_set_black (ptr u) s" "FL a c (paint Black u) # k" t]
      rep_step_treerep [OF 1] assms(2) by simp
  note 3 = rep_step_red [OF rep_step_treerep [OF 2]]
  from 1 2 3 show ?thesis unfolding FL by simp (blast intro: rep_step_trans)
next
  case (FR u a c)
  have 1: "rep_step s (plug k (RNode u a c t)) (rb_set_black (ptr u) s)
      (plug k (RNode (paint Black u) a c t))"
    using rep_step_black_ptr [of s "FL a c t # k" u] assms FR by simp
  have 2: "rep_step (rb_set_black (ptr u) s) (plug k (RNode (paint Black u) a c t))
      (rb_set_black (ptr t) (rb_set_black (ptr u) s))
      (plug k (RNode (paint Black u) a c (paint Black t)))"
    using rep_step_black_ptr [of "rb_set_black (ptr u) s" "FR (paint Black u) a c # k" t]
      rep_step_treerep [OF 1] assms(2) by simp
  note 3 = rep_step_red [OF rep_step_treerep [OF 2]]
  from 1 2 3 show ?thesis unfolding FR by simp (blast intro: rep_step_trans)
qed

text \<open>One turn of the loop under a red parent, seen through the two innermost frames.\<close>

lemma treerep_sib:
  assumes "treerep s (plug k (fill f t))"
  shows "(ptr (fsib f) \<noteq> NULL \<and> rb_is_red (ptr (fsib f)) s) = (colour (fsib f) = Red)"
proof -
  have "\<exists>k'. treerep s (plug k' (fsib f))"
  proof (cases f)
    case (FL a c u)
    with assms have "treerep s (plug (FR t a c # k) u)" by simp
    then show ?thesis unfolding FL fsib.simps by (rule exI)
  next
    case (FR u a c)
    with assms have "treerep s (plug (FL a c t # k) u)" by simp
    then show ?thesis unfolding FR fsib.simps by (rule exI)
  qed
  then obtain k' where k': "treerep s (plug k' (fsib f))" by blast
  show ?thesis
  proof (cases "fsib f")
    case RLeaf
    then show ?thesis by simp
  next
    case (RNode l a c r)
    with k' treerep_node(5) [of s k' l a c r] treerep_node_eq(2) [of s k' l a c r]
    show ?thesis by simp
  qed
qed

lemma treerep_FL:
  assumes "treerep s (plug k (RNode t a c u))"
  shows "a \<noteq> NULL" and "rb_is_red a s = (c = Red)" and "rb_parent a s = cptr k"
    and "left_of a s = ptr t" and "right_of a s = ptr u"
    and "t \<noteq> RLeaf \<Longrightarrow> (ptr u = ptr t) = False" and "u \<noteq> RLeaf \<Longrightarrow> (ptr t = ptr u) = False"
    and "(ptr t \<noteq> NULL \<and> rb_is_red (ptr t) s) = (colour t = Red)"
    and "(ptr u \<noteq> NULL \<and> rb_is_red (ptr u) s) = (colour u = Red)"
  using treerep_node [OF assms] treerep_node_eq(2) [OF assms] treerep_side [OF assms]
    treerep_sib [of s k "FL a c u" t] treerep_sib [of s k "FR t a c" u] assms
  by simp_all

lemma ptr_fill [simp]: "ptr (fill f t) = faddr f"
  by (cases f) auto

text \<open>One turn of the loop, with the reads named.\<close>

lemma rb_insert_color_turn:
  assumes "rb_parent node s = p" and "p \<noteq> NULL" and "rb_is_red p s" and "rb_parent p s = q"
  shows "rb_insert_color node s =
    (if p = left_of q s then
       (if right_of q s \<noteq> NULL \<and> rb_is_red (right_of q s) s
        then rb_insert_color q (rb_set_red q (rb_set_black p (rb_set_black (right_of q s) s)))
        else if right_of p s = node
        then rb_insert_color p (rb_rotate_right q (rb_set_red q (rb_set_black node (rb_rotate_left p s))))
        else rb_insert_color node (rb_rotate_right q (rb_set_red q (rb_set_black p s))))
     else
       (if left_of q s \<noteq> NULL \<and> rb_is_red (left_of q s) s
        then rb_insert_color q (rb_set_red q (rb_set_black p (rb_set_black (left_of q s) s)))
        else if left_of p s = node
        then rb_insert_color p (rb_rotate_left q (rb_set_red q (rb_set_black node (rb_rotate_right p s))))
        else rb_insert_color node (rb_rotate_left q (rb_set_red q (rb_set_black p s)))))"
  by (subst rb_insert_color.simps) (auto simp: Let_def assms)

text \<open>The four shapes of a red parent under its own parent.\<close>

lemma insert_turn_LL:
  assumes T: "treerep s (plug k (RNode (RNode t p Red r) q d u))" and t: "t \<noteq> RLeaf"
  shows "rb_insert_color (ptr t) s =
    (if colour u = Red then rb_insert_color q (rb_set_red q (rb_set_black p (rb_set_black (ptr u) s)))
     else rb_insert_color (ptr t) (rb_rotate_right q (rb_set_red q (rb_set_black p s))))"
proof -
  have P: "treerep s (plug (FL q d u # k) (RNode t p Red r))" using T by simp
  obtain l a c r' where t': "t = RNode l a c r'" using t by (cases t) auto
  have N: "treerep s (plug (FL p Red r # FL q d u # k) (RNode l a c r'))" using T t' by simp
  note p = treerep_FL [OF P] and q = treerep_FL [OF T]
  have "rb_parent (ptr t) s = p" using treerep_node(1) [OF N] by (simp add: t')
  from rb_insert_color_turn [OF this p(1)] p q(4,5,9) t show ?thesis by simp
qed

lemma insert_turn_LR:
  assumes T: "treerep s (plug k (RNode (RNode l p Red t) q d u))" and t: "t \<noteq> RLeaf"
  shows "rb_insert_color (ptr t) s =
    (if colour u = Red then rb_insert_color q (rb_set_red q (rb_set_black p (rb_set_black (ptr u) s)))
     else rb_insert_color p (rb_rotate_right q (rb_set_red q (rb_set_black (ptr t) (rb_rotate_left p s)))))"
proof -
  have P: "treerep s (plug (FL q d u # k) (RNode l p Red t))" using T by simp
  obtain l' a c r' where t': "t = RNode l' a c r'" using t by (cases t) auto
  have N: "treerep s (plug (FR l p Red # FL q d u # k) (RNode l' a c r'))" using T t' by simp
  note p = treerep_FL [OF P] and q = treerep_FL [OF T]
  have "rb_parent (ptr t) s = p" using treerep_node(1) [OF N] by (simp add: t')
  from rb_insert_color_turn [OF this p(1)] p q(4,5,9) t show ?thesis by simp
qed

lemma insert_turn_RR:
  assumes T: "treerep s (plug k (RNode u q d (RNode l p Red t)))" and t: "t \<noteq> RLeaf"
  shows "rb_insert_color (ptr t) s =
    (if colour u = Red then rb_insert_color q (rb_set_red q (rb_set_black p (rb_set_black (ptr u) s)))
     else rb_insert_color (ptr t) (rb_rotate_left q (rb_set_red q (rb_set_black p s))))"
proof -
  have P: "treerep s (plug (FR u q d # k) (RNode l p Red t))" using T by simp
  obtain l' a c r' where t': "t = RNode l' a c r'" using t by (cases t) auto
  have N: "treerep s (plug (FR l p Red # FR u q d # k) (RNode l' a c r'))" using T t' by simp
  note p = treerep_FL [OF P] and q = treerep_FL [OF T]
  have "rb_parent (ptr t) s = p" using treerep_node(1) [OF N] by (simp add: t')
  moreover have "p \<noteq> left_of q s" using q(4) q(7) by simp
  ultimately show ?thesis using rb_insert_color_turn [of "ptr t" s p q] p q(4,5,8) t by simp
qed

lemma insert_turn_RL:
  assumes T: "treerep s (plug k (RNode u q d (RNode t p Red r)))" and t: "t \<noteq> RLeaf"
  shows "rb_insert_color (ptr t) s =
    (if colour u = Red then rb_insert_color q (rb_set_red q (rb_set_black p (rb_set_black (ptr u) s)))
     else rb_insert_color p (rb_rotate_left q (rb_set_red q (rb_set_black (ptr t) (rb_rotate_right p s)))))"
proof -
  have P: "treerep s (plug (FR u q d # k) (RNode t p Red r))" using T by simp
  obtain l' a c r' where t': "t = RNode l' a c r'" using t by (cases t) auto
  have N: "treerep s (plug (FL p Red r # FR u q d # k) (RNode l' a c r'))" using T t' by simp
  note p = treerep_FL [OF P] and q = treerep_FL [OF T]
  have "rb_parent (ptr t) s = p" using treerep_node(1) [OF N] by (simp add: t')
  moreover have "p \<noteq> left_of q s" using q(4) q(7) by simp
  ultimately show ?thesis using rb_insert_color_turn [of "ptr t" s p q] p q(4,5,8) t by simp
qed

lemma insert_turn_recolour:
  assumes "treerep s (plug k (fill g (fill f t)))" and "colour (fsib g) = Red"
  shows "rep_step s (plug k (fill g (fill f t)))
    (rb_set_red (faddr g) (rb_set_black (faddr f) (rb_set_black (ptr (fsib g)) s)))
    (plug k (fill (recolour_frame g) (paint Black (fill f t))))"
proof -
  have "fsib g \<noteq> RLeaf" using assms(2) by auto
  with ins_case_recolour [OF assms(1)] show ?thesis by simp
qed

lemma insert_exit_at:
  assumes "rep_step s T s' (plug (f # k) t)" and "t \<noteq> RLeaf" and "fcol f = Black"
  shows "\<exists>s''. rb_insert_color (ptr t) s' = Some s'' \<and>
    rep_step s T s'' (paint Black (plug k (fill f t)))"
proof -
  have T': "treerep s' (plug (f # k) t)" using assms(1) by (rule rep_step_treerep)
  have "\<not> rb_is_red (cptr (f # k)) s'"
    using T' treerep_FL(2) [of s' k] assms(3) by (cases f) auto
  from rb_insert_color_exit [OF T' assms(2)] this assms(1) rep_step_trans show ?thesis by fastforce
qed

theorem rb_insert_color_refines:
  assumes "treerep s (plug k t)" and "t \<noteq> RLeaf" and "k \<noteq> [] \<longrightarrow> fcol (last k) = Black"
  shows "\<exists>s'. rb_insert_color (ptr t) s = Some s' \<and> rep_step s (plug k t) s' (ins_fix k t)"
  using assms
proof (induction k t arbitrary: s rule: ins_fix.induct)
  case (1 t)
  then show ?case using rb_insert_color_exit [of s "[]" t] by auto
next
  case (2 f t)
  then show ?case using insert_exit_at [of s "plug [f] t" s f "[]" t] rep_step_refl by auto
next
  case (3 f g k t)
  have T: "treerep s (plug k (fill g (fill f t)))" using "3.prems" by simp
  show ?case
  proof (cases "fcol f = Red")
    case False
    then have "fcol f = Black" by (cases "fcol f") auto
    with insert_exit_at [of s "plug (f # g # k) t" s f "g # k" t] rep_step_refl [OF T] "3.prems"
    show ?thesis by simp
  next
    case red: True
    show ?thesis
    proof (cases "colour (fsib g) = Red")
      case True
      define s1 where "s1 = rb_set_red (faddr g) (rb_set_black (faddr f) (rb_set_black (ptr (fsib g)) s))"
      define t1 where "t1 = fill (recolour_frame g) (paint Black (fill f t))"
      have st: "rep_step s (plug k (fill g (fill f t))) s1 (plug k t1)"
        unfolding s1_def t1_def by (rule insert_turn_recolour [OF T True])
      have eq: "rb_insert_color (ptr t) s = rb_insert_color (faddr g) s1"
        using insert_turn_LL insert_turn_LR insert_turn_RR insert_turn_RL T red True "3.prems"(2)
        unfolding s1_def by (cases f; cases g) simp_all
      have "ptr t1 = faddr g" "t1 \<noteq> RLeaf" unfolding t1_def by (cases g; simp)+
      with "3.IH" [OF red True, folded t1_def] rep_step_treerep [OF st] "3.prems"(3)
      obtain s' where "rb_insert_color (faddr g) s1 = Some s'" "rep_step s1 (plug k t1) s' (ins_fix k t1)"
        by (cases "k = []") auto
      with st eq red True show ?thesis by (auto simp: t1_def intro: rep_step_trans)
    next
      case False
      obtain nl n nc nr where t: "t = RNode nl n nc nr" using "3.prems"(2) by (cases t) auto
      show ?thesis
      proof (cases f; cases g)
        fix p c r q d u assume fg: "f = FL p c r" "g = FL q d u"
        with ins_case_LL [of s k t p Red r q d u] T red
          insert_exit_at [of s _ _ "FL p Black (RNode r q Red u)" k t]
          insert_turn_LL [of s k t p r q d u] False "3.prems"(2)
        show ?thesis by simp
      next
        fix p c r u q d assume fg: "f = FL p c r" "g = FR u q d"
        with ins_case_RL [of s k u q d nl n nc nr p Red r] T red t
          insert_exit_at [of s _ _ "FR (RNode u q Red nl) n Black" k "RNode nr p Red r"]
          insert_turn_RL [of s k u q d t p r] False
        show ?thesis by simp
      next
        fix l p c q d u assume fg: "f = FR l p c" "g = FL q d u"
        with ins_case_LR [of s k l p Red nl n nc nr q d u] T red t
          insert_exit_at [of s _ _ "FL n Black (RNode nr q Red u)" k "RNode l p Red nl"]
          insert_turn_LR [of s k l p t q d u] False
        show ?thesis by simp
      next
        fix l p c u q d assume fg: "f = FR l p c" "g = FR u q d"
        with ins_case_RR [of s k u q d l p Red t] T red
          insert_exit_at [of s _ _ "FR (RNode u q Red l) p Black" k t]
          insert_turn_RR [of s k u q d l p t] False "3.prems"(2)
        show ?thesis by simp
      qed
    qed
  qed
qed

subsection \<open>Red-black invariants\<close>

fun bheight :: "rtree \<Rightarrow> nat" where
  "bheight RLeaf = 0"
| "bheight (RNode l a c r) = bheight l + (if c = Black then 1 else 0)"

fun invc :: "rtree \<Rightarrow> bool" where
  "invc RLeaf = True"
| "invc (RNode l a c r) \<longleftrightarrow> (c = Red \<longrightarrow> colour l = Black \<and> colour r = Black) \<and> invc l \<and> invc r"

fun invh :: "rtree \<Rightarrow> bool" where
  "invh RLeaf = True"
| "invh (RNode l a c r) \<longleftrightarrow> bheight l = bheight r \<and> invh l \<and> invh r"

definition rbtree :: "rtree \<Rightarrow> bool" where
  "rbtree t \<longleftrightarrow> invc t \<and> invh t \<and> colour t = Black"

text \<open>The same conditions on a path: heights of the siblings, colours along the path.\<close>

fun cinvh :: "frame list \<Rightarrow> nat \<Rightarrow> bool" where
  "cinvh [] n = True"
| "cinvh (f # k) n \<longleftrightarrow> bheight (fsib f) = n \<and> invh (fsib f) \<and>
     cinvh k (n + (if fcol f = Black then 1 else 0))"

fun ccol :: "frame list \<Rightarrow> rbcolor" where
  "ccol [] = Black"
| "ccol (f # k) = fcol f"

fun cinvc :: "frame list \<Rightarrow> bool" where
  "cinvc [] = True"
| "cinvc (f # k) \<longleftrightarrow> invc (fsib f) \<and>
     (fcol f = Red \<longrightarrow> colour (fsib f) = Black \<and> ccol k = Black) \<and> cinvc k"

lemma not_Red [simp]: "c \<noteq> Red \<longleftrightarrow> c = Black"
  by (cases c) auto

lemma invh_plug: "invh (plug k t) \<longleftrightarrow> invh t \<and> cinvh k (bheight t)"
proof (induction k arbitrary: t)
  case Nil
  then show ?case by simp
next
  case (Cons f k)
  show ?case
  proof (cases f)
    case (FL a c r)
    then show ?thesis using Cons [of "RNode t a c r"] by (simp add: eq_commute) blast
  next
    case (FR l a c)
    show ?thesis
    proof (cases "bheight l = bheight t")
      case True
      then show ?thesis using FR Cons [of "RNode l a c t"] by simp blast
    next
      case False
      then show ?thesis using FR Cons [of "RNode l a c t"] by simp
    qed
  qed
qed

lemma colour_fill [simp]: "colour (fill f t) = fcol f"
  by (cases f) auto

lemma invc_fill: "invc (fill f t) \<longleftrightarrow>
    (fcol f = Red \<longrightarrow> colour t = Black \<and> colour (fsib f) = Black) \<and> invc t \<and> invc (fsib f)"
  by (cases f) auto

lemma invc_plug: "invc (plug k t) \<longleftrightarrow> invc t \<and> cinvc k \<and> (ccol k = Red \<longrightarrow> colour t = Black)"
  by (induction k arbitrary: t) (auto simp: invc_fill)

lemma colour_plug: "colour (plug k t) = (if k = [] then colour t else fcol (last k))"
  by (induction k arbitrary: t) auto

lemma invh_paint [simp]: "invh (paint c t) = invh t"
  by (cases t) auto

lemma invc_paint_Black: "invc t \<Longrightarrow> invc (paint Black t)"
  by (cases t) auto

lemma colour_paint_Black [simp]: "colour (paint Black t) = Black"
  by (cases t) auto

lemma bheight_paint_Black: "bheight (paint Black t) = bheight t + (if colour t = Red then 1 else 0)"
  by (cases t) auto

text \<open>
  A red node whose subtree is a red-black tree in itself, at the end of a path that is one:
  only the link from its parent may be red to red. Rebalancing makes the whole tree red-black.
\<close>

lemma rbtree_ins_fix:
  assumes "invc t" and "colour t = Red" and "invh t" and "cinvc k" and "cinvh k (bheight t)"
    and "k \<noteq> [] \<longrightarrow> fcol (last k) = Black"
  shows "rbtree (ins_fix k t)"
  using assms
proof (induction k t rule: ins_fix.induct)
  case (1 t)
  then show ?case by (simp add: rbtree_def invc_paint_Black)
next
  case (2 f t)
  then show ?case by (cases f) (auto simp: rbtree_def)
next
  case (3 f g k t)
  obtain l a r where t: "t = RNode l a Red r" using "3.prems"(2) by (cases t) auto
  show ?case
  proof (cases "fcol f = Red")
    case False
    have "invc (plug (f # g # k) t)" "invh (plug (f # g # k) t)"
      using "3.prems" False unfolding invc_plug invh_plug by auto
    then show ?thesis using False by (simp add: rbtree_def invc_paint_Black)
  next
    case red: True
    with "3.prems" have gcol: "fcol g = Black" by simp
    show ?thesis
    proof (cases "colour (fsib g) = Red")
      case True
      show ?thesis
        using "3.IH" [OF red True] "3.prems" red True gcol t
        by (cases f; cases g; cases "k = []")
           (auto simp: bheight_paint_Black invc_paint_Black)
    next
      case False
      have "invc (plug k (ins_rot f g t))" "invh (plug k (ins_rot f g t))"
        using "3.prems" red False gcol t unfolding invc_plug invh_plug
        by (cases f; cases g; auto)+
      then show ?thesis using red False by (simp add: rbtree_def invc_paint_Black)
    qed
  qed
qed

end
