(* ===== verification/RbErase.thy ===== *)
theory RbErase
  imports RbInsert
begin

text \<open>
  \<open>rb_erase\<close> and \<open>__rb_erase_color\<close> on represented red-black trees. \<open>del_fix\<close> is the
  functional repair of a path whose hole lacks one black node; \<open>erase_at\<close> removes the node
  at a place of the tree. The pointer code refines both, ends, keeps the red-black
  invariants and removes exactly the given node from the inorder sequence.
\<close>

subsection \<open>The functional repair\<close>

fun kids_black :: "rtree \<Rightarrow> bool" where
  "kids_black RLeaf = True"
| "kids_black (RNode l a c r) \<longleftrightarrow> colour l = Black \<and> colour r = Black"

text \<open>The closing rotation when the sibling has a red child (the node is a left child).\<close>

fun fin_left :: "addr \<Rightarrow> rbcolor \<Rightarrow> rtree \<Rightarrow> rtree \<Rightarrow> rtree" where
  "fin_left p pc t (RNode wl x xc wr) =
     (if colour wr = Black then
        (case wl of
           RNode a y yc b \<Rightarrow> RNode (RNode t p Black a) y pc (RNode b x Black wr)
         | RLeaf \<Rightarrow> RNode t p pc (RNode wl x xc wr))
      else RNode (RNode t p Black wl) x pc (paint Black wr))"
| "fin_left p pc t RLeaf = RNode t p pc RLeaf"

definition fin_right :: "addr \<Rightarrow> rbcolor \<Rightarrow> rtree \<Rightarrow> rtree \<Rightarrow> rtree" where
  "fin_right p pc t w = mirror (fin_left p pc (mirror t) (mirror w))"

fun del_fix :: "frame list \<Rightarrow> rtree \<Rightarrow> rtree" where
  "del_fix [] t = paint Black t"
| "del_fix (FL p pc w # k) t =
     (if colour t = Red then plug (FL p pc w # k) (paint Black t)
      else (case w of
        RNode wl x Red wr \<Rightarrow>
          (if kids_black wl then plug (FL x Black wr # k) (RNode t p Black (paint Red wl))
           else paint Black (plug (FL x Black wr # k) (fin_left p Red t wl)))
      | _ \<Rightarrow>
          (if kids_black w then del_fix k (RNode t p pc (paint Red w))
           else paint Black (plug k (fin_left p pc t w)))))"
| "del_fix (FR w p pc # k) t =
     (if colour t = Red then plug (FR w p pc # k) (paint Black t)
      else (case w of
        RNode wl x Red wr \<Rightarrow>
          (if kids_black wr then plug (FR wl x Black # k) (RNode (paint Red wr) p Black t)
           else paint Black (plug (FR wl x Black # k) (fin_right p Red t wr)))
      | _ \<Rightarrow>
          (if kids_black w then del_fix k (RNode (paint Red w) p pc t)
           else paint Black (plug k (fin_right p pc t w)))))"

lemma addrs_fin_left: "addrs (fin_left p pc t w) = addrs t @ p # addrs w"
  by (cases "(p, pc, t, w)" rule: fin_left.cases) (auto split: rtree.splits)

lemma addrs_fin_right: "addrs (fin_right p pc t w) = addrs w @ p # addrs t"
  by (simp add: fin_right_def addrs_fin_left)

lemma addrs_del_fix: "addrs (del_fix k t) = addrs (plug k t)"
  by (induction k t rule: del_fix.induct)
     (auto simp: addrs_plug addrs_fin_left addrs_fin_right split: rtree.splits rbcolor.splits)

subsection \<open>The closing rotation on pointers\<close>

lemma rb_erase_final_tail:
  assumes T: "treerep s (plug k (RNode t p pc (RNode wl x xc wr)))" and "wr \<noteq> RLeaf"
  shows "rep_step s (plug k (RNode t p pc (RNode wl x xc wr)))
    (rb_rotate_left p
      (rb_set_black (ptr wr) (rb_set_black p (rb_set_color x (cbit pc) s))))
    (plug k (RNode (RNode t p Black wl) x pc (paint Black wr)))"
proof -
  have 1: "rep_step s (plug k (RNode t p pc (RNode wl x xc wr))) (rb_set_color x (cbit pc) s)
      (plug k (RNode t p pc (RNode wl x pc wr)))"
    using rep_step_color [of s "FR t p pc # k" wl x xc wr "cbit pc" pc] T by simp
  note 2 = rep_step_black [OF rep_step_treerep [OF 1]]
  have 3: "rep_step (rb_set_black p (rb_set_color x (cbit pc) s)) (plug k (RNode t p Black (RNode wl x pc wr)))
      (rb_set_black (ptr wr) (rb_set_black p (rb_set_color x (cbit pc) s)))
      (plug k (RNode t p Black (RNode wl x pc (paint Black wr))))"
    using rep_step_black_ptr [of _ "FR wl x pc # FR t p Black # k" wr] rep_step_treerep [OF 2] assms(2)
    by simp
  note 4 = rep_step_rotate_left [OF rep_step_treerep [OF 3]]
  from 1 2 3 4 show ?thesis by (blast intro: rep_step_trans)
qed

lemma rb_erase_left_final_refines:
  assumes T: "treerep s (plug k (RNode t p pc w))" and "w \<noteq> RLeaf" and "\<not> kids_black w"
  shows "rep_step s (plug k (RNode t p pc w)) (rb_erase_left_final p (ptr w) s)
    (plug k (fin_left p pc t w))"
proof -
  obtain wl x xc wr where w: "w = RNode wl x xc wr" using assms(2) by (cases w) auto
  have X: "treerep s (plug (FR t p pc # k) (RNode wl x xc wr))" using T w by simp
  have R: "treerep s (plug (FR wl x xc # FR t p pc # k) wr)" using T w by simp
  have right: "rb_black_or_null (right_of x s) s \<longleftrightarrow> colour wr = Black"
    using treerep_black_or_null [OF R] treerep_node(4) [OF X] by simp
  show ?thesis
  proof (cases "colour wr = Black")
    case False
    then have wr: "wr \<noteq> RLeaf" by auto
    have 1: "rb_color p s = cbit pc" using treerep_node(2) T by blast
    define s2 where "s2 = rb_set_black p (rb_set_color x (cbit pc) s)"
    have "rep_step s (plug k (RNode t p pc w)) (rb_set_color x (cbit pc) s)
      (plug k (RNode t p pc (RNode wl x pc wr)))"
      using rep_step_color [OF X, of "cbit pc" pc] w by simp
    then have "treerep s2 (plug k (RNode t p Black (RNode wl x pc wr)))"
      unfolding s2_def by (intro rep_step_treerep [OF rep_step_black] rep_step_treerep)
    then have "treerep s2 (plug (FR t p Black # k) (RNode wl x pc wr))" by simp
    then have "right_of x s2 = ptr wr" by (rule treerep_node(4))
    with rb_erase_final_tail [OF T [unfolded w] wr] right False w 1
    show ?thesis by (simp add: rb_erase_left_final_def Let_def s2_def)
  next
    case True
    with assms(3) w have "colour wl = Red" by (cases "colour wl") auto
    then obtain a y b where wl: "wl = RNode a y Red b" by (cases wl) auto
    define s1 where "s1 = rb_set_black y s"
    define s2 where "s2 = rb_set_red x s1"
    define s3 where "s3 = rb_rotate_right x s2"
    have 1: "rep_step s (plug k (RNode t p pc w)) s1
        (plug k (RNode t p pc (RNode (RNode a y Black b) x xc wr)))"
      using rep_step_black [of s "FL x xc wr # FR t p pc # k" a y Red b] T w wl by (simp add: s1_def)
    have 2: "rep_step s1 (plug k (RNode t p pc (RNode (RNode a y Black b) x xc wr))) s2
        (plug k (RNode t p pc (RNode (RNode a y Black b) x Red wr)))"
      using rep_step_red [of s1 "FR t p pc # k" "RNode a y Black b" x xc wr] rep_step_treerep [OF 1]
      by (simp add: s2_def)
    have 3: "rep_step s2 (plug k (RNode t p pc (RNode (RNode a y Black b) x Red wr))) s3
        (plug k (RNode t p pc (RNode a y Black (RNode b x Red wr))))"
      using rep_step_rotate_right [of s2 "FR t p pc # k" a y Black b x Red wr] rep_step_treerep [OF 2]
      by (simp add: s3_def)
    note T3 = rep_step_treerep [OF 3]
    have c: "rb_color p s3 = cbit pc" "right_of p s3 = y"
      using treerep_node(2,4) [OF T3] by simp_all
    define s5 where "s5 = rb_set_black p (rb_set_color y (cbit pc) s3)"
    have "treerep (rb_set_color y (cbit pc) s3) (plug (FR t p pc # k) (RNode a y pc (RNode b x Red wr)))"
      using treerep_set_color [of s3 "FR t p pc # k" a y Black "RNode b x Red wr"] T3 by simp
    then have "treerep s5 (plug k (RNode t p Black (RNode a y pc (RNode b x Red wr))))"
      unfolding s5_def by (intro treerep_set_black) simp
    then have "treerep s5 (plug (FR t p Black # k) (RNode a y pc (RNode b x Red wr)))" by simp
    then have r5: "right_of y s5 = x" using treerep_node(4) by fastforce
    have "left_of x s = y" using treerep_node(3) [OF X] wl by simp
    then have eq: "rb_erase_left_final p (ptr w) s =
        rb_rotate_left p (rb_set_black x (rb_set_black p (rb_set_color y (cbit pc) s3)))"
      using right True w c r5
      by (simp add: rb_erase_left_final_def Let_def s1_def [symmetric] s2_def [symmetric]
          s3_def [symmetric] s5_def [symmetric])
    have "rep_step s3 (plug k (RNode t p pc (RNode a y Black (RNode b x Red wr))))
        (rb_erase_left_final p (ptr w) s) (plug k (RNode (RNode t p Black a) y pc (RNode b x Black wr)))"
      using rb_erase_final_tail [OF T3] by (simp add: eq)
    with 1 2 3 show ?thesis using True w wl by (auto intro: rep_step_trans)
  qed
qed

lemma mir_final: "rb_erase_left_final p x (mir s) = mir (rb_erase_right_final p x s)"
  by (simp add: rb_erase_left_final_def rb_erase_right_final_def Let_def)

lemma rep_step_mir:
  assumes "rep_step (mir s) (mirror t) (mir s') (mirror t')"
  shows "rep_step s t s' t'"
  using assms by (auto simp: rep_step_def mnode_inj)

lemma mirror_kids_black [simp]: "kids_black (mirror t) = kids_black t"
  by (cases t) auto

lemma rb_erase_right_final_refines:
  assumes T: "treerep s (plug k (RNode w p pc t))" and "w \<noteq> RLeaf" and "\<not> kids_black w"
  shows "rep_step s (plug k (RNode w p pc t)) (rb_erase_right_final p (ptr w) s)
    (plug k (fin_right p pc t w))"
proof (rule rep_step_mir)
  have "treerep (mir s) (mirror (plug k (RNode w p pc t)))" using T by (simp only: treerep_mir)
  then have "treerep (mir s) (plug (map mframe k) (RNode (mirror t) p pc (mirror w)))" by simp
  from rb_erase_left_final_refines [OF this] assms(2,3)
  show "rep_step (mir s) (mirror (plug k (RNode w p pc t))) (mir (rb_erase_right_final p (ptr w) s))
     (mirror (plug k (fin_right p pc t w)))"
    by (simp add: mir_final fin_right_def)
qed

subsection \<open>The repair loop\<close>

text \<open>What a turn does once the sibling is known to be black.\<close>

definition erase_left_rest :: "addr \<Rightarrow> addr \<Rightarrow> rbst \<Rightarrow> rbst option" where
  "erase_left_rest p w s =
     (if rb_black_or_null (left_of w s) s \<and> rb_black_or_null (right_of w s) s
      then rb_erase_color p (rb_parent p (rb_set_red w s)) (rb_set_red w s)
      else Some (if rb_root (rb_erase_left_final p w s) \<noteq> NULL
                 then rb_set_black (rb_root (rb_erase_left_final p w s)) (rb_erase_left_final p w s)
                 else rb_erase_left_final p w s))"

definition erase_right_rest :: "addr \<Rightarrow> addr \<Rightarrow> rbst \<Rightarrow> rbst option" where
  "erase_right_rest p w s =
     (if rb_black_or_null (left_of w s) s \<and> rb_black_or_null (right_of w s) s
      then rb_erase_color p (rb_parent p (rb_set_red w s)) (rb_set_red w s)
      else Some (if rb_root (rb_erase_right_final p w s) \<noteq> NULL
                 then rb_set_black (rb_root (rb_erase_right_final p w s)) (rb_erase_right_final p w s)
                 else rb_erase_right_final p w s))"

lemma erase_turn_left:
  assumes "rb_black_or_null n s" "n \<noteq> rb_root s" "left_of p s = n" "right_of p s = w"
  shows "\<not> rb_is_red w s \<Longrightarrow> rb_erase_color n p s = erase_left_rest p w s"
    and "rb_is_red w s \<Longrightarrow> s1 = rb_rotate_left p (rb_set_red p (rb_set_black w s)) \<Longrightarrow>
         rb_erase_color n p s = erase_left_rest p (right_of p s1) s1"
  by (subst rb_erase_color.simps, simp add: assms Let_def erase_left_rest_def)+

lemma erase_turn_right:
  assumes "rb_black_or_null n s" "n \<noteq> rb_root s" "left_of p s \<noteq> n" "left_of p s = w"
  shows "\<not> rb_is_red w s \<Longrightarrow> rb_erase_color n p s = erase_right_rest p w s"
    and "rb_is_red w s \<Longrightarrow> s1 = rb_rotate_right p (rb_set_red p (rb_set_black w s)) \<Longrightarrow>
         rb_erase_color n p s = erase_right_rest p (left_of p s1) s1"
  using assms(3) by (subst rb_erase_color.simps, simp add: assms(1,2,4) Let_def erase_right_rest_def)+

lemma erase_exit:
  "\<not> (rb_black_or_null n s \<and> n \<noteq> rb_root s) \<Longrightarrow>
   rb_erase_color n p s = Some (if n \<noteq> NULL then rb_set_black n s else s)"
  by (subst rb_erase_color.simps) auto

lemma rep_step_black_end:
  assumes "rep_step s t s' (plug k u)" and "plug k u \<noteq> RLeaf"
  shows "rep_step s t (if rb_root s' \<noteq> NULL then rb_set_black (rb_root s') s' else s')
    (paint Black (plug k u))"
proof -
  have T: "treerep s' (plug k u)" using assms(1) by (rule rep_step_treerep)
  then have "rb_root s' \<noteq> NULL"
    using assms(2) trep_ptr [of "rbn s'" NULL "plug k u"] by (simp add: treerep_def)
  with rep_step_root_black [OF T assms(2)] assms(1) show ?thesis by (auto intro: rep_step_trans)
qed

lemma treerep_kids_black:
  assumes "treerep s (plug k (RNode l x c r))"
  shows "rb_black_or_null (left_of x s) s \<and> rb_black_or_null (right_of x s) s \<longleftrightarrow>
    kids_black (RNode l x c r)"
  using treerep_node(3,4) [OF assms] treerep_black_or_null [of s "FL x c r # k" l]
    treerep_black_or_null [of s "FR l x c # k" r] assms by simp

lemma fin_left_neq [simp]: "fin_left p pc t w \<noteq> RLeaf"
  by (cases "(p, pc, t, w)" rule: fin_left.cases) (auto split: rtree.splits)

lemma fin_right_neq [simp]: "fin_right p pc t w \<noteq> RLeaf"
  by (simp add: fin_right_def)

lemma erase_left_rest_refines:
  assumes T: "treerep s (plug k (RNode t p pc w))" and w: "w = RNode wl x wc wr"
  shows "kids_black w \<Longrightarrow> erase_left_rest p x s = rb_erase_color p (cptr k) (rb_set_red x s)"
    and "rep_step s (plug k (RNode t p pc w)) (rb_set_red x s) (plug k (RNode t p pc (paint Red w)))"
    and "\<not> kids_black w \<Longrightarrow> \<exists>s'. erase_left_rest p x s = Some s' \<and>
         rep_step s (plug k (RNode t p pc w)) s' (paint Black (plug k (fin_left p pc t w)))"
proof -
  have X: "treerep s (plug (FR t p pc # k) (RNode wl x wc wr))" using T w by simp
  show 2: "rep_step s (plug k (RNode t p pc w)) (rb_set_red x s) (plug k (RNode t p pc (paint Red w)))"
    using rep_step_red [OF X] w by simp
  have "rb_parent p (rb_set_red x s) = cptr k"
    using treerep_node(1) [OF rep_step_treerep [OF 2]] .
  then show "kids_black w \<Longrightarrow> erase_left_rest p x s = rb_erase_color p (cptr k) (rb_set_red x s)"
    using treerep_kids_black [OF X] w by (simp add: erase_left_rest_def)
  assume nk: "\<not> kids_black w"
  then have nb: "\<not> (rb_black_or_null (left_of x s) s \<and> rb_black_or_null (right_of x s) s)"
    using treerep_kids_black [OF X] w by simp
  have pw: "ptr w = x" "w \<noteq> RLeaf" using w by simp_all
  have ne: "plug k (fin_left p pc t w) \<noteq> RLeaf" by simp
  note r = rep_step_black_end [OF rb_erase_left_final_refines [OF T pw(2) nk] ne, unfolded pw(1)]
  show "\<exists>s'. erase_left_rest p x s = Some s' \<and>
      rep_step s (plug k (RNode t p pc w)) s' (paint Black (plug k (fin_left p pc t w)))"
    unfolding erase_left_rest_def if_not_P [OF nb] by (rule exI, rule conjI, rule refl, rule r)
qed

lemma erase_right_rest_refines:
  assumes T: "treerep s (plug k (RNode w p pc t))" and w: "w = RNode wl x wc wr"
  shows "kids_black w \<Longrightarrow> erase_right_rest p x s = rb_erase_color p (cptr k) (rb_set_red x s)"
    and "rep_step s (plug k (RNode w p pc t)) (rb_set_red x s) (plug k (RNode (paint Red w) p pc t))"
    and "\<not> kids_black w \<Longrightarrow> \<exists>s'. erase_right_rest p x s = Some s' \<and>
         rep_step s (plug k (RNode w p pc t)) s' (paint Black (plug k (fin_right p pc t w)))"
proof -
  have X: "treerep s (plug (FL p pc t # k) (RNode wl x wc wr))" using T w by simp
  show 2: "rep_step s (plug k (RNode w p pc t)) (rb_set_red x s) (plug k (RNode (paint Red w) p pc t))"
    using rep_step_red [OF X] w by simp
  have "rb_parent p (rb_set_red x s) = cptr k"
    using treerep_node(1) [OF rep_step_treerep [OF 2]] .
  then show "kids_black w \<Longrightarrow> erase_right_rest p x s = rb_erase_color p (cptr k) (rb_set_red x s)"
    using treerep_kids_black [OF X] w by (simp add: erase_right_rest_def)
  assume nk: "\<not> kids_black w"
  then have nb: "\<not> (rb_black_or_null (left_of x s) s \<and> rb_black_or_null (right_of x s) s)"
    using treerep_kids_black [OF X] w by simp
  have pw: "ptr w = x" "w \<noteq> RLeaf" using w by simp_all
  have ne: "plug k (fin_right p pc t w) \<noteq> RLeaf" by simp
  note r = rep_step_black_end [OF rb_erase_right_final_refines [OF T pw(2) nk] ne, unfolded pw(1)]
  show "\<exists>s'. erase_right_rest p x s = Some s' \<and>
      rep_step s (plug k (RNode w p pc t)) s' (paint Black (plug k (fin_right p pc t w)))"
    unfolding erase_right_rest_def if_not_P [OF nb] by (rule exI, rule conjI, rule refl, rule r)
qed

lemma faddr_mem: "f \<in> set k \<Longrightarrow> faddr f \<in> set (cleft k) \<union> set (cright k)"
proof (induction k)
  case (Cons g k)
  then show ?case by (cases g) auto
qed simp

lemma treerep_not_root:
  assumes "treerep s (plug k t)" and "k \<noteq> []"
  shows "ptr t \<noteq> rb_root s"
proof (cases t)
  case RLeaf
  then show ?thesis
    using assms trep_ptr [of "rbn s" NULL "plug k t"] by (simp add: treerep_def)
next
  case (RNode l a c r)
  have "rb_root s = faddr (last k)" using assms by (simp add: treerep_def ptr_plug)
  moreover have "faddr (last k) \<in> set (cleft k) \<union> set (cright k)" using assms(2) by (intro faddr_mem) simp
  ultimately show ?thesis using assms(1) RNode by (auto simp: treerep_plug)
qed

text \<open>The red sibling: recolour and rotate towards the node.\<close>

lemma erase_red_sibling_left:
  assumes T: "treerep s (plug k (RNode t p pc (RNode wl x Red wr)))"
  defines "s1 \<equiv> rb_rotate_left p (rb_set_red p (rb_set_black x s))"
  shows "rep_step s (plug k (RNode t p pc (RNode wl x Red wr))) s1
      (plug (FL x Black wr # k) (RNode t p Red wl))"
    and "right_of p s1 = ptr wl"
proof -
  have 1: "rep_step s (plug k (RNode t p pc (RNode wl x Red wr))) (rb_set_black x s)
      (plug k (RNode t p pc (RNode wl x Black wr)))"
    using rep_step_black [of s "FR t p pc # k" wl x Red wr] T by simp
  note 2 = rep_step_red [OF rep_step_treerep [OF 1]]
  note 3 = rep_step_rotate_left [OF rep_step_treerep [OF 2]]
  from 1 2 3 show r: "rep_step s (plug k (RNode t p pc (RNode wl x Red wr))) s1
      (plug (FL x Black wr # k) (RNode t p Red wl))"
    unfolding s1_def by simp (blast intro: rep_step_trans)
  show "right_of p s1 = ptr wl" using treerep_node(4) [OF rep_step_treerep [OF r]] .
qed

lemma erase_red_sibling_right:
  assumes T: "treerep s (plug k (RNode (RNode wl x Red wr) p pc t))"
  defines "s1 \<equiv> rb_rotate_right p (rb_set_red p (rb_set_black x s))"
  shows "rep_step s (plug k (RNode (RNode wl x Red wr) p pc t)) s1
      (plug (FR wl x Black # k) (RNode wr p Red t))"
    and "left_of p s1 = ptr wr"
proof -
  have 1: "rep_step s (plug k (RNode (RNode wl x Red wr) p pc t)) (rb_set_black x s)
      (plug k (RNode (RNode wl x Black wr) p pc t))"
    using rep_step_black [of s "FL p pc t # k" wl x Red wr] T by simp
  note 2 = rep_step_red [OF rep_step_treerep [OF 1]]
  note 3 = rep_step_rotate_right [OF rep_step_treerep [OF 2]]
  from 1 2 3 show r: "rep_step s (plug k (RNode (RNode wl x Red wr) p pc t)) s1
      (plug (FR wl x Black # k) (RNode wr p Red t))"
    unfolding s1_def by simp (blast intro: rep_step_trans)
  show "left_of p s1 = ptr wr" using treerep_node(3) [OF rep_step_treerep [OF r]] .
qed

lemma erase_exit_red:
  assumes "treerep s (plug k (RNode l a Red r))"
  shows "rb_erase_color a q s = Some (rb_set_black a s)"
    and "rep_step s (plug k (RNode l a Red r)) (rb_set_black a s) (plug k (RNode l a Black r))"
proof -
  have "\<not> rb_black_or_null a s"
    using treerep_black_or_null [OF assms] by simp
  then show "rb_erase_color a q s = Some (rb_set_black a s)"
    using treerep_node_eq(2) [OF assms] by (simp add: erase_exit)
  show "rep_step s (plug k (RNode l a Red r)) (rb_set_black a s) (plug k (RNode l a Black r))"
    using assms by (rule rep_step_black)
qed

lemma RNode_of_bheight:
  assumes "bheight w = Suc n" obtains wl x wc wr where "w = RNode wl x wc wr"
  using assms by (cases w) auto

text \<open>One turn of the loop on the left side of the parent; the loop above it is the induction hypothesis.\<close>

lemma erase_color_left:
  assumes IH: "\<And>t s. treerep s (plug k t) \<Longrightarrow> cinvh k (Suc (bheight t)) \<Longrightarrow> cinvc k \<Longrightarrow> invh t \<Longrightarrow>
      \<exists>s'. rb_erase_color (ptr t) (cptr k) s = Some s' \<and> rep_step s (plug k t) s' (del_fix k t)"
    and prems: "treerep s (plug (FL p pc w # k) t)" "cinvh (FL p pc w # k) (Suc (bheight t))" "cinvc (FL p pc w # k)" "invh t"
    and black: "colour t \<noteq> Red"
  shows "\<exists>s'. rb_erase_color (ptr t) p s = Some s' \<and> rep_step s (plug (FL p pc w # k) t) s' (del_fix (FL p pc w # k) t)"
proof -
  have n: "rb_black_or_null (ptr t) s" "ptr t \<noteq> rb_root s"
    using treerep_black_or_null [OF prems(1)] treerep_not_root [OF prems(1)] black by simp_all
  have hw: "bheight w = Suc (bheight t)" using prems by simp
  then obtain wl x wc wr where w: "w = RNode wl x wc wr" by (rule RNode_of_bheight)
  have T: "treerep s (plug k (RNode t p pc w))" using prems by simp
  have "treerep s (plug (FR t p pc # k) (RNode wl x wc wr))" using T w by simp
  note red = treerep_node(5) [OF this]
  note turn = erase_turn_left [OF n treerep_FL(4,5) [OF T]]
  show ?thesis
  proof (cases wc)
    case Black
    note r = erase_left_rest_refines [OF T w]
    have eq: "rb_erase_color (ptr t) p s = erase_left_rest p x s"
      using turn(1) red w Black by simp
    show ?thesis
    proof (cases "kids_black w")
      case True
      have "\<exists>s'. rb_erase_color p (cptr k) (rb_set_red x s) = Some s' \<and>
          rep_step (rb_set_red x s) (plug k (RNode t p pc (paint Red w))) s'
            (del_fix k (RNode t p pc (paint Red w)))"
        using IH [of "rb_set_red x s" "RNode t p pc (paint Red w)"]
          rep_step_treerep [OF r(2)] prems w Black by auto
      with r(1,2) eq True black w Black show ?thesis by (auto intro: rep_step_trans)
    next
      case nk: False
      with r(3) eq black w Black show ?thesis by auto
    qed
  next
    case Red
    define s1 where "s1 = rb_rotate_left p (rb_set_red p (rb_set_black x s))"
    have T': "treerep s (plug k (RNode t p pc (RNode wl x Red wr)))" using T w Red by simp
    note st = erase_red_sibling_left [OF T', folded s1_def]
    have "bheight wl = Suc (bheight t)" using hw w Red by simp
    then obtain ll y yc lr where wl: "wl = RNode ll y yc lr" by (rule RNode_of_bheight)
    have eq: "rb_erase_color (ptr t) p s = erase_left_rest p y s1"
      using turn(2) [of s1] red w Red st(2) wl by (simp add: s1_def)
    note r = erase_left_rest_refines [OF rep_step_treerep [OF st(1)] wl]
    show ?thesis
    proof (cases "kids_black wl")
      case True
      note e = erase_exit_red [of "rb_set_red y s1" "FL x Black wr # k" t p "paint Red wl"]
      from e(1) [OF rep_step_treerep [OF r(2)]] e(2) [OF rep_step_treerep [OF r(2)]]
        st(1) r(1) [OF True] r(2) True eq black w Red
      show ?thesis by (auto intro: rep_step_trans)
    next
      case nk: False
      with r(3) eq black w Red st(1) show ?thesis by (auto intro: rep_step_trans)
    qed
  qed
qed

text \<open>One turn of the loop on the right side of the parent; the loop above it is the induction hypothesis.\<close>

lemma erase_color_right:
  assumes IH: "\<And>t s. treerep s (plug k t) \<Longrightarrow> cinvh k (Suc (bheight t)) \<Longrightarrow> cinvc k \<Longrightarrow> invh t \<Longrightarrow>
      \<exists>s'. rb_erase_color (ptr t) (cptr k) s = Some s' \<and> rep_step s (plug k t) s' (del_fix k t)"
    and prems: "treerep s (plug (FR w p pc # k) t)" "cinvh (FR w p pc # k) (Suc (bheight t))" "cinvc (FR w p pc # k)" "invh t"
    and black: "colour t \<noteq> Red"
  shows "\<exists>s'. rb_erase_color (ptr t) p s = Some s' \<and> rep_step s (plug (FR w p pc # k) t) s' (del_fix (FR w p pc # k) t)"
proof -
  have n: "rb_black_or_null (ptr t) s" "ptr t \<noteq> rb_root s"
    using treerep_black_or_null [OF prems(1)] treerep_not_root [OF prems(1)] black by simp_all
  have hw: "bheight w = Suc (bheight t)" using prems by simp
  then obtain wl x wc wr where w: "w = RNode wl x wc wr" by (rule RNode_of_bheight)
  have T: "treerep s (plug k (RNode w p pc t))" using prems by simp
  have "treerep s (plug (FL p pc t # k) (RNode wl x wc wr))" using T w by simp
  note red = treerep_node(5) [OF this]
  have "left_of p s \<noteq> ptr t" "left_of p s = ptr w"
    using treerep_FL(4,6) [OF T] w by auto
  note turn = erase_turn_right [OF n this]
  show ?thesis
  proof (cases wc)
    case Black
    note r = erase_right_rest_refines [OF T w]
    have eq: "rb_erase_color (ptr t) p s = erase_right_rest p x s"
      using turn(1) red w Black by simp
    show ?thesis
    proof (cases "kids_black w")
      case True
      have "\<exists>s'. rb_erase_color p (cptr k) (rb_set_red x s) = Some s' \<and>
          rep_step (rb_set_red x s) (plug k (RNode (paint Red w) p pc t)) s'
            (del_fix k (RNode (paint Red w) p pc t))"
        using IH [of "rb_set_red x s" "RNode (paint Red w) p pc t"]
          rep_step_treerep [OF r(2)] prems w Black by auto
      with r(1,2) eq True black w Black show ?thesis by (auto intro: rep_step_trans)
    next
      case nk: False
      with r(3) eq black w Black show ?thesis by auto
    qed
  next
    case Red
    define s1 where "s1 = rb_rotate_right p (rb_set_red p (rb_set_black x s))"
    have T': "treerep s (plug k (RNode (RNode wl x Red wr) p pc t))" using T w Red by simp
    note st = erase_red_sibling_right [OF T', folded s1_def]
    have "bheight wr = Suc (bheight t)" using hw w Red prems by simp
    then obtain ll y yc lr where wr: "wr = RNode ll y yc lr" by (rule RNode_of_bheight)
    have eq: "rb_erase_color (ptr t) p s = erase_right_rest p y s1"
      using turn(2) [of s1] red w Red st(2) wr by (simp add: s1_def)
    note r = erase_right_rest_refines [OF rep_step_treerep [OF st(1)] wr]
    show ?thesis
    proof (cases "kids_black wr")
      case True
      note e = erase_exit_red [of "rb_set_red y s1" "FR wl x Black # k" "paint Red wr" p t]
      from e(1) [OF rep_step_treerep [OF r(2)]] e(2) [OF rep_step_treerep [OF r(2)]]
        st(1) r(1) [OF True] r(2) True eq black w Red
      show ?thesis by (auto intro: rep_step_trans)
    next
      case nk: False
      with r(3) eq black w Red st(1) show ?thesis by (auto intro: rep_step_trans)
    qed
  qed
qed

theorem rb_erase_color_refines:
  assumes "treerep s (plug k t)" and "cinvh k (Suc (bheight t))" and "cinvc k" and "invh t"
  shows "\<exists>s'. rb_erase_color (ptr t) (cptr k) s = Some s' \<and> rep_step s (plug k t) s' (del_fix k t)"
  using assms
proof (induction k arbitrary: t s)
  case Nil
  then have "\<not> (rb_black_or_null (ptr t) s \<and> ptr t \<noteq> rb_root s)" by (simp add: treerep_def)
  note e = erase_exit [OF this, of "cptr []"]
  show ?case
  proof (cases t)
    case RLeaf
    then show ?thesis using Nil e by (simp add: rep_step_refl)
  next
    case (RNode l a c r)
    then show ?thesis
      using Nil e treerep_node_eq(2) [of s "[]" l a c r] rep_step_black [of s "[]" l a c r] by simp
  qed
next
  case (Cons f k)
  show ?case
  proof (cases "colour t = Red")
    case True
    then obtain l a r where t: "t = RNode l a Red r" by (cases t) auto
    have T: "treerep s (plug (f # k) (RNode l a Red r))" using Cons.prems(1) by (simp only: t)
    from erase_exit_red(1) [OF T] erase_exit_red(2) [OF T] show ?thesis by (cases f) (auto simp: t)
  next
    case False
    show ?thesis
    proof (cases f)
      case (FL p pc w)
      from erase_color_left [of k s p pc w t] Cons.IH Cons.prems False show ?thesis by (simp add: FL)
    next
      case (FR w p pc)
      from erase_color_right [of k s w p pc t] Cons.IH Cons.prems False show ?thesis by (simp add: FR)
    qed
  qed
qed

text \<open>The repaired tree is red-black again.\<close>

lemma fin_left_inv:
  assumes "invh t" "invh w" "invc t" "invc w" "bheight w = Suc (bheight t)" "colour t = Black"
    and "colour w = Black" "\<not> kids_black w"
  shows "invh (fin_left p pc t w)" "invc (fin_left p pc t w)" "colour (fin_left p pc t w) = pc"
    "bheight (fin_left p pc t w) = Suc (bheight t) + (if pc = Black then 1 else 0)"
proof -
  obtain wl x wr where w: "w = RNode wl x Black wr" using assms(5,7) by (cases w) auto
  show "invh (fin_left p pc t w)" "invc (fin_left p pc t w)" "colour (fin_left p pc t w) = pc"
    "bheight (fin_left p pc t w) = Suc (bheight t) + (if pc = Black then 1 else 0)"
    using assms unfolding w
    by (cases wl; cases wr; auto simp: bheight_paint_Black invc_paint_Black split: if_splits)+
qed

lemma mirror_invh: "invh t \<Longrightarrow> invh (mirror t) \<and> bheight (mirror t) = bheight t"
  by (induction t) auto

lemma mirror_invc [simp]: "invc (mirror t) \<longleftrightarrow> invc t"
  by (induction t) auto

lemma fin_right_inv:
  assumes "invh t" "invh w" "invc t" "invc w" "bheight w = Suc (bheight t)" "colour t = Black"
    and "colour w = Black" "\<not> kids_black w"
  shows "invh (fin_right p pc t w)" "invc (fin_right p pc t w)" "colour (fin_right p pc t w) = pc"
    "bheight (fin_right p pc t w) = Suc (bheight t) + (if pc = Black then 1 else 0)"
proof -
  have "invh (fin_left p pc (mirror t) (mirror w))" "invc (fin_left p pc (mirror t) (mirror w))"
    "colour (fin_left p pc (mirror t) (mirror w)) = pc"
    "bheight (fin_left p pc (mirror t) (mirror w)) = Suc (bheight t) + (if pc = Black then 1 else 0)"
    using fin_left_inv [of "mirror t" "mirror w" p pc] assms mirror_invh [of t] mirror_invh [of w]
    by simp_all
  then show "invh (fin_right p pc t w)" "invc (fin_right p pc t w)" "colour (fin_right p pc t w) = pc"
    "bheight (fin_right p pc t w) = Suc (bheight t) + (if pc = Black then 1 else 0)"
    using mirror_invh by (simp_all add: fin_right_def)
qed

lemma rbtree_paint_plug:
  assumes "invh u" "invc u" "cinvh k (bheight u)" "cinvc k" "ccol k = Red \<Longrightarrow> colour u = Black"
  shows "rbtree (paint Black (plug k u))"
proof -
  have "invh (plug k u)" "invc (plug k u)" using assms by (simp_all add: invh_plug invc_plug)
  then show ?thesis by (simp add: rbtree_def invc_paint_Black)
qed

lemma rbtree_plug_Black:
  assumes "invh u" "invc u" "cinvh k (bheight u)" "cinvc k" "colour u = Black"
    and "k \<noteq> [] \<Longrightarrow> fcol (last k) = Black"
  shows "rbtree (plug k u)"
  using assms by (simp add: rbtree_def invh_plug invc_plug colour_plug)

lemma invc_paint_Red: "invc t \<Longrightarrow> kids_black t \<Longrightarrow> invc (paint Red t)"
  by (cases t) auto

lemma bheight_paint_Red: "colour t = Black \<Longrightarrow> bheight (paint Red t) = bheight t - 1"
  by (cases t) auto

lemma rbtree_del_fix_left:
  assumes IH: "\<And>t. cinvh k (Suc (bheight t)) \<Longrightarrow> cinvc k \<Longrightarrow> invh t \<Longrightarrow> invc (paint Black t) \<Longrightarrow>
      k \<noteq> [] \<longrightarrow> fcol (last k) = Black \<Longrightarrow> rbtree (del_fix k t)"
    and prems: "cinvh (FL p pc w # k) (Suc (bheight t))" "cinvc (FL p pc w # k)" "invh t" "invc (paint Black t)"
      "FL p pc w # k \<noteq> [] \<longrightarrow> fcol (last (FL p pc w # k)) = Black"
    and black: "colour t = Black"
  shows "rbtree (del_fix (FL p pc w # k) t)"
proof -
  have ct: "invc t" using prems(4) black by (cases t) auto
  have last: "k \<noteq> [] \<Longrightarrow> fcol (last k) = Black" "k = [] \<Longrightarrow> pc = Black"
    using prems(5) by auto
  have hw: "bheight w = Suc (bheight t)" "invh w" "invc w" using prems by simp_all
  from hw(1) obtain wl x wc wr where w: "w = RNode wl x wc wr" by (rule RNode_of_bheight)
  show ?thesis
  proof (cases wc)
    case Black
    show ?thesis
    proof (cases "kids_black w")
      case True
      have "rbtree (del_fix k (RNode t p pc (paint Red w)))"
        using prems last ct hw black True w Black by (intro IH) auto
      then show ?thesis using w Black True black by simp
    next
      case nk: False
      have "rbtree (paint Black (plug k (fin_left p pc t w)))"
        using fin_left_inv [of t w p pc] prems ct hw black nk w Black
        by (intro rbtree_paint_plug) auto
      then show ?thesis using w Black nk black by (auto simp del: fin_left.simps)
    qed
  next
    case Red
    then have pc: "pc = Black" using prems w by auto
    have wlr: "colour wl = Black" "colour wr = Black" "invc wl" "invc wr" "invh wl" "invh wr"
      "bheight wl = Suc (bheight t)" "bheight wr = Suc (bheight t)"
      using hw w Red by simp_all
    show ?thesis
    proof (cases "kids_black wl")
      case True
      have "rbtree (plug (FL x Black wr # k) (RNode t p Black (paint Red wl)))"
        using prems last ct black True w Red wlr pc
        by (intro rbtree_plug_Black) (auto simp: bheight_paint_Red invc_paint_Red)
      then show ?thesis using w Red True black by simp
    next
      case nk: False
      have "rbtree (paint Black (plug (FL x Black wr # k) (fin_left p Red t wl)))"
        using fin_left_inv [of t wl p Red] prems ct wlr black nk w Red pc
        by (intro rbtree_paint_plug) auto
      then show ?thesis using w Red nk black by simp
    qed
  qed
qed

lemma rbtree_del_fix_right:
  assumes IH: "\<And>t. cinvh k (Suc (bheight t)) \<Longrightarrow> cinvc k \<Longrightarrow> invh t \<Longrightarrow> invc (paint Black t) \<Longrightarrow>
      k \<noteq> [] \<longrightarrow> fcol (last k) = Black \<Longrightarrow> rbtree (del_fix k t)"
    and prems: "cinvh (FR w p pc # k) (Suc (bheight t))" "cinvc (FR w p pc # k)" "invh t" "invc (paint Black t)"
      "FR w p pc # k \<noteq> [] \<longrightarrow> fcol (last (FR w p pc # k)) = Black"
    and black: "colour t = Black"
  shows "rbtree (del_fix (FR w p pc # k) t)"
proof -
  have ct: "invc t" using prems(4) black by (cases t) auto
  have last: "k \<noteq> [] \<Longrightarrow> fcol (last k) = Black" "k = [] \<Longrightarrow> pc = Black"
    using prems(5) by auto
  have hw: "bheight w = Suc (bheight t)" "invh w" "invc w" using prems by simp_all
  from hw(1) obtain wl x wc wr where w: "w = RNode wl x wc wr" by (rule RNode_of_bheight)
  show ?thesis
  proof (cases wc)
    case Black
    show ?thesis
    proof (cases "kids_black w")
      case True
      have "rbtree (del_fix k (RNode (paint Red w) p pc t))"
        using prems last ct hw black True w Black by (intro IH) auto
      then show ?thesis using w Black True black by simp
    next
      case nk: False
      have "rbtree (paint Black (plug k (fin_right p pc t w)))"
        using fin_right_inv [of t w p pc] prems ct hw black nk w Black
        by (intro rbtree_paint_plug) auto
      then show ?thesis using w Black nk black by auto
    qed
  next
    case Red
    then have pc: "pc = Black" using prems w by auto
    have wlr: "colour wl = Black" "colour wr = Black" "invc wl" "invc wr" "invh wl" "invh wr"
      "bheight wl = Suc (bheight t)" "bheight wr = Suc (bheight t)"
      using hw w Red by simp_all
    show ?thesis
    proof (cases "kids_black wr")
      case True
      have "rbtree (plug (FR wl x Black # k) (RNode (paint Red wr) p Black t))"
        using prems last ct black True w Red wlr pc
        by (intro rbtree_plug_Black) (auto simp: bheight_paint_Red invc_paint_Red)
      then show ?thesis using w Red True black by simp
    next
      case nk: False
      have "rbtree (paint Black (plug (FR wl x Black # k) (fin_right p Red t wr)))"
        using fin_right_inv [of t wr p Red] prems ct wlr black nk w Red pc
        by (intro rbtree_paint_plug) auto
      then show ?thesis using w Red nk black by simp
    qed
  qed
qed

theorem rbtree_del_fix:
  assumes "cinvh k (Suc (bheight t))" and "cinvc k" and "invh t" and "invc (paint Black t)"
    and "k \<noteq> [] \<longrightarrow> fcol (last k) = Black"
  shows "rbtree (del_fix k t)"
  using assms
proof (induction k arbitrary: t)
  case Nil
  then show ?case by (simp add: rbtree_def)
next
  case (Cons f k)
  show ?case
  proof (cases "colour t = Red")
    case True
    then have "rbtree (plug (f # k) (paint Black t))"
      using Cons.prems by (intro rbtree_plug_Black) (auto simp: bheight_paint_Black)
    then show ?thesis using True by (cases f) auto
  next
    case False
    then have black: "colour t = Black" by simp
    show ?thesis
    proof (cases f)
      case (FL p pc w)
      from rbtree_del_fix_left [where k = k and t = t and w = w and p = p and pc = pc] Cons.IH Cons.prems black show ?thesis by (simp add: FL)
    next
      case (FR w p pc)
      from rbtree_del_fix_right [where k = k and t = t and w = w and p = p and pc = pc] Cons.IH Cons.prems black show ?thesis by (simp add: FR)
    qed
  qed
qed

subsection \<open>Unlinking a node with at most one child\<close>

text \<open>The tree left by the code, before and after the repair.\<close>

definition erase_hole :: "frame list \<Rightarrow> rbcolor \<Rightarrow> rtree \<Rightarrow> rtree" where
  "erase_hole k c u = (if c = Black then del_fix k u else plug k u)"

lemma addrs_erase_hole: "addrs (erase_hole k c u) = cleft k @ addrs u @ cright k"
  by (simp add: erase_hole_def addrs_del_fix addrs_plug)

lemma not_Black: "c \<noteq> Black \<longleftrightarrow> c = Red"
  by (cases c) auto

lemma rbtree_erase_hole:
  assumes "invh u" "invc u" "cinvc k" "cinvh k (bheight u + (if c = Black then 1 else 0))"
    and "c = Red \<Longrightarrow> colour u = Black" and "(if k = [] then c else fcol (last k)) = Black"
  shows "rbtree (erase_hole k c u)"
proof (cases "c = Black")
  case True
  then show ?thesis
    using assms rbtree_del_fix [of k u] invc_paint_Black
    by (auto simp: erase_hole_def split: if_splits)
next
  case False
  then show ?thesis
    using assms by (auto simp: erase_hole_def not_Black split: if_splits intro!: rbtree_plug_Black)
qed

lemma rb_erase_color_hole:
  assumes "treerep s (plug k u)" and "invh u" "cinvc k" "cinvh k (bheight u + (if c = Black then 1 else 0))"
  shows "\<exists>s'. (if cbit c = RB_BLACK then rb_erase_color (ptr u) (cptr k) s else Some s) = Some s' \<and>
    rep_step s (plug k u) s' (erase_hole k c u)"
  using assms rb_erase_color_refines [of s k u]
  by (cases c) (auto simp: erase_hole_def rep_step_refl RB_RED_def RB_BLACK_def)

definition unlink_one :: "addr \<Rightarrow> addr \<Rightarrow> rbst \<Rightarrow> rbst" where
  "unlink_one a child s =
     relink_left_first (rb_parent a s) a child
       (if child \<noteq> NULL then rb_set_parent child (rb_parent a s) s else s)"

lemma rb_erase_one_unlink:
  "rb_erase_one a child s =
     (if rb_color a s = RB_BLACK then rb_erase_color child (rb_parent a s) (unlink_one a child s)
      else Some (unlink_one a child s))"
  by (simp add: rb_erase_one_def unlink_one_def relink_left_first_def Let_def eq_commute [of a])

lemma treerep_unlink_one:
  assumes T: "treerep s (plug k (RNode l a c r))" and u: "u = l \<and> r = RLeaf \<or> u = r \<and> l = RLeaf"
  shows "treerep (unlink_one a (ptr u) s) (plug k u)"
    and "b \<notin> set (addrs (plug k (RNode l a c r))) \<Longrightarrow> rbn (unlink_one a (ptr u) s) b = rbn s b"
proof -
  define s1 where "s1 = (if ptr u \<noteq> NULL then rb_set_parent (ptr u) (cptr k) s else s)"
  have k: "crep (rbn s) k a" and tu: "trep (rbn s) a u" and du: "distinct (addrs u)"
    and root: "rootrep s k a" and nz: "a \<noteq> NULL" "aligned a"
    using T u by (auto simp: treerep_plug)
  have d: "distinct (cleft k @ (addrs u @ [a]) @ cright k)"
    using T u by (auto simp: treerep_plug)
  note s1 = reparent [OF tu du nz(2), where q = "cptr k", folded s1_def]
  have k1: "crep (rbn s1) k a" using k s1(2) d crep_cong [of k "rbn s1" "rbn s" a] by fastforce
  have root1: "rootrep s1 k a" using root s1(3) by (simp add: rootrep_def)
  have un: "unlink_one a (ptr u) s = relink_left_first (cptr k) a (ptr u) s1"
    using treerep_node(1) [OF T] by (simp add: unlink_one_def s1_def)
  have dk: "a \<notin> set (cleft k) \<union> set (cright k)" "distinct (cleft k @ cright k)" using d by auto
  note s2 = relink_left_first [OF k1 nz(1) dk root1, where y = "ptr u", folded un]
  have "trep (rbn (unlink_one a (ptr u) s)) (cptr k) u"
    using s1(1) s2(3) d trep_cong [of u "rbn (unlink_one a (ptr u) s)" "rbn s1" "cptr k"] by fastforce
  then show "treerep (unlink_one a (ptr u) s) (plug k u)"
    using s2(1,2) d by (simp add: treerep_plug)
  show "rbn (unlink_one a (ptr u) s) b = rbn s b" if "b \<notin> set (addrs (plug k (RNode l a c r)))"
    using that u s2(3) s1(2) by (auto simp: addrs_plug)
qed

text \<open>What a removal promises.\<close>

definition erased :: "addr \<Rightarrow> rbst \<Rightarrow> rtree \<Rightarrow> rbst \<Rightarrow> rtree \<Rightarrow> bool" where
  "erased a s t s' t' \<longleftrightarrow>
     treerep s' t' \<and> addrs t' = remove1 a (addrs t) \<and> rbtree t' \<and>
     (\<forall>b. b \<notin> set (addrs t) \<longrightarrow> rbn s' b = rbn s b)"

lemma rbtree_root_black: "rbtree (plug k t) \<Longrightarrow> (if k = [] then colour t else fcol (last k)) = Black"
  by (simp add: rbtree_def colour_plug)

lemma rb_erase_one_refines:
  assumes T: "treerep s (plug k (RNode l a c r))" and inv: "rbtree (plug k (RNode l a c r))"
    and u: "u = l \<and> r = RLeaf \<or> u = r \<and> l = RLeaf"
  shows "\<exists>s'. rb_erase_one a (ptr u) s = Some s' \<and> erased a s (plug k (RNode l a c r)) s' (erase_hole k c u)"
proof -
  note un = treerep_unlink_one [OF T u]
  have i: "invc (RNode l a c r)" "cinvc k" "invh (RNode l a c r)" "cinvh k (bheight (RNode l a c r))"
    using inv unfolding rbtree_def invc_plug invh_plug by blast+
  have "bheight u = bheight l" using i u by auto
  then have h: "invh u" "invc u" "cinvh k (bheight u + (if c = Black then 1 else 0))"
    "c = Red \<Longrightarrow> colour u = Black" "(if k = [] then c else fcol (last k)) = Black"
    using i u rbtree_root_black [OF inv] by (auto split: if_splits)
  have "rb_erase_one a (ptr u) s =
      (if cbit c = RB_BLACK then rb_erase_color (ptr u) (cptr k) (unlink_one a (ptr u) s)
       else Some (unlink_one a (ptr u) s))"
    using treerep_node(1,2) [OF T] by (simp add: rb_erase_one_unlink)
  with rb_erase_color_hole [OF un(1) h(1) i(2) h(3)] obtain s' where
    s': "rb_erase_one a (ptr u) s = Some s'"
    "rep_step (unlink_one a (ptr u) s) (plug k u) s' (erase_hole k c u)" by auto
  have "a \<notin> set (cleft k)" "a \<notin> set (addrs u)" using T u by (auto simp: treerep_plug)
  then have "addrs (erase_hole k c u) = remove1 a (addrs (plug k (RNode l a c r)))"
    using u by (auto simp: addrs_erase_hole addrs_plug remove1_append)
  moreover have "rbtree (erase_hole k c u)" by (rule rbtree_erase_hole [OF h(1,2) i(2) h(3,4,5)])
  moreover have "rbn s' b = rbn s b" if "b \<notin> set (addrs (plug k (RNode l a c r)))" for b
    using that s'(2) un(2) [OF that] u by (auto simp: rep_step_def addrs_plug)
  ultimately show ?thesis using s' by (auto simp: erased_def rep_step_def)
qed

subsection \<open>The successor\<close>

fun is_FL :: "frame \<Rightarrow> bool" where
  "is_FL (FL a c r) = True"
| "is_FL (FR l a c) = False"

lemma leftmost_ex:
  "t \<noteq> RLeaf \<Longrightarrow> \<exists>j m c r. t = plug j (RNode RLeaf m c r) \<and> list_all is_FL j"
proof (induction t)
  case (RNode l a c r)
  show ?case
  proof (cases "l = RLeaf")
    case True
    then have "RNode l a c r = plug [] (RNode RLeaf a c r) \<and> list_all is_FL []" by simp
    then show ?thesis by blast
  next
    case False
    with RNode.IH(1) obtain j m d w where "l = plug j (RNode RLeaf m d w)" "list_all is_FL j" by blast
    then have "RNode l a c r = plug (j @ [FL a c r]) (RNode RLeaf m d w)" "list_all is_FL (j @ [FL a c r])"
      by simp_all
    then show ?thesis by (intro exI conjI)
  qed
qed simp

lemma rb_leftmost_plug:
  assumes "treerep s (plug k (plug j (RNode RLeaf m c r)))" and "list_all is_FL j"
  shows "rb_leftmost (ptr (plug j (RNode RLeaf m c r))) s = Some m"
  using assms
proof (induction j arbitrary: k rule: rev_induct)
  case Nil
  then have "left_of m s = NULL" using treerep_node(3) [of s k RLeaf m c r] by simp
  then show ?case by (subst rb_leftmost.simps) simp
next
  case (snoc f j)
  then obtain b d w where f: "f = FL b d w" by (cases f) auto
  let ?l = "plug j (RNode RLeaf m c r)"
  have T: "treerep s (plug k (RNode ?l b d w))" using snoc.prems f by simp
  have L: "treerep s (plug (FL b d w # k) ?l)" using T by simp
  have "left_of b s = ptr ?l" by (rule treerep_node(3) [OF T])
  moreover have "ptr ?l \<noteq> NULL" using treerep_null_iff [OF L] by simp
  moreover have "rb_leftmost (ptr ?l) s = Some m" using snoc.IH [OF L] snoc.prems by simp
  ultimately show ?case by (subst rb_leftmost.simps) (simp add: f)
qed

text \<open>Taking the leftmost node out of a subtree is one write, to its parent.\<close>

lemma cleft_FL: "list_all is_FL j \<Longrightarrow> cleft j = []"
proof (induction j)
  case (Cons f j)
  then show ?case by (cases f) auto
qed simp

lemma trep_drop_min:
  assumes "trep h p (plug j (RNode RLeaf m c r))" and "list_all is_FL j" and "j \<noteq> []"
    and "distinct (addrs r @ cright j)"
    and "h' (cptr j) = (h (cptr j))\<lparr>rb_left := ptr r\<rparr>" and "trep h' (cptr j) r"
    and "\<And>b. b \<in> set (cright j) \<Longrightarrow> b \<noteq> cptr j \<Longrightarrow> h' b = h b"
  shows "trep h' p (plug j r)"
  using assms
proof (induction j arbitrary: p rule: rev_induct)
  case (snoc f j)
  then obtain b d w where f: "f = FL b d w" by (cases f) auto
  have w: "trep h' b w = trep h b w" if "cptr (j @ [f]) \<notin> set (addrs w)"
    using snoc.prems(7) that by (intro trep_cong) (auto simp: f cright_append)
  show ?case
  proof (cases "j = []")
    case True
    then show ?thesis using snoc.prems w by (simp add: f)
  next
    case False
    have "cptr j \<in> set (cright j)" using cptr_mem [OF False] cleft_FL [of j] snoc.prems(2) by simp
    then have "cptr j \<noteq> b" "cptr j \<notin> set (addrs w)" "cptr (j @ [f]) = cptr j"
      using snoc.prems(4) False by (auto simp: f cright_append neq_Nil_conv)
    moreover from this have "trep h' b (plug j r)"
      using snoc.prems False by (intro snoc.IH) (auto simp: f cright_append)
    ultimately show ?thesis
      using snoc.prems w False by (simp add: f cright_append ptr_plug)
  qed
qed simp

text \<open>Putting \<open>m\<close> in the place of \<open>a\<close>: the writes that all removals with two children share.\<close>

definition take_place :: "addr \<Rightarrow> addr \<Rightarrow> rbst \<Rightarrow> rbst" where
  "take_place old m s =
     rb_set_parent (left_of old s) m
       (set_left m (left_of old s) (set_pc m (rb_parent_color (rbn s old)) s))"

lemma treerep_take_place:
  assumes K: "crep (rbn s) k m" "rootrep s k m" and m: "m \<noteq> NULL" "aligned m" and a: "aligned a"
    and l: "trep (rbn s) a l" "l \<noteq> RLeaf" and r: "trep (rbn s) m r" "right_of m s = ptr r"
    and old: "rb_parent_color (rbn s a) = pack (cptr k) c" "left_of a s = ptr l"
    and d: "distinct (cleft k @ (addrs l @ m # addrs r) @ cright k)"
  shows "treerep (take_place a m s) (plug k (RNode l m c r))"
    and "b \<notin> insert m (set (addrs l)) \<Longrightarrow> rbn (take_place a m s) b = rbn s b"
proof -
  define s1 where "s1 = set_left m (ptr l) (set_pc m (pack (cptr k) c) s)"
  have tp: "take_place a m s = rb_set_parent (ptr l) m s1"
    by (simp add: take_place_def s1_def old)
  have nz: "ptr l \<noteq> NULL" using l trep_ptr by auto
  have m1: "rbn s1 = (rbn s)(m := \<lparr>rb_parent_color = pack (cptr k) c, rb_right = ptr r, rb_left = ptr l\<rparr>)"
    "rb_root s1 = rb_root s"
    using r(2) by (cases "rbn s m"; simp add: s1_def write_defs right_of_def)+
  have l1: "trep (rbn s1) a l" using l d by (simp add: m1)
  note s2 = reparent [OF l1 _ a, where q = m, unfolded if_P [OF nz], folded tp]
  have dl: "distinct (addrs l)" using d by simp
  have "rbn (take_place a m s) m = rbn s1 m" using s2(2) dl d by simp
  moreover have "trep (rbn (take_place a m s)) m r = trep (rbn s1) m r"
    using s2(2) dl d by (intro trep_cong) auto
  moreover have "crep (rbn (take_place a m s)) k m = crep (rbn s1) k m"
    using s2(2) dl d by (intro crep_cong) auto
  ultimately show "treerep (take_place a m s) (plug k (RNode l m c r))"
    using s2(1,3) dl d K r m by (simp add: treerep_plug m1 rootrep_def)
  show "rbn (take_place a m s) b = rbn s b" if "b \<notin> insert m (set (addrs l))"
    using that s2(2) dl by (simp add: m1)
qed

text \<open>Moving the leftmost node \<open>m\<close> out of the right subtree, when it is not its root.\<close>

definition lift_min :: "addr \<Rightarrow> addr \<Rightarrow> rbst \<Rightarrow> rbst" where
  "lift_min old m s =
     (let q = rb_parent m s;
          child = right_of m s;
          s = (if child \<noteq> NULL then rb_set_parent child q s else s);
          s = set_left q child s;
          s = set_right m (right_of old s) s
      in rb_set_parent (right_of old s) m s)"

lemma rb_erase_two_unfold:
  "rb_erase_two old m s =
     (let s1 = relink_left_first (rb_parent old s) old m s;
          q = (if rb_parent m s1 = old then m else rb_parent m s1);
          s2 = take_place old m (if rb_parent m s1 = old then s1 else lift_min old m s1)
      in if rb_color m s1 = RB_BLACK then rb_erase_color (right_of m s1) q s2 else Some s2)"
proof -
  have take: "take_place old m s = rb_set_parent (left_of old s') m s'"
    if "s' = set_left m (left_of old t) t" "t = set_pc m (rb_parent_color (rbn s old)) s" for s s' t
    using that by (auto simp: take_place_def write_defs left_of_def)
  show ?thesis
    unfolding rb_erase_two_def relink_left_first_def Let_def lift_min_def
    by (simp add: take [OF refl refl] eq_commute [of old])
qed

lemma trep_plug_inner: "trep h p (plug j t) \<Longrightarrow> j \<noteq> [] \<Longrightarrow> trep h (cptr j) t"
proof (induction j arbitrary: t)
  case (Cons f j)
  then show ?case by (cases f; cases "j = []") (auto dest: Cons.IH)
qed simp

lemma take_place_j:
  assumes K: "crep (rbn s) k m" "rootrep s k m" and T: "trep (rbn s) a l" "l \<noteq> RLeaf"
    and r: "trep (rbn s) a (plug j (RNode RLeaf m mc mr))" "j \<noteq> []" "list_all is_FL j"
    and a: "aligned a" "left_of a s = ptr l" "right_of a s = ptr (plug j mr)"
      "rb_parent_color (rbn s a) = pack (cptr k) c"
    and d: "distinct (cleft k @ (addrs l @ a # m # addrs (plug j mr)) @ cright k)"
  shows "treerep (take_place a m (lift_min a m s)) (plug k (RNode l m c (plug j mr)))"
    and "b \<notin> insert m (set (addrs l) \<union> set (addrs (plug j mr))) \<Longrightarrow>
         rbn (take_place a m (lift_min a m s)) b = rbn s b"
proof -
  define q where "q = cptr j"
  define s1 where "s1 = (if ptr mr \<noteq> NULL then rb_set_parent (ptr mr) q s else s)"
  define s2 where "s2 = set_left q (ptr mr) s1"
  define s3 where "s3 = set_right m (ptr (plug j mr)) s2"
  define s4 where "s4 = rb_set_parent (ptr (plug j mr)) m s3"
  have aj: "addrs (plug j t) = addrs t @ cright j" for t
    using cleft_FL [OF r(3)] by (simp add: addrs_plug)
  have qj: "q \<in> set (cright j)" using cptr_mem [OF r(2)] cleft_FL [OF r(3)] by (simp add: q_def)
  have M: "rbn s m = \<lparr>rb_parent_color = pack q mc, rb_right = ptr mr, rb_left = NULL\<rparr>"
    "m \<noteq> NULL" "aligned m" "trep (rbn s) m mr"
    using trep_plug_inner [OF r(1,2)] by (simp_all add: q_def)
  have q: "aligned q" using trep_aligned [OF r(1)] qj by (simp add: aj)
  have D: "distinct (cleft k @ (addrs l @ a # m # addrs mr @ cright j) @ cright k)"
    using d by (simp add: aj)
  have dm: "distinct (addrs mr)" using D by simp
  note s1 = reparent [OF M(4) dm M(3), where q = q, folded s1_def]
  have s1q: "rbn s1 q = rbn s q" using s1(2) qj D by auto
  have s2: "rbn s2 = (rbn s1)(q := (rbn s q)\<lparr>rb_left := ptr mr\<rparr>)" "rb_root s2 = rb_root s"
    using s1(3) s1q by (simp_all add: s2_def write_defs)
  have t2: "trep (rbn s2) a (plug j mr)"
  proof (rule trep_drop_min [OF r(1,3,2)])
    show "distinct (addrs mr @ cright j)" using D by auto
    show "rbn s2 (cptr j) = (rbn s (cptr j))\<lparr>rb_left := ptr mr\<rparr>" by (simp add: s2 q_def)
    have "q \<notin> set (addrs mr)" using qj D by auto
    then show "trep (rbn s2) (cptr j) mr" using s1(1) by (simp add: s2 q_def [symmetric])
    show "rbn s2 b = rbn s b" if "b \<in> set (cright j)" "b \<noteq> cptr j" for b
      using that s1(2) D by (auto simp: s2 q_def)
  qed
  have s3: "rbn s3 = (rbn s2)(m := (rbn s2 m)\<lparr>rb_right := ptr (plug j mr)\<rparr>)" "rb_root s3 = rb_root s"
    using s2 by (simp_all add: s3_def write_defs)
  have m3: "m \<notin> set (addrs (plug j mr))" "m \<noteq> a" using D by (auto simp: aj)
  have t3: "trep (rbn s3) a (plug j mr)" using t2 m3 by (simp add: s3)
  have nz: "ptr (plug j mr) \<noteq> NULL" using trep_ptr [OF t2] r(2) by simp
  have dj: "distinct (addrs (plug j mr))" using D by (auto simp: aj)
  note s4 = reparent [OF t3 dj a(1), where q = m, unfolded if_P [OF nz], folded s4_def]
  have fr: "rbn s4 b = rbn s b" if "b \<noteq> m" "b \<notin> set (addrs (plug j mr))" for b
    using that s4(2) s1(2) qj by (auto simp: s3 s2 aj)
  have m4: "right_of m s4 = ptr (plug j mr)" using s4(2) m3 by (simp add: s3 right_of_def)
  have a4: "rbn s4 a = rbn s a" using D by (intro fr) (auto simp: aj)
  have "right_of a s1 = ptr (plug j mr)" "right_of a s2 = ptr (plug j mr)" "right_of a s3 = ptr (plug j mr)"
    using a(3) s1(2) [of a] D qj by (auto simp: s3 s2 right_of_def)
  then have lm: "lift_min a m s = s4"
    using M q by (simp add: lift_min_def Let_def s1_def s2_def s3_def s4_def field_defs)
  have K4: "crep (rbn s4) k m" "rootrep s4 k m"
  proof -
    show "rootrep s4 k m" using K(2) s4(3) s3(2) by (simp add: rootrep_def)
    have "rbn s4 b = rbn s b" if "b \<in> set (cleft k) \<union> set (cright k)" for b
      using that D by (intro fr) (auto simp: aj)
    then show "crep (rbn s4) k m" using K(1) crep_cong by blast
  qed
  have l4: "trep (rbn s4) a l"
  proof -
    have "rbn s4 b = rbn s b" if "b \<in> set (addrs l)" for b
      using that D by (intro fr) (auto simp: aj)
    then show ?thesis using T(1) trep_cong by blast
  qed
  have pc4: "rb_parent_color (rbn s4 a) = pack (cptr k) c" "left_of a s4 = ptr l"
    using a a4 by (simp_all add: left_of_def)
  have d4: "distinct (cleft k @ (addrs l @ m # addrs (plug j mr)) @ cright k)"
    using d by simp
  note tp = treerep_take_place [OF K4 M(2,3) a(1) l4 T(2) s4(1) m4 pc4 d4, folded lm]
  show "treerep (take_place a m (lift_min a m s)) (plug k (RNode l m c (plug j mr)))"
    by (rule tp(1))
  show "rbn (take_place a m (lift_min a m s)) b = rbn s b"
    if "b \<notin> insert m (set (addrs l) \<union> set (addrs (plug j mr)))"
    using that tp(2) [of b] fr [of b] lm by simp
qed

definition unlink_two :: "addr \<Rightarrow> addr \<Rightarrow> rbst \<Rightarrow> rbst" where
  "unlink_two a m s =
     (let s1 = relink_left_first (rb_parent a s) a m s
      in take_place a m (if rb_parent m s1 = a then s1 else lift_min a m s1))"

lemma treerep_unlink_two:
  assumes T: "treerep s (plug k (RNode l a c (plug j (RNode RLeaf m mc mr))))"
    and l: "l \<noteq> RLeaf" and j: "list_all is_FL j"
  shows "treerep (unlink_two a m s) (plug (j @ FR l m c # k) mr)"
    and "rb_erase_two a m s =
      (if cbit mc = RB_BLACK then rb_erase_color (ptr mr) (cptr (j @ FR l m c # k)) (unlink_two a m s)
       else Some (unlink_two a m s))"
    and "b \<notin> set (addrs (plug k (RNode l a c (plug j (RNode RLeaf m mc mr))))) \<Longrightarrow>
      rbn (unlink_two a m s) b = rbn s b"
proof -
  let ?r = "plug j (RNode RLeaf m mc mr)"
  define s1 where "s1 = relink_left_first (cptr k) a m s"
  have aj: "addrs (plug j t) = addrs t @ cright j" for t
    using cleft_FL [OF j] by (simp add: addrs_plug)
  have D: "distinct (cleft k @ (addrs l @ a # m # addrs mr @ cright j) @ cright k)"
    using T by (simp add: treerep_plug aj)
  have k: "crep (rbn s) k a" and root: "rootrep s k a" and nz: "a \<noteq> NULL" "aligned a"
    and tl: "trep (rbn s) a l" and tr: "trep (rbn s) a ?r"
    using T by (auto simp: treerep_plug)
  have ak: "a \<notin> set (cleft k) \<union> set (cright k)" "distinct (cleft k @ cright k)" using D by auto
  note s1 = relink_left_first [OF k nz(1) ak root, where y = m, folded s1_def]
  have par: "rb_parent a s = cptr k" using treerep_node(1) [OF T] .
  have fr: "rbn s1 b = rbn s b" if "b \<in> set (addrs l) \<union> set (addrs ?r) \<union> {a}" for b
    using that D by (intro s1(3)) (auto simp: aj)
  have l1: "trep (rbn s1) a l" using tl fr trep_cong [of l "rbn s1" "rbn s" a] by blast
  have r1: "trep (rbn s1) a ?r" using tr fr trep_cong [of ?r "rbn s1" "rbn s" a] by blast
  have "m \<in> set (addrs ?r)" by (simp add: aj)
  then have nm: "rbn s1 m = rbn s m" "m \<noteq> NULL" "aligned m"
    using fr trep_nonnull [OF tr] trep_aligned [OF tr] by auto
  note na = treerep_node_eq(1) [OF T]
  have a1: "rbn s1 a = \<lparr>rb_parent_color = pack (cptr k) c, rb_right = ptr ?r, rb_left = ptr l\<rparr>"
    using fr [of a] na by simp
  have pc1: "rb_parent_color (rbn s1 a) = pack (cptr k) c" "left_of a s1 = ptr l" "right_of a s1 = ptr ?r"
    using a1 by (simp_all add: left_of_def right_of_def)
  define q where "q = (if j = [] then a else cptr j)"
  have M: "trep (rbn s1) q (RNode RLeaf m mc mr)"
    using r1 trep_plug_inner [OF r1] by (cases "j = []") (simp_all add: q_def)
  have qa: "aligned q"
    using nz(2) cptr_mem [of j] cleft_FL [OF j] trep_aligned [OF r1] by (auto simp: q_def aj)
  have rm: "rb_parent m s1 = q" "rb_color m s1 = cbit mc" "right_of m s1 = ptr mr"
    using M qa by (simp_all add: field_defs)
  have q_a: "q = a \<longleftrightarrow> j = []"
    using cptr_mem [of j] cleft_FL [OF j] D by (auto simp: q_def)
  have un: "unlink_two a m s = take_place a m (if j = [] then s1 else lift_min a m s1)"
    by (simp add: unlink_two_def par s1_def [symmetric] rm q_a)
  have "treerep (unlink_two a m s) (plug k (RNode l m c (plug j mr))) \<and>
    (b \<notin> set (addrs (plug k (RNode l a c ?r))) \<longrightarrow> rbn (unlink_two a m s) b = rbn s b)" for b
  proof (cases "j = []")
    case True
    have d: "distinct (cleft k @ (addrs l @ m # addrs mr) @ cright k)" using D True by simp
    have "trep (rbn s1) m mr" using M by simp
    note tp = treerep_take_place [OF s1(1,2) nm(2,3) nz(2) l1 l this rm(3) pc1(1,2) d]
    show ?thesis using tp True s1(3) [of b] by (simp add: un addrs_plug)
  next
    case False
    have d: "distinct (cleft k @ (addrs l @ a # m # addrs (plug j mr)) @ cright k)"
      using D by (simp add: aj)
    have "right_of a s1 = ptr (plug j mr)" using pc1(3) False by (simp add: ptr_plug)
    note tp = take_place_j [OF s1(1,2) l1 l r1 False j nz(2) pc1(2) this pc1(1) d]
    show ?thesis using tp False s1(3) [of b] by (simp add: un addrs_plug aj)
  qed
  then show "treerep (unlink_two a m s) (plug (j @ FR l m c # k) mr)"
    and "b \<notin> set (addrs (plug k (RNode l a c ?r))) \<Longrightarrow> rbn (unlink_two a m s) b = rbn s b"
    by simp_all
  have "cptr (j @ FR l m c # k) = (if j = [] then m else q)" by (cases j) (auto simp: q_def)
  then show "rb_erase_two a m s =
      (if cbit mc = RB_BLACK then rb_erase_color (ptr mr) (cptr (j @ FR l m c # k)) (unlink_two a m s)
       else Some (unlink_two a m s))"
    by (simp add: rb_erase_two_unfold unlink_two_def par s1_def [symmetric] rm q_a Let_def)
qed

lemma ccol_rename: "ccol (j @ FR l m c # k) = ccol (j @ FR l a c # k)"
  by (cases j) auto

lemma cinv_rename:
  "cinvc (j @ FR l m c # k) = cinvc (j @ FR l a c # k)"
  "cinvh (j @ FR l m c # k) n = cinvh (j @ FR l a c # k) n"
  by (induction j arbitrary: n) (auto simp: ccol_rename [of _ l m c k a])

lemma rb_erase_two_refines:
  assumes T: "treerep s (plug k (RNode l a c (plug j (RNode RLeaf m mc mr))))"
    and inv: "rbtree (plug k (RNode l a c (plug j (RNode RLeaf m mc mr))))"
    and l: "l \<noteq> RLeaf" and j: "list_all is_FL j"
  shows "\<exists>s'. rb_erase_two a m s = Some s' \<and>
    erased a s (plug k (RNode l a c (plug j (RNode RLeaf m mc mr)))) s' (erase_hole (j @ FR l m c # k) mc mr)"
proof -
  let ?t = "plug k (RNode l a c (plug j (RNode RLeaf m mc mr)))"
  let ?k = "j @ FR l m c # k"
  have eq: "?t = plug (j @ FR l a c # k) (RNode RLeaf m mc mr)" by simp
  note un = treerep_unlink_two [OF T l j]
  have i: "invc (RNode RLeaf m mc mr)" "cinvc ?k" "invh (RNode RLeaf m mc mr)"
    "cinvh ?k (bheight (RNode RLeaf m mc mr))"
    using inv unfolding eq rbtree_def invc_plug invh_plug
      cinv_rename [where a = m and m = a] by blast+
  have h: "invh mr" "invc mr" "cinvh ?k (bheight mr + (if mc = Black then 1 else 0))"
    "mc = Red \<Longrightarrow> colour mr = Black" "(if ?k = [] then mc else fcol (last ?k)) = Black"
    using i rbtree_root_black [OF inv [unfolded eq]] by (auto split: if_splits)
  from rb_erase_color_hole [OF un(1) h(1) i(2) h(3)] un(2) obtain s' where
    s': "rb_erase_two a m s = Some s'"
    "rep_step (unlink_two a m s) (plug ?k mr) s' (erase_hole ?k mc mr)" by auto
  have cj: "cleft j = []" by (rule cleft_FL [OF j])
  have "a \<notin> set (cleft k)" "a \<notin> set (addrs l)" using T by (auto simp: treerep_plug)
  then have "addrs (erase_hole ?k mc mr) = remove1 a (addrs ?t)"
    by (simp add: addrs_erase_hole addrs_plug remove1_append cleft_append cright_append cj)
  moreover have "rbtree (erase_hole ?k mc mr)" by (rule rbtree_erase_hole [OF h(1,2) i(2) h(3,4,5)])
  moreover have "rbn s' b = rbn s b" if "b \<notin> set (addrs ?t)" for b
  proof -
    have "b \<notin> set (addrs (plug ?k mr))"
      using that by (auto simp: addrs_plug cleft_append cright_append cj)
    then show ?thesis using s'(2) un(3) [OF that] by (simp add: rep_step_def)
  qed
  ultimately show ?thesis using s' by (auto simp: erased_def rep_step_def)
qed

subsection \<open>The removal\<close>

lemma addrs_plug_ex: "a \<in> set (addrs t) \<Longrightarrow> \<exists>k l c r. t = plug k (RNode l a c r)"
proof (induction t)
  case (RNode l b c r)
  then consider "a = b" | "a \<in> set (addrs l)" | "a \<in> set (addrs r)" by auto
  then show ?case
  proof cases
    case 1
    then have "RNode l b c r = plug [] (RNode l a c r)" by simp
    then show ?thesis by blast
  next
    case 2
    with RNode.IH(1) obtain k m d n where "l = plug k (RNode m a d n)" by blast
    then have "RNode l b c r = plug (k @ [FL b c r]) (RNode m a d n)" by simp
    then show ?thesis by blast
  next
    case 3
    with RNode.IH(2) obtain k m d n where "r = plug k (RNode m a d n)" by blast
    then have "RNode l b c r = plug (k @ [FR l b c]) (RNode m a d n)" by simp
    then show ?thesis by blast
  qed
qed simp

text \<open>What is left of the tree: the place of the hole and what is below it.\<close>

inductive hole_of :: "addr \<Rightarrow> rtree \<Rightarrow> frame list \<Rightarrow> rbcolor \<Rightarrow> rtree \<Rightarrow> bool" for a where
  hole_one: "u = l \<and> r = RLeaf \<or> u = r \<and> l = RLeaf \<Longrightarrow> hole_of a (plug k (RNode l a c r)) k c u"
| hole_two: "l \<noteq> RLeaf \<Longrightarrow> list_all is_FL j \<Longrightarrow>
    hole_of a (plug k (RNode l a c (plug j (RNode RLeaf m mc mr)))) (j @ FR l m c # k) mc mr"

theorem rb_erase_hole:
  assumes T: "treerep s t" and inv: "rbtree t" and a: "a \<in> set (addrs t)"
  shows "\<exists>s' k c u. rb_erase a s = Some s' \<and> hole_of a t k c u \<and> erased a s t s' (erase_hole k c u)"
proof -
  obtain k l c r where t: "t = plug k (RNode l a c r)" using addrs_plug_ex [OF a] by blast
  note n = treerep_node(3,4) [OF T [unfolded t]]
  have L: "treerep s (plug (FL a c r # k) l)" and R: "treerep s (plug (FR l a c # k) r)"
    using T t by simp_all
  show ?thesis
  proof (cases "l = RLeaf \<or> r = RLeaf")
    case True
    let ?u = "if l = RLeaf then r else l"
    have "rb_erase a s = rb_erase_one a (ptr ?u) s"
      using True n treerep_null_iff [OF L] treerep_null_iff [OF R] by (auto simp: rb_erase_def)
    moreover have "hole_of a t k c ?u" unfolding t using True by (intro hole_one) auto
    ultimately show ?thesis
      using rb_erase_one_refines [of s k l a c r ?u] T inv True unfolding t by fastforce
  next
    case False
    then obtain j m mc mr where r: "r = plug j (RNode RLeaf m mc mr)" "list_all is_FL j"
      using leftmost_ex by blast
    have "rb_leftmost (ptr r) s = Some m" using rb_leftmost_plug [of s "FR l a c # k"] R r by simp
    then have "rb_erase a s = rb_erase_two a m s"
      using n False treerep_null_iff [OF L] treerep_null_iff [OF R] by (simp add: rb_erase_def)
    moreover have "hole_of a t (j @ FR l m c # k) mc mr" unfolding t r(1) using False r(2) by (intro hole_two) auto
    ultimately show ?thesis
      using rb_erase_two_refines [of s k l a c j m mc mr] T inv r False unfolding t by metis
  qed
qed

theorem rb_erase_refines:
  assumes "treerep s t" and "rbtree t" and "a \<in> set (addrs t)"
  shows "\<exists>s' t'. rb_erase a s = Some s' \<and> erased a s t s' t'"
  using rb_erase_hole [OF assms] by blast

end
