(* ===== verification/RbIter.thy ===== *)
theory RbIter
  imports RbErase
begin

text \<open>
  The remaining functions of \<open>src/rbtree.c\<close> on represented trees, stated over the inorder
  sequence of nodes: first, last, next and previous node, replacing a node by a new one, and
  linking plus rebalancing seen as one insertion.
\<close>

subsection \<open>First and last\<close>

lemma rb_leftmost_hd:
  assumes "treerep s (plug k t)" and "t \<noteq> RLeaf"
  shows "rb_leftmost (ptr t) s = Some (hd (addrs t))"
proof -
  obtain j m c r where t: "t = plug j (RNode RLeaf m c r)" "list_all is_FL j"
    using leftmost_ex [OF assms(2)] by blast
  then have "hd (addrs t) = m" by (simp add: addrs_plug cleft_FL)
  with rb_leftmost_plug [of s k j m c r] assms(1) t show ?thesis by simp
qed

lemma rb_rightmost_last:
  assumes "treerep s (plug k t)" and "t \<noteq> RLeaf"
  shows "rb_rightmost (ptr t) s = Some (last (addrs t))"
  using assms
proof (induction t arbitrary: k)
  case (RNode l a c r)
  have R: "treerep s (plug (FR l a c # k) r)" using RNode.prems by simp
  note n = treerep_node(4) [OF RNode.prems(1)]
  show ?case
  proof (cases "r = RLeaf")
    case True
    then show ?thesis using n by (subst rb_rightmost.simps) simp
  next
    case False
    then have "addrs r \<noteq> []" by (cases r) auto
    then show ?thesis
      using RNode.IH(2) [OF R False] n treerep_null_iff [OF R] False
      by (subst rb_rightmost.simps) simp
  qed
qed simp

lemma addrs_Nil [simp]: "addrs t = [] \<longleftrightarrow> t = RLeaf"
  by (cases t) auto

lemma treerep_root: "treerep s t \<Longrightarrow> rb_root s = NULL \<longleftrightarrow> t = RLeaf"
  by (auto simp: treerep_def trep_ptr)

definition first_or_null :: "addr list \<Rightarrow> addr" where
  "first_or_null xs = (if xs = [] then NULL else hd xs)"

definition last_or_null :: "addr list \<Rightarrow> addr" where
  "last_or_null xs = (if xs = [] then NULL else last xs)"

lemma rb_first_refines: "treerep s t \<Longrightarrow> rb_first s = Some (first_or_null (addrs t))"
  using rb_leftmost_hd [of s "[]" t] treerep_root [of s t]
  by (auto simp: rb_first_def first_or_null_def treerep_def)

lemma rb_last_refines: "treerep s t \<Longrightarrow> rb_last s = Some (last_or_null (addrs t))"
  using rb_rightmost_last [of s "[]" t] treerep_root [of s t]
  by (auto simp: rb_last_def last_or_null_def treerep_def)

subsection \<open>Next and previous\<close>

lemma cptr_neq:
  assumes "treerep s (plug k (RNode l a c r))"
  shows "cptr k \<noteq> a"
proof (cases "k = []")
  case True
  then show ?thesis using treerep_node_eq(2) [OF assms] by auto
next
  case False
  with cptr_mem [OF False] assms show ?thesis by (auto simp: treerep_plug)
qed

lemma rb_climb_right_plug:
  assumes "treerep s (plug k t)" and "t \<noteq> RLeaf"
  shows "rb_climb_right (ptr t) s = Some (first_or_null (cright k))"
  using assms
proof (induction k arbitrary: t)
  case Nil
  then obtain l a c r where t: "t = RNode l a c r" by (cases t) auto
  then have "rb_parent a s = NULL" using treerep_node(1) [of s "[]" l a c r] Nil by simp
  then show ?case using t by (subst rb_climb_right.simps) (simp add: first_or_null_def)
next
  case (Cons f k)
  then obtain l a c r where t: "t = RNode l a c r" by (cases t) auto
  have "treerep s (plug (f # k) (RNode l a c r))" using Cons.prems(1) by (simp only: t)
  note p = treerep_node(1) [OF this]
  show ?case
  proof (cases f)
    case (FL b d w)
    then have T: "treerep s (plug k (RNode t b d w))" using Cons.prems by simp
    have "right_of b s \<noteq> a" using treerep_FL(5,6) [OF T] t by auto
    then show ?thesis
      using p FL t by (subst rb_climb_right.simps) (simp add: first_or_null_def)
  next
    case (FR w b d)
    then have T: "treerep s (plug k (RNode w b d t))" using Cons.prems by simp
    have "rb_climb_right b s = Some (first_or_null (cright k))" using Cons.IH [OF T] by simp
    then show ?thesis
      using p FR t treerep_FL(1,5) [OF T] by (subst rb_climb_right.simps) simp
  qed
qed

lemma rb_climb_left_plug:
  assumes "treerep s (plug k t)" and "t \<noteq> RLeaf"
  shows "rb_climb_left (ptr t) s = Some (last_or_null (cleft k))"
  using assms
proof (induction k arbitrary: t)
  case Nil
  then obtain l a c r where t: "t = RNode l a c r" by (cases t) auto
  then have "rb_parent a s = NULL" using treerep_node(1) [of s "[]" l a c r] Nil by simp
  then show ?case using t by (subst rb_climb_left.simps) (simp add: last_or_null_def)
next
  case (Cons f k)
  then obtain l a c r where t: "t = RNode l a c r" by (cases t) auto
  have "treerep s (plug (f # k) (RNode l a c r))" using Cons.prems(1) by (simp only: t)
  note p = treerep_node(1) [OF this]
  show ?case
  proof (cases f)
    case (FR w b d)
    then have T: "treerep s (plug k (RNode w b d t))" using Cons.prems by simp
    have "left_of b s \<noteq> a" using treerep_FL(4,7) [OF T] t by auto
    then show ?thesis
      using p FR t by (subst rb_climb_left.simps) (simp add: last_or_null_def)
  next
    case (FL b d w)
    then have T: "treerep s (plug k (RNode t b d w))" using Cons.prems by simp
    have "rb_climb_left b s = Some (last_or_null (cleft k))" using Cons.IH [OF T] by simp
    then show ?thesis
      using p FL t treerep_FL(1,4) [OF T] by (subst rb_climb_left.simps) simp
  qed
qed

lemma addrs_at:
  assumes "distinct (addrs t)" and "addrs t = xs @ a # ys"
  obtains k l c r where "t = plug k (RNode l a c r)" "xs = cleft k @ addrs l" "ys = addrs r @ cright k"
proof -
  from assms(2) obtain k l c r where t: "t = plug k (RNode l a c r)"
    using addrs_plug_ex [of a t] by auto
  have eq: "(cleft k @ addrs l) @ a # (addrs r @ cright k) = xs @ a # ys"
    using assms(2) by (simp add: t addrs_plug)
  moreover have "a \<notin> set (cleft k @ addrs l)" "a \<notin> set (addrs r @ cright k)"
    using assms(1) by (auto simp: t addrs_plug)
  ultimately have "cleft k @ addrs l = xs \<and> addrs r @ cright k = ys"
    using append_Cons_eq_iff by metis
  with t that show thesis by blast
qed

theorem rb_next_refines:
  assumes "treerep s t" and "addrs t = xs @ a # ys"
  shows "rb_next a s = Some (first_or_null ys)"
proof -
  have "distinct (addrs t)" using assms(1) by (simp add: treerep_def)
  from addrs_at [OF this assms(2)] obtain k l c r where
    t: "t = plug k (RNode l a c r)" and ys: "ys = addrs r @ cright k" by metis
  have T: "treerep s (plug k (RNode l a c r))" using assms(1) t by simp
  then have R: "treerep s (plug (FR l a c # k) r)" by simp
  have "rb_next a s = (if r \<noteq> RLeaf then rb_leftmost (ptr r) s else rb_climb_right a s)"
    using treerep_node(1,4) [OF T] cptr_neq [OF T] treerep_null_iff [OF R] by (simp add: rb_next_def)
  then show ?thesis
    using rb_leftmost_hd [OF R] rb_climb_right_plug [OF T] by (auto simp: ys first_or_null_def)
qed

theorem rb_prev_refines:
  assumes "treerep s t" and "addrs t = xs @ a # ys"
  shows "rb_prev a s = Some (last_or_null xs)"
proof -
  have "distinct (addrs t)" using assms(1) by (simp add: treerep_def)
  from addrs_at [OF this assms(2)] obtain k l c r where
    t: "t = plug k (RNode l a c r)" and xs: "xs = cleft k @ addrs l" by metis
  have T: "treerep s (plug k (RNode l a c r))" using assms(1) t by simp
  then have L: "treerep s (plug (FL a c r # k) l)" by simp
  have "rb_prev a s = (if l \<noteq> RLeaf then rb_rightmost (ptr l) s else rb_climb_left a s)"
    using treerep_node(1,3) [OF T] cptr_neq [OF T] treerep_null_iff [OF L] by (simp add: rb_prev_def)
  then show ?thesis
    using rb_rightmost_last [OF L] rb_climb_left_plug [OF T] by (auto simp: xs last_or_null_def)
qed

subsection \<open>Replacing a node\<close>

lemma treerep_replace_node:
  assumes T: "treerep s (plug k (RNode l a c r))" and x: "x \<noteq> NULL" "aligned x"
    and fresh: "x \<notin> set (addrs (plug k (RNode l a c r)))"
  shows "treerep (rb_replace_node a x s) (plug k (RNode l x c r))"
proof -
  define s1 where "s1 = relink_left_first (cptr k) a x s"
  define s2 where "s2 = (if ptr l \<noteq> NULL then rb_set_parent (ptr l) x s1 else s1)"
  define s3 where "s3 = (if ptr r \<noteq> NULL then rb_set_parent (ptr r) x s2 else s2)"
  have D: "distinct (cleft k @ (addrs l @ a # addrs r) @ cright k)" using T by (simp add: treerep_plug)
  have k: "crep (rbn s) k a" and root: "rootrep s k a" and nz: "a \<noteq> NULL" "aligned a"
    and tl: "trep (rbn s) a l" and tr: "trep (rbn s) a r"
    using T by (auto simp: treerep_plug)
  have ak: "a \<notin> set (cleft k) \<union> set (cright k)" "distinct (cleft k @ cright k)" using D by auto
  have xn: "x \<noteq> a" "x \<notin> set (addrs l)" "x \<notin> set (addrs r)" "x \<notin> set (cleft k)" "x \<notin> set (cright k)"
    using fresh by (auto simp: addrs_plug)
  note s1 = relink_left_first [OF k nz(1) ak root, where y = x, folded s1_def]
  have fr1: "rbn s1 b = rbn s b" if "b \<in> set (addrs l) \<union> set (addrs r) \<union> {a}" for b
    using that D by (intro s1(3)) auto
  have l1: "trep (rbn s1) a l" using tl fr1 trep_cong [of l "rbn s1" "rbn s" a] by blast
  have dl: "distinct (addrs l)" and dr: "distinct (addrs r)" using D by simp_all
  note s2 = reparent [OF l1 dl nz(2), where q = x, folded s2_def]
  have fr2: "rbn s2 b = rbn s b" if "b \<in> set (addrs r) \<union> {a}" for b
    using that s2(2) [of b] fr1 [of b] D by auto
  have r2: "trep (rbn s2) a r" using tr fr2 trep_cong [of r "rbn s2" "rbn s" a] by blast
  note s3 = reparent [OF r2 dr nz(2), where q = x, folded s3_def]
  have l3: "trep (rbn s3) x l"
  proof -
    have "rbn s3 b = rbn s2 b" if "b \<in> set (addrs l)" for b using that D by (intro s3(2)) auto
    then show ?thesis using s2(1) trep_cong [of l "rbn s3" "rbn s2" x] by blast
  qed
  have k3: "crep (rbn s3) k x"
  proof -
    have "rbn s3 b = rbn s1 b" if "b \<in> set (cleft k) \<union> set (cright k)" for b
    proof -
      have "b \<notin> set (addrs l)" "b \<notin> set (addrs r)" using that D by auto
      then show ?thesis using s2(2) s3(2) by simp
    qed
    then show ?thesis using s1(1) crep_cong [of k "rbn s3" "rbn s1" x] by blast
  qed
  have a3: "rbn s3 a = \<lparr>rb_parent_color = pack (cptr k) c, rb_right = ptr r, rb_left = ptr l\<rparr>"
    using fr2 [of a] s3(2) [of a] D treerep_node_eq(1) [OF T] by simp
  have f: "left_of a s1 = ptr l" "right_of a s2 = ptr r"
    using fr1 [of a] fr2 [of a] treerep_node_eq(1) [OF T] by (simp_all add: left_of_def right_of_def)
  have eq: "rb_replace_node a x s = s3\<lparr>rbn := (rbn s3)(x := rbn s3 a)\<rparr>"
    unfolding rb_replace_node_def Let_def treerep_node(1) [OF T]
      relink_left_first_def [symmetric] s1_def [symmetric] f(1) s2_def [symmetric] f(2)
      s3_def [symmetric] by (rule refl)
  show ?thesis
    using k3 l3 s3(1,3) s2(3) s1(2) x xn D
    by (simp add: eq a3 treerep_plug rootrep_def)
qed

theorem rb_replace_node_refines:
  assumes "treerep s t" and "addrs t = xs @ a # ys" and "x \<noteq> NULL" and "aligned x"
    and "x \<notin> set (addrs t)"
  shows "\<exists>t'. treerep (rb_replace_node a x s) t' \<and> addrs t' = xs @ x # ys \<and> (rbtree t \<longrightarrow> rbtree t')"
proof -
  have "distinct (addrs t)" using assms(1) by (simp add: treerep_def)
  from addrs_at [OF this assms(2)] obtain k l c r where
    t: "t = plug k (RNode l a c r)" and s: "xs = cleft k @ addrs l" "ys = addrs r @ cright k" by metis
  let ?t = "plug k (RNode l x c r)"
  have "treerep (rb_replace_node a x s) ?t" using treerep_replace_node assms t by blast
  moreover have "addrs ?t = xs @ x # ys" by (simp add: addrs_plug s)
  moreover have "rbtree t \<longrightarrow> rbtree ?t"
    by (auto simp: t rbtree_def invc_plug invh_plug colour_plug)
  ultimately show ?thesis by blast
qed

subsection \<open>Insertion as a whole\<close>

theorem rb_insert_shape:
  assumes T: "treerep s (plug k RLeaf)" and inv: "rbtree (plug k RLeaf)"
    and x: "x \<noteq> NULL" "aligned x" "x \<notin> set (addrs (plug k RLeaf))"
  shows "\<exists>s'. rb_insert_color x (rb_link_node x (cptr k) (hole_link k) s) = Some s' \<and>
    treerep s' (ins_fix k (RNode RLeaf x Red RLeaf)) \<and> rbtree (ins_fix k (RNode RLeaf x Red RLeaf)) \<and>
    addrs (ins_fix k (RNode RLeaf x Red RLeaf)) = cleft k @ x # cright k \<and>
    (\<forall>b. b \<notin> insert x (set (addrs (plug k RLeaf))) \<longrightarrow> rbn s' b = rbn s b)"
proof -
  define s1 where "s1 = rb_link_node x (cptr k) (hole_link k) s"
  note l = treerep_link [OF T x, folded s1_def]
  have i: "cinvc k" "cinvh k 0" "k \<noteq> [] \<longrightarrow> fcol (last k) = Black"
    using inv by (auto simp: rbtree_def invc_plug invh_plug colour_plug)
  obtain s' where s': "rb_insert_color x s1 = Some s'"
    "rep_step s1 (plug k (RNode RLeaf x Red RLeaf)) s' (ins_fix k (RNode RLeaf x Red RLeaf))"
    using rb_insert_color_refines [OF l(1) _ i(3)] by auto
  moreover have "rbtree (ins_fix k (RNode RLeaf x Red RLeaf))"
    using i by (intro rbtree_ins_fix) simp_all
  moreover have "addrs (ins_fix k (RNode RLeaf x Red RLeaf)) = cleft k @ x # cright k"
    by (simp add: addrs_ins_fix addrs_plug)
  moreover have "rbn s' b = rbn s b" if "b \<notin> insert x (set (addrs (plug k RLeaf)))" for b
    using that s'(2) l(2) [of b] by (simp add: rep_step_def addrs_plug)
  ultimately show ?thesis by (auto simp: s1_def [symmetric] rep_step_def)
qed

theorem rb_insert_refines:
  assumes "treerep s (plug k RLeaf)" and "rbtree (plug k RLeaf)"
    and "x \<noteq> NULL" "aligned x" "x \<notin> set (addrs (plug k RLeaf))"
  shows "\<exists>s' t'. rb_insert_color x (rb_link_node x (cptr k) (hole_link k) s) = Some s' \<and>
    treerep s' t' \<and> rbtree t' \<and> addrs t' = cleft k @ x # cright k \<and>
    (\<forall>b. b \<notin> insert x (set (addrs (plug k RLeaf))) \<longrightarrow> rbn s' b = rbn s b)"
  using rb_insert_shape [OF assms] by blast

end
