(* ===== verification/RbTpl.thy ===== *)
theory RbTpl
  imports RbIter
begin

text \<open>
  The code templates of \<open>src/rbtree_tpl.h\<close>: linking a unit into a tree ordered by a key,
  querying, unlinking, updating, travelling and destroying. The key of a unit is read through
  a function of its node's address (\<open>container_of\<close> composed with the field), so each macro
  is one definition with the key or the comparison as an argument.
\<close>

subsection \<open>Comparisons\<close>

definition cmp_key :: "(addr \<Rightarrow> 'k::linorder) \<Rightarrow> addr \<Rightarrow> addr \<Rightarrow> int" where
  "cmp_key key u p = (if key u < key p then -1 else if key u > key p then 1 else 0)"

text \<open>\<open>strcmp\<close> on C strings, given as lists of unsigned bytes without the terminating zero.\<close>

fun strcmp :: "8 word list \<Rightarrow> 8 word list \<Rightarrow> int" where
  "strcmp [] [] = 0"
| "strcmp [] (b # bs) = - uint b"
| "strcmp (a # as) [] = uint a"
| "strcmp (a # as) (b # bs) = (if a = b then strcmp as bs else uint a - uint b)"

subsection \<open>Linking\<close>

text \<open>
  The search loop: \<open>_pp_add_node\<close> is the link under inspection, \<open>_p_parent\<close> the node that
  holds it. \<open>Inl ()\<close> is the \<open>return -1\<close> on an equal key.
\<close>

partial_function (option) link_search ::
  "(addr \<Rightarrow> addr \<Rightarrow> int) \<Rightarrow> addr \<Rightarrow> rb_link \<Rightarrow> addr \<Rightarrow> rbst \<Rightarrow> (unit + rb_link \<times> addr) option" where
  "link_search cmp unit pp parent s =
     (let p = read_link pp s in
      if p \<noteq> NULL then
        (if cmp unit p < 0 then link_search cmp unit (LeftLink p) p s
         else if cmp unit p > 0 then link_search cmp unit (RightLink p) p s
         else Some (Inl ()))
      else Some (Inr (pp, parent)))"

definition LINK_RBTREENODE :: "(addr \<Rightarrow> addr \<Rightarrow> int) \<Rightarrow> addr \<Rightarrow> rbst \<Rightarrow> (int \<times> rbst) option" where
  "LINK_RBTREENODE cmp unit s =
     (case link_search cmp unit RootLink NULL s of
        None \<Rightarrow> None
      | Some (Inl _) \<Rightarrow> Some (-1, s)
      | Some (Inr (pp, parent)) \<Rightarrow>
          (case rb_insert_color unit (rb_link_node unit parent pp s) of
             None \<Rightarrow> None
           | Some s' \<Rightarrow> Some (0, s')))"

definition LINK_RBTREENODE_INT :: "(addr \<Rightarrow> int) \<Rightarrow> addr \<Rightarrow> rbst \<Rightarrow> (int \<times> rbst) option" where
  "LINK_RBTREENODE_INT key = LINK_RBTREENODE (cmp_key key)"

definition LINK_RBTREENODE_PTR :: "(addr \<Rightarrow> addr) \<Rightarrow> addr \<Rightarrow> rbst \<Rightarrow> (int \<times> rbst) option" where
  "LINK_RBTREENODE_PTR key = LINK_RBTREENODE (cmp_key key)"

definition LINK_RBTREENODE_STRING ::
  "(addr \<Rightarrow> 8 word list) \<Rightarrow> addr \<Rightarrow> rbst \<Rightarrow> (int \<times> rbst) option" where
  "LINK_RBTREENODE_STRING str = LINK_RBTREENODE (\<lambda>u p. strcmp (str u) (str p))"

text \<open>The variant that allows duplicates sends an equal key to the right.\<close>

partial_function (option) link_search_dup ::
  "(addr \<Rightarrow> int) \<Rightarrow> addr \<Rightarrow> rb_link \<Rightarrow> addr \<Rightarrow> rbst \<Rightarrow> (rb_link \<times> addr) option" where
  "link_search_dup key unit pp parent s =
     (let p = read_link pp s in
      if p \<noteq> NULL then
        (if key unit < key p then link_search_dup key unit (LeftLink p) p s
         else if key unit > key p then link_search_dup key unit (RightLink p) p s
         else link_search_dup key unit (RightLink p) p s)
      else Some (pp, parent))"

definition LINK_RBTREENODE_INT_ALLOWDUPLICATE ::
  "(addr \<Rightarrow> int) \<Rightarrow> addr \<Rightarrow> rbst \<Rightarrow> (int \<times> rbst) option" where
  "LINK_RBTREENODE_INT_ALLOWDUPLICATE key unit s =
     (case link_search_dup key unit RootLink NULL s of
        None \<Rightarrow> None
      | Some (pp, parent) \<Rightarrow>
          (case rb_insert_color unit (rb_link_node unit parent pp s) of
             None \<Rightarrow> None
           | Some s' \<Rightarrow> Some (0, s')))"

subsection \<open>Querying, unlinking, travelling\<close>

partial_function (option) query_search ::
  "(addr \<Rightarrow> addr \<Rightarrow> int) \<Rightarrow> addr \<Rightarrow> addr \<Rightarrow> rbst \<Rightarrow> addr option" where
  "query_search cmp unit query_node s =
     (if query_node \<noteq> NULL then
        (if cmp unit query_node < 0 then query_search cmp unit (left_of query_node s) s
         else if cmp unit query_node > 0 then query_search cmp unit (right_of query_node s) s
         else Some query_node)
      else Some NULL)"

definition QUERY_RBTREENODE :: "(addr \<Rightarrow> addr \<Rightarrow> int) \<Rightarrow> addr \<Rightarrow> rbst \<Rightarrow> addr option" where
  "QUERY_RBTREENODE cmp unit s = query_search cmp unit (rb_root s) s"

definition QUERY_RBTREENODE_INT :: "(addr \<Rightarrow> int) \<Rightarrow> addr \<Rightarrow> rbst \<Rightarrow> addr option" where
  "QUERY_RBTREENODE_INT key = QUERY_RBTREENODE (cmp_key key)"

definition QUERY_RBTREENODE_PTR :: "(addr \<Rightarrow> addr) \<Rightarrow> addr \<Rightarrow> rbst \<Rightarrow> addr option" where
  "QUERY_RBTREENODE_PTR key = QUERY_RBTREENODE (cmp_key key)"

definition QUERY_RBTREENODE_STRING :: "(addr \<Rightarrow> 8 word list) \<Rightarrow> addr \<Rightarrow> rbst \<Rightarrow> addr option" where
  "QUERY_RBTREENODE_STRING str = QUERY_RBTREENODE (\<lambda>u p. strcmp (str u) (str p))"

definition UNLINK_RBTREENODE :: "addr \<Rightarrow> rbst \<Rightarrow> rbst option" where
  "UNLINK_RBTREENODE unit s = rb_erase unit s"

definition UPDATE_RBTREENODE ::
  "(addr \<Rightarrow> rbst \<Rightarrow> rbst option) \<Rightarrow> (addr \<Rightarrow> rbst \<Rightarrow> (int \<times> rbst) option) \<Rightarrow>
   addr \<Rightarrow> rbst \<Rightarrow> (int \<times> rbst) option" where
  "UPDATE_RBTREENODE remove add unit s =
     (case remove unit s of None \<Rightarrow> None | Some s' \<Rightarrow> add unit s')"

definition TRAVEL_RBTREENODE :: "addr \<Rightarrow> rbst \<Rightarrow> addr option" where
  "TRAVEL_RBTREENODE unit s = (if unit = NULL then rb_first s else rb_next unit s)"

text \<open>
  \<open>DESTROY_RBTREE\<close> returns the nodes in the order in which they were handed to the free
  function, together with the final state.
\<close>

partial_function (option) DESTROY_RBTREE :: "addr list \<Rightarrow> rbst \<Rightarrow> (addr list \<times> rbst) option" where
  "DESTROY_RBTREE freed s =
     (case rb_first s of
        None \<Rightarrow> None
      | Some p \<Rightarrow>
          if p \<noteq> NULL then
            (case rb_erase p s of
               None \<Rightarrow> None
             | Some s' \<Rightarrow> DESTROY_RBTREE (freed @ [p]) s')
          else Some (freed, s))"

subsection \<open>The searches on represented trees\<close>

lemma read_hole_link:
  assumes "treerep s (plug k t)"
  shows "read_link (hole_link k) s = ptr t"
proof (cases k rule: cleft.cases)
  case 1
  then show ?thesis using assms by (simp add: treerep_def)
next
  case (2 a c r k')
  then show ?thesis using treerep_node(3) [of s k' t a c r] assms by simp
next
  case (3 l a c k')
  then show ?thesis using treerep_node(4) [of s k' l a c t] assms by simp
qed

fun descend_dup :: "(addr \<Rightarrow> int) \<Rightarrow> addr \<Rightarrow> frame list \<Rightarrow> rtree \<Rightarrow> frame list" where
  "descend_dup key x k RLeaf = k"
| "descend_dup key x k (RNode l a c r) =
     (if key x < key a then descend_dup key x (FL a c r # k) l
      else descend_dup key x (FR l a c # k) r)"

lemma plug_descend_dup [simp]: "plug (descend_dup key x k t) RLeaf = plug k t"
  by (induction t arbitrary: k) auto

lemma link_search_dup_refines:
  assumes "treerep s (plug k t)"
  shows "link_search_dup key x (hole_link k) (cptr k) s =
    Some (hole_link (descend_dup key x k t), cptr (descend_dup key x k t))"
  using assms
proof (induction t arbitrary: k)
  case RLeaf
  then show ?case using read_hole_link [OF RLeaf] by (subst link_search_dup.simps) simp
next
  case (RNode l a c r)
  have L: "treerep s (plug (FL a c r # k) l)" and R: "treerep s (plug (FR l a c # k) r)"
    using RNode.prems by simp_all
  show ?case
    using read_hole_link [OF RNode.prems] treerep_node_eq(2) [OF RNode.prems]
      RNode.IH(1) [OF L] RNode.IH(2) [OF R]
    by (subst link_search_dup.simps) simp
qed

lemma sorted_hole_dup:
  assumes "sorted (map key (addrs t))"
    and "\<And>a. a \<in> set (cleft k) \<Longrightarrow> key a \<le> key x" and "\<And>a. a \<in> set (cright k) \<Longrightarrow> key x < key a"
  shows "(\<forall>a \<in> set (cleft (descend_dup key x k t)). key a \<le> key x) \<and>
    (\<forall>a \<in> set (cright (descend_dup key x k t)). key x < key a)"
  using assms
proof (induction t arbitrary: k)
  case (RNode l a c r)
  show ?case
  proof (cases "key x < key a")
    case True
    have "\<forall>b \<in> set (addrs r). key a \<le> key b" using RNode.prems(1) by (simp add: sorted_append)
    then show ?thesis
      using RNode.IH(1) [of "FL a c r # k"] RNode.prems True by (force simp: sorted_append)
  next
    case False
    have "\<forall>b \<in> set (addrs l). key b \<le> key a" using RNode.prems(1) by (simp add: sorted_append)
    then show ?thesis
      using RNode.IH(2) [of "FR l a c # k"] RNode.prems False by (force simp: sorted_append)
  qed
qed simp

text \<open>Where a new unit goes: behind every unit whose key is not greater.\<close>

definition insert_after :: "(addr \<Rightarrow> int) \<Rightarrow> addr \<Rightarrow> addr list \<Rightarrow> addr list" where
  "insert_after key x xs =
     takeWhile (\<lambda>a. key a \<le> key x) xs @ x # dropWhile (\<lambda>a. key a \<le> key x) xs"

lemma set_insert_after: "set (insert_after key x xs) = insert x (set xs)"
proof -
  have "set (takeWhile (\<lambda>a. key a \<le> key x) xs) \<union> set (dropWhile (\<lambda>a. key a \<le> key x) xs) = set xs"
    by (metis set_append takeWhile_dropWhile_id)
  then show ?thesis by (auto simp: insert_after_def)
qed

lemma insert_after_split:
  "(\<forall>a \<in> set xs. key a \<le> key x) \<Longrightarrow> (\<forall>a \<in> set ys. key x < key a) \<Longrightarrow>
   insert_after key x (xs @ ys) = xs @ x # ys"
  unfolding insert_after_def by (cases ys) (auto simp: takeWhile_append dropWhile_append)

lemma sorted_insert_after:
  assumes "sorted (map key xs)"
  shows "sorted (map key (insert_after key x xs))"
  using assms
proof (induction xs)
  case (Cons a xs)
  show ?case
  proof (cases "key a \<le> key x")
    case True
    then have "insert_after key x (a # xs) = a # insert_after key x xs" by (simp add: insert_after_def)
    then show ?thesis using Cons True by (auto simp: set_insert_after)
  next
    case False
    then show ?thesis using Cons.prems by (auto simp: insert_after_def)
  qed
qed (simp add: insert_after_def)

text \<open>What a timer tree is: a represented red-black tree whose inorder is sorted by the key.\<close>

definition timer_tree :: "(addr \<Rightarrow> int) \<Rightarrow> rbst \<Rightarrow> addr list \<Rightarrow> bool" where
  "timer_tree key s xs \<longleftrightarrow>
     (\<exists>t. treerep s t \<and> rbtree t \<and> addrs t = xs) \<and> sorted (map key xs)"

lemma timer_tree_distinct: "timer_tree key s xs \<Longrightarrow> distinct xs"
  by (auto simp: timer_tree_def treerep_def)

lemma timer_tree_nonnull: "timer_tree key s xs \<Longrightarrow> NULL \<notin> set xs"
  by (auto simp: timer_tree_def treerep_def trep_nonnull)

lemma timer_tree_cong:
  assumes "timer_tree key s xs" and "\<And>a. a \<in> set xs \<Longrightarrow> key' a = key a"
    and "\<And>a. a \<in> set xs \<Longrightarrow> rbn s' a = rbn s a" and "rb_root s' = rb_root s"
  shows "timer_tree key' s' xs"
proof -
  obtain t where t: "treerep s t" "rbtree t" "addrs t = xs" using assms(1) by (auto simp: timer_tree_def)
  have "treerep s' t" using t treerep_frame [of t s' s] assms(3,4) by simp
  moreover have "map key' xs = map key xs" using assms(2) by simp
  moreover have "sorted (map key xs)" using assms(1) by (simp add: timer_tree_def)
  ultimately show ?thesis using t unfolding timer_tree_def by metis
qed

theorem LINK_INT_ALLOWDUPLICATE_refines:
  assumes T: "timer_tree key s xs" and x: "x \<noteq> NULL" "aligned x" "x \<notin> set xs"
  shows "\<exists>s'. LINK_RBTREENODE_INT_ALLOWDUPLICATE key x s = Some (0, s') \<and>
    timer_tree key s' (insert_after key x xs) \<and>
    (\<forall>b. b \<notin> insert x (set xs) \<longrightarrow> rbn s' b = rbn s b)"
proof -
  obtain t where t: "treerep s t" "rbtree t" "addrs t = xs" and srt: "sorted (map key xs)"
    using T by (auto simp: timer_tree_def)
  define k where "k = descend_dup key x [] t"
  have p: "plug k RLeaf = t" by (simp add: k_def)
  have "link_search_dup key x RootLink NULL s = Some (hole_link k, cptr k)"
    using link_search_dup_refines [of s "[]" t key x] t by (simp add: k_def)
  moreover obtain s' t' where s': "rb_insert_color x (rb_link_node x (cptr k) (hole_link k) s) = Some s'"
    "treerep s' t'" "rbtree t'" "addrs t' = cleft k @ x # cright k"
    "\<forall>b. b \<notin> insert x (set xs) \<longrightarrow> rbn s' b = rbn s b"
    using rb_insert_refines [of s k x] t x p by auto
  moreover have xs: "xs = cleft k @ cright k" using t(3) p addrs_plug [of k RLeaf] by simp
  have "(\<forall>a \<in> set (cleft k). key a \<le> key x) \<and> (\<forall>a \<in> set (cright k). key x < key a)"
    unfolding k_def using srt t(3) by (intro sorted_hole_dup) auto
  then have "insert_after key x xs = cleft k @ x # cright k" by (simp add: xs insert_after_split)
  moreover have "sorted (map key (insert_after key x xs))" using srt by (rule sorted_insert_after)
  ultimately show ?thesis
    by (auto simp: LINK_RBTREENODE_INT_ALLOWDUPLICATE_def timer_tree_def)
qed

lemma sorted_remove1_map: "sorted (map key xs) \<Longrightarrow> sorted (map key (remove1 a xs))"
  by (induction xs) (auto dest: notin_set_remove1 simp: notin_set_remove1 in_set_remove1 split: if_splits
      intro: set_remove1_subset [THEN subsetD])

theorem UNLINK_refines:
  assumes T: "timer_tree key s xs" and a: "a \<in> set xs"
  shows "\<exists>s'. UNLINK_RBTREENODE a s = Some s' \<and> timer_tree key s' (remove1 a xs) \<and>
    (\<forall>b. b \<notin> set xs \<longrightarrow> rbn s' b = rbn s b)"
proof -
  obtain t where t: "treerep s t" "rbtree t" "addrs t = xs" and srt: "sorted (map key xs)"
    using T by (auto simp: timer_tree_def)
  obtain s' t' where "rb_erase a s = Some s'" "erased a s t s' t'"
    using rb_erase_refines [OF t(1,2)] a t(3) by blast
  then show ?thesis
    using t(3) sorted_remove1_map [OF srt]
    by (auto simp: UNLINK_RBTREENODE_def timer_tree_def erased_def)
qed

lemma timer_first: "timer_tree key s xs \<Longrightarrow> rb_first s = Some (first_or_null xs)"
  using rb_first_refines by (auto simp: timer_tree_def)

subsection \<open>Unique keys\<close>

text \<open>A comparison that agrees with the order of a key.\<close>

definition cmp_agrees :: "(addr \<Rightarrow> addr \<Rightarrow> int) \<Rightarrow> (addr \<Rightarrow> 'k::linorder) \<Rightarrow> bool" where
  "cmp_agrees cmp key \<longleftrightarrow>
     (\<forall>u p. (cmp u p < 0 \<longleftrightarrow> key u < key p) \<and> (cmp u p > 0 \<longleftrightarrow> key u > key p))"

lemma cmp_key_agrees: "cmp_agrees (cmp_key key) key"
  by (auto simp: cmp_agrees_def cmp_key_def)

fun descend :: "(addr \<Rightarrow> 'k::linorder) \<Rightarrow> addr \<Rightarrow> frame list \<Rightarrow> rtree \<Rightarrow> frame list option" where
  "descend key x k RLeaf = Some k"
| "descend key x k (RNode l a c r) =
     (if key x < key a then descend key x (FL a c r # k) l
      else if key a < key x then descend key x (FR l a c # k) r
      else None)"

lemma plug_descend: "descend key x k t = Some k' \<Longrightarrow> plug k' RLeaf = plug k t"
  by (induction t arbitrary: k) (auto split: if_splits)

lemma link_search_refines:
  assumes "treerep s (plug k t)" and "cmp_agrees cmp key"
  shows "link_search cmp x (hole_link k) (cptr k) s =
    Some (case descend key x k t of None \<Rightarrow> Inl () | Some k' \<Rightarrow> Inr (hole_link k', cptr k'))"
  using assms(1)
proof (induction t arbitrary: k)
  case RLeaf
  then show ?case using read_hole_link [OF RLeaf] by (subst link_search.simps) simp
next
  case (RNode l a c r)
  have L: "treerep s (plug (FL a c r # k) l)" and R: "treerep s (plug (FR l a c # k) r)"
    using RNode.prems by simp_all
  have cmp: "cmp x a < 0 \<longleftrightarrow> key x < key a" "cmp x a > 0 \<longleftrightarrow> key a < key x"
    using assms(2) by (auto simp: cmp_agrees_def)
  show ?case
    using read_hole_link [OF RNode.prems] treerep_node_eq(2) [OF RNode.prems]
      RNode.IH(1) [OF L] RNode.IH(2) [OF R] cmp
    by (subst link_search.simps) (auto simp: not_less)
qed

lemma sorted_hole:
  assumes "sorted_wrt (<) (map key (addrs t))" and "descend key x k t = Some k'"
    and "\<And>a. a \<in> set (cleft k) \<Longrightarrow> key a < key x" and "\<And>a. a \<in> set (cright k) \<Longrightarrow> key x < key a"
  shows "(\<forall>a \<in> set (cleft k'). key a < key x) \<and> (\<forall>a \<in> set (cright k'). key x < key a)"
  using assms
proof (induction t arbitrary: k)
  case (RNode l a c r)
  have ord: "\<forall>b \<in> set (addrs l). key b < key a" "\<forall>b \<in> set (addrs r). key a < key b"
    "sorted_wrt (<) (map key (addrs l))" "sorted_wrt (<) (map key (addrs r))"
    using RNode.prems(1) by (auto simp: sorted_wrt_append)
  show ?case
  proof (cases "key x < key a")
    case True
    then show ?thesis
      using RNode.IH(1) [of "FL a c r # k"] RNode.prems(2-4) ord by force
  next
    case False
    then have "key a < key x" using RNode.prems(2) by (auto split: if_splits)
    then show ?thesis
      using RNode.IH(2) [of "FR l a c # k"] RNode.prems(2-4) ord False by force
  qed
qed auto

lemma descend_None_iff:
  assumes "sorted_wrt (<) (map key (addrs t))"
  shows "descend key x k t = None \<longleftrightarrow> key x \<in> key ` set (addrs t)"
  using assms
proof (induction t arbitrary: k)
  case (RNode l a c r)
  have ord: "\<forall>b \<in> set (addrs l). key b < key a" "\<forall>b \<in> set (addrs r). key a < key b"
    "sorted_wrt (<) (map key (addrs l))" "sorted_wrt (<) (map key (addrs r))"
    using RNode.prems(1) by (auto simp: sorted_wrt_append)
  show ?case
    using RNode.IH(1) [OF ord(3)] RNode.IH(2) [OF ord(4)] ord(1,2)
    by (cases "key x < key a"; cases "key a < key x") (auto simp: image_iff)
qed simp

text \<open>An index tree: no two units share a key.\<close>

definition index_tree :: "(addr \<Rightarrow> 'k::linorder) \<Rightarrow> rbst \<Rightarrow> addr list \<Rightarrow> bool" where
  "index_tree key s xs \<longleftrightarrow>
     (\<exists>t. treerep s t \<and> rbtree t \<and> addrs t = xs) \<and> sorted_wrt (<) (map key xs)"

theorem LINK_RBTREENODE_refines:
  assumes T: "index_tree key s xs" and cmp: "cmp_agrees cmp key"
    and x: "x \<noteq> NULL" "aligned x" "x \<notin> set xs"
  shows "\<exists>s'. if key x \<in> key ` set xs then LINK_RBTREENODE cmp x s = Some (-1, s)
    else LINK_RBTREENODE cmp x s = Some (0, s') \<and>
      (\<exists>ys zs. xs = ys @ zs \<and> index_tree key s' (ys @ x # zs)) \<and>
      (\<forall>b. b \<notin> insert x (set xs) \<longrightarrow> rbn s' b = rbn s b)"
proof -
  obtain t where t: "treerep s t" "rbtree t" "addrs t = xs" and srt: "sorted_wrt (<) (map key xs)"
    using T by (auto simp: index_tree_def)
  have srt': "sorted_wrt (<) (map key (addrs t))" using srt t(3) by simp
  have search: "link_search cmp x RootLink NULL s =
      Some (case descend key x [] t of None \<Rightarrow> Inl () | Some k \<Rightarrow> Inr (hole_link k, cptr k))"
    using link_search_refines [of s "[]" t, OF _ cmp] t(1) by simp
  show ?thesis
  proof (cases "key x \<in> key ` set xs")
    case True
    then have "descend key x [] t = None" using descend_None_iff [OF srt'] t(3) by simp
    with search True show ?thesis by (simp add: LINK_RBTREENODE_def)
  next
    case False
    then obtain k where k: "descend key x [] t = Some k"
      using descend_None_iff [OF srt', of x "[]"] t(3) by auto
    have p: "plug k RLeaf = t" using plug_descend [OF k] by simp
    obtain s' t' where s': "rb_insert_color x (rb_link_node x (cptr k) (hole_link k) s) = Some s'"
      "treerep s' t'" "rbtree t'" "addrs t' = cleft k @ x # cright k"
      "\<forall>b. b \<notin> insert x (set xs) \<longrightarrow> rbn s' b = rbn s b"
      using rb_insert_refines [of s k x] t x p by auto
    have xs: "xs = cleft k @ cright k" using t(3) p addrs_plug [of k RLeaf] by simp
    have h: "(\<forall>a \<in> set (cleft k). key a < key x) \<and> (\<forall>a \<in> set (cright k). key x < key a)"
      using sorted_hole [OF srt' k] by simp
    have "sorted_wrt (<) (map key (cleft k @ x # cright k))"
      using srt h by (auto simp: xs sorted_wrt_append)
    then have "index_tree key s' (cleft k @ x # cright k)" using s' by (auto simp: index_tree_def)
    then show ?thesis
      using False search k s'(1,5) xs by (auto simp: LINK_RBTREENODE_def)
  qed
qed

theorem QUERY_RBTREENODE_refines:
  assumes T: "index_tree key s xs" and cmp: "cmp_agrees cmp key"
  shows "\<exists>a. QUERY_RBTREENODE cmp x s = Some a \<and>
    (if key x \<in> key ` set xs then a \<in> set xs \<and> key a = key x else a = NULL)"
proof -
  obtain t where t: "treerep s t" "addrs t = xs" and srt: "sorted_wrt (<) (map key xs)"
    using T by (auto simp: index_tree_def)
  have "\<exists>a. query_search cmp x (ptr u) s = Some a \<and>
      (if key x \<in> key ` set (addrs u) then a \<in> set (addrs u) \<and> key a = key x else a = NULL)"
    if "treerep s (plug k u)" "sorted_wrt (<) (map key (addrs u))" for k u
    using that
  proof (induction u arbitrary: k)
    case RLeaf
    then show ?case by (subst query_search.simps) simp
  next
    case (RNode l a c r)
    have L: "treerep s (plug (FL a c r # k) l)" and R: "treerep s (plug (FR l a c # k) r)"
      using RNode.prems by simp_all
    have ord: "\<forall>b \<in> set (addrs l). key b < key a" "\<forall>b \<in> set (addrs r). key a < key b"
      "sorted_wrt (<) (map key (addrs l))" "sorted_wrt (<) (map key (addrs r))"
      using RNode.prems(2) by (auto simp: sorted_wrt_append)
    have c: "cmp x a < 0 \<longleftrightarrow> key x < key a" "cmp x a > 0 \<longleftrightarrow> key a < key x"
      using cmp by (auto simp: cmp_agrees_def)
    note n = treerep_node(3,4) [OF RNode.prems(1)] treerep_node_eq(2) [OF RNode.prems(1)]
    consider "key x < key a" | "key a < key x" | "key x = key a" by force
    then show ?case
    proof cases
      case 1
      then have "key x \<in> key ` set (addrs (RNode l a c r)) \<longleftrightarrow> key x \<in> key ` set (addrs l)"
        using ord by auto
      with 1 c n RNode.IH(1) [OF L ord(3)] show ?thesis
        by (subst query_search.simps) auto
    next
      case 2
      then have "key x \<in> key ` set (addrs (RNode l a c r)) \<longleftrightarrow> key x \<in> key ` set (addrs r)"
        using ord by auto
      with 2 c n RNode.IH(2) [OF R ord(4)] show ?thesis
        by (subst query_search.simps) auto
    next
      case 3
      with c n show ?thesis by (subst query_search.simps) auto
    qed
  qed
  from this [of "[]" t] t srt show ?thesis
    unfolding QUERY_RBTREENODE_def by (auto simp: treerep_def)
qed

subsection \<open>Travelling and destroying\<close>

theorem TRAVEL_refines:
  assumes "treerep s t" and "addrs t = xs @ a # ys"
  shows "TRAVEL_RBTREENODE NULL s = Some (first_or_null (addrs t))"
    and "TRAVEL_RBTREENODE a s = Some (first_or_null ys)"
proof -
  have "a \<noteq> NULL" using assms trep_nonnull [of "rbn s" NULL t] by (auto simp: treerep_def)
  then show "TRAVEL_RBTREENODE NULL s = Some (first_or_null (addrs t))"
    and "TRAVEL_RBTREENODE a s = Some (first_or_null ys)"
    using rb_first_refines [OF assms(1)] rb_next_refines [OF assms]
    by (simp_all add: TRAVEL_RBTREENODE_def)
qed

theorem DESTROY_refines:
  assumes "treerep s t" and "rbtree t"
  shows "\<exists>s'. DESTROY_RBTREE freed s = Some (freed @ addrs t, s') \<and> rb_root s' = NULL"
  using assms
proof (induction "length (addrs t)" arbitrary: freed s t)
  case 0
  then have "t = RLeaf" by simp
  then show ?case
    using 0 rb_first_refines [of s t] by (subst DESTROY_RBTREE.simps) (simp add: first_or_null_def treerep_def)
next
  case (Suc n)
  then obtain a xs where xs: "addrs t = a # xs" by (cases "addrs t") auto
  have a: "a \<noteq> NULL" using Suc.prems(1) trep_nonnull [of "rbn s" NULL t] xs by (auto simp: treerep_def)
  obtain s1 t1 where e: "rb_erase a s = Some s1" "erased a s t s1 t1"
    using rb_erase_refines [OF Suc.prems, of a] xs by auto
  then have t1: "addrs t1 = xs" "treerep s1 t1" "rbtree t1" using xs by (simp_all add: erased_def)
  obtain s' where "DESTROY_RBTREE (freed @ [a]) s1 = Some ((freed @ [a]) @ xs, s')" "rb_root s' = NULL"
    using Suc.hyps(1) [of t1 s1 "freed @ [a]"] Suc.hyps(2) t1 xs by auto
  then show ?case
    using rb_first_refines [OF Suc.prems(1)] e(1) a xs
    by (subst DESTROY_RBTREE.simps) (simp add: first_or_null_def)
qed

end
