(* ===== verification/Sessions.thy ===== *)
theory Sessions
  imports KList RbTpl
begin

text \<open>
  The sessions of an IO-multiplexing worker: \<open>struct TcpdaemonAcceptedSession\<close>, the arrays
  it is carved from, the free list, and the tree of open sessions ordered by the time they
  began (\<open>tcpdaemon_in.h\<close>, \<open>rbtree_ins.c\<close> and the session functions of
  \<open>tcpdaemon_lib.c\<close>). A session is named by its address; the list node and the tree node
  embedded in it live at fixed offsets, as on an LP64 machine.
\<close>

subsection \<open>Layout\<close>

record session =
  sock :: int
  sess_data_ptr :: addr
  begin_timestamp :: "32 word"

definition SESSIONCOUNT_OF_ARRAY :: nat where "SESSIONCOUNT_OF_ARRAY = 1024"

definition sizeof_session :: nat where "sizeof_session = 88"
definition sizeof_array :: nat where "sizeof_array = 90128"

text \<open>\<open>& (p->unused_node)\<close>, \<open>& (p->begin_timestamp_rbnode)\<close>, \<open>& (p->prealloc_node)\<close>.\<close>

definition unused_node :: "addr \<Rightarrow> addr" where "unused_node p = p + 8"
definition tnode :: "addr \<Rightarrow> addr" where "tnode p = p + 64"
definition prealloc_node :: "addr \<Rightarrow> addr" where "prealloc_node p = p + 90112"

text \<open>\<open>container_of\<close> for the three members.\<close>

definition session_of_unused :: "addr \<Rightarrow> addr" where "session_of_unused n = n - 8"
definition session_of_tnode :: "addr \<Rightarrow> addr" where "session_of_tnode n = n - 64"
definition array_of_prealloc :: "addr \<Rightarrow> addr" where "array_of_prealloc n = n - 90112"

text \<open>
  The memory these functions touch. \<open>unused_list\<close> and \<open>array_list\<close> are the addresses of
  the two list heads embedded in the environment structure.
\<close>

record tdmem =
  sess :: "addr \<Rightarrow> session"
  lists :: lheap
  timers :: rbst
  unused_list :: addr
  array_list :: addr

definition zero_session :: session where
  "zero_session = \<lparr>sock = 0, sess_data_ptr = NULL, begin_timestamp = 0\<rparr>"

definition in_block :: "addr \<Rightarrow> nat \<Rightarrow> addr \<Rightarrow> bool" where
  "in_block p n a \<longleftrightarrow> a - p < of_nat n"

text \<open>\<open>memset( p , 0x00 , n )\<close>.\<close>

definition memset0 :: "addr \<Rightarrow> nat \<Rightarrow> tdmem \<Rightarrow> tdmem" where
  "memset0 p n m =
     m\<lparr>sess := (\<lambda>a. if in_block p n a then zero_session else sess m a),
       lists := (\<lambda>a. if in_block p n a then \<lparr>lnext = NULL, lprev = NULL\<rparr> else lists m a),
       timers := (timers m)\<lparr>rbn := (\<lambda>a. if in_block p n a
          then \<lparr>rb_parent_color = 0, rb_right = NULL, rb_left = NULL\<rparr> else rbn (timers m) a)\<rparr>\<rparr>"

subsection \<open>The session pool\<close>

text \<open>The loop that puts \<open>n\<close> consecutive sessions, from \<open>p\<close> on, at the tail of the free list.\<close>

fun add_unused_sessions :: "nat \<Rightarrow> addr \<Rightarrow> tdmem \<Rightarrow> tdmem" where
  "add_unused_sessions 0 p m = m"
| "add_unused_sessions (Suc n) p m =
     add_unused_sessions n (p + of_nat sizeof_session)
       (m\<lparr>lists := list_add_tail (unused_node p) (unused_list m) (lists m)\<rparr>)"

text \<open>The argument \<open>block\<close> is what \<open>malloc\<close> returned.\<close>

definition IncreaseTcpdaemonAcceptedSessions :: "addr \<Rightarrow> tdmem \<Rightarrow> int \<times> tdmem" where
  "IncreaseTcpdaemonAcceptedSessions block m =
     (if block = NULL then (-1, m)
      else
        (let m = memset0 block sizeof_array m;
             m = m\<lparr>lists := list_add_tail (prealloc_node block) (array_list m) (lists m)\<rparr>;
             m = add_unused_sessions SESSIONCOUNT_OF_ARRAY block m
         in (0, m)))"

definition FetchTcpdaemonAcceptedSessionUnused :: "addr \<Rightarrow> tdmem \<Rightarrow> addr \<times> tdmem" where
  "FetchTcpdaemonAcceptedSessionUnused block m =
     (let (nret, m) =
            (if list_empty (unused_list m) (lists m)
             then IncreaseTcpdaemonAcceptedSessions block m else (0, m))
      in if nret \<noteq> 0 then (NULL, m)
         else
           (let p = session_of_unused (lnext (lists m (unused_list m)));
                m = m\<lparr>lists := list_del (unused_node p) (lists m)\<rparr>;
                m = memset0 p sizeof_session m
            in (p, m)))"

definition SetTcpdaemonAcceptedSessionUnused :: "addr \<Rightarrow> tdmem \<Rightarrow> tdmem" where
  "SetTcpdaemonAcceptedSessionUnused p m =
     m\<lparr>lists := list_add_tail (unused_node p) (unused_list m) (lists m)\<rparr>"

text \<open>
  \<open>list_for_each_safe\<close> over the arrays. The result lists the blocks handed to \<open>free\<close>.
\<close>

partial_function (option) free_arrays ::
  "addr \<Rightarrow> addr \<Rightarrow> addr list \<Rightarrow> tdmem \<Rightarrow> (addr list \<times> tdmem) option" where
  "free_arrays p_curr p_next freed m =
     (if p_curr \<noteq> array_list m then
        (let p = array_of_prealloc p_curr;
             m = m\<lparr>lists := list_del (prealloc_node p) (lists m)\<rparr>
         in free_arrays p_next (lnext (lists m p_next)) (freed @ [p]) m)
      else Some (freed, m))"

definition FreeAllTcpdaemonAcceptedSessionArray :: "tdmem \<Rightarrow> (addr list \<times> tdmem) option" where
  "FreeAllTcpdaemonAcceptedSessionArray m =
     (let p_curr = lnext (lists m (array_list m))
      in free_arrays p_curr (lnext (lists m p_curr)) [] m)"

subsection \<open>The tree of open sessions\<close>

definition time_key :: "tdmem \<Rightarrow> addr \<Rightarrow> int" where
  "time_key m n = sint (begin_timestamp (sess m (session_of_tnode n)))"

definition LinkTcpdaemonAcceptedSessionBeginTimestampTreeNode ::
  "addr \<Rightarrow> tdmem \<Rightarrow> (int \<times> tdmem) option" where
  "LinkTcpdaemonAcceptedSessionBeginTimestampTreeNode p m =
     (case LINK_RBTREENODE_INT_ALLOWDUPLICATE (time_key m) (tnode p) (timers m) of
        None \<Rightarrow> None
      | Some (r, s) \<Rightarrow> Some (r, m\<lparr>timers := s\<rparr>))"

definition UnlinkTcpdaemonAcceptedSessionBeginTimestampTreeNode :: "addr \<Rightarrow> tdmem \<Rightarrow> tdmem option" where
  "UnlinkTcpdaemonAcceptedSessionBeginTimestampTreeNode p m =
     (case UNLINK_RBTREENODE (tnode p) (timers m) of
        None \<Rightarrow> None
      | Some s \<Rightarrow> Some (m\<lparr>timers := s\<rparr>))"

text \<open>
  The comparison is on \<open>int\<close>: \<open>begin_timestamp + timeout_seconds\<close> is a 32-bit signed sum.
\<close>

definition GetTimeoutAcceptedSession :: "32 word \<Rightarrow> 32 word \<Rightarrow> tdmem \<Rightarrow> addr option" where
  "GetTimeoutAcceptedSession timeout_seconds now_timestamp m =
     (case rb_first (timers m) of
        None \<Rightarrow> None
      | Some p_curr \<Rightarrow>
          if p_curr = NULL then Some NULL
          else
            (let p = session_of_tnode p_curr
             in if sint now_timestamp \<ge> sint (begin_timestamp (sess m p) + timeout_seconds)
                then Some p else Some NULL))"

end
