(* ===== verification/Pool.thy ===== *)
theory Pool
  imports Sessions
begin

text \<open>
  The invariant of the session pool: which sessions exist, which are on the free list, which
  are in the tree of open sessions, and that no session is both. Every operation of
  Sessions is shown to keep it and to do what it promises on the lists of sessions. The proofs
  rest on the queue interface of KList (\<open>kl\<close>) and the tree theorems of RbTpl.
\<close>

subsection \<open>Addresses\<close>

lemma unat_add_off:
  fixes a :: addr
  assumes "unat a + n < 2 ^ 64"
  shows "unat (a + of_nat n) = unat a + n"
proof -
  have n: "unat (of_nat n :: addr) = n" using assms by (simp add: unat_of_nat)
  then have "unat a + unat (of_nat n :: addr) < 2 ^ LENGTH(64)" using assms by simp
  then show ?thesis using n unat_add_lem [of a "of_nat n"] by simp
qed

lemma in_block_iff:
  assumes "unat p + n \<le> 2 ^ 64" and "n < 2 ^ 64"
  shows "in_block p n a \<longleftrightarrow> unat p \<le> unat a \<and> unat a < unat p + n"
proof -
  have n: "unat (of_nat n :: addr) = n" using assms(2) by (simp add: unat_of_nat)
  have "unat (a - p) = (if unat p \<le> unat a then unat a - unat p else unat a + 2 ^ 64 - unat p)"
    by (simp add: unat_sub_if' word_le_nat_alt)
  moreover have "unat a < 2 ^ LENGTH(64)" by (rule unsigned_less)
  ultimately show ?thesis
    using assms n by (auto simp: in_block_def word_less_nat_alt)
qed

lemma aligned_mod: "aligned a \<longleftrightarrow> unat a mod 4 = 0"
proof -
  have "unat (a AND 3) = unat a AND unat (3 :: addr)" by (rule unsigned_and_eq)
  also have "\<dots> = unat a AND mask 2" by (simp add: mask_eq_exp_minus_1)
  also have "\<dots> = unat a mod 4" by (simp only: take_bit_eq_mask [symmetric] take_bit_eq_mod) simp
  finally show ?thesis by (simp add: aligned_def unat_eq_zero [symmetric])
qed

text \<open>The blocks from \<open>malloc\<close>: in range, aligned, apart from each other and from the heads.\<close>

definition block_ok :: "tdmem \<Rightarrow> addr \<Rightarrow> bool" where
  "block_ok m b \<longleftrightarrow> b \<noteq> NULL \<and> unat b mod 8 = 0 \<and> unat b + sizeof_array < 2 ^ 64 \<and>
     \<not> in_block b sizeof_array (unused_list m) \<and> \<not> in_block b sizeof_array (array_list m)"

definition apart :: "addr \<Rightarrow> addr \<Rightarrow> bool" where
  "apart b c \<longleftrightarrow> unat b + sizeof_array \<le> unat c \<or> unat c + sizeof_array \<le> unat b"

definition blocks_ok :: "tdmem \<Rightarrow> addr list \<Rightarrow> bool" where
  "blocks_ok m bs \<longleftrightarrow> (\<forall>b \<in> set bs. block_ok m b) \<and> distinct bs \<and>
     (\<forall>b \<in> set bs. \<forall>c \<in> set bs. b \<noteq> c \<longrightarrow> apart b c) \<and> unused_list m \<noteq> array_list m"

definition slot :: "addr \<Rightarrow> nat \<Rightarrow> addr" where
  "slot b i = b + of_nat (sizeof_session * i)"

definition slots :: "addr \<Rightarrow> addr list" where
  "slots b = map (slot b) [0..<SESSIONCOUNT_OF_ARRAY]"

text \<open>A session of the pool.\<close>

definition session_in :: "addr list \<Rightarrow> addr \<Rightarrow> bool" where
  "session_in bs p \<longleftrightarrow> (\<exists>b \<in> set bs. p \<in> set (slots b))"

lemmas layout_defs = sizeof_session_def sizeof_array_def SESSIONCOUNT_OF_ARRAY_def

lemma unat_slot:
  assumes "block_ok m b" and "i < SESSIONCOUNT_OF_ARRAY" and "d < 88"
  shows "unat (slot b i + of_nat d) = unat b + 88 * i + d"
proof -
  have b: "unat b + 90128 < 2 ^ 64" using assms(1) by (simp add: block_ok_def layout_defs)
  have i: "88 * i + d < 90112" using assms(2,3) by (simp add: layout_defs)
  have eq: "slot b i + of_nat d = b + of_nat (88 * i + d)" by (simp add: slot_def layout_defs)
  have "unat b + (88 * i + d) < 2 ^ 64" using b i by simp
  then show ?thesis unfolding eq using unat_add_off [of b "88 * i + d"] by simp
qed

text \<open>A session occupies 88 bytes, and two sessions do not overlap.\<close>

lemma session_unat:
  assumes "blocks_ok m bs" and "session_in bs p"
  shows "\<exists>b i. b \<in> set bs \<and> block_ok m b \<and> i < 1024 \<and> unat p = unat b + 88 * i"
proof -
  from assms(2) obtain b i where bi: "b \<in> set bs" "i < 1024" "p = slot b i"
    by (auto simp: session_in_def slots_def layout_defs)
  moreover from this have "block_ok m b" using assms(1) by (simp add: blocks_ok_def)
  ultimately show ?thesis using unat_slot [of m b i 0] by (auto simp: layout_defs)
qed

lemma session_off:
  assumes "blocks_ok m bs" and "session_in bs p"
  shows "unat p + 88 < 2 ^ 64" and "d < 88 \<Longrightarrow> unat (p + of_nat d) = unat p + d"
    and "p \<noteq> NULL" and "unat p mod 8 = 0"
proof -
  obtain b i where b: "block_ok m b" "i < 1024" "unat p = unat b + 88 * i"
    using session_unat [OF assms] by blast
  then show 1: "unat p + 88 < 2 ^ 64" by (simp add: block_ok_def layout_defs)
  then show "unat (p + of_nat d) = unat p + d" if "d < 88"
    using that by (intro unat_add_off) simp
  have "unat b \<noteq> 0" using b(1) by (simp add: block_ok_def unat_eq_zero)
  then show "p \<noteq> NULL" using b(3) by auto
  have "unat b mod 8 = 0" using b(1) by (simp add: block_ok_def)
  then show "unat p mod 8 = 0" using b(3) by presburger
qed

lemma session_apart:
  assumes ok: "blocks_ok m bs" and "session_in bs p" "session_in bs q" and "p \<noteq> q"
  shows "unat p + 88 \<le> unat q \<or> unat q + 88 \<le> unat p"
proof -
  obtain b i where b: "b \<in> set bs" "i < 1024" "unat p = unat b + 88 * i"
    using session_unat [OF ok assms(2)] by blast
  obtain c j where c: "c \<in> set bs" "j < 1024" "unat q = unat c + 88 * j"
    using session_unat [OF ok assms(3)] by blast
  show ?thesis
  proof (cases "b = c")
    case True
    have "unat p \<noteq> unat q" using assms(4) by (simp add: word_unat_eq_iff)
    then have "i \<noteq> j" using b(3) c(3) True by auto
    then show ?thesis using b(3) c(3) True by auto
  next
    case False
    then have "apart b c" using ok b(1) c(1) by (simp add: blocks_ok_def)
    then show ?thesis using b c by (auto simp: apart_def layout_defs)
  qed
qed

text \<open>Offsets inside two sessions are equal only within one session.\<close>

lemma session_inj:
  assumes ok: "blocks_ok m bs" and p: "session_in bs p" and q: "session_in bs q"
    and eq: "p + of_nat d = q + of_nat e" and de: "d < 88" "e < 88"
  shows "p = q" and "d = e"
proof -
  have u: "unat p + d = unat q + e"
    using session_off(2) [OF ok p de(1)] session_off(2) [OF ok q de(2)] eq by simp
  show "p = q" using session_apart [OF ok p q] u de by fastforce
  then show "d = e" using u by simp
qed

lemma session_block:
  assumes ok: "blocks_ok m bs" and p: "session_in bs p" and q: "session_in bs q" and d: "d < 88"
  shows "in_block p sizeof_session (q + of_nat d) \<longleftrightarrow> p = q"
proof -
  have b: "in_block p sizeof_session (q + of_nat d) \<longleftrightarrow> unat p \<le> unat q + d \<and> unat q + d < unat p + 88"
    using in_block_iff [of p 88 "q + of_nat d"] session_off(1) [OF ok p] session_off(2) [OF ok q d]
    by (simp add: layout_defs)
  show ?thesis
  proof (cases "p = q")
    case True
    then show ?thesis using b d by simp
  next
    case False
    then show ?thesis using session_apart [OF ok p q False] b d by auto
  qed
qed

subsection \<open>The embedded nodes\<close>

lemma node_offsets: "unused_node p = p + of_nat 8" "tnode p = p + of_nat 64"
  "prealloc_node p = p + of_nat 90112"
  by (simp_all add: unused_node_def tnode_def prealloc_node_def)

lemma node_owner [simp]: "session_of_unused (unused_node p) = p" "session_of_tnode (tnode p) = p"
  "array_of_prealloc (prealloc_node p) = p"
  by (simp_all add: session_of_unused_def unused_node_def session_of_tnode_def tnode_def
      array_of_prealloc_def prealloc_node_def)

lemma node_eq [simp]: "unused_node p = unused_node q \<longleftrightarrow> p = q" "tnode p = tnode q \<longleftrightarrow> p = q"
  "prealloc_node p = prealloc_node q \<longleftrightarrow> p = q"
  by (simp_all add: unused_node_def tnode_def prealloc_node_def)

lemma block_iff:
  assumes "block_ok m b"
  shows "in_block b sizeof_array a \<longleftrightarrow> unat b \<le> unat a \<and> unat a < unat b + 90128"
  using assms in_block_iff [of b 90128 a] by (simp add: block_ok_def layout_defs)

lemma block_unique:
  assumes "blocks_ok m bs" "b \<in> set bs" "c \<in> set bs"
    and "in_block b sizeof_array a" "in_block c sizeof_array a"
  shows "b = c"
proof (rule ccontr)
  assume "b \<noteq> c"
  then have "apart b c" "block_ok m b" "block_ok m c" using assms by (auto simp: blocks_ok_def)
  then show False
    using assms(4,5) block_iff [of m b a] block_iff [of m c a] by (auto simp: apart_def sizeof_array_def)
qed

lemma session_in_block:
  assumes ok: "blocks_ok m bs" and p: "session_in bs p" and d: "d < 88"
  shows "\<exists>b \<in> set bs. in_block b sizeof_array (p + of_nat d) \<and> unat (p + of_nat d) < unat b + 90112"
proof -
  obtain b i where b: "b \<in> set bs" "block_ok m b" "i < 1024" "unat p = unat b + 88 * i"
    using session_unat [OF ok p] by blast
  then show ?thesis using session_off(2) [OF ok p d] d by (intro bexI [of _ b]) (auto simp: block_iff)
qed

lemma prealloc_in_block:
  assumes "block_ok m b"
  shows "unat (prealloc_node b) = unat b + 90112" and "in_block b sizeof_array (prealloc_node b)"
proof -
  have "unat b + 90128 < 2 ^ 64" using assms by (simp add: block_ok_def layout_defs)
  then show u: "unat (prealloc_node b) = unat b + 90112"
    unfolding node_offsets by (intro unat_add_off) simp
  then show "in_block b sizeof_array (prealloc_node b)" by (simp add: block_iff [OF assms])
qed

lemma session_heads:
  assumes ok: "blocks_ok m bs" and p: "session_in bs p" and d: "d < 88"
  shows "p + of_nat d \<noteq> unused_list m" and "p + of_nat d \<noteq> array_list m"
  using session_in_block [OF assms] ok by (auto simp: blocks_ok_def block_ok_def)

lemma session_prealloc:
  assumes ok: "blocks_ok m bs" and p: "session_in bs p" and d: "d < 88" and c: "c \<in> set bs"
  shows "p + of_nat d \<noteq> prealloc_node c"
proof
  assume eq: "p + of_nat d = prealloc_node c"
  obtain b where b: "b \<in> set bs" "in_block b sizeof_array (p + of_nat d)"
    "unat (p + of_nat d) < unat b + 90112"
    using session_in_block [OF ok p d] by blast
  have cok: "block_ok m c" using ok c by (simp add: blocks_ok_def)
  have "b = c"
    using block_unique [OF ok b(1) c b(2)] prealloc_in_block(2) [OF cok] eq by simp
  then show False using b(3) prealloc_in_block(1) [OF cok] eq by simp
qed

lemma prealloc_heads:
  assumes "blocks_ok m bs" and "b \<in> set bs"
  shows "prealloc_node b \<noteq> unused_list m" and "prealloc_node b \<noteq> array_list m"
proof -
  have "block_ok m b" using assms by (simp add: blocks_ok_def)
  with prealloc_in_block(2) [OF this] show "prealloc_node b \<noteq> unused_list m" "prealloc_node b \<noteq> array_list m"
    by (auto simp: block_ok_def)
qed

lemma tnode_ok:
  assumes ok: "blocks_ok m bs" and p: "session_in bs p"
  shows "tnode p \<noteq> NULL" and "aligned (tnode p)"
proof -
  have u: "unat (tnode p) = unat p + 64"
    using session_off(2) [OF ok p, of 64] by (simp add: node_offsets)
  then show "tnode p \<noteq> NULL" by (metis add_eq_0_iff_both_eq_0 unat_0 zero_neq_numeral)
  have "unat p mod 8 = 0" using session_off(4) [OF ok p] .
  then show "aligned (tnode p)" unfolding aligned_mod u by presburger
qed

subsection \<open>The invariant\<close>

definition pool :: "tdmem \<Rightarrow> addr list \<Rightarrow> addr list \<Rightarrow> addr list \<Rightarrow> bool" where
  "pool m bs fs ls \<longleftrightarrow> blocks_ok m bs \<and>
     dlist (lists m) (array_list m) (map prealloc_node bs) \<and>
     dlist (lists m) (unused_list m) (map unused_node fs) \<and>
     timer_tree (time_key m) (timers m) (map tnode ls) \<and>
     distinct (fs @ ls) \<and> (\<forall>p \<in> set fs \<union> set ls. session_in bs p)"

lemma blocks_ok_heads:
  "unused_list m' = unused_list m \<Longrightarrow> array_list m' = array_list m \<Longrightarrow> blocks_ok m bs \<Longrightarrow> blocks_ok m' bs"
  by (simp add: blocks_ok_def block_ok_def)

lemma pool_nodes_disjoint:
  assumes "blocks_ok m bs" and "\<forall>p \<in> set fs. session_in bs p"
  shows "set (unused_list m # map unused_node fs) \<inter> set (array_list m # map prealloc_node bs) = {}"
proof -
  have "unused_list m \<noteq> array_list m" using assms(1) by (simp add: blocks_ok_def)
  moreover have "unused_node p \<noteq> array_list m" "unused_node p \<noteq> prealloc_node b"
    if "p \<in> set fs" "b \<in> set bs" for p b
    using session_heads [OF assms(1), of p 8] session_prealloc [OF assms(1), of p 8 b] assms(2) that
    unfolding node_offsets by auto
  moreover have "unused_node p \<noteq> array_list m" if "p \<in> set fs" for p
    using session_heads [OF assms(1), of p 8] assms(2) that unfolding node_offsets by auto
  ultimately show ?thesis using prealloc_heads [OF assms(1)] by fastforce
qed

lemma unused_heads:
  assumes "blocks_ok m bs" and "session_in bs p"
  shows "unused_node p \<noteq> unused_list m" and "unused_node p \<noteq> array_list m"
  using session_heads [OF assms, of 8] unfolding node_offsets by auto

text \<open>\<open>memset\<close> on memory that no live structure uses.\<close>

lemma memset0_simps [simp]:
  "unused_list (memset0 p n m) = unused_list m" "array_list (memset0 p n m) = array_list m"
  "rb_root (timers (memset0 p n m)) = rb_root (timers m)"
  "\<not> in_block p n a \<Longrightarrow> sess (memset0 p n m) a = sess m a"
  "in_block p n a \<Longrightarrow> sess (memset0 p n m) a = zero_session"
  "\<not> in_block p n a \<Longrightarrow> lists (memset0 p n m) a = lists m a"
  "\<not> in_block p n a \<Longrightarrow> rbn (timers (memset0 p n m)) a = rbn (timers m) a"
  by (simp_all add: memset0_def)

lemma time_key_tnode [simp]: "time_key m (tnode p) = sint (begin_timestamp (sess m p))"
  by (simp add: time_key_def)

lemma timer_tree_live:
  assumes "timer_tree (time_key m) (timers m) (map tnode ls)"
    and "\<And>p. p \<in> set ls \<Longrightarrow> begin_timestamp (sess m' p) = begin_timestamp (sess m p)"
    and "\<And>p. p \<in> set ls \<Longrightarrow> rbn (timers m') (tnode p) = rbn (timers m) (tnode p)"
    and "rb_root (timers m') = rb_root (timers m)"
  shows "timer_tree (time_key m') (timers m') (map tnode ls)"
  using assms by (intro timer_tree_cong [OF assms(1)]) auto

lemma dlist_frameI:
  "dlist h q xs \<Longrightarrow> (\<And>a. a \<in> set (q # xs) \<Longrightarrow> h' a = h a) \<Longrightarrow> dlist h' q xs"
  using dlist_frame [of q xs h' h] by simp

lemma pool_memset:
  assumes P: "pool m bs fs ls"
    and h: "\<not> in_block p n (unused_list m)" "\<not> in_block p n (array_list m)"
    and b: "\<And>b. b \<in> set bs \<Longrightarrow> \<not> in_block p n (prealloc_node b)"
    and f: "\<And>q. q \<in> set fs \<Longrightarrow> \<not> in_block p n (unused_node q)"
    and l: "\<And>q. q \<in> set ls \<Longrightarrow> \<not> in_block p n q \<and> \<not> in_block p n (tnode q)"
  shows "pool (memset0 p n m) bs fs ls"
proof -
  have d: "dlist (lists m) (array_list m) (map prealloc_node bs)"
    "dlist (lists m) (unused_list m) (map unused_node fs)"
    using P by (simp_all add: pool_def)
  have "dlist (lists (memset0 p n m)) (array_list m) (map prealloc_node bs)"
    by (rule dlist_frameI [OF d(1)]) (use h b in auto)
  moreover have "dlist (lists (memset0 p n m)) (unused_list m) (map unused_node fs)"
    by (rule dlist_frameI [OF d(2)]) (use h f in auto)
  moreover have "timer_tree (time_key (memset0 p n m)) (timers (memset0 p n m)) (map tnode ls)"
  proof (rule timer_tree_live [of m])
    show "timer_tree (time_key m) (timers m) (map tnode ls)" using P by (simp add: pool_def)
  qed (use l in simp_all)
  moreover have "blocks_ok m bs" using P by (simp add: pool_def)
  then have "blocks_ok (memset0 p n m) bs" by (rule blocks_ok_heads [rotated 2]) simp_all
  ultimately show ?thesis using P by (simp add: pool_def)
qed

subsection \<open>Growing the pool\<close>

lemma add_unused_sessions_fold:
  "add_unused_sessions n p m =
   m\<lparr>lists := fold (\<lambda>x. list_add_tail x (unused_list m))
      (map unused_node (map (slot p) [0..<n])) (lists m)\<rparr>"
proof (induction n arbitrary: p m)
  case (Suc n)
  have "map (slot (p + of_nat sizeof_session)) [0..<n] = map (slot p) (map Suc [0..<n])"
    by (simp add: slot_def algebra_simps)
  then have "p # map (slot (p + of_nat sizeof_session)) [0..<n] = map (slot p) [0..<Suc n]"
    by (simp add: map_Suc_upt upt_conv_Cons slot_def del: upt_Suc)
  then have eq: "map (slot p) [0..<Suc n] = p # map (slot (p + of_nat sizeof_session)) [0..<n]" ..
  show ?case unfolding eq by (simp add: Suc.IH)
qed simp

lemma slots_distinct:
  assumes "block_ok m b" shows "distinct (slots b)"
proof -
  have "inj_on (slot b) {0..<SESSIONCOUNT_OF_ARRAY}"
  proof (rule inj_onI)
    fix i j
    assume ij: "i \<in> {0..<SESSIONCOUNT_OF_ARRAY}" "j \<in> {0..<SESSIONCOUNT_OF_ARRAY}" "slot b i = slot b j"
    have "unat (slot b k + of_nat 0) = unat b + 88 * k + 0" if "k < SESSIONCOUNT_OF_ARRAY" for k
      by (rule unat_slot [OF assms that]) simp
    from this [of i] this [of j] ij have "unat b + 88 * i + 0 = unat b + 88 * j + 0"
      by (metis atLeastLessThan_iff)
    then show "i = j" by simp
  qed
  then show ?thesis by (simp add: slots_def distinct_map)
qed

lemma session_in_append [simp]:
  "session_in (bs @ cs) p \<longleftrightarrow> session_in bs p \<or> session_in cs p"
  by (auto simp: session_in_def)

lemma session_in_single [simp]: "session_in [b] p \<longleftrightarrow> p \<in> set (slots b)"
  by (simp add: session_in_def)

lemma fresh_block:
  assumes ok: "blocks_ok m (bs @ [b])"
  shows "session_in bs p \<Longrightarrow> d < 88 \<Longrightarrow> \<not> in_block b sizeof_array (p + of_nat d)"
    and "c \<in> set bs \<Longrightarrow> \<not> in_block b sizeof_array (prealloc_node c)"
    and "session_in bs p \<Longrightarrow> p \<notin> set (slots b)" and "blocks_ok m bs"
proof -
  show okb: "blocks_ok m bs" using ok by (auto simp: blocks_ok_def)
  have nb: "b \<notin> set bs" using ok by (auto simp: blocks_ok_def)
  show 1: "\<not> in_block b sizeof_array (p + of_nat d)" if p: "session_in bs p" "d < 88" for p d
  proof
    assume i: "in_block b sizeof_array (p + of_nat d)"
    obtain c where "c \<in> set bs" "in_block c sizeof_array (p + of_nat d)"
      using session_in_block [OF okb p] by blast
    then have "b = c" using i block_unique [OF ok, of b c "p + of_nat d"] by simp
    then show False using nb \<open>c \<in> set bs\<close> by simp
  qed
  show "\<not> in_block b sizeof_array (prealloc_node c)" if c: "c \<in> set bs" for c
  proof
    assume i: "in_block b sizeof_array (prealloc_node c)"
    have "block_ok m c" using ok c by (simp add: blocks_ok_def)
    then have "b = c"
      using prealloc_in_block(2) block_unique [OF ok, of b c "prealloc_node c"] i c by simp
    then show False using nb c by simp
  qed
  show "p \<notin> set (slots b)" if p: "session_in bs p"
  proof
    assume "p \<in> set (slots b)"
    then have "session_in [b] p" by simp
    moreover have "blocks_ok m [b]" using ok by (auto simp: blocks_ok_def)
    ultimately have "in_block b sizeof_array (p + of_nat 0)"
      using session_in_block [of m "[b]" p 0] by simp
    then show False using 1 [OF p, of 0] by simp
  qed
qed

theorem pool_Increase:
  assumes P: "pool m bs fs ls" and b: "blocks_ok m (bs @ [b])"
  shows "\<exists>m'. IncreaseTcpdaemonAcceptedSessions b m = (0, m') \<and>
    pool m' (bs @ [b]) (fs @ slots b) ls \<and> (\<forall>p. session_in bs p \<longrightarrow> sess m' p = sess m p)"
proof -
  define m1 where "m1 = memset0 b sizeof_array m"
  define h2 where "h2 = list_add_tail (prealloc_node b) (array_list m) (lists m1)"
  define h3 where "h3 = fold (\<lambda>x. list_add_tail x (unused_list m)) (map unused_node (slots b)) h2"
  have bok: "block_ok m b" using b by (simp add: blocks_ok_def)
  have f: "\<forall>p \<in> set fs. session_in bs p" "\<forall>p \<in> set ls. session_in bs p" "distinct (fs @ ls)"
    using P by (auto simp: pool_def)
  have nb: "b \<notin> set bs" using b by (auto simp: blocks_ok_def)
  note fr = fresh_block [OF b]
  have P1: "pool m1 bs fs ls" unfolding m1_def
  proof (rule pool_memset [OF P])
    show "\<not> in_block b sizeof_array (unused_list m)" "\<not> in_block b sizeof_array (array_list m)"
      using bok by (simp_all add: block_ok_def)
    show "\<not> in_block b sizeof_array (prealloc_node c)" if "c \<in> set bs" for c using fr(2) [OF that] .
    show "\<not> in_block b sizeof_array (unused_node q)" if "q \<in> set fs" for q
      unfolding node_offsets using f(1) that by (intro fr(1)) auto
    show "\<not> in_block b sizeof_array q \<and> \<not> in_block b sizeof_array (tnode q)" if "q \<in> set ls" for q
      using fr(1) [of q 0] fr(1) [of q 64] f(2) that unfolding node_offsets by simp
  qed
  have d1: "dlist (lists m1) (array_list m) (map prealloc_node bs)"
    "dlist (lists m1) (unused_list m) (map unused_node fs)"
    using P1 by (simp_all add: pool_def m1_def)
  have dis: "set (unused_list m # map unused_node (fs @ slots b)) \<inter>
      set (array_list m # map prealloc_node (bs @ [b])) = {}"
    using f by (intro pool_nodes_disjoint [OF b]) auto
  have new: "prealloc_node b \<notin> set (array_list m # map prealloc_node bs)"
    using prealloc_heads [OF b] nb by auto
  have d2: "dlist h2 (array_list m) (map prealloc_node (bs @ [b]))"
    "dlist h2 (unused_list m) (map unused_node fs)"
  proof -
    show "dlist h2 (array_list m) (map prealloc_node (bs @ [b]))"
      using kl.enq_rep [OF d1(1) new] unfolding h2_def by simp
    show "dlist h2 (unused_list m) (map unused_node fs)"
      unfolding h2_def by (rule kl.enq_other [OF d1]) (use dis in auto)
  qed
  have ns: "distinct (map unused_node (slots b))"
    using slots_distinct [OF bok] by (simp add: distinct_map inj_on_def)
  have fresh: "set (map unused_node (slots b)) \<inter> set (unused_list m # map unused_node fs) = {}"
  proof -
    have "unused_node q \<noteq> unused_list m" if "q \<in> set (slots b)" for q
      using unused_heads(1) [OF b, of q] that by simp
    then show ?thesis using fr(3) f(1) by fastforce
  qed
  have d3: "dlist h3 (unused_list m) (map unused_node (fs @ slots b))"
    using kl.enq_all [OF d2(2) ns fresh] unfolding h3_def by simp
  have "dlist h3 (array_list m) (map prealloc_node (bs @ [b]))"
    unfolding h3_def by (rule kl.enq_all_other [OF d2(2,1) ns fresh]) (use dis in auto)
  moreover have t: "timer_tree (time_key m1) (timers m1) (map tnode ls)" using P1 by (simp add: pool_def)
  moreover have "distinct ((fs @ slots b) @ ls)"
    using slots_distinct [OF bok] f fr(3) by auto
  moreover have "blocks_ok (m1\<lparr>lists := h3\<rparr>) (bs @ [b])"
    by (rule blocks_ok_heads [OF _ _ b]) (simp_all add: m1_def)
  ultimately have "pool (m1\<lparr>lists := h3\<rparr>) (bs @ [b]) (fs @ slots b) ls"
    using d3 b f by (auto simp: pool_def m1_def time_key_def [abs_def])
  moreover have "IncreaseTcpdaemonAcceptedSessions b m = (0, m1\<lparr>lists := h3\<rparr>)"
    using bok
    by (simp add: IncreaseTcpdaemonAcceptedSessions_def Let_def add_unused_sessions_fold
        block_ok_def m1_def h2_def h3_def slots_def)
  moreover have "sess m1 p = sess m p" if "session_in bs p" for p
    using fr(1) [OF that, of 0] by (simp add: m1_def)
  ultimately show ?thesis by auto
qed

subsection \<open>Fetching and returning sessions\<close>

lemma pool_dest:
  assumes "pool m bs fs ls"
  shows "blocks_ok m bs" "dlist (lists m) (array_list m) (map prealloc_node bs)"
    "dlist (lists m) (unused_list m) (map unused_node fs)"
    "timer_tree (time_key m) (timers m) (map tnode ls)" "distinct fs" "distinct ls"
    "set fs \<inter> set ls = {}" "p \<in> set fs \<Longrightarrow> session_in bs p" "p \<in> set ls \<Longrightarrow> session_in bs p"
  using assms by (auto simp: pool_def)

lemma pool_memset_session:
  assumes P: "pool m bs fs ls" and p: "session_in bs p" "p \<notin> set fs" "p \<notin> set ls"
  shows "pool (memset0 p sizeof_session m) bs fs ls"
proof (rule pool_memset [OF P])
  note d = pool_dest [OF P]
  note ok = d(1)
  have blk: "in_block p sizeof_session a \<longleftrightarrow> unat p \<le> unat a \<and> unat a < unat p + 88" for a
    using in_block_iff [of p 88 a] session_off(1) [OF ok p(1)] by (simp add: sizeof_session_def)
  have off: "a = p + of_nat (unat a - unat p) \<and> unat a - unat p < 88" if "in_block p sizeof_session a" for a
  proof -
    have "unat a - unat p < 88" using that blk by auto
    moreover from this have "unat (p + of_nat (unat a - unat p)) = unat a"
      using session_off(2) [OF ok p(1)] that blk by auto
    ultimately show ?thesis by (simp add: word_unat_eq_iff)
  qed
  show "\<not> in_block p sizeof_session (unused_list m)" "\<not> in_block p sizeof_session (array_list m)"
    using off session_heads [OF ok p(1)] by metis+
  show "\<not> in_block p sizeof_session (prealloc_node b)" if "b \<in> set bs" for b
    using off session_prealloc [OF ok p(1) _ that] by metis
  show "\<not> in_block p sizeof_session (unused_node q)" if "q \<in> set fs" for q
    using session_block [OF ok p(1) d(8) [OF that], of 8] p that unfolding node_offsets by auto
  show "\<not> in_block p sizeof_session q \<and> \<not> in_block p sizeof_session (tnode q)" if "q \<in> set ls" for q
    using session_block [OF ok p(1) d(9) [OF that], of 0] session_block [OF ok p(1) d(9) [OF that], of 64]
      p that unfolding node_offsets by auto
qed

lemma pool_list_del_first:
  assumes P: "pool m bs (p # fs) ls"
  shows "session_of_unused (lnext (lists m (unused_list m))) = p"
    and "pool (m\<lparr>lists := list_del (unused_node p) (lists m)\<rparr>) bs fs ls"
proof -
  note d = pool_dest [OF P]
  have l: "dlist (lists m) (unused_list m) (unused_node p # map unused_node fs)" using d(3) by simp
  note t = kl.take_first [OF l]
  show "session_of_unused (lnext (lists m (unused_list m))) = p" using t(1) by (simp add: list_first_def)
  have dis: "set (unused_list m # map unused_node (p # fs)) \<inter> set (array_list m # map prealloc_node bs) = {}"
    using d(8) by (intro pool_nodes_disjoint [OF d(1)]) auto
  have "dlist (list_del (unused_node p) (lists m)) (array_list m) (map prealloc_node bs)"
    by (rule kl.del_other [OF d(3,2) dis]) simp
  moreover have "blocks_ok (m\<lparr>lists := list_del (unused_node p) (lists m)\<rparr>) bs"
    by (rule blocks_ok_heads [OF _ _ d(1)]) simp_all
  ultimately show "pool (m\<lparr>lists := list_del (unused_node p) (lists m)\<rparr>) bs fs ls"
    using t(2) d by (auto simp: pool_def time_key_def [abs_def])
qed

lemma session_self_block: "in_block p sizeof_session p"
  by (simp add: in_block_def sizeof_session_def)

text \<open>A session whose storage is reset, and every other session as it was.\<close>

definition fetched :: "tdmem \<Rightarrow> addr list \<Rightarrow> addr \<Rightarrow> tdmem \<Rightarrow> bool" where
  "fetched m bs p m' \<longleftrightarrow> sess m' p = zero_session \<and>
     (\<forall>q. session_in bs q \<longrightarrow> q \<noteq> p \<longrightarrow> sess m' q = sess m q)"

lemma pool_Fetch:
  assumes P: "pool m bs (p # fs) ls"
  shows "\<exists>m'. FetchTcpdaemonAcceptedSessionUnused block m = (p, m') \<and> pool m' bs fs ls \<and>
    p \<notin> set fs \<union> set ls \<and> session_in bs p \<and> fetched m bs p m'"
proof -
  note d = pool_dest [OF P] and f = pool_list_del_first [OF P]
  have p: "session_in bs p" "p \<notin> set fs" "p \<notin> set ls" using d by auto
  let ?m = "m\<lparr>lists := list_del (unused_node p) (lists m)\<rparr>"
  have ne: "\<not> list_empty (unused_list m) (lists m)" using kl.empty_rep [OF d(3)] by simp
  then have "FetchTcpdaemonAcceptedSessionUnused block m = (p, memset0 p sizeof_session ?m)"
    by (simp add: FetchTcpdaemonAcceptedSessionUnused_def f(1))
  moreover have "pool (memset0 p sizeof_session ?m) bs fs ls" by (rule pool_memset_session [OF f(2) p])
  moreover have "fetched m bs p (memset0 p sizeof_session ?m)"
    using session_block [OF d(1) p(1), of _ 0] by (simp add: fetched_def session_self_block)
  ultimately show ?thesis using p by blast
qed

text \<open>An empty free list is refilled with a fresh block first.\<close>

lemma slots_Cons: "\<exists>ps. slots b = b # ps"
proof -
  have "0 < SESSIONCOUNT_OF_ARRAY" by (simp add: SESSIONCOUNT_OF_ARRAY_def)
  then have "[0..<SESSIONCOUNT_OF_ARRAY] = 0 # [Suc 0..<SESSIONCOUNT_OF_ARRAY]" by (rule upt_conv_Cons)
  then show ?thesis by (simp add: slots_def slot_def)
qed

lemma pool_Fetch_grow:
  assumes P: "pool m bs [] ls" and b: "blocks_ok m (bs @ [b])"
  shows "\<exists>m' ps. FetchTcpdaemonAcceptedSessionUnused b m = (b, m') \<and> slots b = b # ps \<and>
    pool m' (bs @ [b]) ps ls \<and> b \<notin> set ps \<union> set ls \<and> session_in (bs @ [b]) b \<and>
    sess m' b = zero_session \<and> (\<forall>q. session_in bs q \<longrightarrow> sess m' q = sess m q)"
proof -
  obtain ps where ps: "slots b = b # ps" using slots_Cons by blast
  obtain m1 where m1: "IncreaseTcpdaemonAcceptedSessions b m = (0, m1)" "pool m1 (bs @ [b]) (b # ps) ls"
    "\<forall>p. session_in bs p \<longrightarrow> sess m1 p = sess m p"
    using pool_Increase [OF P b] ps by auto
  obtain m2 where m2: "FetchTcpdaemonAcceptedSessionUnused b m1 = (b, m2)" "pool m2 (bs @ [b]) ps ls"
    "b \<notin> set ps \<union> set ls" "session_in (bs @ [b]) b" "fetched m1 (bs @ [b]) b m2"
    using pool_Fetch [OF m1(2), of b] by auto
  have e: "list_empty (unused_list m) (lists m)" using kl.empty_rep [OF pool_dest(3) [OF P]] by simp
  have "\<not> list_empty (unused_list m1) (lists m1)"
    using kl.empty_rep [OF pool_dest(3) [OF m1(2)]] by simp
  then have "FetchTcpdaemonAcceptedSessionUnused b m = (b, m2)"
    using m2(1) e by (simp add: FetchTcpdaemonAcceptedSessionUnused_def m1(1))
  moreover have "sess m2 q = sess m q" if "session_in bs q" for q
  proof -
    have "q \<noteq> b" using fresh_block(3) [OF b that] ps by auto
    then show ?thesis using m2(5) m1(3) that by (simp add: fetched_def)
  qed
  ultimately show ?thesis using m2 ps by (auto simp: fetched_def)
qed

lemma pool_Fetch_fails:
  assumes "pool m bs [] ls"
  shows "FetchTcpdaemonAcceptedSessionUnused NULL m = (NULL, m)"
proof -
  have "list_empty (unused_list m) (lists m)" using kl.empty_rep [OF pool_dest(3) [OF assms]] by simp
  then show ?thesis
    by (simp add: FetchTcpdaemonAcceptedSessionUnused_def IncreaseTcpdaemonAcceptedSessions_def)
qed

lemma pool_Set:
  assumes P: "pool m bs fs ls" and p: "session_in bs p" "p \<notin> set fs" "p \<notin> set ls"
  shows "pool (SetTcpdaemonAcceptedSessionUnused p m) bs (fs @ [p]) ls"
proof -
  note d = pool_dest [OF P]
  have new: "unused_node p \<notin> set (unused_list m # map unused_node fs)"
    using p unused_heads [OF d(1) p(1)] by auto
  have "set (unused_list m # map unused_node (p # fs)) \<inter> set (array_list m # map prealloc_node bs) = {}"
    using p d(8) by (intro pool_nodes_disjoint [OF d(1)]) auto
  then have dis: "set (unused_list m # map unused_node fs) \<inter> set (array_list m # map prealloc_node bs) = {}"
    "unused_node p \<notin> set (array_list m # map prealloc_node bs)"
    by auto
  let ?h = "list_add_tail (unused_node p) (unused_list m) (lists m)"
  have "dlist ?h (unused_list m) (map unused_node (fs @ [p]))" using kl.enq_rep [OF d(3) new] by simp
  moreover have "dlist ?h (array_list m) (map prealloc_node bs)"
    by (rule kl.enq_other [OF d(3,2) dis])
  moreover have "blocks_ok (m\<lparr>lists := ?h\<rparr>) bs" by (rule blocks_ok_heads [OF _ _ d(1)]) simp_all
  ultimately show ?thesis
    using d p by (auto simp: pool_def SetTcpdaemonAcceptedSessionUnused_def time_key_def [abs_def])
qed

subsection \<open>Opening and closing sessions\<close>

text \<open>The sessions in the order of their begin times, the new one behind its equals.\<close>

definition insert_session :: "tdmem \<Rightarrow> addr \<Rightarrow> addr list \<Rightarrow> addr list" where
  "insert_session m p ls =
     takeWhile (\<lambda>q. sint (begin_timestamp (sess m q)) \<le> sint (begin_timestamp (sess m p))) ls @ p #
     dropWhile (\<lambda>q. sint (begin_timestamp (sess m q)) \<le> sint (begin_timestamp (sess m p))) ls"

lemma insert_after_tnodes:
  "insert_after (time_key m) (tnode p) (map tnode ls) = map tnode (insert_session m p ls)"
  by (simp add: insert_after_def insert_session_def takeWhile_map dropWhile_map comp_def)

lemma set_insert_session: "set (insert_session m p ls) = insert p (set ls)"
proof -
  have "set (takeWhile Q ls) \<union> set (dropWhile Q ls) = set ls" for Q
    by (metis set_append takeWhile_dropWhile_id)
  then show ?thesis by (auto simp: insert_session_def)
qed

lemma distinct_insert_session:
  assumes "distinct ls" and "p \<notin> set ls"
  shows "distinct (insert_session m p ls)"
proof -
  have "set (takeWhile Q ls) \<inter> set (dropWhile Q ls) = {}" for Q
    using assms(1) distinct_append [of "takeWhile Q ls" "dropWhile Q ls"] by simp
  then show ?thesis
    using assms by (auto simp: insert_session_def dest: set_takeWhileD set_dropWhileD)
qed

text \<open>Giving a fetched session its fields does not disturb the pool.\<close>

lemma pool_sess_update:
  assumes "pool m bs fs ls" and "p \<notin> set ls"
  shows "pool (m\<lparr>sess := (sess m)(p := x)\<rparr>) bs fs ls"
proof -
  note d = pool_dest [OF assms(1)]
  have "timer_tree (time_key (m\<lparr>sess := (sess m)(p := x)\<rparr>)) (timers (m\<lparr>sess := (sess m)(p := x)\<rparr>))
      (map tnode ls)"
    by (rule timer_tree_live [OF d(4)]) (use assms(2) in auto)
  moreover have "blocks_ok (m\<lparr>sess := (sess m)(p := x)\<rparr>) bs"
    by (rule blocks_ok_heads [OF _ _ d(1)]) simp_all
  ultimately show ?thesis using d by (auto simp: pool_def)
qed

lemma pool_Link:
  assumes P: "pool m bs fs ls" and p: "session_in bs p" "p \<notin> set fs" "p \<notin> set ls"
  shows "\<exists>m'. LinkTcpdaemonAcceptedSessionBeginTimestampTreeNode p m = Some (0, m') \<and>
    pool m' bs fs (insert_session m p ls) \<and> sess m' = sess m"
proof -
  note d = pool_dest [OF P]
  have "tnode p \<notin> set (map tnode ls)" using p by auto
  from LINK_INT_ALLOWDUPLICATE_refines [OF d(4) tnode_ok [OF d(1) p(1)] this]
  obtain s' where s': "LINK_RBTREENODE_INT_ALLOWDUPLICATE (time_key m) (tnode p) (timers m) = Some (0, s')"
    "timer_tree (time_key m) s' (map tnode (insert_session m p ls))"
    by (auto simp: insert_after_tnodes)
  let ?m = "m\<lparr>timers := s'\<rparr>"
  have "time_key ?m = time_key m" by (simp add: time_key_def [abs_def])
  moreover have "blocks_ok ?m bs" by (rule blocks_ok_heads [OF _ _ d(1)]) simp_all
  ultimately have "pool ?m bs fs (insert_session m p ls)"
    using d p s'(2) distinct_insert_session [OF d(6) p(3)]
    by (auto simp: pool_def set_insert_session)
  then show ?thesis
    using s'(1) by (simp add: LinkTcpdaemonAcceptedSessionBeginTimestampTreeNode_def)
qed

lemma pool_Unlink:
  assumes P: "pool m bs fs ls" and p: "p \<in> set ls"
  shows "\<exists>m'. UnlinkTcpdaemonAcceptedSessionBeginTimestampTreeNode p m = Some m' \<and>
    pool m' bs fs (remove1 p ls) \<and> sess m' = sess m"
proof -
  note d = pool_dest [OF P]
  have "tnode p \<in> set (map tnode ls)" using p by simp
  from UNLINK_refines [OF d(4) this] obtain s' where
    s': "UNLINK_RBTREENODE (tnode p) (timers m) = Some s'"
    "timer_tree (time_key m) s' (remove1 (tnode p) (map tnode ls))" by blast
  have eq: "remove1 (tnode p) (map tnode ls) = map tnode (remove1 p ls)"
    by (induction ls) auto
  let ?m = "m\<lparr>timers := s'\<rparr>"
  have "time_key ?m = time_key m" by (simp add: time_key_def [abs_def])
  moreover have "blocks_ok ?m bs" by (rule blocks_ok_heads [OF _ _ d(1)]) simp_all
  ultimately have "pool ?m bs fs (remove1 p ls)"
    using d s'(2) by (auto simp: pool_def eq dest: in_set_remove1 [THEN iffD1] notin_set_remove1)
  then show ?thesis
    using s'(1) by (simp add: UnlinkTcpdaemonAcceptedSessionBeginTimestampTreeNode_def)
qed

lemma pool_GetTimeout:
  assumes P: "pool m bs fs ls"
  shows "GetTimeoutAcceptedSession timeout now m =
    Some (case ls of [] \<Rightarrow> NULL
      | p # _ \<Rightarrow> if sint now \<ge> sint (begin_timestamp (sess m p) + timeout) then p else NULL)"
proof -
  note d = pool_dest [OF P]
  show ?thesis
  proof (cases ls)
    case Nil
    then show ?thesis
      using timer_first [OF d(4)] by (simp add: GetTimeoutAcceptedSession_def first_or_null_def)
  next
    case (Cons p ls')
    then have "tnode p \<noteq> NULL" using tnode_ok(1) [OF d(1) d(9)] by simp
    then show ?thesis
      using timer_first [OF d(4)] Cons by (simp add: GetTimeoutAcceptedSession_def first_or_null_def)
  qed
qed

subsection \<open>Releasing the arrays\<close>

lemma free_arrays_refines:
  assumes "dlist (lists m) (array_list m) (map prealloc_node bs)"
    and "c = hd (map prealloc_node bs @ [array_list m])"
  shows "\<exists>h. free_arrays c (lnext (lists m c)) freed m = Some (freed @ bs, m\<lparr>lists := h\<rparr>) \<and>
    dlist h (array_list m) []"
  using assms
proof (induction bs arbitrary: freed m c)
  case Nil
  then show ?case by (subst free_arrays.simps) (auto intro!: exI [of _ "lists m"])
next
  case (Cons b bs)
  let ?m = "m\<lparr>lists := list_del (prealloc_node b) (lists m)\<rparr>"
  have d: "dlist (lists m) (array_list m) ([] @ prealloc_node b # map prealloc_node bs)"
    using Cons.prems by simp
  have c: "c = prealloc_node b" "c \<noteq> array_list m"
    using Cons.prems by (auto simp: dlist_def)
  have n: "lnext (lists m c) = hd (map prealloc_node bs @ [array_list m])"
    using dlist_entry [OF d] c by simp
  have "dlist (lists ?m) (array_list ?m) (map prealloc_node bs)"
    using kl.del_rep [OF d] by simp
  from Cons.IH [OF this, of "hd (map prealloc_node bs @ [array_list m])" "freed @ [b]"]
  obtain h where "free_arrays (lnext (lists m c)) (lnext (lists ?m (lnext (lists m c)))) (freed @ [b]) ?m =
      Some ((freed @ [b]) @ bs, ?m\<lparr>lists := h\<rparr>)" "dlist h (array_list m) []"
    unfolding n by auto
  then show ?case
    using c by (subst free_arrays.simps) (auto simp: Let_def intro!: exI [of _ h])
qed

lemma pool_FreeAll:
  assumes "pool m bs fs ls"
  shows "\<exists>h. FreeAllTcpdaemonAcceptedSessionArray m = Some (bs, m\<lparr>lists := h\<rparr>) \<and>
    dlist h (array_list m) []"
proof -
  note d = pool_dest(2) [OF assms]
  show ?thesis
    using free_arrays_refines [OF d dlist_next [OF d], of "[]"]
    by (simp add: FreeAllTcpdaemonAcceptedSessionArray_def Let_def)
qed

text \<open>The empty pool that \<open>InitDaemonEnv_IOMP\<close> sets up.\<close>

definition init_lists :: "tdmem \<Rightarrow> tdmem" where
  "init_lists m =
     (let m = m\<lparr>lists := INIT_LIST_HEAD (array_list m) (lists m)\<rparr>
      in m\<lparr>lists := INIT_LIST_HEAD (unused_list m) (lists m)\<rparr>)"

lemma pool_init:
  assumes "unused_list m \<noteq> array_list m" and "rb_root (timers m) = NULL"
  shows "pool (init_lists m) [] [] []"
proof -
  have "treerep (timers (init_lists m)) RLeaf"
    using assms(2) by (simp add: treerep_def init_lists_def Let_def)
  moreover have "rbtree RLeaf" by (simp add: rbtree_def)
  ultimately have "timer_tree (time_key (init_lists m)) (timers (init_lists m)) []"
    unfolding timer_tree_def by (metis addrs.simps(1) list.simps(8) sorted_wrt.simps(1))
  moreover have "dlist (lists (init_lists m)) (array_list m) []"
    using assms(1) dlist_INIT [of "array_list m"]
    by (simp add: init_lists_def Let_def dlist_INIT_outside)
  moreover have "dlist (lists (init_lists m)) (unused_list m) []"
    by (simp add: init_lists_def Let_def dlist_INIT)
  ultimately show ?thesis using assms(1) by (simp add: pool_def blocks_ok_def init_lists_def Let_def)
qed

end
