(* ===== verification/StepSystem.thy ===== *)
theory StepSystem
  imports Prelude
begin

text \<open>
  What the state machines of the development share: a step function that is partial where a
  step does not fit the state, and runs of it over a list of steps.
\<close>

locale step_system =
  fixes step :: "'x \<Rightarrow> 's \<Rightarrow> 's option"
    and run :: "'x list \<Rightarrow> 's \<Rightarrow> 's option"
  assumes run_Nil: "run [] s = Some s"
    and run_Cons: "run (x # xs) s = (case step x s of None \<Rightarrow> None | Some t \<Rightarrow> run xs t)"
begin

lemma run_step: "run (x # xs) s = Some t \<longleftrightarrow> (\<exists>u. step x s = Some u \<and> run xs u = Some t)"
  by (auto simp: run_Cons split: option.splits)

lemma run_append: "run (xs @ ys) s = (case run xs s of None \<Rightarrow> None | Some t \<Rightarrow> run ys t)"
  by (induction xs arbitrary: s) (auto simp: run_Nil run_Cons split: option.splits)

end

text \<open>An invariant under the steps that are allowed.\<close>

locale guarded_system = step_system +
  fixes I :: "'s \<Rightarrow> bool"
    and allowed :: "'x \<Rightarrow> bool"
  assumes step_keeps: "I s \<Longrightarrow> allowed x \<Longrightarrow> step x s = Some t \<Longrightarrow> I t"
begin

lemma run_keeps: "I s \<Longrightarrow> run xs s = Some t \<Longrightarrow> list_all allowed xs \<Longrightarrow> I t"
  by (induction xs arbitrary: s) (auto simp: run_Nil run_step intro: step_keeps)

text \<open>It holds at every moment of a run as well.\<close>

lemma run_keeps_between:
  assumes "I s" "run (xs @ ys) s = Some t" "list_all allowed (xs @ ys)"
  shows "\<exists>u. run xs s = Some u \<and> I u \<and> run ys u = Some t"
  using assms run_keeps by (auto simp: run_append split: option.splits)

end

end
