(* ===== verification/Consts.thy ===== *)
theory Consts
  imports Prelude StepSystem
begin

text \<open>
  The constants that the headers \<open>tcpdaemon.h\<close> and \<open>tcpdaemon_in.h\<close> and the system's headers
  give to the library: the answers of the application's callback, the events it is called
  for, log levels, and the values of Linux that the code compares with.
\<close>

definition TCPMAIN_RETURN_CLOSE :: int where "TCPMAIN_RETURN_CLOSE = 0"
definition TCPMAIN_RETURN_WAITINGFOR_RECEIVING :: int where "TCPMAIN_RETURN_WAITINGFOR_RECEIVING = 1"
definition TCPMAIN_RETURN_WAITINGFOR_SENDING :: int where "TCPMAIN_RETURN_WAITINGFOR_SENDING = 2"
definition TCPMAIN_RETURN_WAITINGFOR_NEXT :: int where "TCPMAIN_RETURN_WAITINGFOR_NEXT = 3"

definition TCPMAIN_RETURN_ERROR :: int where "TCPMAIN_RETURN_ERROR = -1"

definition IOMP_ON_ACCEPTING_SOCKET :: int where "IOMP_ON_ACCEPTING_SOCKET = 1"
definition IOMP_ON_CLOSING_SOCKET :: int where "IOMP_ON_CLOSING_SOCKET = 2"
definition IOMP_ON_RECEIVING_SOCKET :: int where "IOMP_ON_RECEIVING_SOCKET = 3"
definition IOMP_ON_SENDING_SOCKET :: int where "IOMP_ON_SENDING_SOCKET = 4"

definition MAX_IOMP_EVENTS :: nat where "MAX_IOMP_EVENTS = 1024"

definition EPOLLIN :: "32 word" where "EPOLLIN = 0x001"
definition EPOLLOUT :: "32 word" where "EPOLLOUT = 0x004"
definition EPOLLERR :: "32 word" where "EPOLLERR = 0x008"
definition EPOLLHUP :: "32 word" where "EPOLLHUP = 0x010"
definition EPOLLONESHOT :: "32 word" where "EPOLLONESHOT = 0x40000000"

datatype ctl_op = EPOLL_CTL_ADD | EPOLL_CTL_DEL | EPOLL_CTL_MOD

definition EAGAIN :: int where "EAGAIN = 11"
definition EINTR :: int where "EINTR = 4"

definition LOGLEVEL_DEBUG :: int where "LOGLEVEL_DEBUG = 1"
definition LOGLEVEL_INFO :: int where "LOGLEVEL_INFO = 2"
definition LOGLEVEL_WARN :: int where "LOGLEVEL_WARN = 3"
definition LOGLEVEL_ERROR :: int where "LOGLEVEL_ERROR = 4"
definition LOGLEVEL_FATAL :: int where "LOGLEVEL_FATAL = 5"

lemmas loglevels = LOGLEVEL_DEBUG_def LOGLEVEL_INFO_def LOGLEVEL_WARN_def LOGLEVEL_ERROR_def LOGLEVEL_FATAL_def

end
