(* ===== verification/Iomp.thy ===== *)
theory Iomp
  imports Pool Consts
begin

text \<open>
  The IO-multiplexing worker: \<open>CloseTcpdaemonAcceptedSession\<close> and
  \<open>tcpdaemon_IOMP_worker\<close> of \<open>tcpdaemon_lib.c\<close>. The application's callback, the kernel and
  \<open>malloc\<close> are parameters (\<open>iomp_os\<close>, \<open>round\<close>); every call the worker makes to them that
  an observer could see is an entry of the trace.
\<close>

subsection \<open>The environment of a worker\<close>

text \<open>What the worker reads of the environment structure and never changes.\<close>

record iomp_cfg =
  w_index :: nat
  w_process_count :: int
  w_tcp_nodelay :: int
  w_tcp_linger :: int
  w_timeout_seconds :: "32 word"
  w_cpu_affinity :: int
  w_listen_sock :: int
  w_alive_pipe :: int
  w_epoll_array :: "int list"
  w_listen_ptr :: addr
  w_pipe_ptr :: addr
  w_addr_ptr :: addr

text \<open>
  \<open>w_listen_ptr\<close> is \<open>& (p_env->listen_sock)\<close>, \<open>w_pipe_ptr\<close> is
  \<open>& (p_env->alive_pipes[index].fd[0])\<close>, \<open>w_addr_ptr\<close> is \<open>& accepted_addr\<close>;
  \<open>this_epoll_fd\<close> is the worker's own entry of \<open>epoll_array\<close>.
\<close>

definition this_epoll_fd :: "iomp_cfg \<Rightarrow> int" where
  "this_epoll_fd cfg = w_epoll_array cfg ! w_index cfg"

text \<open>
  The answers of the outside, one per point of time. \<open>os_tcpmain\<close> is the application: the
  value it returns and the pointer it passed to \<open>TDSetIoMultiplexDataPtr\<close>, if it did.
\<close>

record iomp_os =
  os_tcpmain :: "nat \<Rightarrow> int \<times> addr option"
  os_epoll_ctl :: "nat \<Rightarrow> int"
  os_time :: "nat \<Rightarrow> 32 word"
  os_malloc :: "nat \<Rightarrow> addr"

datatype accept_result = Conn int | AcceptErr int

text \<open>
  One return of \<open>epoll_wait\<close>: its value, \<open>errno\<close>, the event array, and the connections
  that the non-blocking \<open>accept\<close> will find before it reports \<open>EAGAIN\<close>.
\<close>

record round =
  r_nfds :: int
  r_errno :: int
  r_events :: "(32 word \<times> addr) list"
  r_accepts :: "accept_result list"

datatype iomp_ev =
    EvAffinity int
  | EvAccept int
  | EvNonblock int
  | EvNodelay int
  | EvLinger int int
  | EvMain int int addr
  | EvCtl int ctl_op int "32 word" addr
  | EvClose int

record iomp =
  mem :: tdmem
  io_multiplex_event :: int
  io_multiplex_data_ptr :: addr
  pending :: "accept_result list"
  clk :: nat
  trace :: "iomp_ev list"

definition emit :: "iomp_ev \<Rightarrow> iomp \<Rightarrow> iomp" where
  "emit e st = st\<lparr>trace := trace st @ [e]\<rparr>"

definition tick :: "iomp \<Rightarrow> iomp" where
  "tick st = st\<lparr>clk := Suc (clk st)\<rparr>"

definition TDSetIoMultiplexDataPtr :: "addr \<Rightarrow> iomp \<Rightarrow> iomp" where
  "TDSetIoMultiplexDataPtr p st = st\<lparr>io_multiplex_data_ptr := p\<rparr>"

definition TDGetIoMultiplexEvent :: "iomp \<Rightarrow> int" where
  "TDGetIoMultiplexEvent st = io_multiplex_event st"

text \<open>\<open>p_env->pfunc_tcpmain( p_env , sock , p_addr )\<close>.\<close>

definition call_tcpmain :: "iomp_os \<Rightarrow> int \<Rightarrow> addr \<Rightarrow> iomp \<Rightarrow> int \<times> iomp" where
  "call_tcpmain os sk p st =
     (let (nret, set_ptr) = os_tcpmain os (clk st);
          st = tick (emit (EvMain (TDGetIoMultiplexEvent st) sk p) st);
          st = (case set_ptr of None \<Rightarrow> st | Some q \<Rightarrow> TDSetIoMultiplexDataPtr q st)
      in (nret, st))"

definition epoll_ctl :: "iomp_os \<Rightarrow> int \<Rightarrow> ctl_op \<Rightarrow> int \<Rightarrow> 32 word \<Rightarrow> addr \<Rightarrow> iomp \<Rightarrow> int \<times> iomp" where
  "epoll_ctl os epfd op fd events p st =
     (os_epoll_ctl os (clk st), tick (emit (EvCtl epfd op fd events p) st))"

subsection \<open>Closing a session\<close>

definition CloseTcpdaemonAcceptedSession :: "iomp_cfg \<Rightarrow> iomp_os \<Rightarrow> addr \<Rightarrow> iomp \<Rightarrow> iomp option" where
  "CloseTcpdaemonAcceptedSession cfg os p_session st =
     (let st = st\<lparr>io_multiplex_event := IOMP_ON_CLOSING_SOCKET\<rparr>;
          (_, st) = call_tcpmain os 0 (sess_data_ptr (sess (mem st) p_session)) st;
          (_, st) = epoll_ctl os (this_epoll_fd cfg) EPOLL_CTL_DEL (sock (sess (mem st) p_session)) 0 NULL st;
          st = emit (EvClose (sock (sess (mem st) p_session))) st
      in case UnlinkTcpdaemonAcceptedSessionBeginTimestampTreeNode p_session (mem st) of
           None \<Rightarrow> None
         | Some m \<Rightarrow> Some (st\<lparr>mem := SetTcpdaemonAcceptedSessionUnused p_session m\<rparr>))"

subsection \<open>The timeout sweep\<close>

partial_function (option) close_timeouts ::
  "iomp_cfg \<Rightarrow> iomp_os \<Rightarrow> 32 word \<Rightarrow> iomp \<Rightarrow> iomp option" where
  "close_timeouts cfg os now_timestamp st =
     (case GetTimeoutAcceptedSession (w_timeout_seconds cfg) now_timestamp (mem st) of
        None \<Rightarrow> None
      | Some p_session \<Rightarrow>
          if p_session = NULL then Some st
          else (case CloseTcpdaemonAcceptedSession cfg os p_session st of
                  None \<Rightarrow> None
                | Some st \<Rightarrow> close_timeouts cfg os now_timestamp st))"

subsection \<open>Accepting\<close>

text \<open>How a piece of the worker's body ends: falling through, or returning from the worker.\<close>

datatype flow = Go | Return int

definition set_sock_opts :: "iomp_cfg \<Rightarrow> int \<Rightarrow> iomp \<Rightarrow> iomp" where
  "set_sock_opts cfg fd st =
     (let st = (if w_tcp_nodelay cfg = 1 then emit (EvNodelay fd) st else st)
      in if w_tcp_linger cfg > 0 then emit (EvLinger fd (w_tcp_linger cfg)) st else st)"

text \<open>
  The body of the accept loop from the point where \<open>accept\<close> returned a socket. First its
  second half: the callback has set the data pointer and answered \<open>nret\<close>.
\<close>

definition register_session ::
  "iomp_cfg \<Rightarrow> iomp_os \<Rightarrow> int \<Rightarrow> int \<Rightarrow> iomp \<Rightarrow> (flow \<times> iomp) option" where
  "register_session cfg os accepted_sock nret st =
     (let (p_session, m) = FetchTcpdaemonAcceptedSessionUnused (os_malloc os (clk st)) (mem st);
          st = tick (st\<lparr>mem := m\<rparr>)
      in if p_session = NULL then Some (Go, emit (EvClose accepted_sock) st)
      else
        (let m = memset0 p_session sizeof_session (mem st);
             m = m\<lparr>sess := (sess m)(p_session :=
                   \<lparr>sock = accepted_sock, sess_data_ptr = io_multiplex_data_ptr st,
                    begin_timestamp = os_time os (clk st)\<rparr>)\<rparr>;
             st = tick st
         in case LinkTcpdaemonAcceptedSessionBeginTimestampTreeNode p_session m of
              None \<Rightarrow> None
            | Some (_, m) \<Rightarrow>
                (let st = st\<lparr>mem := m\<rparr> in
                 if nret = TCPMAIN_RETURN_WAITINGFOR_RECEIVING then
                   (let (nret, st) = epoll_ctl os (this_epoll_fd cfg) EPOLL_CTL_ADD accepted_sock
                          (EPOLLIN OR EPOLLERR) p_session st
                    in if nret = -1 then Some (Return 1, st) else Some (Go, st))
                 else if nret = TCPMAIN_RETURN_WAITINGFOR_SENDING then
                   (let (nret, st) = epoll_ctl os (this_epoll_fd cfg) EPOLL_CTL_ADD accepted_sock
                          (EPOLLOUT OR EPOLLERR) p_session st
                    in if nret = -1 then Some (Return 1, st) else Some (Go, st))
                 else if nret = TCPMAIN_RETURN_CLOSE then
                   map_option (Pair Go) (CloseTcpdaemonAcceptedSession cfg os p_session st)
                 else
                   map_option (Pair Go) (CloseTcpdaemonAcceptedSession cfg os p_session st))))"

definition accepted_session :: "iomp_cfg \<Rightarrow> iomp_os \<Rightarrow> int \<Rightarrow> iomp \<Rightarrow> (flow \<times> iomp) option" where
  "accepted_session cfg os accepted_sock st =
     (let st = set_sock_opts cfg accepted_sock (emit (EvNonblock accepted_sock) st);
          st = st\<lparr>io_multiplex_data_ptr := NULL\<rparr>;
          st = st\<lparr>io_multiplex_event := IOMP_ON_ACCEPTING_SOCKET\<rparr>;
          (nret, st) = call_tcpmain os accepted_sock (w_addr_ptr cfg) st
      in if io_multiplex_data_ptr st = NULL then Some (Go, emit (EvClose accepted_sock) st)
         else register_session cfg os accepted_sock nret st)"

text \<open>
  The loop. No pending connection makes \<open>accept\<close> fail with \<open>EAGAIN\<close>; the first argument
  is \<open>pending st\<close>, which the loop consumes.
\<close>

fun accept_loop :: "iomp_cfg \<Rightarrow> iomp_os \<Rightarrow> accept_result list \<Rightarrow> iomp \<Rightarrow> (flow \<times> iomp) option" where
  "accept_loop cfg os [] st = Some (Go, st\<lparr>pending := []\<rparr>)"
| "accept_loop cfg os (AcceptErr errno # rest) st =
     (if errno = EAGAIN then Some (Go, st\<lparr>pending := rest\<rparr>)
      else Some (Return 1, st\<lparr>pending := rest\<rparr>))"
| "accept_loop cfg os (Conn accepted_sock # rest) st =
     (case accepted_session cfg os accepted_sock (emit (EvAccept accepted_sock) st) of
        None \<Rightarrow> None
      | Some (Return n, st) \<Rightarrow> Some (Return n, st\<lparr>pending := rest\<rparr>)
      | Some (Go, st) \<Rightarrow> accept_loop cfg os rest st)"

subsection \<open>Events\<close>

definition has :: "32 word \<Rightarrow> 32 word \<Rightarrow> bool" where
  "has events flag \<longleftrightarrow> events AND flag \<noteq> 0"

definition pass_listen :: "iomp_cfg \<Rightarrow> iomp_os \<Rightarrow> iomp \<Rightarrow> flow \<times> iomp" where
  "pass_listen cfg os st =
     (if w_process_count cfg > 1 then
        (let j = int (w_index cfg) + 1;
             j = (if j \<ge> w_process_count cfg then 0 else j);
             (nret, st) = epoll_ctl os (w_epoll_array cfg ! nat j) EPOLL_CTL_MOD (w_listen_sock cfg)
                (EPOLLIN OR EPOLLERR OR EPOLLONESHOT) (w_listen_ptr cfg) st
         in if nret = -1 then (Return 1, st) else (Go, st))
      else (Go, st))"

definition listen_event :: "iomp_cfg \<Rightarrow> iomp_os \<Rightarrow> 32 word \<Rightarrow> iomp \<Rightarrow> (flow \<times> iomp) option" where
  "listen_event cfg os events st =
     (if has events EPOLLIN then
        (case accept_loop cfg os (pending st) st of
           None \<Rightarrow> None
         | Some (Return n, st) \<Rightarrow> Some (Return n, st)
         | Some (Go, st) \<Rightarrow> Some (pass_listen cfg os st))
      else if has events EPOLLERR \<or> has events EPOLLHUP then Some (Return 1, st)
      else Some (Return 1, st))"

text \<open>What the worker does with the callback's answer on a session that may go on.\<close>

definition session_answer :: "iomp_cfg \<Rightarrow> iomp_os \<Rightarrow> addr \<Rightarrow> int \<Rightarrow> iomp \<Rightarrow> (flow \<times> iomp) option" where
  "session_answer cfg os p_session nret st =
     (if nret = TCPMAIN_RETURN_WAITINGFOR_NEXT then Some (Go, st)
      else if nret = TCPMAIN_RETURN_WAITINGFOR_RECEIVING then
        (let (nret, st) = epoll_ctl os (this_epoll_fd cfg) EPOLL_CTL_MOD (sock (sess (mem st) p_session))
               (EPOLLIN OR EPOLLERR) p_session st
         in if nret = -1 then Some (Return 1, st) else Some (Go, st))
      else if nret = TCPMAIN_RETURN_WAITINGFOR_SENDING then
        (let (nret, st) = epoll_ctl os (this_epoll_fd cfg) EPOLL_CTL_MOD (sock (sess (mem st) p_session))
               (EPOLLOUT OR EPOLLERR) p_session st
         in if nret = -1 then Some (Return 1, st) else Some (Go, st))
      else if nret = TCPMAIN_RETURN_CLOSE then
        map_option (Pair Go) (CloseTcpdaemonAcceptedSession cfg os p_session st)
      else
        map_option (Pair Go) (CloseTcpdaemonAcceptedSession cfg os p_session st))"

definition session_event :: "iomp_cfg \<Rightarrow> iomp_os \<Rightarrow> 32 word \<Rightarrow> addr \<Rightarrow> iomp \<Rightarrow> (flow \<times> iomp) option" where
  "session_event cfg os events p_session st =
     (if has events EPOLLIN then
        (let st = st\<lparr>io_multiplex_event := IOMP_ON_RECEIVING_SOCKET\<rparr>;
             (nret, st) = call_tcpmain os 0 (sess_data_ptr (sess (mem st) p_session)) st
         in session_answer cfg os p_session nret st)
      else if has events EPOLLOUT then
        (let st = st\<lparr>io_multiplex_event := IOMP_ON_SENDING_SOCKET\<rparr>;
             (nret, st) = call_tcpmain os 0 (sess_data_ptr (sess (mem st) p_session)) st
         in session_answer cfg os p_session nret st)
      else if has events EPOLLERR \<or> has events EPOLLHUP then
        map_option (Pair Go) (CloseTcpdaemonAcceptedSession cfg os p_session st)
      else Some (Return 1, st))"

text \<open>The \<open>for\<close> loop over the events; the flag is \<open>quit_flag\<close>.\<close>

fun process_events ::
  "iomp_cfg \<Rightarrow> iomp_os \<Rightarrow> (32 word \<times> addr) list \<Rightarrow> bool \<Rightarrow> iomp \<Rightarrow> (flow \<times> bool \<times> iomp) option" where
  "process_events cfg os [] quit_flag st = Some (Go, quit_flag, st)"
| "process_events cfg os ((events, p) # evs) quit_flag st =
     (if p = w_pipe_ptr cfg \<and> p \<noteq> w_listen_ptr cfg then process_events cfg os evs True st
      else
        (case (if p = w_listen_ptr cfg then listen_event cfg os events st
               else session_event cfg os events p st) of
           None \<Rightarrow> None
         | Some (Return n, st) \<Rightarrow> Some (Return n, quit_flag, st)
         | Some (Go, st) \<Rightarrow> process_events cfg os evs quit_flag st))"

subsection \<open>The worker\<close>

text \<open>One pass of the main loop after \<open>epoll_wait\<close> returned.\<close>

definition iomp_round :: "iomp_cfg \<Rightarrow> iomp_os \<Rightarrow> round \<Rightarrow> iomp \<Rightarrow> (flow \<times> bool \<times> iomp) option" where
  "iomp_round cfg os r st =
     (let st = st\<lparr>pending := r_accepts r\<rparr> in
      if r_nfds r = -1 then
        (if r_errno r = EINTR then Some (Go, False, st) else Some (Return 1, False, st))
      else
        (case (if sint (w_timeout_seconds cfg) > 0
               then close_timeouts cfg os (os_time os (clk st)) (tick st) else Some st) of
           None \<Rightarrow> None
         | Some st \<Rightarrow> process_events cfg os (take (nat (r_nfds r)) (r_events r)) False st))"

text \<open>
  The main loop over the rounds that the kernel delivers. \<open>Waiting\<close>: all of them are
  consumed and the worker sits in \<open>epoll_wait\<close>.
\<close>

datatype outcome = Waiting | Exit int

fun iomp_loop :: "iomp_cfg \<Rightarrow> iomp_os \<Rightarrow> round list \<Rightarrow> iomp \<Rightarrow> (outcome \<times> iomp) option" where
  "iomp_loop cfg os [] st = Some (Waiting, st)"
| "iomp_loop cfg os (r # rs) st =
     (case iomp_round cfg os r st of
        None \<Rightarrow> None
      | Some (Return n, _, st) \<Rightarrow> Some (Exit n, st)
      | Some (Go, quit_flag, st) \<Rightarrow>
          if quit_flag then Some (Exit 0, st) else iomp_loop cfg os rs st)"

text \<open>Before the main loop: CPU affinity, and the command pipe joins the epoll set.\<close>

definition worker_start :: "iomp_cfg \<Rightarrow> iomp_os \<Rightarrow> iomp \<Rightarrow> int \<times> iomp" where
  "worker_start cfg os st =
     (let st = (if w_cpu_affinity cfg > 0
                then emit (EvAffinity (w_cpu_affinity cfg + int (w_index cfg))) st else st)
      in epoll_ctl os (this_epoll_fd cfg) EPOLL_CTL_ADD (w_alive_pipe cfg)
           (EPOLLIN OR EPOLLERR) (w_pipe_ptr cfg) st)"

definition tcpdaemon_IOMP_worker ::
  "iomp_cfg \<Rightarrow> iomp_os \<Rightarrow> round list \<Rightarrow> iomp \<Rightarrow> (outcome \<times> iomp) option" where
  "tcpdaemon_IOMP_worker cfg os rs st =
     (let (nret, st) = worker_start cfg os st
      in if nret = -1 then Some (Exit 1, st) else iomp_loop cfg os rs st)"

end
