(* ===== verification/IompInv.thy ===== *)
theory IompInv
  imports Iomp "HOL-Library.Multiset"
begin

text \<open>
  The invariant of the IO-multiplexing worker: the session pool of Pool, and the accounting of
  descriptors, which says that every accepted socket is owned by exactly one open session or
  has been closed exactly once. Every step of the worker keeps it, and the timeout sweep ends.
\<close>

subsection \<open>Reading the trace\<close>

fun accepted1 :: "iomp_ev \<Rightarrow> int multiset" where
  "accepted1 (EvAccept fd) = {#fd#}"
| "accepted1 _ = {#}"

fun closed1 :: "iomp_ev \<Rightarrow> int multiset" where
  "closed1 (EvClose fd) = {#fd#}"
| "closed1 _ = {#}"

definition accepted_of :: "iomp_ev list \<Rightarrow> int multiset" where
  "accepted_of es = sum_list (map accepted1 es)"

definition closed_of :: "iomp_ev list \<Rightarrow> int multiset" where
  "closed_of es = sum_list (map closed1 es)"

lemma accepted_of_simps [simp]: "accepted_of [] = {#}"
  "accepted_of (es @ fs) = accepted_of es + accepted_of fs"
  "accepted_of (e # es) = accepted1 e + accepted_of es"
  by (simp_all add: accepted_of_def)

lemma closed_of_simps [simp]: "closed_of [] = {#}"
  "closed_of (es @ fs) = closed_of es + closed_of fs"
  "closed_of (e # es) = closed1 e + closed_of es"
  by (simp_all add: closed_of_def)

lemma emit_simps [simp]:
  "mem (emit e st) = mem st" "clk (emit e st) = clk st" "trace (emit e st) = trace st @ [e]"
  "pending (emit e st) = pending st" "io_multiplex_data_ptr (emit e st) = io_multiplex_data_ptr st"
  "io_multiplex_event (emit e st) = io_multiplex_event st"
  by (simp_all add: emit_def)

lemma tick_simps [simp]:
  "mem (tick st) = mem st" "clk (tick st) = Suc (clk st)" "trace (tick st) = trace st"
  "pending (tick st) = pending st" "io_multiplex_data_ptr (tick st) = io_multiplex_data_ptr st"
  "io_multiplex_event (tick st) = io_multiplex_event st"
  by (simp_all add: tick_def)

lemma epoll_ctl_simps [simp]:
  "fst (epoll_ctl os epfd op fd ev p st) = os_epoll_ctl os (clk st)"
  "mem (snd (epoll_ctl os epfd op fd ev p st)) = mem st"
  "clk (snd (epoll_ctl os epfd op fd ev p st)) = Suc (clk st)"
  "trace (snd (epoll_ctl os epfd op fd ev p st)) = trace st @ [EvCtl epfd op fd ev p]"
  "pending (snd (epoll_ctl os epfd op fd ev p st)) = pending st"
  by (simp_all add: epoll_ctl_def)

lemma call_tcpmain_simps [simp]:
  "fst (call_tcpmain os sk p st) = fst (os_tcpmain os (clk st))"
  "mem (snd (call_tcpmain os sk p st)) = mem st"
  "clk (snd (call_tcpmain os sk p st)) = Suc (clk st)"
  "trace (snd (call_tcpmain os sk p st)) = trace st @ [EvMain (io_multiplex_event st) sk p]"
  "pending (snd (call_tcpmain os sk p st)) = pending st"
  by (simp_all add: call_tcpmain_def TDSetIoMultiplexDataPtr_def TDGetIoMultiplexEvent_def Let_def
      split: prod.splits option.splits)

lemma set_sock_opts_simps [simp]:
  "mem (set_sock_opts cfg fd st) = mem st" "clk (set_sock_opts cfg fd st) = clk st"
  "accepted_of (trace (set_sock_opts cfg fd st)) = accepted_of (trace st)"
  "closed_of (trace (set_sock_opts cfg fd st)) = closed_of (trace st)"
  "pending (set_sock_opts cfg fd st) = pending st"
  by (simp_all add: set_sock_opts_def Let_def)

subsection \<open>The invariant\<close>

definition live_socks :: "tdmem \<Rightarrow> addr list \<Rightarrow> int multiset" where
  "live_socks m ls = mset (map (\<lambda>p. sock (sess m p)) ls)"

text \<open>\<open>extra\<close> are accepted sockets that the code holds in a local variable.\<close>

definition socks_ok :: "iomp \<Rightarrow> addr list \<Rightarrow> int multiset \<Rightarrow> bool" where
  "socks_ok st ls extra \<longleftrightarrow>
     accepted_of (trace st) = closed_of (trace st) + live_socks (mem st) ls + extra"

text \<open>What is relied on of \<open>malloc\<close>: NULL, or a block apart from every other one.\<close>

definition malloc_law :: "iomp_os \<Rightarrow> tdmem \<Rightarrow> bool" where
  "malloc_law os m \<longleftrightarrow>
     (\<forall>i. os_malloc os i \<noteq> NULL \<longrightarrow> block_ok m (os_malloc os i)) \<and>
     (\<forall>i j. i \<noteq> j \<longrightarrow> os_malloc os i \<noteq> NULL \<longrightarrow> os_malloc os j \<noteq> NULL \<longrightarrow>
        apart (os_malloc os i) (os_malloc os j))"

definition blocks_from :: "iomp_os \<Rightarrow> nat \<Rightarrow> addr list \<Rightarrow> bool" where
  "blocks_from os n bs \<longleftrightarrow> (\<forall>b \<in> set bs. \<exists>i < n. b = os_malloc os i)"

definition iomp_inv :: "iomp_os \<Rightarrow> iomp \<Rightarrow> addr list \<Rightarrow> addr list \<Rightarrow> addr list \<Rightarrow> int multiset \<Rightarrow> bool" where
  "iomp_inv os st bs fs ls extra \<longleftrightarrow>
     pool (mem st) bs fs ls \<and> socks_ok st ls extra \<and> blocks_from os (clk st) bs \<and>
     malloc_law os (mem st)"

lemma iomp_invD:
  assumes "iomp_inv os st bs fs ls extra"
  shows "pool (mem st) bs fs ls" "socks_ok st ls extra" "blocks_from os (clk st) bs"
    "malloc_law os (mem st)"
  using assms by (simp_all add: iomp_inv_def)

lemma blocks_from_mono: "blocks_from os n bs \<Longrightarrow> n \<le> k \<Longrightarrow> blocks_from os k bs"
  by (force simp: blocks_from_def)

lemma malloc_law_heads:
  "malloc_law os m \<Longrightarrow> unused_list m' = unused_list m \<Longrightarrow> array_list m' = array_list m \<Longrightarrow>
   malloc_law os m'"
  by (simp add: malloc_law_def block_ok_def)

text \<open>A step that leaves the memory alone.\<close>

lemma iomp_inv_silent:
  assumes "iomp_inv os st bs fs ls extra" and "mem st' = mem st" and "clk st \<le> clk st'"
    and "accepted_of (trace st') = accepted_of (trace st)"
    and "closed_of (trace st') = closed_of (trace st)"
  shows "iomp_inv os st' bs fs ls extra"
  using assms blocks_from_mono by (auto simp: iomp_inv_def socks_ok_def)

lemma iomp_inv_closed:
  assumes "iomp_inv os st bs fs ls (add_mset fd extra)"
  shows "iomp_inv os (emit (EvClose fd) st) bs fs ls extra"
  using assms by (simp add: iomp_inv_def socks_ok_def)

subsection \<open>Closing\<close>

lemma unlink_heads:
  "UnlinkTcpdaemonAcceptedSessionBeginTimestampTreeNode p m = Some m' \<Longrightarrow>
   unused_list m' = unused_list m \<and> array_list m' = array_list m \<and> sess m' = sess m"
  by (auto simp: UnlinkTcpdaemonAcceptedSessionBeginTimestampTreeNode_def split: option.splits)

lemma close_state:
  "CloseTcpdaemonAcceptedSession cfg os p st =
     (case UnlinkTcpdaemonAcceptedSessionBeginTimestampTreeNode p (mem st) of
        None \<Rightarrow> None
      | Some m \<Rightarrow> Some ((emit (EvClose (sock (sess (mem st) p)))
          (snd (epoll_ctl os (this_epoll_fd cfg) EPOLL_CTL_DEL (sock (sess (mem st) p)) 0 NULL
            (snd (call_tcpmain os 0 (sess_data_ptr (sess (mem st) p))
               (st\<lparr>io_multiplex_event := IOMP_ON_CLOSING_SOCKET\<rparr>))))))
          \<lparr>mem := SetTcpdaemonAcceptedSessionUnused p m\<rparr>))"
  by (simp add: CloseTcpdaemonAcceptedSession_def Let_def split_beta split: option.split)

lemma live_socks_remove1:
  "p \<in> set ls \<Longrightarrow> live_socks m ls = add_mset (sock (sess m p)) (live_socks m (remove1 p ls))"
  by (induction ls) (auto simp: live_socks_def)

lemma iomp_close:
  assumes I: "iomp_inv os st bs fs ls extra" and p: "p \<in> set ls"
  shows "\<exists>st'. CloseTcpdaemonAcceptedSession cfg os p st = Some st' \<and>
    iomp_inv os st' bs (fs @ [p]) (remove1 p ls) extra \<and> sess (mem st') = sess (mem st) \<and>
    pending st' = pending st \<and>
    trace st' = trace st @ [EvMain IOMP_ON_CLOSING_SOCKET 0 (sess_data_ptr (sess (mem st) p)),
      EvCtl (this_epoll_fd cfg) EPOLL_CTL_DEL (sock (sess (mem st) p)) 0 NULL,
      EvClose (sock (sess (mem st) p))]"
proof -
  note i = iomp_invD [OF I]
  note d = pool_dest [OF i(1)]
  obtain m1 where m1: "UnlinkTcpdaemonAcceptedSessionBeginTimestampTreeNode p (mem st) = Some m1"
    "pool m1 bs fs (remove1 p ls)" "sess m1 = sess (mem st)"
    using pool_Unlink [OF i(1) p] by blast
  have "session_in bs p" "p \<notin> set fs" "p \<notin> set (remove1 p ls)" using d p by auto
  note m2 = pool_Set [OF m1(2) this]
  have h: "unused_list (SetTcpdaemonAcceptedSessionUnused p m1) = unused_list (mem st)"
    "array_list (SetTcpdaemonAcceptedSessionUnused p m1) = array_list (mem st)"
    "sess (SetTcpdaemonAcceptedSessionUnused p m1) = sess (mem st)"
    using unlink_heads [OF m1(1)] by (simp_all add: SetTcpdaemonAcceptedSessionUnused_def)
  have "malloc_law os (SetTcpdaemonAcceptedSessionUnused p m1)"
    by (rule malloc_law_heads [OF i(4) h(1,2)])
  moreover have "live_socks (SetTcpdaemonAcceptedSessionUnused p m1) xs = live_socks (mem st) xs" for xs
    by (simp add: live_socks_def h)
  ultimately show ?thesis
    using m1(1) m2 i(2,3) live_socks_remove1 [OF p, of "mem st"] h(3)
      blocks_from_mono [of os "clk st" bs "Suc (Suc (clk st))"]
    by (simp add: close_state iomp_inv_def socks_ok_def)
qed

subsection \<open>The timeout sweep\<close>

text \<open>
  What a sweep over a queue of ordered deadlines relies on: the head is the earliest, and
  closing the head leaves the rest. The sweep then ends and closes exactly the due prefix.
\<close>

fun close_list :: "('a \<Rightarrow> 's \<Rightarrow> 's option) \<Rightarrow> 'a list \<Rightarrow> 's \<Rightarrow> 's option" where
  "close_list f [] s = Some s"
| "close_list f (x # xs) s = (case f x s of None \<Rightarrow> None | Some s' \<Rightarrow> close_list f xs s')"

locale deadline_queue =
  fixes rep :: "'s \<Rightarrow> 'a list \<Rightarrow> bool"
    and due :: "'s \<Rightarrow> 'a \<Rightarrow> bool"
    and close1 :: "'a \<Rightarrow> 's \<Rightarrow> 's option"
    and sweep :: "'s \<Rightarrow> 's option"
  assumes stop_nil: "rep s [] \<Longrightarrow> sweep s = Some s"
    and stop_head: "rep s (x # xs) \<Longrightarrow> \<not> due s x \<Longrightarrow> sweep s = Some s"
    and go_head: "rep s (x # xs) \<Longrightarrow> due s x \<Longrightarrow>
      \<exists>s'. close1 x s = Some s' \<and> sweep s = sweep s' \<and> rep s' xs \<and> (\<forall>y \<in> set xs. due s' y = due s y)"
begin

lemma sweep_closes_due:
  "rep s xs \<Longrightarrow> \<exists>s'. sweep s = Some s' \<and> close_list close1 (takeWhile (due s) xs) s = Some s' \<and>
    rep s' (dropWhile (due s) xs)"
proof (induction xs arbitrary: s)
  case Nil
  then show ?case using stop_nil by simp
next
  case (Cons x xs)
  show ?case
  proof (cases "due s x")
    case False
    then show ?thesis using stop_head [OF Cons.prems] Cons.prems by simp
  next
    case True
    from go_head [OF Cons.prems True] obtain s1 where
      s1: "close1 x s = Some s1" "sweep s = sweep s1" "rep s1 xs" "\<forall>y \<in> set xs. due s1 y = due s y"
      by blast
    have eq: "takeWhile (due s1) xs = takeWhile (due s) xs" "dropWhile (due s1) xs = dropWhile (due s) xs"
      using s1(4) by (auto intro: takeWhile_cong dropWhile_cong)
    show ?thesis using Cons.IH [OF s1(3)] s1(1,2) True eq by simp
  qed
qed

end

definition due_at :: "iomp_cfg \<Rightarrow> 32 word \<Rightarrow> iomp \<Rightarrow> addr \<Rightarrow> bool" where
  "due_at cfg now st p \<longleftrightarrow>
     sint now \<ge> sint (begin_timestamp (sess (mem st) p) + w_timeout_seconds cfg)"

definition iomp_rep :: "iomp_os \<Rightarrow> int multiset \<Rightarrow> iomp \<Rightarrow> addr list \<Rightarrow> bool" where
  "iomp_rep os extra st ls \<longleftrightarrow> (\<exists>bs fs. iomp_inv os st bs fs ls extra)"

lemma close_timeouts_stop:
  assumes "iomp_rep os extra st ls" and "ls = [] \<or> \<not> due_at cfg now st (hd ls)"
  shows "close_timeouts cfg os now st = Some st"
proof -
  obtain bs fs where "pool (mem st) bs fs ls" using assms(1) by (auto simp: iomp_rep_def iomp_inv_def)
  from pool_GetTimeout [OF this, of "w_timeout_seconds cfg" now] assms(2)
  have "GetTimeoutAcceptedSession (w_timeout_seconds cfg) now (mem st) = Some NULL"
    by (cases ls) (auto simp: due_at_def)
  then show ?thesis by (subst close_timeouts.simps) simp
qed

interpretation iomp_timer: deadline_queue "iomp_rep os extra" "due_at cfg now"
  "CloseTcpdaemonAcceptedSession cfg os" "close_timeouts cfg os now"
  for cfg os now extra
proof
  show "close_timeouts cfg os now s = Some s" if "iomp_rep os extra s []" for s
    using close_timeouts_stop [OF that] by simp
  show "close_timeouts cfg os now s = Some s" if "iomp_rep os extra s (x # xs)" "\<not> due_at cfg now s x"
    for s x xs
    using close_timeouts_stop [OF that(1)] that(2) by simp
  show "\<exists>s'. CloseTcpdaemonAcceptedSession cfg os x s = Some s' \<and>
      close_timeouts cfg os now s = close_timeouts cfg os now s' \<and> iomp_rep os extra s' xs \<and>
      (\<forall>y \<in> set xs. due_at cfg now s' y = due_at cfg now s y)"
    if r: "iomp_rep os extra s (x # xs)" and due: "due_at cfg now s x" for s x xs
  proof -
    obtain bs fs where I: "iomp_inv os s bs fs (x # xs) extra" using r by (auto simp: iomp_rep_def)
    note P = iomp_invD(1) [OF I]
    have "x \<noteq> NULL" using session_off(3) [OF pool_dest(1) [OF P]] pool_dest(9) [OF P, of x] by simp
    moreover have "GetTimeoutAcceptedSession (w_timeout_seconds cfg) now (mem s) = Some x"
      using pool_GetTimeout [OF P, of "w_timeout_seconds cfg" now] due by (simp add: due_at_def)
    moreover obtain s' where s': "CloseTcpdaemonAcceptedSession cfg os x s = Some s'"
      "iomp_inv os s' bs (fs @ [x]) (remove1 x (x # xs)) extra" "sess (mem s') = sess (mem s)"
      using iomp_close [OF I, of x cfg] by auto
    ultimately have "close_timeouts cfg os now s = close_timeouts cfg os now s'"
      by (subst close_timeouts.simps) simp
    moreover have "iomp_rep os extra s' xs" using s'(2) by (auto simp: iomp_rep_def)
    ultimately show ?thesis using s' by (auto simp: due_at_def)
  qed
qed

text \<open>What closing a list of sessions, one after the other, does to an observer.\<close>

definition closing_events :: "iomp_cfg \<Rightarrow> tdmem \<Rightarrow> addr \<Rightarrow> iomp_ev list" where
  "closing_events cfg m p =
     [EvMain IOMP_ON_CLOSING_SOCKET 0 (sess_data_ptr (sess m p)),
      EvCtl (this_epoll_fd cfg) EPOLL_CTL_DEL (sock (sess m p)) 0 NULL, EvClose (sock (sess m p))]"

lemma close_list_trace:
  "iomp_inv os st bs fs (ps @ ls) extra \<Longrightarrow>
   close_list (CloseTcpdaemonAcceptedSession cfg os) ps st = Some st' \<Longrightarrow>
   iomp_inv os st' bs (fs @ ps) ls extra \<and> sess (mem st') = sess (mem st) \<and>
   pending st' = pending st \<and>
   trace st' = trace st @ concat (map (closing_events cfg (mem st)) ps)"
proof (induction ps arbitrary: st fs)
  case Nil
  then show ?case by simp
next
  case (Cons p ps)
  obtain st1 where st1: "CloseTcpdaemonAcceptedSession cfg os p st = Some st1"
    "iomp_inv os st1 bs (fs @ [p]) (ps @ ls) extra" "sess (mem st1) = sess (mem st)"
    "pending st1 = pending st" "trace st1 = trace st @ closing_events cfg (mem st) p"
    using iomp_close [OF Cons.prems(1), of p cfg] by (auto simp: closing_events_def)
  have "closing_events cfg (mem st1) = closing_events cfg (mem st)"
    by (simp add: closing_events_def [abs_def] st1(3))
  with Cons.IH [OF st1(2)] Cons.prems(2) st1 show ?case by simp
qed

lemma close_timeouts_prefix:
  assumes "iomp_inv os st bs fs ls extra"
  shows "\<exists>st'. close_timeouts cfg os now st = Some st' \<and>
    iomp_inv os st' bs (fs @ takeWhile (due_at cfg now st) ls) (dropWhile (due_at cfg now st) ls) extra \<and>
    sess (mem st') = sess (mem st) \<and> pending st' = pending st \<and>
    trace st' = trace st @ concat (map (closing_events cfg (mem st)) (takeWhile (due_at cfg now st) ls))"
proof -
  have "iomp_rep os extra st ls" using assms by (auto simp: iomp_rep_def)
  from iomp_timer.sweep_closes_due [OF this, of cfg now] obtain st' where
    st': "close_timeouts cfg os now st = Some st'"
    "close_list (CloseTcpdaemonAcceptedSession cfg os) (takeWhile (due_at cfg now st) ls) st = Some st'"
    by blast
  have "iomp_inv os st bs fs (takeWhile (due_at cfg now st) ls @ dropWhile (due_at cfg now st) ls) extra"
    using assms by simp
  from close_list_trace [OF this st'(2)] st'(1) show ?thesis by blast
qed

text \<open>The sessions are in the order of their begin times, so the due ones are a prefix.\<close>

lemma pool_sorted:
  "pool m bs fs ls \<Longrightarrow> sorted (map (\<lambda>p. sint (begin_timestamp (sess m p))) ls)"
  by (auto simp: pool_def timer_tree_def comp_def)

lemma due_prefix:
  assumes P: "pool (mem st) bs fs ls"
    and ov: "\<forall>p \<in> set ls. sint (begin_timestamp (sess (mem st) p)) + sint (w_timeout_seconds cfg) < 2 ^ 31"
    and pos: "sint (w_timeout_seconds cfg) > 0"
  shows "takeWhile (due_at cfg now st) ls = filter (due_at cfg now st) ls"
    and "dropWhile (due_at cfg now st) ls = filter (\<lambda>p. \<not> due_at cfg now st p) ls"
proof -
  let ?b = "\<lambda>p. sint (begin_timestamp (sess (mem st) p))"
  have sum: "sint (begin_timestamp (sess (mem st) p) + w_timeout_seconds cfg) =
      ?b p + sint (w_timeout_seconds cfg)" if "p \<in> set ls" for p
  proof -
    have "- (2 ^ 31) \<le> ?b p" using sint_ge [of "begin_timestamp (sess (mem st) p)"] by simp
    then show ?thesis
      using ov that pos by (simp add: sint_word_ariths signed_take_bit_int_eq_self)
  qed
  have d: "due_at cfg now st p \<longleftrightarrow> ?b p \<le> sint now - sint (w_timeout_seconds cfg)" if "p \<in> set ls" for p
    using sum [OF that] by (auto simp: due_at_def)
  have "sorted (map ?b xs) \<Longrightarrow>
      takeWhile (\<lambda>p. ?b p \<le> c) xs = filter (\<lambda>p. ?b p \<le> c) xs \<and>
      dropWhile (\<lambda>p. ?b p \<le> c) xs = filter (\<lambda>p. \<not> ?b p \<le> c) xs" for xs c
    by (induction xs) (force simp: empty_filter_conv intro!: filter_True [symmetric])+
  from this [OF pool_sorted [OF P], of "sint now - sint (w_timeout_seconds cfg)"] d
  show "takeWhile (due_at cfg now st) ls = filter (due_at cfg now st) ls"
    and "dropWhile (due_at cfg now st) ls = filter (\<lambda>p. \<not> due_at cfg now st p) ls"
    by (simp_all cong: takeWhile_cong dropWhile_cong filter_cong)
qed

subsection \<open>Accepting\<close>

lemma fetch_heads:
  "FetchTcpdaemonAcceptedSessionUnused b m = (p, m') \<Longrightarrow>
   unused_list m' = unused_list m \<and> array_list m' = array_list m"
  by (auto simp: FetchTcpdaemonAcceptedSessionUnused_def IncreaseTcpdaemonAcceptedSessions_def Let_def
      add_unused_sessions_fold split: if_splits prod.splits)

lemma link_heads:
  "LinkTcpdaemonAcceptedSessionBeginTimestampTreeNode p m = Some (r, m') \<Longrightarrow>
   unused_list m' = unused_list m \<and> array_list m' = array_list m"
  by (auto simp: LinkTcpdaemonAcceptedSessionBeginTimestampTreeNode_def split: option.splits)

lemma malloc_fresh:
  assumes L: "malloc_law os m" and F: "blocks_from os n bs" and ok: "blocks_ok m bs"
    and nz: "os_malloc os n \<noteq> NULL"
  shows "blocks_ok m (bs @ [os_malloc os n])"
proof -
  have "apart b (os_malloc os n) \<and> apart (os_malloc os n) b \<and> b \<noteq> os_malloc os n" if b: "b \<in> set bs" for b
  proof -
    obtain i where i: "i < n" "b = os_malloc os i" using F b by (auto simp: blocks_from_def)
    have "b \<noteq> NULL" using ok b by (auto simp: blocks_ok_def block_ok_def)
    then have a: "apart b (os_malloc os n)" "apart (os_malloc os n) b"
      using L i nz by (auto simp: malloc_law_def)
    then show ?thesis by (auto simp: apart_def sizeof_array_def)
  qed
  moreover have "block_ok m (os_malloc os n)" using L nz by (simp add: malloc_law_def)
  ultimately show ?thesis using ok by (auto simp: blocks_ok_def)
qed

text \<open>Fetching a session, whatever the state of the free list.\<close>

lemma fetch_cases:
  assumes P: "pool m bs fs ls" and L: "malloc_law os m" and F: "blocks_from os n bs"
  obtains (failed) "FetchTcpdaemonAcceptedSessionUnused (os_malloc os n) m = (NULL, m)"
  | (got) p m' bs' fs' where "FetchTcpdaemonAcceptedSessionUnused (os_malloc os n) m = (p, m')"
    "p \<noteq> NULL" "pool m' bs' fs' ls" "p \<notin> set fs'" "p \<notin> set ls" "session_in bs' p"
    "\<forall>q \<in> set ls. sess m' q = sess m q" "blocks_from os (Suc n) bs'"
proof (cases fs)
  case (Cons p fs')
  have P': "pool m bs (p # fs') ls" using P Cons by simp
  obtain m' where m': "FetchTcpdaemonAcceptedSessionUnused (os_malloc os n) m = (p, m')"
    "pool m' bs fs' ls" "p \<notin> set fs' \<union> set ls" "session_in bs p" "fetched m bs p m'"
    using pool_Fetch [OF P'] by blast
  have "\<forall>q \<in> set ls. sess m' q = sess m q"
    using m'(3,5) pool_dest(9) [OF P] by (auto simp: fetched_def)
  moreover have "p \<noteq> NULL" using session_off(3) [OF pool_dest(1) [OF P] m'(4)] .
  ultimately show thesis using m' blocks_from_mono [OF F, of "Suc n"] by (intro got) auto
next
  case Nil
  show thesis
  proof (cases "os_malloc os n = NULL")
    case True
    then show thesis using pool_Fetch_fails [of m bs ls] P Nil by (intro failed) simp
  next
    case False
    note b = malloc_fresh [OF L F pool_dest(1) [OF P] False]
    obtain m' ps where m': "FetchTcpdaemonAcceptedSessionUnused (os_malloc os n) m = (os_malloc os n, m')"
      "pool m' (bs @ [os_malloc os n]) ps ls" "os_malloc os n \<notin> set ps \<union> set ls"
      "session_in (bs @ [os_malloc os n]) (os_malloc os n)"
      "\<forall>q. session_in bs q \<longrightarrow> sess m' q = sess m q"
      using pool_Fetch_grow [OF _ b] P Nil by blast
    have "blocks_from os (Suc n) (bs @ [os_malloc os n])"
      using F by (auto simp: blocks_from_def less_Suc_eq)
    then show thesis using m' pool_dest(9) [OF P] False by (intro got) auto
  qed
qed

lemma mset_insert_session: "mset (insert_session m p ls) = add_mset p (mset ls)"
proof -
  have "mset (takeWhile Q ls) + mset (dropWhile Q ls) = mset ls" for Q
    by (metis mset_append takeWhile_dropWhile_id)
  then show ?thesis by (simp add: insert_session_def)
qed

text \<open>Filling in a fetched session and linking it.\<close>

lemma iomp_link:
  fixes x :: session
  assumes P: "pool m bs fs ls" and p: "session_in bs p" "p \<notin> set fs" "p \<notin> set ls"
  defines "m1 \<equiv> memset0 p sizeof_session m"
  defines "m2 \<equiv> m1\<lparr>sess := (sess m1)(p := x)\<rparr>"
  shows "\<exists>m3. LinkTcpdaemonAcceptedSessionBeginTimestampTreeNode p m2 = Some (0, m3) \<and>
    pool m3 bs fs (insert_session m2 p ls) \<and>
    live_socks m3 (insert_session m2 p ls) = add_mset (sock x) (live_socks m ls) \<and>
    sess m3 p = x \<and> (\<forall>q \<in> set ls. sess m3 q = sess m q) \<and>
    unused_list m3 = unused_list m \<and> array_list m3 = array_list m"
proof -
  have P1: "pool m1 bs fs ls" unfolding m1_def by (rule pool_memset_session [OF P p])
  have P2: "pool m2 bs fs ls" unfolding m2_def by (rule pool_sess_update [OF P1 p(3)])
  obtain m3 where m3: "LinkTcpdaemonAcceptedSessionBeginTimestampTreeNode p m2 = Some (0, m3)"
    "pool m3 bs fs (insert_session m2 p ls)" "sess m3 = sess m2"
    using pool_Link [OF P2 p] by blast
  have s: "sess m3 q = sess m q" if "q \<in> set ls" for q
  proof -
    have q: "session_in bs q" "q \<noteq> p" using pool_dest(9) [OF P that] that p(3) by auto
    have "\<not> in_block p sizeof_session q"
      using session_block [OF pool_dest(1) [OF P] p(1) q(1), of 0] q(2) by simp
    then show ?thesis using q(2) by (simp add: m3(3) m2_def m1_def)
  qed
  have "live_socks m3 (insert_session m2 p ls) =
      image_mset (\<lambda>q. sock (sess m3 q)) (add_mset p (mset ls))"
    by (simp add: live_socks_def mset_insert_session)
  also have "\<dots> = add_mset (sock x) (image_mset (\<lambda>q. sock (sess m3 q)) (mset ls))"
    by (simp add: m3(3) m2_def)
  also have "image_mset (\<lambda>q. sock (sess m3 q)) (mset ls) = live_socks m ls"
    unfolding live_socks_def mset_map by (rule image_mset_cong) (simp add: s)
  finally have l: "live_socks m3 (insert_session m2 p ls) = add_mset (sock x) (live_socks m ls)" .
  have h: "unused_list m3 = unused_list m" "array_list m3 = array_list m"
    using link_heads [OF m3(1)] by (simp_all add: m2_def m1_def)
  have "sess m3 p = x" by (simp add: m3(3) m2_def)
  with m3(1,2) l s h show ?thesis by blast
qed

lemma remove1_others: "set ls - {p} \<subseteq> set (remove1 p ls)"
  by (metis Diff_iff in_set_remove1 singletonI subsetI)

lemma iomp_register_session:
  assumes I: "iomp_inv os st bs fs ls {#fd#}"
  shows "\<exists>fl st' bs' fs' ls'. register_session cfg os fd nret st = Some (fl, st') \<and>
    iomp_inv os st' bs' fs' ls' {#} \<and> set ls \<subseteq> set ls' \<and> pending st' = pending st"
proof -
  note i = iomp_invD [OF I]
  show ?thesis
  proof (cases rule: fetch_cases [OF i(1,4,3), case_names failed got])
    case failed
    have "iomp_inv os (tick st) bs fs ls {#fd#}" by (rule iomp_inv_silent [OF I]) simp_all
    then show ?thesis
      using iomp_inv_closed [of os "tick st" bs fs ls fd "{#}"] failed
      by (auto simp: register_session_def)
  next
    case (got p m' bs' fs')
    define x where "x = \<lparr>sock = fd, sess_data_ptr = io_multiplex_data_ptr st,
      begin_timestamp = os_time os (Suc (clk st))\<rparr>"
    define m2 where "m2 = (memset0 p sizeof_session m')
      \<lparr>sess := (sess (memset0 p sizeof_session m'))(p := x)\<rparr>"
    obtain m3 where m3: "LinkTcpdaemonAcceptedSessionBeginTimestampTreeNode p m2 = Some (0, m3)"
      "pool m3 bs' fs' (insert_session m2 p ls)"
      "live_socks m3 (insert_session m2 p ls) = add_mset (sock x) (live_socks m' ls)"
      "unused_list m3 = unused_list m'" "array_list m3 = array_list m'"
      using iomp_link [OF got(3,6,4,5), of x] unfolding m2_def by blast
    define st3 where "st3 = tick (tick (st\<lparr>mem := m'\<rparr>))\<lparr>mem := m3\<rparr>"
    have h: "unused_list m' = unused_list (mem st)" "array_list m' = array_list (mem st)"
      using fetch_heads [OF got(1)] by simp_all
    have "live_socks m' ls = live_socks (mem st) ls"
      unfolding live_socks_def mset_map by (rule image_mset_cong) (simp add: got(7))
    then have I3: "iomp_inv os st3 bs' fs' (insert_session m2 p ls) {#}"
      using m3 i(2) malloc_law_heads [OF i(4), of m3] h blocks_from_mono [OF got(8)]
      by (simp add: iomp_inv_def st3_def socks_ok_def x_def)
    have p3: "pending st3 = pending st" by (simp add: st3_def)
    have pin: "p \<in> set (insert_session m2 p ls)" by (simp add: set_insert_session)
    have "iomp_inv os (snd (epoll_ctl os epfd op fd ev q st3)) bs' fs' (insert_session m2 p ls) {#}"
      for epfd op ev q
      by (rule iomp_inv_silent [OF I3]) simp_all
    then have ctl: "\<exists>bs fs ls'. iomp_inv os (snd (epoll_ctl os epfd op fd ev q st3)) bs fs ls' {#} \<and>
        set ls \<subseteq> set ls'"
      for epfd op ev q using set_insert_session by blast
    obtain st4 where st4: "CloseTcpdaemonAcceptedSession cfg os p st3 = Some st4"
      "iomp_inv os st4 bs' (fs' @ [p]) (remove1 p (insert_session m2 p ls)) {#}" "pending st4 = pending st3"
      using iomp_close [OF I3 pin] by blast
    have "register_session cfg os fd nret st =
      (if nret = TCPMAIN_RETURN_WAITINGFOR_RECEIVING then
         Some (if os_epoll_ctl os (clk st3) = -1 then Return 1 else Go,
           snd (epoll_ctl os (this_epoll_fd cfg) EPOLL_CTL_ADD fd (EPOLLIN OR EPOLLERR) p st3))
       else if nret = TCPMAIN_RETURN_WAITINGFOR_SENDING then
         Some (if os_epoll_ctl os (clk st3) = -1 then Return 1 else Go,
           snd (epoll_ctl os (this_epoll_fd cfg) EPOLL_CTL_ADD fd (EPOLLOUT OR EPOLLERR) p st3))
       else Some (Go, st4))"
      using got(1,2) m3(1) st4(1) unfolding x_def m2_def st3_def
      by (simp add: register_session_def Let_def split_beta)
    moreover have "set ls \<subseteq> set (remove1 p (insert_session m2 p ls))"
      using got(5) remove1_others [of "insert_session m2 p ls" p] by (auto simp: set_insert_session)
    ultimately show ?thesis using ctl st4(2,3) p3 by auto
  qed
qed

lemma iomp_accepted_session:
  assumes I: "iomp_inv os st bs fs ls {#fd#}"
  shows "\<exists>fl st' bs' fs' ls'. accepted_session cfg os fd st = Some (fl, st') \<and>
    iomp_inv os st' bs' fs' ls' {#} \<and> set ls \<subseteq> set ls' \<and> pending st' = pending st"
proof -
  define st1 where "st1 = (set_sock_opts cfg fd (emit (EvNonblock fd) st))
      \<lparr>io_multiplex_data_ptr := NULL, io_multiplex_event := IOMP_ON_ACCEPTING_SOCKET\<rparr>"
  define st2 where "st2 = snd (call_tcpmain os fd (w_addr_ptr cfg) st1)"
  have I2: "iomp_inv os st2 bs fs ls {#fd#}" and p2: "pending st2 = pending st"
    using iomp_inv_silent [OF I, of st2] by (simp_all add: st2_def st1_def)
  have "accepted_session cfg os fd st =
      (if io_multiplex_data_ptr st2 = NULL then Some (Go, emit (EvClose fd) st2)
       else register_session cfg os fd (fst (call_tcpmain os fd (w_addr_ptr cfg) st1)) st2)"
    by (simp add: accepted_session_def Let_def split_beta st2_def st1_def)
  then show ?thesis
    using iomp_inv_closed [of os st2 bs fs ls fd "{#}"] I2 p2
      iomp_register_session [OF I2, of cfg "fst (call_tcpmain os fd (w_addr_ptr cfg) st1)"]
    by (cases "io_multiplex_data_ptr st2 = NULL") auto
qed

lemma iomp_accept_loop:
  assumes "iomp_inv os st bs fs ls {#}"
  shows "\<exists>fl st' bs' fs' ls'. accept_loop cfg os ps st = Some (fl, st') \<and>
    iomp_inv os st' bs' fs' ls' {#} \<and> set ls \<subseteq> set ls'"
  using assms
proof (induction cfg os ps st arbitrary: bs fs ls rule: accept_loop.induct)
  case (1 cfg os st)
  have "iomp_inv os (st\<lparr>pending := []\<rparr>) bs fs ls {#}" by (rule iomp_inv_silent [OF 1]) simp_all
  then show ?case by auto
next
  case (2 cfg os e rest st)
  have "iomp_inv os (st\<lparr>pending := rest\<rparr>) bs fs ls {#}" by (rule iomp_inv_silent [OF 2]) simp_all
  then show ?case by auto
next
  case (3 cfg os fd rest st)
  have "iomp_inv os (emit (EvAccept fd) st) bs fs ls {#fd#}"
    using "3.prems" by (simp add: iomp_inv_def socks_ok_def)
  from iomp_accepted_session [OF this, of cfg] obtain fl st1 bs1 fs1 ls1 where
    st1: "accepted_session cfg os fd (emit (EvAccept fd) st) = Some (fl, st1)"
    "iomp_inv os st1 bs1 fs1 ls1 {#}" "set ls \<subseteq> set ls1" by blast
  show ?case
  proof (cases fl)
    case Go
    with "3.IH" [OF st1(1) refl Go st1(2)] st1 show ?thesis by fastforce
  next
    case (Return n)
    have "iomp_inv os (st1\<lparr>pending := rest\<rparr>) bs1 fs1 ls1 {#}" by (rule iomp_inv_silent [OF st1(2)]) simp_all
    with st1 Return show ?thesis by auto
  qed
qed

lemma iomp_pass_listen:
  assumes I: "iomp_inv os st bs fs ls {#}"
  shows "iomp_inv os (snd (pass_listen cfg os st)) bs fs ls {#}"
proof -
  have "iomp_inv os (snd (epoll_ctl os epfd op fd ev q st)) bs fs ls {#}" for epfd op fd ev q
    by (rule iomp_inv_silent [OF I]) simp_all
  with I show ?thesis by (simp add: pass_listen_def Let_def split_beta)
qed

lemma iomp_listen_event:
  assumes I: "iomp_inv os st bs fs ls {#}"
  shows "\<exists>fl st' bs' fs' ls'. listen_event cfg os ev st = Some (fl, st') \<and>
    iomp_inv os st' bs' fs' ls' {#} \<and> set ls \<subseteq> set ls'"
proof (cases "has ev EPOLLIN")
  case False
  then show ?thesis using I by (auto simp: listen_event_def)
next
  case True
  obtain fl st1 bs1 fs1 ls1 where
    st1: "accept_loop cfg os (pending st) st = Some (fl, st1)" "iomp_inv os st1 bs1 fs1 ls1 {#}"
    "set ls \<subseteq> set ls1" using iomp_accept_loop [OF I] by blast
  show ?thesis
  proof (cases fl)
    case Go
    then have "listen_event cfg os ev st = Some (fst (pass_listen cfg os st1), snd (pass_listen cfg os st1))"
      using True st1(1) by (simp add: listen_event_def)
    with iomp_pass_listen [OF st1(2)] st1(3) show ?thesis by blast
  next
    case (Return n)
    then show ?thesis using True st1 by (auto simp: listen_event_def)
  qed
qed

subsection \<open>Session events\<close>

lemma iomp_session_answer:
  assumes I: "iomp_inv os st bs fs ls {#}" and p: "p \<in> set ls"
  shows "\<exists>fl st' bs' fs' ls'. session_answer cfg os p nret st = Some (fl, st') \<and>
    iomp_inv os st' bs' fs' ls' {#} \<and> set ls - {p} \<subseteq> set ls'"
proof -
  have "iomp_inv os (snd (epoll_ctl os epfd op fd ev q st)) bs fs ls {#}" for epfd op fd ev q
    by (rule iomp_inv_silent [OF I]) simp_all
  then have ctl: "\<exists>bs fs ls'. iomp_inv os (snd (epoll_ctl os epfd op fd ev q st)) bs fs ls' {#} \<and>
      set ls - {p} \<subseteq> set ls'" for epfd op fd ev q by blast
  obtain st1 where st1: "CloseTcpdaemonAcceptedSession cfg os p st = Some st1"
    "iomp_inv os st1 bs (fs @ [p]) (remove1 p ls) {#}"
    using iomp_close [OF I p] by blast
  note remove1_others [of ls p]
  with ctl st1 I show ?thesis
    by (auto simp: session_answer_def Let_def split_beta)
qed

lemma iomp_session_event:
  assumes I: "iomp_inv os st bs fs ls {#}" and p: "p \<in> set ls"
  shows "\<exists>fl st' bs' fs' ls'. session_event cfg os ev p st = Some (fl, st') \<and>
    iomp_inv os st' bs' fs' ls' {#} \<and> set ls - {p} \<subseteq> set ls'"
proof -
  have C: "iomp_inv os (snd (call_tcpmain os sk q (st\<lparr>io_multiplex_event := e\<rparr>))) bs fs ls {#}" for sk q e
    by (rule iomp_inv_silent [OF I]) simp_all
  obtain st1 where st1: "CloseTcpdaemonAcceptedSession cfg os p st = Some st1"
    "iomp_inv os st1 bs (fs @ [p]) (remove1 p ls) {#}"
    using iomp_close [OF I p] by blast
  note remove1_others [of ls p]
  then show ?thesis
    using iomp_session_answer [OF C p] st1 I by (auto simp: session_event_def Let_def split_beta)
qed

text \<open>
  What is relied on of \<open>epoll_wait\<close>: at most one event per session, and only for sessions
  that are open.
\<close>

definition session_ptrs :: "iomp_cfg \<Rightarrow> (32 word \<times> addr) list \<Rightarrow> addr list" where
  "session_ptrs cfg evs = filter (\<lambda>p. p \<noteq> w_listen_ptr cfg \<and> p \<noteq> w_pipe_ptr cfg) (map snd evs)"

definition events_ok :: "iomp_cfg \<Rightarrow> addr list \<Rightarrow> (32 word \<times> addr) list \<Rightarrow> bool" where
  "events_ok cfg ls evs \<longleftrightarrow> distinct (session_ptrs cfg evs) \<and> set (session_ptrs cfg evs) \<subseteq> set ls"

lemma iomp_event:
  assumes "iomp_inv os st bs fs ls {#}" and "events_ok cfg ls ((ev, p) # evs)"
    and "\<not> (p = w_pipe_ptr cfg \<and> p \<noteq> w_listen_ptr cfg)"
  shows "\<exists>fl st' bs' fs' ls'.
    (if p = w_listen_ptr cfg then listen_event cfg os ev st else session_event cfg os ev p st) = Some (fl, st') \<and>
    iomp_inv os st' bs' fs' ls' {#} \<and> events_ok cfg ls' evs"
proof (cases "p = w_listen_ptr cfg")
  case True
  have "events_ok cfg ls' evs" if "set ls \<subseteq> set ls'" for ls'
    using assms(2) True that by (auto simp: events_ok_def session_ptrs_def)
  then show ?thesis using iomp_listen_event [OF assms(1), of cfg ev] True by fastforce
next
  case False
  then have p: "p \<in> set ls" "p \<notin> set (session_ptrs cfg evs)"
    using assms(2,3) by (auto simp: events_ok_def session_ptrs_def)
  have "events_ok cfg ls' evs" if "set ls - {p} \<subseteq> set ls'" for ls'
    using assms(2,3) False that p by (auto simp: events_ok_def session_ptrs_def)
  then show ?thesis using iomp_session_event [OF assms(1) p(1), of cfg ev] False by fastforce
qed

lemma events_ok_pipe: "events_ok cfg ls ((ev, w_pipe_ptr cfg) # evs) \<Longrightarrow> w_pipe_ptr cfg \<noteq> w_listen_ptr cfg \<Longrightarrow> events_ok cfg ls evs"
  by (simp add: events_ok_def session_ptrs_def)

lemma iomp_process_events:
  assumes "iomp_inv os st bs fs ls {#}" and "events_ok cfg ls evs"
  shows "\<exists>fl q st' bs' fs' ls'. process_events cfg os evs quit st = Some (fl, q, st') \<and>
    iomp_inv os st' bs' fs' ls' {#}"
  using assms
proof (induction evs arbitrary: quit st bs fs ls)
  case Nil
  then show ?case by auto
next
  case (Cons e evs)
  obtain ev p where e: "e = (ev, p)" by (cases e)
  show ?case
  proof (cases "p = w_pipe_ptr cfg \<and> p \<noteq> w_listen_ptr cfg")
    case True
    then have "events_ok cfg ls evs" using Cons.prems(2) e events_ok_pipe by blast
    with Cons.IH [OF Cons.prems(1), of True] True e show ?thesis by auto
  next
    case False
    obtain fl st1 bs1 fs1 ls1 where st1:
      "(if p = w_listen_ptr cfg then listen_event cfg os ev st else session_event cfg os ev p st) =
          Some (fl, st1)"
      "iomp_inv os st1 bs1 fs1 ls1 {#}" "events_ok cfg ls1 evs"
      using iomp_event [OF Cons.prems(1) Cons.prems(2) [unfolded e] False] by blast
    show ?thesis
    proof (cases fl)
      case Go
      with Cons.IH [OF st1(2,3), of quit] st1(1) False e show ?thesis by auto
    next
      case (Return n)
      with st1 False e show ?thesis by auto
    qed
  qed
qed

subsection \<open>Rounds and the main loop\<close>

text \<open>
  What \<open>epoll_wait\<close> reports to a worker with the open sessions \<open>ls\<close>: each of them at most once,
  and no other pointer beside those of the listening socket and of the pipe.
\<close>

definition epoll_reports :: "iomp_cfg \<Rightarrow> addr list \<Rightarrow> round \<Rightarrow> bool" where
  "epoll_reports cfg ls r \<longleftrightarrow> (r_nfds r \<noteq> -1 \<longrightarrow> events_ok cfg ls (take (nat (r_nfds r)) (r_events r)))"

text \<open>
  This is nothing that the system promises, but the case in which the code is right: no session
  with an event is timed out by the sweep that runs between \<open>epoll_wait\<close> and the loop over its
  events. \<open>closed_session_is_still_served\<close> shows what happens otherwise.
\<close>

definition sweep_spares :: "iomp_cfg \<Rightarrow> iomp_os \<Rightarrow> iomp \<Rightarrow> round \<Rightarrow> bool" where
  "sweep_spares cfg os st r \<longleftrightarrow> (r_nfds r \<noteq> -1 \<and> sint (w_timeout_seconds cfg) > 0 \<longrightarrow>
     (\<forall>p \<in> set (session_ptrs cfg (take (nat (r_nfds r)) (r_events r))). \<not> due_at cfg (os_time os (clk st)) st p))"

lemma in_dropWhile: "x \<in> set xs \<Longrightarrow> \<not> P x \<Longrightarrow> x \<in> set (dropWhile P xs)"
  by (induction xs) auto

lemma spared_events:
  assumes "epoll_reports cfg ls r" "sweep_spares cfg os st r" "r_nfds r \<noteq> -1"
  shows "events_ok cfg (if sint (w_timeout_seconds cfg) > 0 then dropWhile (due_at cfg (os_time os (clk st)) st) ls else ls)
    (take (nat (r_nfds r)) (r_events r))"
  using assms by (auto simp: epoll_reports_def sweep_spares_def events_ok_def intro!: in_dropWhile)

lemma iomp_sweep:
  assumes I: "iomp_inv os st bs fs ls {#}" and rep: "epoll_reports cfg ls r" and sp: "sweep_spares cfg os st r"
    and n: "r_nfds r \<noteq> -1"
  defines "st1 \<equiv> st\<lparr>pending := r_accepts r\<rparr>"
  shows "\<exists>st2 bs2 fs2 ls2. (if sint (w_timeout_seconds cfg) > 0
      then close_timeouts cfg os (os_time os (clk st)) (tick st1) else Some st1) = Some st2 \<and>
    iomp_inv os st2 bs2 fs2 ls2 {#} \<and> events_ok cfg ls2 (take (nat (r_nfds r)) (r_events r))"
proof -
  let ?now = "os_time os (clk st)"
  note ev = spared_events [OF rep sp n]
  have I1: "iomp_inv os st1 bs fs ls {#}" by (rule iomp_inv_silent [OF I]) (simp_all add: st1_def)
  show ?thesis
  proof (cases "sint (w_timeout_seconds cfg) > 0")
    case True
    have "iomp_inv os (tick st1) bs fs ls {#}" by (rule iomp_inv_silent [OF I1]) simp_all
    then have "iomp_rep os {#} (tick st1) ls" by (auto simp: iomp_rep_def)
    from iomp_timer.sweep_closes_due [OF this, of cfg ?now] obtain st2 where
      "close_timeouts cfg os ?now (tick st1) = Some st2"
      "iomp_rep os {#} st2 (dropWhile (due_at cfg ?now (tick st1)) ls)" by blast
    moreover have "due_at cfg ?now (tick st1) = due_at cfg ?now st"
      by (simp add: due_at_def [abs_def] st1_def)
    ultimately show ?thesis using ev True by (auto simp: iomp_rep_def)
  next
    case False
    then show ?thesis using I1 ev by auto
  qed
qed

lemma iomp_round_inv:
  assumes I: "iomp_inv os st bs fs ls {#}" and rep: "epoll_reports cfg ls r" and sp: "sweep_spares cfg os st r"
  shows "\<exists>fl q st' bs' fs' ls'. iomp_round cfg os r st = Some (fl, q, st') \<and>
    iomp_inv os st' bs' fs' ls' {#}"
proof (cases "r_nfds r = -1")
  case True
  have "iomp_inv os (st\<lparr>pending := r_accepts r\<rparr>) bs fs ls {#}" by (rule iomp_inv_silent [OF I]) simp_all
  then show ?thesis using True by (auto simp: iomp_round_def Let_def)
next
  case False
  let ?evs = "take (nat (r_nfds r)) (r_events r)"
  obtain st2 bs2 fs2 ls2 where st2: "(if sint (w_timeout_seconds cfg) > 0
      then close_timeouts cfg os (os_time os (clk st)) (tick (st\<lparr>pending := r_accepts r\<rparr>))
      else Some (st\<lparr>pending := r_accepts r\<rparr>)) = Some st2"
    "iomp_inv os st2 bs2 fs2 ls2 {#}" "events_ok cfg ls2 ?evs" using iomp_sweep [OF I rep sp False] by blast
  have "iomp_round cfg os r st = process_events cfg os ?evs False st2"
    using st2(1) False by (simp add: iomp_round_def Let_def split: if_splits)
  then show ?thesis using iomp_process_events [OF st2(2,3)] by simp
qed

text \<open>A condition on each round of a run and the state in which it is delivered.\<close>

fun rounds_hold :: "iomp_cfg \<Rightarrow> iomp_os \<Rightarrow> (iomp \<Rightarrow> round \<Rightarrow> bool) \<Rightarrow> round list \<Rightarrow> iomp \<Rightarrow> bool" where
  "rounds_hold cfg os P [] st = True"
| "rounds_hold cfg os P (r # rs) st \<longleftrightarrow>
     P st r \<and> (\<forall>q st'. iomp_round cfg os r st = Some (Go, q, st') \<longrightarrow> rounds_hold cfg os P rs st')"

text \<open>\<open>epoll_wait\<close> reports open sessions, whichever sessions are open in the state.\<close>

definition reports_open :: "iomp_cfg \<Rightarrow> iomp_os \<Rightarrow> iomp \<Rightarrow> round \<Rightarrow> bool" where
  "reports_open cfg os st r \<longleftrightarrow> (\<forall>bs fs ls. iomp_inv os st bs fs ls {#} \<longrightarrow> epoll_reports cfg ls r)"

lemma iomp_loop_inv:
  assumes "iomp_inv os st bs fs ls {#}" and "rounds_hold cfg os (reports_open cfg os) rs st"
    and "rounds_hold cfg os (sweep_spares cfg os) rs st"
  shows "\<exists>out st' bs' fs' ls'. iomp_loop cfg os rs st = Some (out, st') \<and>
    iomp_inv os st' bs' fs' ls' {#}"
  using assms
proof (induction rs arbitrary: st bs fs ls)
  case Nil
  then show ?case by auto
next
  case (Cons r rs)
  have ok: "epoll_reports cfg ls r" "sweep_spares cfg os st r"
    using Cons.prems unfolding rounds_hold.simps reports_open_def by blast+
  obtain fl q st1 bs1 fs1 ls1 where st1: "iomp_round cfg os r st = Some (fl, q, st1)"
    "iomp_inv os st1 bs1 fs1 ls1 {#}"
    using iomp_round_inv [OF Cons.prems(1) ok] by blast
  show ?case
  proof (cases fl)
    case Go
    then have "rounds_hold cfg os (reports_open cfg os) rs st1" "rounds_hold cfg os (sweep_spares cfg os) rs st1"
      using Cons.prems(2,3) st1(1) by auto
    from Cons.IH [OF st1(2) this] show ?thesis using st1 Go by (cases q) auto
  next
    case (Return n)
    then show ?thesis using st1 by auto
  qed
qed

lemma iomp_worker_inv:
  assumes I: "iomp_inv os st bs fs ls {#}"
    and ok: "rounds_hold cfg os (reports_open cfg os) rs (snd (worker_start cfg os st))"
      "rounds_hold cfg os (sweep_spares cfg os) rs (snd (worker_start cfg os st))"
  shows "\<exists>out st' bs' fs' ls'. tcpdaemon_IOMP_worker cfg os rs st = Some (out, st') \<and>
    iomp_inv os st' bs' fs' ls' {#}"
proof -
  have I1: "iomp_inv os (snd (worker_start cfg os st)) bs fs ls {#}"
    by (rule iomp_inv_silent [OF I]) (simp_all add: worker_start_def Let_def)
  then show ?thesis
    using iomp_loop_inv [OF I1 ok] by (auto simp: tcpdaemon_IOMP_worker_def Let_def split_beta)
qed

end
