(* ===== verification/Props_Iomp.thy ===== *)
theory Props_Iomp
  imports IompInv
begin

text \<open>
  The properties of the session pool and of the IO-multiplexing worker, with their witnesses
  on a small memory that holds one array with one open session.
\<close>

subsection \<open>A small memory\<close>

definition demo_mem :: tdmem where
  "demo_mem =
     \<lparr>sess = (\<lambda>_. zero_session)(0x10000 := \<lparr>sock = 7, sess_data_ptr = 0x9000, begin_timestamp = 100\<rparr>),
      lists = (\<lambda>_. \<lparr>lnext = 0, lprev = 0\<rparr>)
        (0x1000 := \<lparr>lnext = 0x26000, lprev = 0x26000\<rparr>, 0x26000 := \<lparr>lnext = 0x1000, lprev = 0x1000\<rparr>,
         0x2000 := \<lparr>lnext = 0x2000, lprev = 0x2000\<rparr>),
      timers = \<lparr>rbn = (\<lambda>_. \<lparr>rb_parent_color = 1, rb_right = 0, rb_left = 0\<rparr>), rb_root = 0x10040\<rparr>,
      unused_list = 0x2000, array_list = 0x1000\<rparr>"

lemma demo_block_ok: "block_ok demo_mem 0x10000"
  by (simp add: block_ok_def demo_mem_def sizeof_array_def in_block_def)

lemma demo_session_in: "session_in [0x10000] 0x10000"
  using slots_Cons [of "0x10000"] by (auto simp: session_in_def)

lemma demo_pool: "pool demo_mem [0x10000] [] [0x10000]"
proof -
  have "treerep (timers demo_mem) (RNode RLeaf 0x10040 Black RLeaf)"
    by (simp add: treerep_def demo_mem_def aligned_def pack_def RB_BLACK_def)
  moreover have "rbtree (RNode RLeaf 0x10040 Black RLeaf)" by (simp add: rbtree_def)
  ultimately have "\<exists>t. treerep (timers demo_mem) t \<and> rbtree t \<and> addrs t = [0x10040]"
    by (intro exI [of _ "RNode RLeaf 0x10040 Black RLeaf"]) simp
  then have "timer_tree (time_key demo_mem) (timers demo_mem) (map tnode [0x10000])"
    by (simp add: timer_tree_def tnode_def)
  moreover have "blocks_ok demo_mem [0x10000]"
    using demo_block_ok by (simp add: blocks_ok_def demo_mem_def)
  moreover have "dlist (lists demo_mem) (array_list demo_mem) (map prealloc_node [0x10000])"
    "dlist (lists demo_mem) (unused_list demo_mem) (map unused_node [])"
    by (simp_all add: dlist_def demo_mem_def prealloc_node_def)
  ultimately show ?thesis using demo_session_in by (simp add: pool_def)
qed

definition demo_os :: iomp_os where
  "demo_os = \<lparr>os_tcpmain = (\<lambda>_. (3, None)), os_epoll_ctl = (\<lambda>_. 0), os_time = (\<lambda>_. 200),
     os_malloc = (\<lambda>i. if i = 0 then 0x10000 else 0)\<rparr>"

definition demo_cfg :: iomp_cfg where
  "demo_cfg = \<lparr>w_index = 0, w_process_count = 2, w_tcp_nodelay = 1, w_tcp_linger = 0,
     w_timeout_seconds = 60, w_cpu_affinity = 0, w_listen_sock = 3, w_alive_pipe = 4,
     w_epoll_array = [5, 6], w_listen_ptr = 0x3000, w_pipe_ptr = 0x3008, w_addr_ptr = 0x3010\<rparr>"

definition demo_st :: iomp where
  "demo_st = \<lparr>mem = demo_mem, io_multiplex_event = 0, io_multiplex_data_ptr = 0, pending = [],
     clk = 1, trace = [EvAccept 7]\<rparr>"

lemma demo_inv: "iomp_inv demo_os demo_st [0x10000] [] [0x10000] {#}"
proof -
  have "malloc_law demo_os demo_mem"
    using demo_block_ok by (simp add: malloc_law_def demo_os_def)
  moreover have "socks_ok demo_st [0x10000] {#}"
    by (simp add: socks_ok_def live_socks_def demo_st_def demo_mem_def)
  moreover have "blocks_from demo_os 1 [0x10000]" by (simp add: blocks_from_def demo_os_def)
  ultimately show ?thesis using demo_pool by (simp add: iomp_inv_def demo_st_def)
qed

subsection \<open>The pool\<close>

text \<open>\<open>FetchTcpdaemonAcceptedSessionUnused\<close> on a non-empty free list returns its head,
  with storage reset to zero; the session is on no list afterwards, is not one of the open
  sessions, and the open sessions and their order by begin time are untouched.\<close>

theorem fetch_gives_idle_session:
  assumes "pool m bs (p # fs) ls"
  shows "\<exists>m'. FetchTcpdaemonAcceptedSessionUnused block m = (p, m') \<and> pool m' bs fs ls \<and>
    p \<notin> set fs \<union> set ls \<and> sess m' p = zero_session \<and> (\<forall>q \<in> set ls. sess m' q = sess m q)"
proof -
  obtain m' where m': "FetchTcpdaemonAcceptedSessionUnused block m = (p, m')" "pool m' bs fs ls"
    "p \<notin> set fs \<union> set ls" "fetched m bs p m'"
    using pool_Fetch [OF assms] by blast
  moreover have "\<forall>q \<in> set ls. sess m' q = sess m q"
    using m'(3,4) pool_dest(9) [OF assms] by (auto simp: fetched_def)
  ultimately show ?thesis by (auto simp: fetched_def)
qed

definition demo_idle :: tdmem where
  "demo_idle = SetTcpdaemonAcceptedSessionUnused 0x10058 demo_mem"

lemma demo_idle_pool: "pool demo_idle [0x10000] [0x10058] [0x10000]"
proof -
  have "slot 0x10000 1 \<in> set (slots 0x10000)" by (auto simp: slots_def SESSIONCOUNT_OF_ARRAY_def)
  then have "session_in [0x10000] 0x10058"
    by (simp add: session_in_def slot_def sizeof_session_def)
  from pool_Set [OF demo_pool this] show ?thesis by (simp add: demo_idle_def)
qed

lemma fetch_gives_idle_session_witness:
  "\<exists>m'. FetchTcpdaemonAcceptedSessionUnused 0 demo_idle = (0x10058, m') \<and>
    pool m' [0x10000] [] [0x10000] \<and> sess m' 0x10058 = zero_session"
  using fetch_gives_idle_session [OF demo_idle_pool, of 0] by auto

text \<open>On an empty free list a fetch allocates one array of 1024 sessions and hands out its
  first; the other 1023 become the free list, and every open session keeps its contents and its
  place in the tree.\<close>

theorem fetch_grows_pool:
  assumes "pool m bs [] ls" and "blocks_ok m (bs @ [b])"
  shows "\<exists>m' ps. FetchTcpdaemonAcceptedSessionUnused b m = (b, m') \<and> slots b = b # ps \<and>
    length ps = 1023 \<and> pool m' (bs @ [b]) ps ls \<and> b \<notin> set ls \<and> sess m' b = zero_session \<and>
    (\<forall>q \<in> set ls. sess m' q = sess m q)"
proof -
  obtain m' ps where m': "FetchTcpdaemonAcceptedSessionUnused b m = (b, m')" "slots b = b # ps"
    "pool m' (bs @ [b]) ps ls" "b \<notin> set ps \<union> set ls" "sess m' b = zero_session"
    "\<forall>q. session_in bs q \<longrightarrow> sess m' q = sess m q"
    using pool_Fetch_grow [OF assms] by blast
  have "length (slots b) = SESSIONCOUNT_OF_ARRAY" by (simp add: slots_def)
  then have "length ps = 1023" using m'(2) by (simp add: SESSIONCOUNT_OF_ARRAY_def)
  then show ?thesis using m' pool_dest(9) [OF assms(1)] by auto
qed

lemma fetch_grows_pool_witness:
  "\<exists>m' ps. FetchTcpdaemonAcceptedSessionUnused 0x40000 demo_mem = (0x40000, m') \<and>
    pool m' [0x10000, 0x40000] ps [0x10000]"
proof -
  have "block_ok demo_mem 0x40000"
    by (simp add: block_ok_def demo_mem_def sizeof_array_def in_block_def)
  then have "blocks_ok demo_mem ([0x10000] @ [0x40000])"
    using pool_dest(1) [OF demo_pool] by (auto simp: blocks_ok_def apart_def sizeof_array_def)
  from fetch_grows_pool [OF demo_pool this] show ?thesis by auto
qed

text \<open>C17: \<open>FreeAllTcpdaemonAcceptedSessionArray\<close> ends, frees every array exactly once, in the
  order of allocation, and leaves the list of arrays empty.\<close>

theorem free_all_correct:
  assumes "pool m bs fs ls"
  shows "\<exists>h. FreeAllTcpdaemonAcceptedSessionArray m = Some (bs, m\<lparr>lists := h\<rparr>) \<and>
    list_empty (array_list m) h \<and> distinct bs"
proof -
  obtain h where h: "FreeAllTcpdaemonAcceptedSessionArray m = Some (bs, m\<lparr>lists := h\<rparr>)"
    "dlist h (array_list m) []" using pool_FreeAll [OF assms] by blast
  moreover have "distinct bs" using pool_dest(1) [OF assms] by (simp add: blocks_ok_def)
  ultimately show ?thesis using kl.empty_rep [OF h(2)] by auto
qed

lemma free_all_correct_witness:
  "\<exists>h. FreeAllTcpdaemonAcceptedSessionArray demo_mem = Some ([0x10000], demo_mem\<lparr>lists := h\<rparr>)"
  using free_all_correct [OF demo_pool] by blast

subsection \<open>The worker\<close>

text \<open>C3: A run of \<open>tcpdaemon_IOMP_worker\<close> over any sequence of rounds ends every step (no loop
  of it diverges) and keeps the session pool well-formed; at its end every accepted socket is
  held by exactly one open session or has been closed exactly once. It relies on \<open>malloc\<close>,
  on \<open>epoll_wait\<close> reporting open sessions only, each at most once per round, and is restricted to
  runs in which no session with an event is timed out by the sweep of the same round, which
  comes before the events are handled (\<open>closed_session_is_still_served\<close> is about the other runs).\<close>

theorem iomp_worker_accounts_for_sockets:
  assumes "iomp_inv os st bs fs ls {#}"
    and "rounds_hold cfg os (reports_open cfg os) rs (snd (worker_start cfg os st))"
    and "rounds_hold cfg os (sweep_spares cfg os) rs (snd (worker_start cfg os st))"
  shows "\<exists>out st' bs' fs' ls'. tcpdaemon_IOMP_worker cfg os rs st = Some (out, st') \<and>
    pool (mem st') bs' fs' ls' \<and>
    accepted_of (trace st') = closed_of (trace st') + mset (map (\<lambda>p. sock (sess (mem st') p)) ls')"
proof -
  obtain out st' bs' fs' ls' where "tcpdaemon_IOMP_worker cfg os rs st = Some (out, st')"
    and I: "iomp_inv os st' bs' fs' ls' {#}"
    using iomp_worker_inv [OF assms] by blast
  moreover have "pool (mem st') bs' fs' ls'"
    "accepted_of (trace st') = closed_of (trace st') + mset (map (\<lambda>p. sock (sess (mem st') p)) ls')"
    using I by (simp_all add: iomp_inv_def socks_ok_def live_socks_def)
  ultimately show ?thesis by blast
qed

definition demo_rounds :: "round list" where
  "demo_rounds = [\<lparr>r_nfds = 1, r_errno = 0, r_events = [(EPOLLIN, 0x3000)], r_accepts = [Conn 9]\<rparr>]"

lemma iomp_worker_accounts_for_sockets_witness:
  "\<exists>out st' bs' fs' ls'. tcpdaemon_IOMP_worker demo_cfg demo_os demo_rounds demo_st = Some (out, st') \<and>
    pool (mem st') bs' fs' ls' \<and>
    accepted_of (trace st') = closed_of (trace st') + mset (map (\<lambda>p. sock (sess (mem st') p)) ls')"
proof (rule iomp_worker_accounts_for_sockets [OF demo_inv])
  show "rounds_hold demo_cfg demo_os (reports_open demo_cfg demo_os) demo_rounds (snd (worker_start demo_cfg demo_os demo_st))"
    "rounds_hold demo_cfg demo_os (sweep_spares demo_cfg demo_os) demo_rounds (snd (worker_start demo_cfg demo_os demo_st))"
    by (simp_all add: demo_rounds_def reports_open_def epoll_reports_def sweep_spares_def events_ok_def session_ptrs_def demo_cfg_def)
qed

text \<open>C7: The timeout sweep ends, closes exactly the sessions whose time is up, oldest first,
  each with its closing callback, its removal from epoll and the close of its socket, and
  leaves every other session open (when no deadline overflows an \<open>int\<close>).\<close>

theorem timeout_sweep_correct:
  assumes "iomp_inv os st bs fs ls {#}"
    and "\<forall>p \<in> set ls. sint (begin_timestamp (sess (mem st) p)) + sint (w_timeout_seconds cfg) < 2 ^ 31"
    and "sint (w_timeout_seconds cfg) > 0"
  shows "\<exists>st'. close_timeouts cfg os now st = Some st' \<and>
    pool (mem st') bs (fs @ filter (due_at cfg now st) ls) (filter (\<lambda>p. \<not> due_at cfg now st p) ls) \<and>
    trace st' = trace st @ concat (map (closing_events cfg (mem st)) (filter (due_at cfg now st) ls))"
proof -
  note pre = due_prefix [OF iomp_invD(1) [OF assms(1)] assms(2,3), of now]
  show ?thesis
    using close_timeouts_prefix [OF assms(1), of cfg now] unfolding pre iomp_inv_def by blast
qed

lemma timeout_sweep_correct_witness:
  "\<exists>st'. close_timeouts demo_cfg demo_os 160 demo_st = Some st' \<and>
    trace st' = [EvAccept 7, EvMain 2 0 0x9000, EvCtl 5 EPOLL_CTL_DEL 7 0 0, EvClose 7]"
proof -
  have d: "due_at demo_cfg 160 demo_st 0x10000"
    by (simp add: due_at_def demo_cfg_def demo_st_def demo_mem_def)
  have "\<forall>p \<in> set [0x10000]. sint (begin_timestamp (sess (mem demo_st) p)) +
      sint (w_timeout_seconds demo_cfg) < 2 ^ 31" "sint (w_timeout_seconds demo_cfg) > 0"
    by (simp_all add: demo_st_def demo_mem_def demo_cfg_def)
  from timeout_sweep_correct [OF demo_inv this, of 160] d show ?thesis
    by (auto simp: closing_events_def demo_st_def demo_mem_def demo_cfg_def this_epoll_fd_def
        IOMP_ON_CLOSING_SOCKET_def)
qed

text \<open>\<open>CloseTcpdaemonAcceptedSession\<close> on an open session ends, calls the closing callback
  before it closes the socket, and moves the session from the tree to the tail of the free list.\<close>

theorem close_session_correct:
  assumes "iomp_inv os st bs fs ls extra" and "p \<in> set ls"
  shows "\<exists>st'. CloseTcpdaemonAcceptedSession cfg os p st = Some st' \<and>
    pool (mem st') bs (fs @ [p]) (remove1 p ls) \<and>
    trace st' = trace st @ [EvMain IOMP_ON_CLOSING_SOCKET 0 (sess_data_ptr (sess (mem st) p)),
      EvCtl (this_epoll_fd cfg) EPOLL_CTL_DEL (sock (sess (mem st) p)) 0 NULL,
      EvClose (sock (sess (mem st) p))]"
  using iomp_close [OF assms] unfolding iomp_inv_def by blast

lemma close_session_correct_witness:
  "\<exists>st'. CloseTcpdaemonAcceptedSession demo_cfg demo_os 0x10000 demo_st = Some st' \<and>
    pool (mem st') [0x10000] [0x10000] []"
  using close_session_correct [OF demo_inv, of "0x10000" demo_cfg] by auto

text \<open>With several workers, a worker that has drained the listening socket re-arms it,
  one-shot, in the epoll set of the next worker, modulo the number of workers, as its last
  action on the event.\<close>

theorem listen_token_passed:
  assumes "listen_event cfg os ev st = Some (Go, st')" and "w_process_count cfg > 1"
    and "int (w_index cfg) < w_process_count cfg"
  shows "last (trace st') =
    EvCtl (w_epoll_array cfg ! ((w_index cfg + 1) mod nat (w_process_count cfg))) EPOLL_CTL_MOD
      (w_listen_sock cfg) (EPOLLIN OR EPOLLERR OR EPOLLONESHOT) (w_listen_ptr cfg)"
proof -
  let ?j = "if int (w_index cfg) + 1 \<ge> w_process_count cfg then 0 else int (w_index cfg) + 1"
  obtain st1 where "pass_listen cfg os st1 = (Go, st')"
    using assms(1) by (auto simp: listen_event_def split: if_splits option.splits prod.splits flow.splits)
  then have "st' = snd (epoll_ctl os (w_epoll_array cfg ! nat ?j) EPOLL_CTL_MOD (w_listen_sock cfg)
      (EPOLLIN OR EPOLLERR OR EPOLLONESHOT) (w_listen_ptr cfg) st1)"
    using assms(2) by (auto simp: pass_listen_def Let_def split_beta split: if_splits)
  moreover have "nat ?j = (w_index cfg + 1) mod nat (w_process_count cfg)"
  proof (cases "int (w_index cfg) + 1 \<ge> w_process_count cfg")
    case True
    then have "nat (w_process_count cfg) = w_index cfg + 1" using assms(3) by simp
    with True show ?thesis by simp
  next
    case False
    then have "w_index cfg + 1 < nat (w_process_count cfg)" by simp
    with False show ?thesis by simp
  qed
  ultimately show ?thesis by simp
qed

lemma listen_token_passed_witness:
  "\<exists>st'. listen_event demo_cfg demo_os EPOLLIN demo_st = Some (Go, st') \<and>
    last (trace st') = EvCtl 6 EPOLL_CTL_MOD 3 (EPOLLIN OR EPOLLERR OR EPOLLONESHOT) 0x3000"
proof -
  have "\<exists>st'. listen_event demo_cfg demo_os EPOLLIN demo_st = Some (Go, st')"
    by (simp add: listen_event_def has_def EPOLLIN_def demo_st_def pass_listen_def demo_cfg_def
        epoll_ctl_def demo_os_def Let_def)
  then obtain st' where "listen_event demo_cfg demo_os EPOLLIN demo_st = Some (Go, st')" ..
  with listen_token_passed [OF this] show ?thesis by (simp add: demo_cfg_def)
qed

text \<open>When \<open>accept\<close> fails with an error other than \<open>EAGAIN\<close>, the worker returns 1 and
  does nothing else: the one-shot listening socket, which was disarmed when this event was
  delivered, is re-armed in no epoll set.\<close>

theorem accept_error_drops_listen_token:
  assumes "has ev EPOLLIN" and "pending st = AcceptErr e # rest" and "e \<noteq> EAGAIN"
  shows "\<exists>st'. listen_event cfg os ev st = Some (Return 1, st') \<and> trace st' = trace st \<and> mem st' = mem st"
  using assms by (simp add: listen_event_def)

lemma accept_error_drops_listen_token_witness:
  "\<exists>st'. listen_event demo_cfg demo_os EPOLLIN (demo_st\<lparr>pending := [AcceptErr 24]\<rparr>) = Some (Return 1, st') \<and>
    trace st' = [EvAccept 7]"
  using accept_error_drops_listen_token [of EPOLLIN "demo_st\<lparr>pending := [AcceptErr 24]\<rparr>" 24 "[]" demo_cfg demo_os]
  by (auto simp: has_def EPOLLIN_def EAGAIN_def demo_st_def)

text \<open>C16: A session that the timeout sweep of a round closes can still be in the event array of
  that round. The loop does not notice: it calls the receiving callback with the data pointer
  that the closing callback has already been given.\<close>

theorem closed_session_is_still_served:
  assumes "iomp_inv os st bs fs ls {#}" and "p \<in> set (takeWhile (due_at cfg (os_time os (clk st)) st) ls)"
    and "sint (w_timeout_seconds cfg) > 0" and "p \<noteq> w_listen_ptr cfg" and "p \<noteq> w_pipe_ptr cfg"
    and "\<forall>i. fst (os_tcpmain os i) = TCPMAIN_RETURN_WAITINGFOR_NEXT"
    and "r = \<lparr>r_nfds = 1, r_errno = e, r_events = [(EPOLLIN, p)], r_accepts = as\<rparr>"
  shows "\<exists>st' pre. iomp_round cfg os r st = Some (Go, False, st') \<and>
    trace st' = trace st @ pre @ [EvMain IOMP_ON_RECEIVING_SOCKET 0 (sess_data_ptr (sess (mem st) p))] \<and>
    EvMain IOMP_ON_CLOSING_SOCKET 0 (sess_data_ptr (sess (mem st) p)) \<in> set pre \<and>
    EvClose (sock (sess (mem st) p)) \<in> set pre"
proof -
  let ?now = "os_time os (clk st)"
  define st1 where "st1 = tick (st\<lparr>pending := as\<rparr>)"
  have I1: "iomp_inv os st1 bs fs ls {#}"
    by (rule iomp_inv_silent [OF assms(1)]) (simp_all add: st1_def)
  have due: "due_at cfg ?now st1 = due_at cfg ?now st" by (simp add: due_at_def [abs_def] st1_def)
  obtain st2 where st2: "close_timeouts cfg os ?now st1 = Some st2" "sess (mem st2) = sess (mem st1)"
    "trace st2 = trace st1 @ concat (map (closing_events cfg (mem st1)) (takeWhile (due_at cfg ?now st) ls))"
    using close_timeouts_prefix [OF I1, of cfg ?now] unfolding due by blast
  define pre where "pre = concat (map (closing_events cfg (mem st)) (takeWhile (due_at cfg ?now st) ls))"
  have "set (closing_events cfg (mem st) p) \<subseteq> set pre" using assms(2) by (auto simp: pre_def)
  then have pre: "EvMain IOMP_ON_CLOSING_SOCKET 0 (sess_data_ptr (sess (mem st) p)) \<in> set pre"
    "EvClose (sock (sess (mem st) p)) \<in> set pre" by (simp_all add: closing_events_def)
  define st3 where "st3 = snd (call_tcpmain os 0 (sess_data_ptr (sess (mem st2) p))
    (st2\<lparr>io_multiplex_event := IOMP_ON_RECEIVING_SOCKET\<rparr>))"
  have "session_event cfg os EPOLLIN p st2 = Some (Go, st3)"
    using assms(6)
    by (simp add: session_event_def has_def EPOLLIN_def Let_def split_beta session_answer_def st3_def)
  then have "iomp_round cfg os r st = Some (Go, False, st3)"
    using assms(3-5,7) st2(1) by (simp add: iomp_round_def Let_def st1_def)
  moreover have "trace st3 = trace st @ pre @
      [EvMain IOMP_ON_RECEIVING_SOCKET 0 (sess_data_ptr (sess (mem st) p))]"
    using st2(2,3) by (simp add: st3_def st1_def pre_def)
  ultimately show ?thesis using pre by blast
qed

lemma closed_session_is_still_served_witness:
  "\<exists>st' pre. iomp_round demo_cfg demo_os
      \<lparr>r_nfds = 1, r_errno = 0, r_events = [(EPOLLIN, 0x10000)], r_accepts = []\<rparr> demo_st = Some (Go, False, st') \<and>
    trace st' = [EvAccept 7] @ pre @ [EvMain 3 0 0x9000] \<and> EvMain 2 0 0x9000 \<in> set pre \<and> EvClose 7 \<in> set pre"
proof -
  have "0x10000 \<in> set (takeWhile (due_at demo_cfg (os_time demo_os (clk demo_st)) demo_st) [0x10000])"
    by (simp add: due_at_def demo_cfg_def demo_st_def demo_mem_def demo_os_def)
  from closed_session_is_still_served [OF demo_inv this, of _ 0 "[]"] show ?thesis
    by (simp add: demo_cfg_def demo_os_def demo_st_def demo_mem_def TCPMAIN_RETURN_WAITINGFOR_NEXT_def
        IOMP_ON_RECEIVING_SOCKET_def IOMP_ON_CLOSING_SOCKET_def)
qed

end
