(* ===== verification/Props_Tree.thy ===== *)
theory Props_Tree
  imports RbTpl
begin

text \<open>
  The properties of the red-black tree and of its code templates, with their witnesses on a
  small tree.
\<close>

subsection \<open>A small tree\<close>

definition demo_rb :: rbst where
  "demo_rb =
     \<lparr>rbn = (\<lambda>_. \<lparr>rb_parent_color = 0, rb_right = 0, rb_left = 0\<rparr>)
        (8 := \<lparr>rb_parent_color = 16, rb_right = 0, rb_left = 0\<rparr>,
         16 := \<lparr>rb_parent_color = 1, rb_right = 24, rb_left = 8\<rparr>,
         24 := \<lparr>rb_parent_color = 16, rb_right = 0, rb_left = 0\<rparr>),
      rb_root = 16\<rparr>"

definition demo_tree :: rtree where
  "demo_tree = RNode (RNode RLeaf 8 Red RLeaf) 16 Black (RNode RLeaf 24 Red RLeaf)"

lemma demo_treerep: "treerep demo_rb demo_tree"
  by (simp add: treerep_def demo_rb_def demo_tree_def aligned_def pack_def RB_RED_def RB_BLACK_def)

lemma demo_rbtree: "rbtree demo_tree"
  by (simp add: rbtree_def demo_tree_def)

lemma demo_addrs: "addrs demo_tree = [8, 16, 24]"
  by (simp add: demo_tree_def)

text \<open>Keys: the address of the node.\<close>

definition demo_key :: "addr \<Rightarrow> int" where
  "demo_key a = uint a"

lemma demo_timer_tree: "timer_tree demo_key demo_rb [8, 16, 24]"
  using demo_treerep demo_rbtree demo_addrs
  by (auto simp: timer_tree_def demo_key_def)

lemma demo_index_tree: "index_tree demo_key demo_rb [8, 16, 24]"
  using demo_treerep demo_rbtree demo_addrs
  by (auto simp: index_tree_def demo_key_def)

subsection \<open>Insertion and removal\<close>

text \<open>C1: Linking a unit into the timer tree (search, \<open>rb_link_node\<close>, \<open>rb_insert_color\<close>)
  always ends, returns 0, leaves a well-formed red-black tree whose inorder is the old one with
  the unit behind every unit of smaller or equal key, and writes no node outside the tree.\<close>

theorem link_duplicate_correct:
  assumes "timer_tree key s xs" and "x \<noteq> NULL" and "aligned x" and "x \<notin> set xs"
  shows "\<exists>s'. LINK_RBTREENODE_INT_ALLOWDUPLICATE key x s = Some (0, s') \<and>
    timer_tree key s' (takeWhile (\<lambda>a. key a \<le> key x) xs @ x # dropWhile (\<lambda>a. key a \<le> key x) xs) \<and>
    (\<forall>b. b \<notin> insert x (set xs) \<longrightarrow> rbn s' b = rbn s b)"
  using LINK_INT_ALLOWDUPLICATE_refines [OF assms] by (simp add: insert_after_def)

lemma link_duplicate_correct_witness:
  "\<exists>s'. LINK_RBTREENODE_INT_ALLOWDUPLICATE demo_key 20 demo_rb = Some (0, s') \<and>
    timer_tree demo_key s' [8, 16, 20, 24]"
  using link_duplicate_correct [OF demo_timer_tree, of 20]
  by (auto simp: aligned_def demo_key_def)

text \<open>C2: \<open>rb_erase\<close> on any node of a well-formed tree ends and removes exactly that node from
  the inorder sequence; the result is a well-formed red-black tree again (colours and black
  heights), and no memory outside the tree's nodes is written.\<close>

theorem rb_erase_correct:
  assumes "treerep s t" and "rbtree t" and "a \<in> set (addrs t)"
  shows "\<exists>s' t'. rb_erase a s = Some s' \<and> treerep s' t' \<and> rbtree t' \<and>
    addrs t' = remove1 a (addrs t) \<and> (\<forall>b. b \<notin> set (addrs t) \<longrightarrow> rbn s' b = rbn s b)"
  using rb_erase_refines [OF assms] by (auto simp: erased_def)

lemma rb_erase_correct_witness:
  "\<exists>s' t'. rb_erase 16 demo_rb = Some s' \<and> treerep s' t' \<and> rbtree t' \<and> addrs t' = [8, 24]"
  using rb_erase_correct [OF demo_treerep demo_rbtree, of 16] by (auto simp: demo_addrs)

text \<open>\<open>rb_insert_color\<close> after \<open>rb_link_node\<close> at any hole of a well-formed tree ends, and
  the rebalancing keeps the inorder sequence and restores the red-black invariants.\<close>

theorem rb_insert_correct:
  assumes "treerep s (plug k RLeaf)" and "rbtree (plug k RLeaf)"
    and "x \<noteq> NULL" and "aligned x" and "x \<notin> set (addrs (plug k RLeaf))"
  shows "\<exists>s' t'. rb_insert_color x (rb_link_node x (cptr k) (hole_link k) s) = Some s' \<and>
    treerep s' t' \<and> rbtree t' \<and> addrs t' = cleft k @ x # cright k"
  using rb_insert_refines [OF assms] by blast

lemma rb_insert_correct_witness:
  "\<exists>s' t'. rb_insert_color 12 (rb_link_node 12 8 (RightLink 8) demo_rb) = Some s' \<and>
    treerep s' t' \<and> rbtree t' \<and> addrs t' = [8, 12, 16, 24]"
proof -
  let ?k = "[FR RLeaf 8 Red, FL 16 Black (RNode RLeaf 24 Red RLeaf)]"
  have eq: "plug ?k RLeaf = demo_tree" by (simp add: demo_tree_def)
  have "treerep demo_rb (plug ?k RLeaf)" "rbtree (plug ?k RLeaf)"
    unfolding eq by (rule demo_treerep demo_rbtree)+
  from rb_insert_correct [OF this, of 12] show ?thesis
    unfolding eq by (simp add: demo_addrs aligned_def)
qed

subsection \<open>Iteration\<close>

text \<open>C39: \<open>rb_first\<close> and \<open>rb_last\<close> return the ends of the inorder sequence, \<open>rb_next\<close> and
  \<open>rb_prev\<close> the neighbours of a node in it, NULL where there is none; all four end.\<close>

theorem rb_iteration_correct:
  assumes "treerep s t" and "addrs t = xs @ a # ys"
  shows "rb_first s = Some (hd (addrs t)) \<and> rb_last s = Some (last (addrs t)) \<and>
    rb_next a s = Some (case ys of [] \<Rightarrow> NULL | y # _ \<Rightarrow> y) \<and>
    rb_prev a s = Some (if xs = [] then NULL else last xs)"
  using rb_first_refines [OF assms(1)] rb_last_refines [OF assms(1)]
    rb_next_refines [OF assms] rb_prev_refines [OF assms] assms(2)
  by (simp add: first_or_null_def last_or_null_def split: list.splits)

lemma rb_iteration_correct_witness:
  "rb_first demo_rb = Some 8 \<and> rb_last demo_rb = Some 24 \<and> rb_next 16 demo_rb = Some 24 \<and>
   rb_prev 16 demo_rb = Some 8"
  using rb_iteration_correct [OF demo_treerep, of "[8]" 16 "[24]"] by (simp add: demo_addrs)

text \<open>\<open>rb_replace_node\<close> puts the new node at the position of the old one and keeps the
  colours and the shape.\<close>

theorem rb_replace_node_correct:
  assumes "treerep s t" and "rbtree t" and "addrs t = xs @ a # ys" and "x \<noteq> NULL" and "aligned x"
    and "x \<notin> set (addrs t)"
  shows "\<exists>t'. treerep (rb_replace_node a x s) t' \<and> addrs t' = xs @ x # ys \<and> rbtree t'"
  using rb_replace_node_refines [OF assms(1,3-6)] assms(2) by blast

lemma rb_replace_node_correct_witness:
  "\<exists>t'. treerep (rb_replace_node 16 32 demo_rb) t' \<and> addrs t' = [8, 32, 24] \<and> rbtree t'"
  using rb_replace_node_correct [OF demo_treerep demo_rbtree, of "[8]" 16 "[24]" 32]
  by (simp add: demo_addrs aligned_def)

subsection \<open>The templates\<close>

text \<open>\<open>LINK_RBTREENODE\<close> with a comparison that agrees with the keys refuses an equal key
  with -1 and an unchanged tree, and otherwise returns 0 with the unit at its place in the
  strictly sorted inorder.\<close>

theorem link_unique_correct:
  assumes "index_tree key s xs" and "cmp_agrees cmp key"
    and "x \<noteq> NULL" and "aligned x" and "x \<notin> set xs"
  shows "\<exists>s'. if key x \<in> key ` set xs then LINK_RBTREENODE cmp x s = Some (-1, s)
    else LINK_RBTREENODE cmp x s = Some (0, s') \<and>
      (\<exists>ys zs. xs = ys @ zs \<and> index_tree key s' (ys @ x # zs))"
  using LINK_RBTREENODE_refines [OF assms] by auto

lemma link_unique_correct_witness:
  "\<exists>s'. LINK_RBTREENODE_INT demo_key 20 demo_rb = Some (0, s')"
  using link_unique_correct [OF demo_index_tree cmp_key_agrees, of 20]
  by (auto simp: aligned_def demo_key_def LINK_RBTREENODE_INT_def)

text \<open>\<open>QUERY_RBTREENODE\<close> finds a unit with an equal key exactly when there is one, and
  returns NULL otherwise.\<close>

theorem query_correct:
  assumes "index_tree key s xs" and "cmp_agrees cmp key"
  shows "\<exists>a. QUERY_RBTREENODE cmp x s = Some a \<and>
    (if key x \<in> key ` set xs then a \<in> set xs \<and> key a = key x else a = NULL)"
  using QUERY_RBTREENODE_refines [OF assms] .

lemma query_correct_witness:
  "QUERY_RBTREENODE_INT demo_key 24 demo_rb = Some 24 \<and> QUERY_RBTREENODE_INT demo_key 32 demo_rb = Some 0"
  using query_correct [OF demo_index_tree cmp_key_agrees, of 24]
    query_correct [OF demo_index_tree cmp_key_agrees, of 32]
  by (auto simp: demo_key_def QUERY_RBTREENODE_INT_def)

text \<open>\<open>DESTROY_RBTREE\<close> ends, hands every node to the free function exactly once, in
  inorder, and leaves an empty tree.\<close>

theorem destroy_correct:
  assumes "treerep s t" and "rbtree t"
  shows "\<exists>s'. DESTROY_RBTREE [] s = Some (addrs t, s') \<and> rb_root s' = NULL"
  using DESTROY_refines [OF assms, of "[]"] by simp

lemma destroy_correct_witness:
  "\<exists>s'. DESTROY_RBTREE [] demo_rb = Some ([8, 16, 24], s') \<and> rb_root s' = NULL"
  using destroy_correct [OF demo_treerep demo_rbtree] by (simp add: demo_addrs)

end
