(* ===== verification/Tdhb.thy ===== *)
theory Tdhb
  imports Consts
begin

text \<open>
  The fixed-header protocol (TDHB) of \<open>tcpdaemon_lib.c\<close>: a message is a decimal length of
  \<open>head_len\<close> characters followed by the body. The kernel's answers are a script, one element
  per turn of a loop, so each loop is a structural recursion over its script. A result is the
  C return value, \<open>Fault\<close> for an access outside a buffer, or \<open>Blocked\<close> when the script
  ends while the function still waits.
\<close>

type_synonym byte = "8 word"

datatype io_out = Ret int | Fault | Blocked

subsection \<open>Constants\<close>

definition TDHB_ERROR_HEAD_TOO_LONG :: int where "TDHB_ERROR_HEAD_TOO_LONG = -1"
definition TDHB_ERROR_SOCKET_FAILED :: int where "TDHB_ERROR_SOCKET_FAILED = -11"
definition TDHB_ERROR_CONNECT_FAILED :: int where "TDHB_ERROR_CONNECT_FAILED = -12"
definition TDHB_ERROR_SELECT_SEND_FAILED :: int where "TDHB_ERROR_SELECT_SEND_FAILED = -21"
definition TDHB_ERROR_SEND_FAILED :: int where "TDHB_ERROR_SEND_FAILED = -22"
definition TDHB_ERROR_SEND_TIMEOUT :: int where "TDHB_ERROR_SEND_TIMEOUT = -24"
definition TDHB_ERROR_SELECT_RECV_FAILED :: int where "TDHB_ERROR_SELECT_RECV_FAILED = -31"
definition TDHB_ERROR_RECV_FAILED :: int where "TDHB_ERROR_RECV_FAILED = -32"
definition TDHB_ERROR_RECV_TIMEOUT :: int where "TDHB_ERROR_RECV_TIMEOUT = -34"
definition TDHB_ERROR_RECV_BUFFER_OVERFLOW :: int where "TDHB_ERROR_RECV_BUFFER_OVERFLOW = -36"
definition TDHB_ERROR_SOCKET_CLOSED :: int where "TDHB_ERROR_SOCKET_CLOSED = 37"

lemmas tdhb_errors = TDHB_ERROR_HEAD_TOO_LONG_def TDHB_ERROR_SOCKET_FAILED_def
  TDHB_ERROR_CONNECT_FAILED_def TDHB_ERROR_SELECT_SEND_FAILED_def TDHB_ERROR_SEND_FAILED_def
  TDHB_ERROR_SEND_TIMEOUT_def TDHB_ERROR_SELECT_RECV_FAILED_def TDHB_ERROR_RECV_FAILED_def
  TDHB_ERROR_RECV_TIMEOUT_def TDHB_ERROR_RECV_BUFFER_OVERFLOW_def TDHB_ERROR_SOCKET_CLOSED_def


definition HEAD_BUFFER_SIZE :: int where "HEAD_BUFFER_SIZE = 21"

record TDHBContext =
  head_buffer :: "byte list"
  head_remain_len :: int
  body_len :: int
  body_remain_len :: int

definition zero_context :: TDHBContext where
  "zero_context = \<lparr>head_buffer = replicate 21 0, head_remain_len = 0, body_len = 0, body_remain_len = 0\<rparr>"

subsection \<open>Numbers as text\<close>

definition ascii :: "nat \<Rightarrow> byte" where
  "ascii d = of_nat (48 + d)"

fun digits :: "nat \<Rightarrow> byte list" where
  "digits n = (if n < 10 then [ascii n] else digits (n div 10) @ [ascii (n mod 10)])"

declare digits.simps [simp del]

text \<open>\<open>sprintf( buf , "%0*d" , w , n )\<close> without the terminating zero.\<close>

definition format_0d :: "int \<Rightarrow> int \<Rightarrow> byte list" where
  "format_0d w n =
     (let ds = digits (nat \<bar>n\<bar>);
          sign = (if n < 0 then [45] else [])
      in sign @ replicate (nat w - length sign - length ds) 48 @ ds)"

text \<open>Overwriting the start of a buffer.\<close>

definition overlay :: "'a list \<Rightarrow> 'a list \<Rightarrow> 'a list" where
  "overlay new old = new @ drop (length new) old"

definition is_digit :: "byte \<Rightarrow> bool" where
  "is_digit b \<longleftrightarrow> 48 \<le> uint b \<and> uint b \<le> 57"

definition is_space :: "byte \<Rightarrow> bool" where
  "is_space b \<longleftrightarrow> uint b = 32 \<or> (9 \<le> uint b \<and> uint b \<le> 13)"

fun digits_value :: "int \<Rightarrow> byte list \<Rightarrow> int" where
  "digits_value acc [] = acc"
| "digits_value acc (b # bs) =
     (if is_digit b then digits_value (10 * acc + (uint b - 48)) bs else acc)"

text \<open>\<open>strtol\<close> in base 10, which saturates, and \<open>atoi\<close>, its conversion to \<open>int\<close>.\<close>

definition strtol10 :: "byte list \<Rightarrow> int" where
  "strtol10 bs =
     (let bs = dropWhile is_space bs;
          v = (case bs of
                 [] \<Rightarrow> 0
               | b # bs' \<Rightarrow> if uint b = 45 then - digits_value 0 bs'
                           else if uint b = 43 then digits_value 0 bs'
                           else digits_value 0 bs)
      in max (- (2 ^ 63)) (min (2 ^ 63 - 1) v))"

definition atoi :: "byte list \<Rightarrow> int" where
  "atoi bs = sint (word_of_int (strtol10 bs) :: 32 word)"

subsection \<open>Buffers\<close>

text \<open>Reading and writing \<open>n\<close> bytes at an offset, which may lie outside.\<close>

definition read_at :: "byte list \<Rightarrow> int \<Rightarrow> int \<Rightarrow> byte list option" where
  "read_at buf off n =
     (if 0 \<le> off \<and> 0 \<le> n \<and> off + n \<le> int (length buf)
      then Some (take (nat n) (drop (nat off) buf)) else None)"

definition write_at :: "byte list \<Rightarrow> int \<Rightarrow> byte list \<Rightarrow> byte list option" where
  "write_at buf off bs =
     (if 0 \<le> off \<and> off + int (length bs) \<le> int (length buf)
      then Some (take (nat off) buf @ bs @ drop (nat off + length bs) buf) else None)"

text \<open>\<open>head_len > sizeof(head_buffer)-1\<close> is an unsigned comparison.\<close>

definition head_too_long :: "int \<Rightarrow> bool" where
  "head_too_long head_len \<longleftrightarrow> (word_of_int head_len :: 64 word) > 20"

subsection \<open>Timeouts\<close>

type_synonym timeval = "int \<times> int"

function tv_norm :: "timeval \<Rightarrow> timeval" where
  "tv_norm (sec, usec) = (if usec < 0 then tv_norm (sec - 1, usec + 1000000) else (sec, usec))"
  by pat_completeness auto
termination by (relation "measure (\<lambda>(sec, usec). nat (- usec))") auto

declare tv_norm.simps [simp del]

text \<open>The code after each turn: subtract the time between the two calls of \<open>gettimeofday\<close>.\<close>

definition tv_elapse :: "timeval \<Rightarrow> timeval \<Rightarrow> timeval \<Rightarrow> timeval" where
  "tv_elapse begin_ts end_ts timeout =
     tv_norm (fst timeout - (fst end_ts - fst begin_ts), snd timeout - (snd end_ts - snd begin_ts))"

subsection \<open>Blocking send\<close>

text \<open>
  What the kernel answers in one turn. \<open>tv_left\<close> is what \<open>select\<close> leaves in the timeout
  (Linux stores the time not slept); the length is that of \<open>writev\<close> or \<open>write\<close>.
\<close>

record send_turn =
  t_begin :: timeval
  t_select :: int
  t_left :: timeval
  t_len :: int
  t_end :: timeval

record send_st =
  ctx :: TDHBContext
  sent :: "byte list"
  p_body_len :: int
  timeout :: timeval

definition bytes_done :: "int \<Rightarrow> TDHBContext \<Rightarrow> int" where
  "bytes_done head_len c = head_len + body_len c - head_remain_len c - body_remain_len c"

definition init_send :: "int \<Rightarrow> int \<Rightarrow> TDHBContext \<Rightarrow> TDHBContext" where
  "init_send head_len n c =
     (let c = c\<lparr>body_len := n\<rparr>;
          c = c\<lparr>head_buffer := overlay (format_0d head_len (body_len c) @ [0]) (head_buffer c)\<rparr>;
          c = c\<lparr>head_remain_len := head_len\<rparr>
      in c\<lparr>body_remain_len := body_len c\<rparr>)"

text \<open>
  What \<open>writev\<close> of the rest of the header and of the body from its start sends, and the
  bookkeeping that follows it; likewise for \<open>write\<close> of the rest of the body.
\<close>

definition writev_bytes :: "int \<Rightarrow> byte list \<Rightarrow> int \<Rightarrow> TDHBContext \<Rightarrow> byte list option" where
  "writev_bytes head_len body_buffer len c =
     (case (read_at (head_buffer c) (head_len - head_remain_len c) (head_remain_len c),
            read_at body_buffer 0 (body_remain_len c)) of
        (Some h, Some b) \<Rightarrow> Some (take (nat len) (h @ b))
      | _ \<Rightarrow> None)"

definition after_writev :: "int \<Rightarrow> int \<Rightarrow> TDHBContext \<Rightarrow> TDHBContext" where
  "after_writev head_len len c =
     (if len \<ge> head_remain_len c
      then (let c = c\<lparr>head_remain_len := 0\<rparr>
            in c\<lparr>body_remain_len := body_remain_len c - (len - head_len)\<rparr>)
      else c\<lparr>head_remain_len := head_remain_len c - len\<rparr>)"

definition write_bytes :: "byte list \<Rightarrow> int \<Rightarrow> TDHBContext \<Rightarrow> byte list option" where
  "write_bytes body_buffer len c =
     map_option (take (nat len))
       (read_at body_buffer (body_len c - body_remain_len c) (body_remain_len c))"

definition after_write :: "int \<Rightarrow> TDHBContext \<Rightarrow> TDHBContext" where
  "after_write len c = c\<lparr>body_remain_len := body_remain_len c - len\<rparr>"

fun send_loop :: "int \<Rightarrow> byte list \<Rightarrow> send_turn list \<Rightarrow> send_st \<Rightarrow> io_out \<times> send_st" where
  "send_loop head_len body_buffer [] st =
     (if head_remain_len (ctx st) \<noteq> 0 \<or> body_remain_len (ctx st) \<noteq> 0 then (Blocked, st) else (Ret 0, st))"
| "send_loop head_len body_buffer (t # ts) st =
     (if head_remain_len (ctx st) \<noteq> 0 \<or> body_remain_len (ctx st) \<noteq> 0 then
        (let st = st\<lparr>timeout := t_left t\<rparr>;
             fail = st\<lparr>p_body_len := bytes_done head_len (ctx st)\<rparr> in
         if t_select t = 0 then (Ret TDHB_ERROR_SEND_TIMEOUT, fail)
         else if t_select t = -1 then (Ret TDHB_ERROR_SELECT_SEND_FAILED, fail)
         else if t_len t = -1 then (Ret TDHB_ERROR_SEND_FAILED, fail)
         else
           (case (if head_remain_len (ctx st) \<noteq> 0 then writev_bytes head_len body_buffer (t_len t) (ctx st)
                  else write_bytes body_buffer (t_len t) (ctx st)) of
              None \<Rightarrow> (Fault, st)
            | Some bs \<Rightarrow>
                send_loop head_len body_buffer ts
                  (st\<lparr>ctx := (if head_remain_len (ctx st) \<noteq> 0 then after_writev head_len (t_len t) (ctx st)
                              else after_write (t_len t) (ctx st)),
                      sent := sent st @ bs,
                      timeout := tv_elapse (t_begin t) (t_end t) (timeout st)\<rparr>)))
      else (Ret 0, st))"

definition TDHBSendData ::
  "int \<Rightarrow> byte list \<Rightarrow> int \<Rightarrow> timeval \<Rightarrow> send_turn list \<Rightarrow> io_out \<times> send_st" where
  "TDHBSendData head_len body_buffer body_len0 timeout0 ts =
     (let st = \<lparr>ctx = zero_context, sent = [], p_body_len = body_len0, timeout = timeout0\<rparr>
      in if head_too_long head_len then (Ret TDHB_ERROR_HEAD_TOO_LONG, st)
         else send_loop head_len body_buffer ts (st\<lparr>ctx := init_send head_len body_len0 (ctx st)\<rparr>))"

subsection \<open>Blocking receive\<close>

text \<open>One turn: \<open>None\<close> for \<open>read\<close> returning -1, else the bytes it stored.\<close>

record recv_turn =
  r_begin :: timeval
  r_select :: int
  r_left :: timeval
  r_data :: "byte list option"
  r_end :: timeval

record recv_st =
  rctx :: TDHBContext
  rbuf :: "byte list"
  p_body_bufsize :: int
  rtimeout :: timeval

text \<open>
  The header is complete: terminate it, convert it, check it. \<open>Inl\<close> is an early return.
\<close>

definition head_complete :: "int \<Rightarrow> int \<Rightarrow> recv_st \<Rightarrow> (io_out \<times> recv_st) + recv_st" where
  "head_complete head_len len st =
     (let c = (rctx st)\<lparr>head_remain_len := 0\<rparr> in
      case write_at (head_buffer c) head_len [0] of
        None \<Rightarrow> Inl (Fault, st)
      | Some hb \<Rightarrow>
          (let c = c\<lparr>head_buffer := hb\<rparr>;
               c = c\<lparr>body_len := atoi (takeWhile (\<lambda>b. b \<noteq> 0) hb)\<rparr>
           in if body_len c > p_body_bufsize st
              then Inl (Ret TDHB_ERROR_RECV_BUFFER_OVERFLOW, st\<lparr>rctx := c\<rparr>)
              else Inr (st\<lparr>rctx := c\<lparr>body_remain_len := body_len c - (len - head_len)\<rparr>\<rparr>)))"

text \<open>\<open>read\<close> into the header buffer, and into the body buffer.\<close>

definition read_head :: "int \<Rightarrow> byte list \<Rightarrow> recv_st \<Rightarrow> recv_st option" where
  "read_head head_len bs st =
     map_option (\<lambda>hb. st\<lparr>rctx := (rctx st)\<lparr>head_buffer := hb\<rparr>\<rparr>)
       (write_at (head_buffer (rctx st)) (head_len - head_remain_len (rctx st)) bs)"

definition read_body :: "byte list \<Rightarrow> recv_st \<Rightarrow> recv_st option" where
  "read_body bs st =
     map_option (\<lambda>b. st\<lparr>rbuf := b\<rparr>)
       (write_at (rbuf st) (body_len (rctx st) - body_remain_len (rctx st)) bs)"

definition recv_elapse :: "recv_turn \<Rightarrow> recv_st \<Rightarrow> recv_st" where
  "recv_elapse t st = st\<lparr>rtimeout := tv_elapse (r_begin t) (r_end t) (rtimeout st)\<rparr>"

fun recv_loop :: "int \<Rightarrow> recv_turn list \<Rightarrow> recv_st \<Rightarrow> io_out \<times> recv_st" where
  "recv_loop head_len [] st =
     (if head_remain_len (rctx st) \<noteq> 0 \<or> body_remain_len (rctx st) \<noteq> 0 then (Blocked, st)
      else (Ret 0, st\<lparr>p_body_bufsize := body_len (rctx st)\<rparr>))"
| "recv_loop head_len (t # ts) st =
     (if head_remain_len (rctx st) \<noteq> 0 \<or> body_remain_len (rctx st) \<noteq> 0 then
        (let st = st\<lparr>rtimeout := r_left t\<rparr>;
             got = (if head_remain_len (rctx st) \<noteq> 0 then 0
                    else body_len (rctx st) - body_remain_len (rctx st));
             fail = st\<lparr>p_body_bufsize := got\<rparr> in
         if r_select t = 0 then (Ret TDHB_ERROR_RECV_TIMEOUT, fail)
         else if r_select t = -1 then (Ret TDHB_ERROR_SELECT_RECV_FAILED, fail)
         else
           (case r_data t of
              None \<Rightarrow> (Ret TDHB_ERROR_RECV_FAILED, fail)
            | Some bs \<Rightarrow>
                if head_remain_len (rctx st) \<noteq> 0 then
                  (if bs = [] then (Ret TDHB_ERROR_SOCKET_CLOSED, fail)
                   else
                     (case read_head head_len bs st of
                        None \<Rightarrow> (Fault, st)
                      | Some st \<Rightarrow>
                          if int (length bs) = head_remain_len (rctx st) then
                            (case head_complete head_len (int (length bs)) st of
                               Inl (r, st) \<Rightarrow>
                                 (r, if r = Ret TDHB_ERROR_RECV_BUFFER_OVERFLOW
                                     then st\<lparr>p_body_bufsize := 0\<rparr> else st)
                             | Inr st \<Rightarrow> recv_loop head_len ts (recv_elapse t st))
                          else
                            recv_loop head_len ts (recv_elapse t (st\<lparr>rctx := (rctx st)
                              \<lparr>head_remain_len := head_remain_len (rctx st) - int (length bs)\<rparr>\<rparr>))))
                else
                  (case read_body bs st of
                     None \<Rightarrow> (Fault, st)
                   | Some st \<Rightarrow>
                       recv_loop head_len ts (recv_elapse t (st\<lparr>rctx := (rctx st)
                         \<lparr>body_remain_len := body_remain_len (rctx st) - int (length bs)\<rparr>\<rparr>)))))
      else (Ret 0, st\<lparr>p_body_bufsize := body_len (rctx st)\<rparr>))"

definition TDHBReceiveData ::
  "int \<Rightarrow> byte list \<Rightarrow> int \<Rightarrow> timeval \<Rightarrow> recv_turn list \<Rightarrow> io_out \<times> recv_st" where
  "TDHBReceiveData head_len body_buffer bufsize timeout0 ts =
     (let c = zero_context\<lparr>head_remain_len := head_len, body_remain_len := 0\<rparr>
      in recv_loop head_len ts
           \<lparr>rctx = c, rbuf = body_buffer, p_body_bufsize = bufsize, rtimeout = timeout0\<rparr>)"

subsection \<open>Send and receive on one connection\<close>

text \<open>What \<open>connect\<close> is given: an address, and a port of 16 bits. \<open>inet_addr\<close> reads the text.\<close>

datatype in_addr = INADDR_ANY | inet_addr string

record call_st =
  c_sent :: "byte list"
  c_body_len :: int
  c_buf :: "byte list"
  c_bufsize :: int
  c_timeout :: timeval
  c_closed :: "int list"
  c_connects :: "(int \<times> in_addr \<times> int) list"

text \<open>The body buffer is shared: the answer overwrites the request.\<close>

definition TDHBSendAndReceiveData ::
  "int \<Rightarrow> send_turn list \<Rightarrow> recv_turn list \<Rightarrow> call_st \<Rightarrow> io_out \<times> call_st" where
  "TDHBSendAndReceiveData head_len sts rts st =
     (let (nret, s) = TDHBSendData head_len (c_buf st) (c_body_len st) (c_timeout st) sts;
          st = st\<lparr>c_sent := c_sent st @ sent s, c_body_len := p_body_len s, c_timeout := timeout s\<rparr>
      in if nret \<noteq> Ret 0 then (nret, st)
         else
           (let (nret, r) = TDHBReceiveData head_len (c_buf st) (c_bufsize st) (c_timeout st) rts
            in (nret, st\<lparr>c_buf := rbuf r, c_bufsize := p_body_bufsize r, c_timeout := rtimeout r\<rparr>)))"

text \<open>\<open>socket\<close> and \<open>connect\<close> answer with their return values.\<close>

definition TDHBConnect :: "string \<Rightarrow> int \<Rightarrow> int \<Rightarrow> int \<Rightarrow> call_st \<Rightarrow> int \<times> call_st" where
  "TDHBConnect ip port sock connect_ret st =
     (if sock = -1 then (TDHB_ERROR_SOCKET_FAILED, st)
      else
        (let sin_addr = (if ip = [] then INADDR_ANY else inet_addr ip);
             sin_port = port mod 65536;
             st = st\<lparr>c_connects := c_connects st @ [(sock, sin_addr, sin_port)]\<rparr>
         in if connect_ret = -1 then (TDHB_ERROR_CONNECT_FAILED, st\<lparr>c_closed := c_closed st @ [sock]\<rparr>)
            else (sock, st)))"

definition TDHBDisconnect :: "int \<Rightarrow> call_st \<Rightarrow> call_st" where
  "TDHBDisconnect sock st = st\<lparr>c_closed := c_closed st @ [sock]\<rparr>"

definition TDHBCall ::
  "string \<Rightarrow> int \<Rightarrow> int \<Rightarrow> int \<Rightarrow> int \<Rightarrow> send_turn list \<Rightarrow> recv_turn list \<Rightarrow> call_st \<Rightarrow> io_out \<times> call_st" where
  "TDHBCall ip port sock connect_ret head_len sts rts st =
     (let (sock, st) = TDHBConnect ip port sock connect_ret st in
      if sock < 0 then (Ret sock, st)
      else
        (let (nret, st) = TDHBSendAndReceiveData head_len sts rts st in
         case nret of
           Ret n \<Rightarrow> if n \<noteq> 0 then (Ret n, st\<lparr>c_closed := c_closed st @ [sock]\<rparr>)
                    else (Ret 0, TDHBDisconnect sock st)
         | other \<Rightarrow> (other, st)))"

subsection \<open>Non-blocking send and receive\<close>

text \<open>One turn: the length, and \<open>errno\<close> when it is -1.\<close>

record nb_send_st =
  nctx :: TDHBContext
  nsent :: "byte list"
  np_body_len :: int

fun nb_send_loop ::
  "int \<Rightarrow> byte list \<Rightarrow> (int \<times> int) list \<Rightarrow> nb_send_st \<Rightarrow> io_out \<times> nb_send_st" where
  "nb_send_loop head_len body_buffer [] st = (Blocked, st)"
| "nb_send_loop head_len body_buffer ((len, errno) # ts) st =
     (let c = nctx st in
      if len = -1 then
        (if errno = EAGAIN then (Ret TCPMAIN_RETURN_WAITINGFOR_NEXT, st)
         else (Ret TDHB_ERROR_SEND_FAILED, st\<lparr>np_body_len := bytes_done head_len c\<rparr>))
      else if head_remain_len c \<noteq> 0 then
        (case writev_bytes head_len body_buffer len c of
           None \<Rightarrow> (Fault, st)
         | Some bs \<Rightarrow>
             (let st = st\<lparr>nctx := after_writev head_len len c, nsent := nsent st @ bs\<rparr> in
              if body_remain_len (nctx st) = 0 then (Ret TCPMAIN_RETURN_WAITINGFOR_RECEIVING, st)
              else nb_send_loop head_len body_buffer ts st))
      else
        (case write_bytes body_buffer len c of
           None \<Rightarrow> (Fault, st)
         | Some bs \<Rightarrow>
             (let st = st\<lparr>nctx := after_write len c, nsent := nsent st @ bs\<rparr> in
              if body_remain_len (nctx st) = 0 then (Ret TCPMAIN_RETURN_WAITINGFOR_RECEIVING, st)
              else nb_send_loop head_len body_buffer ts st)))"

definition TDHBSendDataWithNonblock ::
  "int \<Rightarrow> byte list \<Rightarrow> (int \<times> int) list \<Rightarrow> nb_send_st \<Rightarrow> io_out \<times> nb_send_st" where
  "TDHBSendDataWithNonblock head_len body_buffer ts st =
     (if head_too_long head_len then (Ret TDHB_ERROR_HEAD_TOO_LONG, st)
      else
        (let st = (if head_remain_len (nctx st) = 0 \<and> body_remain_len (nctx st) = 0
                   then st\<lparr>nctx := init_send head_len (np_body_len st) (nctx st)\<rparr> else st)
         in nb_send_loop head_len body_buffer ts st))"

text \<open>One turn: \<open>Inl errno\<close> for -1, else the bytes stored. The state is that of the blocking variant.\<close>

fun nb_recv_loop ::
  "int \<Rightarrow> (int + byte list) list \<Rightarrow> recv_st \<Rightarrow> io_out \<times> recv_st" where
  "nb_recv_loop head_len [] st = (Blocked, st)"
| "nb_recv_loop head_len (t # ts) st =
     (let c = rctx st in
      if head_remain_len c \<noteq> 0 then
        (case t of
           Inl errno \<Rightarrow>
             if errno = EAGAIN then (Ret TCPMAIN_RETURN_WAITINGFOR_NEXT, st)
             else (Ret TDHB_ERROR_RECV_FAILED, st\<lparr>p_body_bufsize := 0\<rparr>)
         | Inr bs \<Rightarrow>
             if bs = [] then
               (Ret TDHB_ERROR_SOCKET_CLOSED, st\<lparr>p_body_bufsize := head_len - head_remain_len c\<rparr>)
             else
               (case read_head head_len bs st of
                  None \<Rightarrow> (Fault, st)
                | Some st \<Rightarrow>
                    if int (length bs) = head_remain_len (rctx st) then
                      (case head_complete head_len (int (length bs)) st of
                         Inl (r, st) \<Rightarrow> (r, st)
                       | Inr st \<Rightarrow>
                           if body_remain_len (rctx st) = 0
                           then (Ret TCPMAIN_RETURN_WAITINGFOR_SENDING, st\<lparr>p_body_bufsize := 0\<rparr>)
                           else nb_recv_loop head_len ts st)
                    else
                      nb_recv_loop head_len ts (st\<lparr>rctx := (rctx st)
                        \<lparr>head_remain_len := head_remain_len (rctx st) - int (length bs)\<rparr>\<rparr>)))
      else
        (case t of
           Inl errno \<Rightarrow>
             if errno = EAGAIN then (Ret TCPMAIN_RETURN_WAITINGFOR_NEXT, st)
             else (Ret TDHB_ERROR_RECV_FAILED, st\<lparr>p_body_bufsize := body_len c - body_remain_len c\<rparr>)
         | Inr bs \<Rightarrow>
             if bs = [] then
               (Ret TDHB_ERROR_SOCKET_CLOSED,
                st\<lparr>p_body_bufsize := head_len + body_len c - body_remain_len c\<rparr>)
             else
               (case read_body bs st of
                  None \<Rightarrow> (Fault, st)
                | Some st \<Rightarrow>
                    (let st = st\<lparr>rctx := (rctx st)
                           \<lparr>body_remain_len := body_remain_len (rctx st) - int (length bs)\<rparr>\<rparr>
                     in if body_remain_len (rctx st) = 0
                        then (Ret TCPMAIN_RETURN_WAITINGFOR_SENDING, st\<lparr>p_body_bufsize := body_len (rctx st)\<rparr>)
                        else nb_recv_loop head_len ts st))))"

definition TDHBReceiveDataWithNonblock ::
  "int \<Rightarrow> (int + byte list) list \<Rightarrow> recv_st \<Rightarrow> io_out \<times> recv_st" where
  "TDHBReceiveDataWithNonblock head_len ts st =
     (let c = rctx st;
          c = (if head_remain_len c = 0 \<and> body_remain_len c = 0
               then \<lparr>head_buffer = replicate 21 0, head_remain_len = head_len, body_len = 0,
                     body_remain_len = 0\<rparr>
               else c)
      in nb_recv_loop head_len ts (st\<lparr>rctx := c\<rparr>))"

end
