(* ===== verification/TdhbInv.thy ===== *)
theory TdhbInv
  imports Tdhb
begin

text \<open>
  Lemmas about the fixed-header protocol: the decimal header, the bookkeeping of the send and
  receive loops for every way the kernel may split the transfer.
\<close>

declare send_loop.simps(2) [simp del] recv_loop.simps(2) [simp del]
declare nb_send_loop.simps(2) [simp del] nb_recv_loop.simps(2) [simp del]

subsection \<open>Decimal numbers\<close>

lemma uint_ascii [simp]: "d < 10 \<Longrightarrow> uint (ascii d) = 48 + int d"
proof -
  assume "d < 10"
  then have "uint (word_of_int (int (48 + d)) :: byte) = int (48 + d)"
    by (subst uint_word_of_int) (simp del: of_nat_add)
  then show ?thesis unfolding ascii_def of_int_of_nat_eq by simp
qed

lemma is_digit_ascii [simp]: "d < 10 \<Longrightarrow> is_digit (ascii d)"
  by (simp add: is_digit_def)

lemma digits_value_append:
  assumes "\<forall>b \<in> set xs. is_digit b"
  shows "digits_value acc (xs @ ys) = digits_value (digits_value acc xs) ys"
  using assms by (induction xs arbitrary: acc) auto

lemma digits_are_digits: "b \<in> set (digits n) \<Longrightarrow> is_digit b"
  by (induction n arbitrary: b rule: digits.induct)
     (subst (asm) (2) digits.simps, auto split: if_splits)

lemma digits_value_digits: "digits_value 0 (digits n) = int n"
proof (induction n rule: digits.induct)
  case (1 n)
  show ?case
  proof (cases "n < 10")
    case True
    then show ?thesis by (subst digits.simps) simp
  next
    case False
    then have "digits_value 0 (digits n) = 10 * int (n div 10) + int (n mod 10)"
      using 1 by (subst digits.simps) (simp add: digits_value_append digits_are_digits)
    then show ?thesis by presburger
  qed
qed

lemma digits_value_zeros: "digits_value 0 (replicate k 48 @ bs) = digits_value 0 bs"
  by (induction k) (auto simp: is_digit_def)

lemma length_digits_pos: "0 < length (digits n)"
  by (subst digits.simps) simp

lemma length_digits: "n < 10 ^ k \<Longrightarrow> 0 < k \<Longrightarrow> length (digits n) \<le> k"
proof (induction k arbitrary: n)
  case (Suc k)
  show ?case
  proof (cases "n < 10")
    case True
    then show ?thesis by (subst digits.simps) simp
  next
    case False
    then have "0 < k" using Suc.prems by (cases k) auto
    moreover have "n div 10 < 10 ^ k" using Suc.prems by (simp add: less_mult_imp_div_less mult.commute)
    ultimately show ?thesis using Suc.IH [of "n div 10"] False by (subst digits.simps) simp
  qed
qed simp

lemma format_0d_nonneg:
  "0 \<le> n \<Longrightarrow> format_0d w n = replicate (nat w - length (digits (nat n))) 48 @ digits (nat n)"
  by (simp add: format_0d_def Let_def)

lemma length_format_0d:
  assumes "0 \<le> n" "0 < w" "n < 10 ^ nat w"
  shows "length (format_0d w n) = nat w"
proof -
  have "int (nat n) < int (10 ^ nat w)" using assms by simp
  then have "nat n < 10 ^ nat w" using of_nat_less_iff by blast
  then have "length (digits (nat n)) \<le> nat w" using assms by (intro length_digits) auto
  then show ?thesis using assms by (simp add: format_0d_nonneg)
qed

lemma format_0d_digits: "0 \<le> n \<Longrightarrow> b \<in> set (format_0d w n) \<Longrightarrow> is_digit b"
  by (auto simp: format_0d_nonneg digits_are_digits) (auto simp: is_digit_def)

lemma digits_no_space: "\<forall>b \<in> set bs. is_digit b \<Longrightarrow> dropWhile is_space bs = bs"
  by (cases bs) (auto simp: is_digit_def is_space_def)

lemma strtol10_digits:
  assumes "\<forall>b \<in> set bs. is_digit b"
  shows "strtol10 bs = max (- (2 ^ 63)) (min (2 ^ 63 - 1) (digits_value 0 bs))"
proof -
  have "dropWhile is_space bs = bs" using assms by (rule digits_no_space)
  then show ?thesis using assms by (cases bs) (auto simp: strtol10_def Let_def is_digit_def)
qed

lemma atoi_format_0d:
  assumes "0 \<le> n" "n < 2 ^ 31"
  shows "atoi (format_0d w n) = n"
proof -
  have "strtol10 (format_0d w n) = max (- (2 ^ 63)) (min (2 ^ 63 - 1) n)"
    using assms by (simp add: strtol10_digits format_0d_digits)
       (simp add: format_0d_nonneg digits_value_zeros digits_value_digits)
  then have "strtol10 (format_0d w n) = n" using assms by simp
  then show ?thesis
    using assms by (simp add: atoi_def sint_word_ariths signed_take_bit_int_eq_self sint_sbintrunc')
qed

lemma zero_not_digit: "\<forall>b \<in> set bs. is_digit b \<Longrightarrow> takeWhile (\<lambda>b. b \<noteq> 0) bs = bs"
  by (auto simp: is_digit_def takeWhile_eq_all_conv)


subsection \<open>The wire format and the progress of a send\<close>

definition message :: "int \<Rightarrow> byte list \<Rightarrow> int \<Rightarrow> byte list" where
  "message head_len body n = format_0d head_len n @ take (nat n) body"

text \<open>The lengths a header and a body may have.\<close>

definition lengths_ok :: "int \<Rightarrow> byte list \<Rightarrow> int \<Rightarrow> bool" where
  "lengths_ok head_len body n \<longleftrightarrow>
     0 < head_len \<and> head_len \<le> 20 \<and> 0 \<le> n \<and> n < 10 ^ nat head_len \<and> n < 2 ^ 31 \<and> n \<le> int (length body)"

text \<open>\<open>k\<close> bytes of the message are out, and the header was not split.\<close>

definition send_at :: "int \<Rightarrow> byte list \<Rightarrow> int \<Rightarrow> int \<Rightarrow> TDHBContext \<Rightarrow> byte list \<Rightarrow> bool" where
  "send_at head_len body n k c out \<longleftrightarrow>
     (k = 0 \<or> head_len \<le> k) \<and> k \<le> head_len + n \<and> body_len c = n
     \<and> length (head_buffer c) = 21 \<and> take (nat head_len) (head_buffer c) = format_0d head_len n
     \<and> head_remain_len c = (if k = 0 then head_len else 0)
     \<and> body_remain_len c = (if k = 0 then n else n - (k - head_len))
     \<and> out = take (nat k) (message head_len body n)"

lemma head_not_too_long: "0 \<le> w \<Longrightarrow> w \<le> 20 \<Longrightarrow> \<not> head_too_long w"
proof -
  assume "0 \<le> w" "w \<le> 20"
  then have "uint (word_of_int w :: 64 word) = w" by (subst uint_word_of_int) simp
  then show ?thesis using \<open>w \<le> 20\<close> by (simp add: head_too_long_def word_less_def)
qed

lemma length_header: "lengths_ok w body n \<Longrightarrow> length (format_0d w n) = nat w"
  by (auto simp: lengths_ok_def intro!: length_format_0d)

lemma length_message: "lengths_ok w body n \<Longrightarrow> length (message w body n) = nat (w + n)"
  by (simp add: message_def length_header) (auto simp: lengths_ok_def)

lemma init_send_at:
  assumes "lengths_ok w body n" "length (head_buffer c) = 21"
  shows "send_at w body n 0 (init_send w n c) []"
  using assms length_header [OF assms(1)]
  by (auto simp: send_at_def init_send_def overlay_def Let_def lengths_ok_def)

lemma bytes_done_at: "send_at w body n k c out \<Longrightarrow> 0 < w \<Longrightarrow> bytes_done w c = k"
  by (auto simp: send_at_def bytes_done_def)

lemma pending_iff:
  "send_at w body n k c out \<Longrightarrow> lengths_ok w body n \<Longrightarrow>
     head_remain_len c \<noteq> 0 \<or> body_remain_len c \<noteq> 0 \<longleftrightarrow> k < w + n"
  by (auto simp: send_at_def lengths_ok_def)

lemma first_write:
  assumes "lengths_ok w body n" "send_at w body n 0 c out" "w \<le> l" "l \<le> w + n"
  shows "\<exists>bs. writev_bytes w body l c = Some bs \<and> send_at w body n l (after_writev w l c) (out @ bs)"
proof -
  have "read_at (head_buffer c) 0 w = Some (format_0d w n)"
    using assms by (auto simp: send_at_def read_at_def lengths_ok_def)
  moreover have "read_at body 0 n = Some (take (nat n) body)"
    using assms by (auto simp: read_at_def lengths_ok_def)
  ultimately have "writev_bytes w body l c = Some (take (nat l) (message w body n))"
    using assms by (simp add: writev_bytes_def send_at_def message_def)
  moreover have "send_at w body n l (after_writev w l c) (take (nat l) (message w body n))"
    using assms by (auto simp: send_at_def after_writev_def lengths_ok_def Let_def)
  ultimately show ?thesis using assms by (auto simp: send_at_def)
qed

lemma later_write:
  assumes "lengths_ok w body n" "send_at w body n k c out" "k \<noteq> 0" "0 < l" "k + l \<le> w + n"
  shows "\<exists>bs. write_bytes body l c = Some bs \<and> send_at w body n (k + l) (after_write l c) (out @ bs)"
proof -
  let ?o = "k - w"
  have k: "w \<le> k" "0 < w" "0 \<le> n" "n \<le> int (length body)"
    using assms by (auto simp: send_at_def lengths_ok_def)
  have "read_at body ?o (n - ?o) = Some (take (nat (n - ?o)) (drop (nat ?o) body))"
    using k assms by (auto simp: read_at_def)
  then have w: "write_bytes body l c = Some (take (nat l) (take (nat (n - ?o)) (drop (nat ?o) body)))"
    using assms by (simp add: write_bytes_def send_at_def)
  have "take (nat l) (take (nat (n - ?o)) (drop (nat ?o) body))
          = take (nat l) (drop (nat k) (message w body n))"
    using k length_header [OF assms(1)]
    by (simp add: message_def drop_take nat_diff_distrib')
  moreover have "nat (k + l) = nat k + nat l" using k assms by simp
  ultimately have "out @ take (nat l) (take (nat (n - ?o)) (drop (nat ?o) body))
                     = take (nat (k + l)) (message w body n)"
    using assms by (simp add: send_at_def take_add)
  then show ?thesis using w k assms by (auto simp: send_at_def after_write_def)
qed


text \<open>
  What the kernel did in a run of successful turns: every turn sent something, the first one at
  least the header, and no more than the message in all.
\<close>

definition writes_ok :: "int \<Rightarrow> int \<Rightarrow> int list \<Rightarrow> bool" where
  "writes_ok w cap ls \<longleftrightarrow>
     (\<forall>l \<in> set ls. 0 < l) \<and> (ls \<noteq> [] \<longrightarrow> w \<le> ls ! 0) \<and> sum_list ls \<le> cap"

definition selected :: "send_turn \<Rightarrow> bool" where
  "selected t \<longleftrightarrow> 0 < t_select t"

lemma one_write:
  assumes "lengths_ok w body n" "send_at w body n k c out" "0 < l" "k + l \<le> w + n" "k = 0 \<longrightarrow> w \<le> l"
  shows "\<exists>bs. (if head_remain_len c \<noteq> 0 then writev_bytes w body l c else write_bytes body l c) = Some bs
     \<and> send_at w body n (k + l)
          (if head_remain_len c \<noteq> 0 then after_writev w l c else after_write l c) (out @ bs)"
proof (cases "k = 0")
  case True
  then have "head_remain_len c \<noteq> 0" using assms by (auto simp: send_at_def lengths_ok_def)
  then show ?thesis using first_write [of w body n c out l] assms True by auto
next
  case False
  then have "head_remain_len c = 0" using assms by (auto simp: send_at_def)
  then show ?thesis using later_write [OF assms(1,2) False assms(3,4)] by auto
qed

lemma sum_list_nonneg_int: "\<forall>l \<in> set ls. 0 < (l :: int) \<Longrightarrow> 0 \<le> sum_list ls"
  by (induction ls) auto

lemma send_turn:
  assumes "head_remain_len (ctx st) \<noteq> 0 \<or> body_remain_len (ctx st) \<noteq> 0" "selected t" "t_len t \<noteq> -1"
    "(if head_remain_len (ctx st) \<noteq> 0 then writev_bytes w body (t_len t) (ctx st)
      else write_bytes body (t_len t) (ctx st)) = Some bs"
  shows "send_loop w body (t # ts) st = send_loop w body ts
     \<lparr>ctx = (if head_remain_len (ctx st) \<noteq> 0 then after_writev w (t_len t) (ctx st)
             else after_write (t_len t) (ctx st)),
      sent = sent st @ bs, p_body_len = p_body_len st,
      timeout = tv_elapse (t_begin t) (t_end t) (t_left t)\<rparr>"
  using assms by (cases st; cases "head_remain_len (ctx st) = 0") (simp_all add: Let_def selected_def send_loop.simps(2))

lemma send_prefix:
  assumes "lengths_ok w body n" "send_at w body n k (ctx st) (sent st)"
    "\<forall>t \<in> set ts. selected t" "\<forall>l \<in> set (map t_len ts). 0 < l"
    "k = 0 \<and> ts \<noteq> [] \<longrightarrow> w \<le> t_len (ts ! 0)"
    "k + sum_list (map t_len ts) \<le> w + n"
  shows "\<exists>st'. send_loop w body (ts @ rest) st = send_loop w body rest st'
     \<and> send_at w body n (k + sum_list (map t_len ts)) (ctx st') (sent st')
     \<and> p_body_len st' = p_body_len st"
  using assms
proof (induction ts arbitrary: k st)
  case (Cons t ts)
  let ?l = "t_len t"
  have l: "0 < ?l" "0 \<le> sum_list (map t_len ts)"
    using Cons.prems(4) sum_list_nonneg_int by auto
  then have kl: "k + ?l \<le> w + n" "k < w + n" using Cons.prems(6) by auto
  define c where "c = ctx st"
  define c' where "c' = (if head_remain_len c \<noteq> 0 then after_writev w ?l c else after_write ?l c)"
  obtain bs where bs: "(if head_remain_len c \<noteq> 0 then writev_bytes w body ?l c else write_bytes body ?l c) = Some bs"
      "send_at w body n (k + ?l) c' (sent st @ bs)"
    using one_write [OF Cons.prems(1,2), of ?l] l kl Cons.prems(5) unfolding c_def c'_def by auto
  have pending: "head_remain_len (ctx st) \<noteq> 0 \<or> body_remain_len (ctx st) \<noteq> 0"
    using pending_iff [OF Cons.prems(2,1)] kl by simp
  define st1 where "st1 = \<lparr>ctx = c', sent = sent st @ bs, p_body_len = p_body_len st,
     timeout = tv_elapse (t_begin t) (t_end t) (t_left t)\<rparr>"
  have step: "send_loop w body ((t # ts) @ rest) st = send_loop w body (ts @ rest) st1"
  proof -
    have "selected t" "t_len t \<noteq> -1" using Cons.prems(3) l by auto
    from send_turn [OF pending this bs(1) [unfolded c_def], where ts = "ts @ rest"]
    show ?thesis by (simp only: append_Cons st1_def c'_def c_def)
  qed
  have "0 < k + ?l" using l Cons.prems(2) by (auto simp: send_at_def) (use Cons.prems(1) in \<open>auto simp: lengths_ok_def\<close>)
  then show ?case
    using Cons.IH [of "k + ?l" st1] Cons.prems bs(2) step by (auto simp: st1_def add.assoc)
qed auto

lemma sum_list_map_pos_nth: "\<forall>l \<in> set ls. 0 < (l :: int) \<Longrightarrow> ls \<noteq> [] \<Longrightarrow> 0 < sum_list ls"
  by (cases ls) (auto dest: sum_list_nonneg_int)

lemma TDHBSendData_prefix:
  assumes "lengths_ok w body n" "\<forall>t \<in> set ts. selected t" "writes_ok w (w + n) (map t_len ts)"
  shows "\<exists>st. TDHBSendData w body n tmo (ts @ rest) = send_loop w body rest st
     \<and> send_at w body n (sum_list (map t_len ts)) (ctx st) (sent st) \<and> p_body_len st = n"
proof -
  define st0 where "st0 = \<lparr>ctx = init_send w n zero_context, sent = [], p_body_len = n, timeout = tmo\<rparr>"
  have "send_at w body n 0 (ctx st0) (sent st0)"
    using init_send_at [OF assms(1), of zero_context] by (simp add: st0_def zero_context_def)
  moreover have "TDHBSendData w body n tmo (ts @ rest) = send_loop w body (ts @ rest) st0"
    using assms(1) by (simp add: TDHBSendData_def st0_def lengths_ok_def head_not_too_long)
  ultimately show ?thesis
    using send_prefix [OF assms(1), of 0 st0 ts rest] assms by (auto simp: writes_ok_def st0_def)
qed

lemma TDHBSendData_complete:
  assumes "lengths_ok w body n" "\<forall>t \<in> set ts. selected t" "writes_ok w (w + n) (map t_len ts)"
    "sum_list (map t_len ts) = w + n"
  shows "\<exists>st. TDHBSendData w body n tmo ts = (Ret 0, st) \<and> sent st = message w body n \<and> p_body_len st = n"
proof -
  obtain st where st: "TDHBSendData w body n tmo (ts @ []) = send_loop w body [] st"
      "send_at w body n (w + n) (ctx st) (sent st)" "p_body_len st = n"
    using TDHBSendData_prefix [OF assms(1-3), where rest = "[]"] unfolding assms(4) by blast
  have "sent st = message w body n"
    using st(2) length_message [OF assms(1)] by (simp add: send_at_def)
  then show ?thesis using pending_iff [OF st(2) assms(1)] st by auto
qed

definition send_failure :: "send_turn \<Rightarrow> int option" where
  "send_failure t =
     (if t_select t = 0 then Some TDHB_ERROR_SEND_TIMEOUT
      else if t_select t = -1 then Some TDHB_ERROR_SELECT_SEND_FAILED
      else if t_len t = -1 then Some TDHB_ERROR_SEND_FAILED else None)"

lemma TDHBSendData_fails:
  assumes "lengths_ok w body n" "\<forall>t \<in> set ts. selected t" "writes_ok w (w + n) (map t_len ts)"
    "sum_list (map t_len ts) < w + n" "send_failure t = Some e"
  shows "\<exists>st. TDHBSendData w body n tmo (ts @ t # rest) = (Ret e, st)
     \<and> p_body_len st = sum_list (map t_len ts)
     \<and> sent st = take (nat (sum_list (map t_len ts))) (message w body n)"
proof -
  let ?k = "sum_list (map t_len ts)"
  obtain st where st: "TDHBSendData w body n tmo (ts @ t # rest) = send_loop w body (t # rest) st"
      "send_at w body n ?k (ctx st) (sent st)"
    using TDHBSendData_prefix [OF assms(1-3)] by blast
  have "head_remain_len (ctx st) \<noteq> 0 \<or> body_remain_len (ctx st) \<noteq> 0"
    using pending_iff [OF st(2) assms(1)] assms(4) by simp
  moreover have "bytes_done w (ctx st) = ?k"
    using bytes_done_at [OF st(2)] assms(1) by (simp add: lengths_ok_def)
  ultimately have "\<exists>st'. send_loop w body (t # rest) st = (Ret e, st') \<and> p_body_len st' = ?k \<and> sent st' = sent st"
    using assms(5) by (auto simp: send_failure_def Let_def send_loop.simps(2) split: if_splits)
  then show ?thesis using st by (auto simp: send_at_def)
qed


text \<open>
  A header split over two calls of \<open>writev\<close>: the second one sends all the rest, but the
  bookkeeping subtracts the whole header from what it sent, so a tail of the body stays due.
\<close>

lemma TDHBSendData_split:
  assumes "lengths_ok w body n" "0 < k" "k < w" "k \<le> n"
    "\<forall>t \<in> {t1, t2, t3}. selected t" "t_len t1 = k" "t_len t2 = w - k + n" "t_len t3 = k"
  shows "\<exists>st. TDHBSendData w body n tmo [t1, t2, t3] = (Ret 0, st)
     \<and> sent st = message w body n @ drop (nat (n - k)) (take (nat n) body)"
proof -
  define c where "c = init_send w n zero_context"
  define H where "H = format_0d w n"
  have wn: "0 < w" "w \<le> 20" "0 \<le> n" "n \<le> int (length body)" using assms(1) by (auto simp: lengths_ok_def)
  have c: "length (head_buffer c) = 21" "take (nat w) (head_buffer c) = H"
      "head_remain_len c = w" "body_remain_len c = n" "body_len c = n"
    using init_send_at [OF assms(1), of zero_context]
    by (auto simp: send_at_def zero_context_def c_def H_def)
  have H: "length H = nat w" using length_header [OF assms(1)] by (simp add: H_def)
  have r0: "read_at body 0 n = Some (take (nat n) body)" using wn by (simp add: read_at_def)
  have "read_at (head_buffer c) 0 w = Some H" using c wn by (auto simp: read_at_def)
  then have b1: "writev_bytes w body k c = Some (take (nat k) H)"
    using c r0 assms(2,3) H by (simp add: writev_bytes_def)
  define c1 where "c1 = after_writev w k c"
  have c1: "c1 = c\<lparr>head_remain_len := w - k\<rparr>"
    using c assms(3) by (simp add: c1_def after_writev_def)
  have "take (nat (w - k)) (drop (nat k) (head_buffer c)) = drop (nat k) H"
    using c(2) assms(2,3) by (simp add: take_drop nat_diff_distrib' flip: c(2))
  then have "read_at (head_buffer c1) (w - (w - k)) (w - k) = Some (drop (nat k) H)"
    using c wn assms(2,3) by (auto simp: read_at_def c1)
  then have b2: "writev_bytes w body (w - k + n) c1 = Some (drop (nat k) H @ take (nat n) body)"
  proof -
    have "nat (w - k + n) = nat (w - k) + nat n" "length (drop (nat k) H) = nat (w - k)"
      using H wn assms(2,3) by auto
    then show ?thesis using \<open>read_at (head_buffer c1) _ _ = _\<close> c r0 by (simp add: writev_bytes_def c1)
  qed
  define c2 where "c2 = after_writev w (w - k + n) c1"
  have c2: "head_remain_len c2 = 0" "body_remain_len c2 = k" "body_len c2 = n"
    using c wn by (auto simp: c2_def after_writev_def c1 Let_def)
  have "take (nat k) (drop (nat (n - k)) body) = drop (nat (n - k)) (take (nat n) body)"
    using assms(2,4) wn by (simp add: drop_take nat_diff_distrib')
  then have b3: "write_bytes body k c2 = Some (drop (nat (n - k)) (take (nat n) body))"
    using c2 wn assms(2,4) by (auto simp: write_bytes_def read_at_def)
  have hr: "head_remain_len c1 = w - k" using c by (simp add: c1)
  define st where "st = \<lparr>ctx = c, sent = [], p_body_len = n, timeout = tmo\<rparr>"
  define st1 where "st1 = \<lparr>ctx = c1, sent = take (nat k) H, p_body_len = n,
     timeout = tv_elapse (t_begin t1) (t_end t1) (t_left t1)\<rparr>"
  define st2 where "st2 = \<lparr>ctx = c2, sent = H @ take (nat n) body, p_body_len = n,
     timeout = tv_elapse (t_begin t2) (t_end t2) (t_left t2)\<rparr>"
  have "TDHBSendData w body n tmo [t1, t2, t3] = send_loop w body [t1, t2, t3] st"
    using wn by (simp add: TDHBSendData_def st_def c_def head_not_too_long)
  also have "\<dots> = send_loop w body [t2, t3] st1"
    using send_turn [of st t1 w body "take (nat k) H" "[t2, t3]"] b1 c wn assms
    by (simp add: st_def st1_def c1_def)
  also have "\<dots> = send_loop w body [t3] st2"
    using send_turn [of st1 t2 w body "drop (nat k) H @ take (nat n) body" "[t3]"] b2 hr wn assms
    by (simp add: st1_def st2_def c2_def flip: append_assoc)
  also have "\<dots> = send_loop w body [] \<lparr>ctx = after_write k c2,
     sent = (H @ take (nat n) body) @ drop (nat (n - k)) (take (nat n) body), p_body_len = n,
     timeout = tv_elapse (t_begin t3) (t_end t3) (t_left t3)\<rparr>"
    using send_turn [of st2 t3 w body "drop (nat (n - k)) (take (nat n) body)" "[]"] b3 c2 assms
    by (simp add: st2_def)
  finally show ?thesis using c2 by (simp add: after_write_def message_def H_def)
qed

subsection \<open>Receiving\<close>

definition readable :: "recv_turn \<Rightarrow> bool" where
  "readable t \<longleftrightarrow> 0 < r_select t"

definition delivers :: "recv_turn list \<Rightarrow> byte list list \<Rightarrow> bool" where
  "delivers ts cs \<longleftrightarrow> (\<forall>t \<in> set ts. readable t) \<and> map r_data ts = map Some cs"

lemma delivers_Cons [simp]:
  "delivers (t # ts) cs \<longleftrightarrow> (\<exists>c cs'. cs = c # cs' \<and> readable t \<and> r_data t = Some c \<and> delivers ts cs')"
  by (cases cs) (auto simp: delivers_def)

lemma delivers_Nil [simp]: "delivers [] cs \<longleftrightarrow> cs = []"
  by (auto simp: delivers_def)

definition splice_at :: "byte list \<Rightarrow> int \<Rightarrow> byte list \<Rightarrow> byte list" where
  "splice_at buf off bs = take (nat off) buf @ bs @ drop (nat off + length bs) buf"

lemma write_at_ok: "0 \<le> off \<Longrightarrow> off + int (length bs) \<le> int (length buf) \<Longrightarrow> write_at buf off bs = Some (splice_at buf off bs)"
  by (simp add: write_at_def splice_at_def)

lemma length_splice_at [simp]:
  "0 \<le> off \<Longrightarrow> off + int (length bs) \<le> int (length buf) \<Longrightarrow> length (splice_at buf off bs) = length buf"
  by (simp add: splice_at_def)

lemma splice_at_append:
  assumes "0 \<le> off" "off + int (length xs) + int (length ys) \<le> int (length buf)"
  shows "splice_at (splice_at buf off xs) (off + int (length xs)) ys = splice_at buf off (xs @ ys)"
proof -
  have "nat (off + int (length xs)) = nat off + length xs" using assms by simp
  moreover have "length (take (nat off) buf) = nat off" using assms by simp
  ultimately show ?thesis unfolding splice_at_def by (simp add: ac_simps)
qed

lemma splice_at_Nil [simp]: "splice_at buf off [] = buf"
  by (simp add: splice_at_def)

lemma recv_body:
  assumes "delivers ts cs" "head_remain_len (rctx st) = 0"
    "body_remain_len (rctx st) = int (length (concat cs))"
    "off = body_len (rctx st) - body_remain_len (rctx st)" "0 \<le> off"
    "body_len (rctx st) \<le> int (length (rbuf st))"
  shows "\<exists>st'. recv_loop w ts st = (Ret 0, st') \<and> rbuf st' = splice_at (rbuf st) off (concat cs)
     \<and> p_body_bufsize st' = body_len (rctx st)"
  using assms
proof (induction ts arbitrary: cs st off)
  case (Cons t ts)
  show ?case
  proof (cases "body_remain_len (rctx st) = 0")
    case True
    then have "concat cs = []" using Cons.prems(3) by (metis length_0_conv of_nat_eq_0_iff)
    then have "splice_at (rbuf st) off (concat cs) = rbuf st" by (simp only: splice_at_Nil)
    then show ?thesis using True Cons.prems(2) by (simp add: recv_loop.simps(2))
  next
    case False
    obtain c cs' where cs: "cs = c # cs'" "readable t" "r_data t = Some c" "delivers ts cs'"
      using Cons.prems(1) by auto
    have w: "write_at (rbuf st) off c = Some (splice_at (rbuf st) off c)"
      using Cons.prems cs by (intro write_at_ok) auto
    define st1 where "st1 = recv_elapse t (st\<lparr>rtimeout := r_left t, rbuf := splice_at (rbuf st) off c,
      rctx := (rctx st)\<lparr>body_remain_len := body_remain_len (rctx st) - int (length c)\<rparr>\<rparr>)"
    have "recv_loop w (t # ts) st = recv_loop w ts st1"
      using False Cons.prems(2,4) cs w
      by (simp add: Let_def readable_def read_body_def st1_def recv_loop.simps(2))
    moreover have "\<exists>st'. recv_loop w ts st1 = (Ret 0, st')
        \<and> rbuf st' = splice_at (rbuf st1) (off + int (length c)) (concat cs')
        \<and> p_body_bufsize st' = body_len (rctx st1)"
      using Cons.prems cs by (intro Cons.IH) (auto simp: st1_def recv_elapse_def)
    moreover have "splice_at (splice_at (rbuf st) off c) (off + int (length c)) (concat cs')
        = splice_at (rbuf st) off (concat cs)"
      using Cons.prems cs by (subst splice_at_append) auto
    ultimately show ?thesis by (simp add: st1_def recv_elapse_def)
  qed
qed auto

lemma takeWhile_zero:
  assumes "\<forall>b \<in> set H. is_digit b"
  shows "takeWhile (\<lambda>b. b \<noteq> 0) (H @ 0 # xs) = H"
proof -
  have "\<not> is_digit 0" by (simp add: is_digit_def)
  then have "b \<noteq> 0" if "b \<in> set H" for b using assms that by metis
  then have "takeWhile (\<lambda>b. b \<noteq> 0) (H @ 0 # xs) = H @ takeWhile (\<lambda>b. b \<noteq> 0) (0 # xs)"
    by (intro takeWhile_append2) auto
  then show ?thesis by simp
qed

lemma read_header:
  assumes "length H = nat w" "0 < w" "w \<le> 20" "\<forall>b \<in> set H. is_digit b"
    "head_remain_len (rctx st) = w" "length (head_buffer (rctx st)) = 21"
  shows "\<exists>hb c. read_head w H st = Some (st\<lparr>rctx := (rctx st)\<lparr>head_buffer := hb\<rparr>\<rparr>)
     \<and> write_at hb w [0] = Some c \<and> takeWhile (\<lambda>b. b \<noteq> 0) c = H \<and> length c = 21"
proof -
  let ?hb = "splice_at (head_buffer (rctx st)) 0 H"
  have "write_at (head_buffer (rctx st)) 0 H = Some ?hb" using assms by (intro write_at_ok) auto
  moreover have l: "length ?hb = 21" using assms by simp
  moreover have "write_at ?hb w [0] = Some (splice_at ?hb w [0])"
    using assms l by (intro write_at_ok) auto
  moreover have "splice_at ?hb w [0] = H @ 0 # drop (Suc (nat w)) (head_buffer (rctx st))"
    using assms by (simp add: splice_at_def)
  moreover have "takeWhile (\<lambda>b. b \<noteq> 0) (H @ 0 # xs) = H" for xs
    by (rule takeWhile_zero [OF assms(4)])
  ultimately show ?thesis using assms by (auto simp: read_head_def)
qed


text \<open>One turn of the receive loop, by what it reads.\<close>

lemma recv_head_turn:
  assumes "head_remain_len (rctx st) \<noteq> 0" "readable t" "r_data t = Some bs" "bs \<noteq> []"
    "read_head w bs (st\<lparr>rtimeout := r_left t\<rparr>) = Some st1"
  shows "recv_loop w (t # ts) st =
     (if int (length bs) = head_remain_len (rctx st1) then
        (case head_complete w (int (length bs)) st1 of
           Inl (r, st) \<Rightarrow> (r, if r = Ret TDHB_ERROR_RECV_BUFFER_OVERFLOW then st\<lparr>p_body_bufsize := 0\<rparr> else st)
         | Inr st \<Rightarrow> recv_loop w ts (recv_elapse t st))
      else recv_loop w ts (recv_elapse t (st1\<lparr>rctx := (rctx st1)
        \<lparr>head_remain_len := head_remain_len (rctx st1) - int (length bs)\<rparr>\<rparr>)))"
  using assms by (simp add: recv_loop.simps(2) Let_def readable_def)

lemma recv_body_turn:
  assumes "head_remain_len (rctx st) = 0" "body_remain_len (rctx st) \<noteq> 0" "readable t" "r_data t = Some bs"
  shows "recv_loop w (t # ts) st =
     (case read_body bs (st\<lparr>rtimeout := r_left t\<rparr>) of
        None \<Rightarrow> (Fault, st\<lparr>rtimeout := r_left t\<rparr>)
      | Some st \<Rightarrow> recv_loop w ts (recv_elapse t (st\<lparr>rctx := (rctx st)
          \<lparr>body_remain_len := body_remain_len (rctx st) - int (length bs)\<rparr>\<rparr>)))"
  using assms by (simp add: recv_loop.simps(2) Let_def readable_def)

text \<open>A header that arrives in one piece.\<close>

definition recv_start :: "int \<Rightarrow> byte list \<Rightarrow> int \<Rightarrow> timeval \<Rightarrow> recv_st" where
  "recv_start w buf room tmo =
     \<lparr>rctx = zero_context\<lparr>head_remain_len := w, body_remain_len := 0\<rparr>, rbuf = buf,
      p_body_bufsize = room, rtimeout = tmo\<rparr>"

lemma TDHBReceiveData_start: "TDHBReceiveData w buf room tmo ts = recv_loop w ts (recv_start w buf room tmo)"
  by (simp add: TDHBReceiveData_def recv_start_def)

lemma recv_header:
  assumes "lengths_ok w body n" "readable t" "r_data t = Some (format_0d w n)"
  shows "\<exists>st. rbuf st = buf \<and> (if room < n
     then recv_loop w (t # ts) (recv_start w buf room tmo) = (Ret TDHB_ERROR_RECV_BUFFER_OVERFLOW, st)
        \<and> p_body_bufsize st = 0
     else recv_loop w (t # ts) (recv_start w buf room tmo) = recv_loop w ts st
        \<and> head_remain_len (rctx st) = 0 \<and> body_len (rctx st) = n \<and> body_remain_len (rctx st) = n)"
proof -
  define H where "H = format_0d w n"
  have w: "0 < w" "w \<le> 20" "0 \<le> n" "n < 2 ^ 31" and H: "length H = nat w" "\<forall>b \<in> set H. is_digit b" "atoi H = n"
    using assms(1) length_header [OF assms(1)] atoi_format_0d format_0d_digits
    by (auto simp: lengths_ok_def H_def)
  define st0 where "st0 = (recv_start w buf room tmo)\<lparr>rtimeout := r_left t\<rparr>"
  have st0: "head_remain_len (rctx st0) = w" "length (head_buffer (rctx st0)) = 21"
    by (auto simp: st0_def recv_start_def zero_context_def)
  obtain hb c where hb: "read_head w H st0 = Some (st0\<lparr>rctx := (rctx st0)\<lparr>head_buffer := hb\<rparr>\<rparr>)"
      "write_at hb w [0] = Some c" "takeWhile (\<lambda>b. b \<noteq> 0) c = H"
    using read_header [OF H(1) w(1,2) H(2) st0] by blast
  define st1 where "st1 = st0\<lparr>rctx := (rctx st0)\<lparr>head_buffer := hb\<rparr>\<rparr>"
  define k where "k = (rctx st0)\<lparr>head_remain_len := 0, head_buffer := c, body_len := n\<rparr>"
  have len: "int (length H) = w" using H w by simp
  have hc: "head_complete w w st1 = (if room < n
      then Inl (Ret TDHB_ERROR_RECV_BUFFER_OVERFLOW, st1\<lparr>rctx := k\<rparr>)
      else Inr (st1\<lparr>rctx := k\<lparr>body_remain_len := n\<rparr>\<rparr>))"
    using hb H by (simp add: head_complete_def Let_def st1_def k_def st0_def recv_start_def)
  have ne: "H \<noteq> []" using len w by auto
  have "recv_loop w (t # ts) (recv_start w buf room tmo) =
      (if room < n then (Ret TDHB_ERROR_RECV_BUFFER_OVERFLOW, st1\<lparr>rctx := k, p_body_bufsize := 0\<rparr>)
       else recv_loop w ts (recv_elapse t (st1\<lparr>rctx := k\<lparr>body_remain_len := n\<rparr>\<rparr>)))"
  proof -
    have 1: "head_remain_len (rctx (recv_start w buf room tmo)) \<noteq> 0" using w by (simp add: recv_start_def)
    have 2: "head_remain_len (rctx st1) = w" using st0 by (simp add: st1_def)
    show ?thesis
      unfolding recv_head_turn [OF 1 assms(2,3) [unfolded H_def [symmetric]] ne hb(1) [unfolded st0_def], folded st0_def, folded st1_def] len 2 hc
      by simp
  qed
  moreover have "rbuf st1 = buf" "head_remain_len k = 0" "body_len k = n"
    by (simp_all add: st1_def st0_def recv_start_def k_def)
  ultimately show ?thesis
    by (intro exI [of _ "if room < n then st1\<lparr>rctx := k, p_body_bufsize := 0\<rparr>
        else recv_elapse t (st1\<lparr>rctx := k\<lparr>body_remain_len := n\<rparr>\<rparr>)"])
       (simp add: recv_elapse_def)
qed

lemma TDHBReceiveData_complete:
  assumes "lengths_ok w body n" "readable t" "r_data t = Some (format_0d w n)"
    "delivers ts cs" "concat cs = take (nat n) body" "n \<le> room" "room \<le> int (length buf)"
  shows "\<exists>st. TDHBReceiveData w buf room tmo (t # ts) = (Ret 0, st)
     \<and> rbuf st = take (nat n) body @ drop (nat n) buf \<and> p_body_bufsize st = n"
proof -
  have n: "int (length (concat cs)) = n" "0 \<le> n" using assms(1,5) by (auto simp: lengths_ok_def)
  obtain st where st: "rbuf st = buf" "head_remain_len (rctx st) = 0" "body_len (rctx st) = n"
      "body_remain_len (rctx st) = n"
      "recv_loop w (t # ts) (recv_start w buf room tmo) = recv_loop w ts st"
    using recv_header [OF assms(1-3), of buf room ts tmo] assms(6) by auto
  obtain st' where "recv_loop w ts st = (Ret 0, st')" "rbuf st' = splice_at (rbuf st) 0 (concat cs)"
      "p_body_bufsize st' = body_len (rctx st)"
    using recv_body [OF assms(4) st(2), of 0] st n assms(6,7) by auto
  moreover have "splice_at buf 0 (concat cs) = take (nat n) body @ drop (nat n) buf"
  proof -
    have "length (concat cs) = nat n" using n by linarith
    then show ?thesis unfolding splice_at_def assms(5) by simp
  qed
  ultimately show ?thesis using st by (simp add: TDHBReceiveData_start)
qed

lemma TDHBReceiveData_overflow:
  assumes "lengths_ok w body n" "readable t" "r_data t = Some (format_0d w n)" "room < n"
  shows "\<exists>st. TDHBReceiveData w buf room tmo (t # ts) = (Ret TDHB_ERROR_RECV_BUFFER_OVERFLOW, st)
     \<and> rbuf st = buf \<and> p_body_bufsize st = 0"
  using recv_header [OF assms(1-3), of buf room ts tmo] assms(4)
  by (auto simp: TDHBReceiveData_start recv_start_def)

text \<open>
  A header that arrives in two pieces: the first body byte is stored in front of the buffer.
\<close>

lemma TDHBReceiveData_split:
  assumes "lengths_ok w body n" "n \<le> room" "H1 @ H2 = format_0d w n" "H1 \<noteq> []" "H2 \<noteq> []"
    "delivers [t1, t2, t3] [H1, H2, bs]"
  shows "fst (TDHBReceiveData w buf room tmo (t1 # t2 # t3 # ts)) = Fault"
proof -
  have w: "0 < w" "w \<le> 20" and H: "length (H1 @ H2) = nat w"
      "\<forall>b \<in> set (H1 @ H2). is_digit b" "atoi (H1 @ H2) = n"
    using assms(1) length_header [OF assms(1)] atoi_format_0d format_0d_digits
    by (auto simp: lengths_ok_def assms(3))
  let ?h1 = "int (length H1)" and ?h2 = "int (length H2)"
  have lens: "?h1 + ?h2 = w" "0 < ?h1" "0 < ?h2" using H(1) w assms(4,5) by auto
  let ?b1 = "splice_at (replicate 21 0) 0 H1"
  let ?b2 = "splice_at (replicate 21 0) 0 (H1 @ H2)"
  let ?b3 = "splice_at ?b2 w [0]"
  have b1: "write_at (replicate 21 0) 0 H1 = Some ?b1" using lens w by (intro write_at_ok) auto
  have "write_at ?b1 ?h1 H2 = Some (splice_at ?b1 (0 + ?h1) H2)"
    using lens w by (subst write_at_ok) auto
  then have b2: "write_at ?b1 ?h1 H2 = Some ?b2" using lens w by (subst (asm) splice_at_append) auto
  have b3: "write_at ?b2 w [0] = Some ?b3" using lens w by (intro write_at_ok) auto
  have "?b3 = H1 @ H2 @ 0 # drop (Suc (nat w)) (replicate 21 0)"
    using lens w by (simp add: splice_at_def)
  moreover have "takeWhile (\<lambda>b. b \<noteq> 0) ((H1 @ H2) @ 0 # xs) = H1 @ H2" for xs
    by (rule takeWhile_zero [OF H(2)])
  ultimately have at: "atoi (takeWhile (\<lambda>b. b \<noteq> 0) ?b3) = n" using H(3) by simp
  have off: "write_at buf (n - (n - (?h2 - w))) bs = None"
    using lens(1,2) by (simp add: write_at_def del: of_nat_0_less_iff length_greater_0_conv)
  define s0 where "s0 = recv_start w buf room tmo"
  define s1 where "s1 = s0\<lparr>rtimeout := r_left t1, rctx := (rctx s0)\<lparr>head_buffer := ?b1\<rparr>\<rparr>"
  define s1' where "s1' = recv_elapse t1 (s1\<lparr>rctx := (rctx s1)\<lparr>head_remain_len := w - ?h1\<rparr>\<rparr>)"
  define s2 where "s2 = s1'\<lparr>rtimeout := r_left t2, rctx := (rctx s1')\<lparr>head_buffer := ?b2\<rparr>\<rparr>"
  define s3 where "s3 = s2\<lparr>rctx := (rctx s2)\<lparr>head_remain_len := 0, head_buffer := ?b3, body_len := n,
     body_remain_len := n - (?h2 - w)\<rparr>\<rparr>"
  define s3' where "s3' = recv_elapse t2 s3"
  have t: "readable t1" "r_data t1 = Some H1" "readable t2" "r_data t2 = Some H2" "readable t3" "r_data t3 = Some bs"
    using assms(6) by auto
  have f0: "head_remain_len (rctx s0) = w" "head_buffer (rctx s0) = replicate 21 0" "p_body_bufsize s0 = room"
      "rbuf s0 = buf"
    by (auto simp: s0_def recv_start_def zero_context_def)
  have f1: "head_remain_len (rctx s1') = w - ?h1" "head_buffer (rctx s1') = ?b1" "p_body_bufsize s1' = room"
      "rbuf s1' = buf"
    using f0 by (auto simp: s1'_def s1_def recv_elapse_def)
  have "read_head w H1 (s0\<lparr>rtimeout := r_left t1\<rparr>) = Some s1"
    using f0 b1 by (simp add: read_head_def s1_def)
  then have 1: "recv_loop w (t1 # t2 # t3 # ts) s0 = recv_loop w (t2 # t3 # ts) s1'"
    using recv_head_turn [of s0 t1 H1 w s1 "t2 # t3 # ts"] t f0 lens assms(4) by (simp add: s1'_def s1_def)
  have "read_head w H2 (s1'\<lparr>rtimeout := r_left t2\<rparr>) = Some s2"
    using f1 b2 by (simp add: read_head_def s2_def)
  moreover have "head_complete w ?h2 s2 = Inr s3"
    using f1 b3 at assms(2) by (simp add: head_complete_def Let_def s3_def s2_def)
  moreover have "head_remain_len (rctx s2) = ?h2" using f1 lens by (simp add: s2_def)
  ultimately have 2: "recv_loop w (t2 # t3 # ts) s1' = recv_loop w (t3 # ts) s3'"
    using recv_head_turn [of s1' t2 H2 w s2 "t3 # ts"] t f1 lens assms(5) by (simp add: s3'_def)
  have "head_remain_len (rctx s3') = 0" "body_len (rctx s3') = n" "body_remain_len (rctx s3') = n - (?h2 - w)"
      "rbuf s3' = buf"
    using f1 by (auto simp: s3'_def s3_def s2_def recv_elapse_def)
  moreover have "body_remain_len (rctx s3') \<noteq> 0" using lens assms(1) calculation
    by (simp add: lengths_ok_def del: of_nat_0_less_iff length_greater_0_conv)
  ultimately have "recv_loop w (t3 # ts) s3' = (Fault, s3'\<lparr>rtimeout := r_left t3\<rparr>)"
    using recv_body_turn [of s3' t3 bs w ts] t off by (simp add: read_body_def)
  then show ?thesis using 1 2 by (simp add: TDHBReceiveData_start s0_def)
qed


subsection \<open>Non-blocking calls\<close>

text \<open>
  The caller repeats a call until it is told something else than to wait; each call has its own
  answers of the kernel, the last of which is \<open>EAGAIN\<close> when the socket is not ready.
\<close>

definition eagain :: "int \<times> int" where
  "eagain = (-1, EAGAIN)"

fun send_calls :: "int \<Rightarrow> byte list \<Rightarrow> (int \<times> int) list list \<Rightarrow> nb_send_st \<Rightarrow> io_out \<times> nb_send_st" where
  "send_calls w body [] st = (Blocked, st)"
| "send_calls w body (ts # calls) st =
     (case TDHBSendDataWithNonblock w body ts st of
        (Ret r, st) \<Rightarrow> if r = TCPMAIN_RETURN_WAITINGFOR_NEXT then send_calls w body calls st else (Ret r, st)
      | other \<Rightarrow> other)"

lemma nb_send_prefix:
  assumes "lengths_ok w body n" "send_at w body n k (nctx st) (nsent st)"
    "\<forall>l \<in> set ls. 0 < l" "k = 0 \<and> ls \<noteq> [] \<longrightarrow> w \<le> ls ! 0" "k + sum_list ls \<le> w + n" "k < w + n"
  shows "\<exists>st'. nb_send_loop w body (map (\<lambda>l. (l, 0)) ls @ rest) st =
       (if k + sum_list ls < w + n then nb_send_loop w body rest st'
        else (Ret TCPMAIN_RETURN_WAITINGFOR_RECEIVING, st'))
     \<and> send_at w body n (k + sum_list ls) (nctx st') (nsent st') \<and> np_body_len st' = np_body_len st"
  using assms
proof (induction ls arbitrary: k st)
  case (Cons l ls)
  have l: "0 < l" "0 \<le> sum_list ls"
    using Cons.prems(3) sum_list_nonneg_int by auto
  have kl: "k + l \<le> w + n" using l Cons.prems(5) by auto
  define c where "c = nctx st"
  define c' where "c' = (if head_remain_len c \<noteq> 0 then after_writev w l c else after_write l c)"
  obtain bs where bs: "(if head_remain_len c \<noteq> 0 then writev_bytes w body l c else write_bytes body l c) = Some bs"
      "send_at w body n (k + l) c' (nsent st @ bs)"
    using one_write [OF Cons.prems(1,2) l(1) kl] Cons.prems(4) unfolding c_def c'_def by auto
  define st1 where "st1 = st\<lparr>nctx := c', nsent := nsent st @ bs\<rparr>"
  have kl0: "k + l \<noteq> 0" using l Cons.prems(1,2) by (auto simp: send_at_def lengths_ok_def)
  have rem: "body_remain_len c' = 0 \<longleftrightarrow> k + l = w + n"
    using bs(2) kl0 Cons.prems(1) by (auto simp: send_at_def)
  have step: "nb_send_loop w body (map (\<lambda>l. (l, 0)) (l # ls) @ rest) st =
      (if body_remain_len c' = 0 then (Ret TCPMAIN_RETURN_WAITINGFOR_RECEIVING, st1)
       else nb_send_loop w body (map (\<lambda>l. (l, 0)) ls @ rest) st1)"
    using bs(1) l by (cases "head_remain_len c = 0")
      (simp_all add: nb_send_loop.simps(2) Let_def st1_def c'_def c_def)
  show ?case
  proof (cases "k + l = w + n")
    case True
    then have "ls = []" using Cons.prems(3,5) l by (cases ls) (auto dest: sum_list_nonneg_int)
    then show ?thesis using True step rem bs(2) by (auto simp: st1_def)
  next
    case False
    then have "body_remain_len c' \<noteq> 0" using rem by simp
    moreover have "\<exists>st'. nb_send_loop w body (map (\<lambda>l. (l, 0)) ls @ rest) st1 =
       (if (k + l) + sum_list ls < w + n then nb_send_loop w body rest st'
        else (Ret TCPMAIN_RETURN_WAITINGFOR_RECEIVING, st'))
      \<and> send_at w body n ((k + l) + sum_list ls) (nctx st') (nsent st') \<and> np_body_len st' = np_body_len st1"
      using Cons.prems False kl kl0 bs(2) by (intro Cons.IH) (auto simp: st1_def)
    ultimately show ?thesis using step by (simp add: st1_def add.assoc)
  qed
qed auto

lemma resume_send:
  assumes "lengths_ok w body n" "send_at w body n k (nctx st) (nsent st)" "k < w + n"
  shows "TDHBSendDataWithNonblock w body ts st = nb_send_loop w body ts st"
proof -
  have "\<not> (head_remain_len (nctx st) = 0 \<and> body_remain_len (nctx st) = 0)"
    using pending_iff [OF assms(2,1)] assms(3) by blast
  then show ?thesis
    using assms(1) head_not_too_long by (auto simp: TDHBSendDataWithNonblock_def Let_def lengths_ok_def)
qed

text \<open>Any number of calls, each sending some pieces and all but the last ending in \<open>EAGAIN\<close>.\<close>

definition call_script :: "int list \<Rightarrow> (int \<times> int) list" where
  "call_script ls = map (\<lambda>l. (l, 0)) ls @ [eagain]"

lemma send_calls_resume:
  assumes "lengths_ok w body n" "send_at w body n k (nctx st) (nsent st)" "k < w + n"
    "\<forall>l \<in> set (concat lss). 0 < l" "k = 0 \<and> concat lss \<noteq> [] \<longrightarrow> w \<le> concat lss ! 0"
    "k + sum_list (concat lss) = w + n"
  shows "\<exists>st'. send_calls w body (map call_script lss) st = (Ret TCPMAIN_RETURN_WAITINGFOR_RECEIVING, st')
     \<and> nsent st' = message w body n"
  using assms
proof (induction lss arbitrary: k st)
  case (Cons ls lss)
  have nn: "0 \<le> sum_list (concat lss)" using Cons.prems(4) by (intro sum_list_nonneg_int) auto
  have pre: "\<forall>l \<in> set ls. 0 < l" "k = 0 \<and> ls \<noteq> [] \<longrightarrow> w \<le> ls ! 0" "k + sum_list ls \<le> w + n"
    using Cons.prems(4-6) nn by (auto simp: nth_append split: if_splits)
  obtain st1 where st1: "nb_send_loop w body (map (\<lambda>l. (l, 0)) ls @ [eagain]) st =
       (if k + sum_list ls < w + n then nb_send_loop w body [eagain] st1
        else (Ret TCPMAIN_RETURN_WAITINGFOR_RECEIVING, st1))"
      "send_at w body n (k + sum_list ls) (nctx st1) (nsent st1)"
    using nb_send_prefix [OF Cons.prems(1,2) pre Cons.prems(3)] by blast
  have call: "TDHBSendDataWithNonblock w body (call_script ls) st = nb_send_loop w body (map (\<lambda>l. (l, 0)) ls @ [eagain]) st"
    using resume_send [OF Cons.prems(1-3)] by (simp add: call_script_def)
  show ?case
  proof (cases "k + sum_list ls < w + n")
    case True
    then have "nb_send_loop w body [eagain] st1 = (Ret TCPMAIN_RETURN_WAITINGFOR_NEXT, st1)"
      by (simp add: nb_send_loop.simps(2) eagain_def EAGAIN_def)
    moreover have "\<exists>st'. send_calls w body (map call_script lss) st1 = (Ret TCPMAIN_RETURN_WAITINGFOR_RECEIVING, st')
       \<and> nsent st' = message w body n"
    proof (rule Cons.IH [OF Cons.prems(1) st1(2) True])
      show "\<forall>l \<in> set (concat lss). 0 < l" using Cons.prems(4) by auto
      have "k + sum_list ls = 0 \<longrightarrow> k = 0 \<and> ls = []"
        using Cons.prems(1,2,4) sum_list_map_pos_nth [of ls]
        by (cases "ls = []") (auto simp: send_at_def lengths_ok_def)
      then show "k + sum_list ls = 0 \<and> concat lss \<noteq> [] \<longrightarrow> w \<le> concat lss ! 0"
        using Cons.prems(5) by auto
      show "k + sum_list ls + sum_list (concat lss) = w + n" using Cons.prems(6) by simp
    qed
    ultimately show ?thesis using call st1(1) True by simp
  next
    case False
    then have "k + sum_list ls = w + n" using Cons.prems(6) nn by simp
    then have "nsent st1 = message w body n"
      using st1(2) length_message [OF Cons.prems(1)] by (simp add: send_at_def)
    then show ?thesis
      using call st1(1) False
      by (simp add: TCPMAIN_RETURN_WAITINGFOR_RECEIVING_def TCPMAIN_RETURN_WAITINGFOR_NEXT_def)
  qed
qed auto


text \<open>A message from the start of a transfer.\<close>

lemma send_calls_complete:
  assumes "lengths_ok w body n" "head_remain_len (nctx st) = 0" "body_remain_len (nctx st) = 0"
    "length (head_buffer (nctx st)) = 21" "nsent st = []" "np_body_len st = n" "lss \<noteq> []"
    "writes_ok w (w + n) (concat lss)" "sum_list (concat lss) = w + n"
  shows "\<exists>st'. send_calls w body (map call_script lss) st = (Ret TCPMAIN_RETURN_WAITINGFOR_RECEIVING, st')
    \<and> nsent st' = message w body n"
proof -
  define st0 where "st0 = st\<lparr>nctx := init_send w n (nctx st)\<rparr>"
  have at0: "send_at w body n 0 (nctx st0) (nsent st0)"
    using init_send_at [OF assms(1,4)] assms(5) by (simp add: st0_def)
  have w: "0 < w" "0 \<le> n" "\<not> head_too_long w" using assms(1) head_not_too_long by (auto simp: lengths_ok_def)
  have "TDHBSendDataWithNonblock w body ts st = TDHBSendDataWithNonblock w body ts st0" for ts
    using assms(2,3,6) w resume_send [OF assms(1) at0]
    by (simp add: TDHBSendDataWithNonblock_def st0_def Let_def)
  then have "send_calls w body (map call_script lss) st = send_calls w body (map call_script lss) st0"
    using assms(7) by (cases lss) auto
  moreover have "\<exists>st'. send_calls w body (map call_script lss) st0 = (Ret TCPMAIN_RETURN_WAITINGFOR_RECEIVING, st')
     \<and> nsent st' = message w body n"
    using assms(8,9) w by (intro send_calls_resume [OF assms(1) at0]) (auto simp: writes_ok_def)
  ultimately show ?thesis by simp
qed

text \<open>The same for receiving: the pieces of the body, over any number of calls.\<close>

fun recv_calls :: "int \<Rightarrow> (int + byte list) list list \<Rightarrow> recv_st \<Rightarrow> io_out \<times> recv_st" where
  "recv_calls w [] st = (Blocked, st)"
| "recv_calls w (ts # calls) st =
     (case TDHBReceiveDataWithNonblock w ts st of
        (Ret r, st) \<Rightarrow> if r = TCPMAIN_RETURN_WAITINGFOR_NEXT then recv_calls w calls st else (Ret r, st)
      | other \<Rightarrow> other)"

definition read_script :: "byte list list \<Rightarrow> (int + byte list) list" where
  "read_script cs = map Inr cs @ [Inl EAGAIN]"

definition body_at :: "int \<Rightarrow> int \<Rightarrow> recv_st \<Rightarrow> bool" where
  "body_at n k st \<longleftrightarrow> head_remain_len (rctx st) = 0 \<and> body_len (rctx st) = n \<and> body_remain_len (rctx st) = n - k
     \<and> 0 \<le> k \<and> n \<le> int (length (rbuf st))"

lemma nb_recv_body:
  assumes "body_at n k st" "\<forall>c \<in> set cs. c \<noteq> []" "k < n" "k + int (length (concat cs)) \<le> n"
  shows "\<exists>st'. nb_recv_loop w (map Inr cs @ rest) st =
       (if k + int (length (concat cs)) < n then nb_recv_loop w rest st'
        else (Ret TCPMAIN_RETURN_WAITINGFOR_SENDING, st'\<lparr>p_body_bufsize := n\<rparr>))
     \<and> body_at n (k + int (length (concat cs))) st' \<and> rbuf st' = splice_at (rbuf st) k (concat cs)
     \<and> length (rbuf st') = length (rbuf st)"
  using assms
proof (induction cs arbitrary: k st)
  case (Cons c cs)
  define st1 where "st1 = st\<lparr>rbuf := splice_at (rbuf st) k c,
     rctx := (rctx st)\<lparr>body_remain_len := n - k - int (length c)\<rparr>\<rparr>"
  have k: "0 \<le> k" "k + int (length c) + int (length (concat cs)) \<le> int (length (rbuf st))"
    using Cons.prems(1,4) by (auto simp: body_at_def)
  then have "write_at (rbuf st) k c = Some (splice_at (rbuf st) k c)" by (intro write_at_ok) auto
  then have step: "nb_recv_loop w (map Inr (c # cs) @ rest) st =
      (if k + int (length c) = n then (Ret TCPMAIN_RETURN_WAITINGFOR_SENDING, st1\<lparr>p_body_bufsize := n\<rparr>)
       else nb_recv_loop w (map Inr cs @ rest) st1)"
    using Cons.prems(1,2) by (simp add: nb_recv_loop.simps(2) Let_def body_at_def read_body_def st1_def)
  have at1: "body_at n (k + int (length c)) st1" "length (rbuf st1) = length (rbuf st)"
    using Cons.prems(1) k by (auto simp: body_at_def st1_def)
  have sp: "splice_at (rbuf st1) (k + int (length c)) (concat cs) = splice_at (rbuf st) k (concat (c # cs))"
    using splice_at_append [OF k] by (simp add: st1_def)
  show ?case
  proof (cases "k + int (length c) = n")
    case True
    then have "length (concat cs) = 0" using Cons.prems(4) True by (simp del: concat_eq_Nil_conv length_0_conv)
    then have "concat cs = []" by (rule length_0_conv [THEN iffD1])
    then have "k + int (length (concat (c # cs))) = n" "splice_at (rbuf st) k (concat (c # cs)) = rbuf st1"
      using True sp by (simp_all only: splice_at_Nil concat.simps append_Nil2)
    then show ?thesis using step True at1 by auto
  next
    case False
    then have "k + int (length c) < n" using Cons.prems(4) by simp
    then show ?thesis
      using Cons.IH [OF at1(1)] Cons.prems(2,4) step False sp at1(2) by (auto simp: add.assoc)
  qed
qed auto

lemma recv_calls_resume:
  assumes "body_at n k st" "\<forall>c \<in> set (concat css). c \<noteq> []" "k < n"
    "k + int (length (concat (concat css))) = n"
  shows "\<exists>st'. recv_calls w (map read_script css) st = (Ret TCPMAIN_RETURN_WAITINGFOR_SENDING, st')
     \<and> rbuf st' = splice_at (rbuf st) k (concat (concat css)) \<and> p_body_bufsize st' = n"
  using assms
proof (induction css arbitrary: k st)
  case (Cons cs css)
  let ?k' = "k + int (length (concat cs))"
  have le: "?k' \<le> n" and ne: "\<forall>c \<in> set cs. c \<noteq> []" using Cons.prems by auto
  obtain st1 where st1: "nb_recv_loop w (map Inr cs @ [Inl EAGAIN]) st =
       (if ?k' < n then nb_recv_loop w [Inl EAGAIN] st1
        else (Ret TCPMAIN_RETURN_WAITINGFOR_SENDING, st1\<lparr>p_body_bufsize := n\<rparr>))"
      "body_at n ?k' st1" "rbuf st1 = splice_at (rbuf st) k (concat cs)"
    using nb_recv_body [OF Cons.prems(1) ne Cons.prems(3) le] by blast
  have "body_remain_len (rctx st) \<noteq> 0" using Cons.prems(1,3) by (simp add: body_at_def)
  then have call: "TDHBReceiveDataWithNonblock w (read_script cs) st
       = nb_recv_loop w (map Inr cs @ [Inl EAGAIN]) st"
    by (simp add: TDHBReceiveDataWithNonblock_def read_script_def)
  show ?case
  proof (cases "?k' < n")
    case True
    have "nb_recv_loop w [Inl EAGAIN] st1 = (Ret TCPMAIN_RETURN_WAITINGFOR_NEXT, st1)"
      using st1(2) by (simp add: nb_recv_loop.simps(2) Let_def body_at_def)
    moreover have "\<exists>st'. recv_calls w (map read_script css) st1 = (Ret TCPMAIN_RETURN_WAITINGFOR_SENDING, st')
       \<and> rbuf st' = splice_at (rbuf st1) ?k' (concat (concat css)) \<and> p_body_bufsize st' = n"
      using Cons.prems(2,4) by (intro Cons.IH [OF st1(2) _ True]) auto
    moreover have "splice_at (rbuf st1) ?k' (concat (concat css)) = splice_at (rbuf st) k (concat (concat (cs # css)))"
      using Cons.prems(1,4) unfolding st1(3) by (subst splice_at_append) (auto simp: body_at_def)
    ultimately show ?thesis using call st1(1) True by simp
  next
    case False
    then have "length (concat (concat css)) = 0"
      using Cons.prems(4) le by (simp del: concat_eq_Nil_conv length_0_conv)
    then have "concat (concat css) = []" by (rule length_0_conv [THEN iffD1])
    then have "concat (concat (cs # css)) = concat cs" by (simp del: concat_eq_Nil_conv)
    then show ?thesis
      using call st1(1,3) False
      by (simp del: concat.simps concat_append add: TCPMAIN_RETURN_WAITINGFOR_SENDING_def TCPMAIN_RETURN_WAITINGFOR_NEXT_def)
  qed
qed auto


lemma TDHBReceiveDataWithNonblock_header:
  assumes "lengths_ok w body n" "n \<le> room" "room \<le> int (length buf)"
  shows "\<exists>st. TDHBReceiveDataWithNonblock w (Inr (format_0d w n) # ts)
       \<lparr>rctx = zero_context, rbuf = buf, p_body_bufsize = room, rtimeout = tmo\<rparr>
     = (if n = 0 then (Ret TCPMAIN_RETURN_WAITINGFOR_SENDING, st\<lparr>p_body_bufsize := 0\<rparr>)
        else nb_recv_loop w ts st)
     \<and> body_at n 0 st \<and> rbuf st = buf"
proof -
  define H where "H = format_0d w n"
  have w: "0 < w" "w \<le> 20" "0 \<le> n" and H: "length H = nat w" "\<forall>b \<in> set H. is_digit b" "atoi H = n"
    using assms(1) length_header [OF assms(1)] atoi_format_0d format_0d_digits
    by (auto simp: lengths_ok_def H_def)
  have len: "int (length H) = w" and ne: "H \<noteq> []" using H w by auto
  define st0 where "st0 = \<lparr>rctx = zero_context\<lparr>head_remain_len := w\<rparr>, rbuf = buf, p_body_bufsize = room, rtimeout = tmo\<rparr>"
  have st0: "head_remain_len (rctx st0) = w" "length (head_buffer (rctx st0)) = 21"
    by (auto simp: st0_def zero_context_def)
  obtain hb c where hb: "read_head w H st0 = Some (st0\<lparr>rctx := (rctx st0)\<lparr>head_buffer := hb\<rparr>\<rparr>)"
      "write_at hb w [0] = Some c" "takeWhile (\<lambda>b. b \<noteq> 0) c = H"
    using read_header [OF H(1) w(1,2) H(2) st0] by blast
  define st1 where "st1 = st0\<lparr>rctx := (rctx st0)\<lparr>head_buffer := hb\<rparr>\<rparr>"
  define st2 where "st2 = st1\<lparr>rctx := (rctx st0)\<lparr>head_remain_len := 0, head_buffer := c, body_len := n,
     body_remain_len := n\<rparr>\<rparr>"
  have hc: "head_complete w w st1 = Inr st2"
    using hb H assms(2) by (simp add: head_complete_def Let_def st1_def st2_def st0_def)
  have st2: "body_remain_len (rctx st2) = n" "body_at n 0 st2" "rbuf st2 = buf"
    using w assms by (auto simp: st2_def st1_def st0_def body_at_def)
  have "head_remain_len (rctx st1) = w" using st0 by (simp add: st1_def)
  then have "nb_recv_loop w (Inr H # ts) st0 =
      (if n = 0 then (Ret TCPMAIN_RETURN_WAITINGFOR_SENDING, st2\<lparr>p_body_bufsize := 0\<rparr>) else nb_recv_loop w ts st2)"
    using st0 w ne len hc hb(1) st2(1) by (simp add: nb_recv_loop.simps(2) Let_def flip: st1_def)
  moreover have "TDHBReceiveDataWithNonblock w (Inr H # ts)
       \<lparr>rctx = zero_context, rbuf = buf, p_body_bufsize = room, rtimeout = tmo\<rparr> = nb_recv_loop w (Inr H # ts) st0"
    by (simp add: TDHBReceiveDataWithNonblock_def st0_def zero_context_def)
  ultimately show ?thesis using st2 unfolding H_def by auto
qed

text \<open>A message over any number of calls: the first one gets the header in one piece.\<close>

lemma recv_calls_complete:
  assumes "lengths_ok w body n" "0 < n" "n \<le> room" "room \<le> int (length buf)"
    "\<forall>c \<in> set (concat (cs # css)). c \<noteq> []" "concat (concat (cs # css)) = take (nat n) body"
  shows "\<exists>st. recv_calls w (map read_script ((format_0d w n # cs) # css))
       \<lparr>rctx = zero_context, rbuf = buf, p_body_bufsize = room, rtimeout = tmo\<rparr>
     = (Ret TCPMAIN_RETURN_WAITINGFOR_SENDING, st)
     \<and> rbuf st = take (nat n) body @ drop (nat n) buf \<and> p_body_bufsize st = n"
proof -
  let ?st = "\<lparr>rctx = zero_context, rbuf = buf, p_body_bufsize = room, rtimeout = tmo\<rparr>"
  obtain st1 where st1: "TDHBReceiveDataWithNonblock w (read_script (format_0d w n # cs)) ?st
      = nb_recv_loop w (map Inr cs @ [Inl EAGAIN]) st1" "body_at n 0 st1" "rbuf st1 = buf"
    using TDHBReceiveDataWithNonblock_header [OF assms(1,3,4), of "map Inr cs @ [Inl EAGAIN]" tmo] assms(2)
    by (auto simp: read_script_def)
  have "body_remain_len (rctx st1) \<noteq> 0" using st1(2) assms(2) by (simp add: body_at_def)
  then have "TDHBReceiveDataWithNonblock w (read_script cs) st1 = nb_recv_loop w (map Inr cs @ [Inl EAGAIN]) st1"
    by (simp add: TDHBReceiveDataWithNonblock_def read_script_def)
  then have same: "recv_calls w (map read_script ((format_0d w n # cs) # css)) ?st
      = recv_calls w (map read_script (cs # css)) st1"
    using st1(1) by simp
  have len: "length (concat (concat (cs # css))) = nat n"
    using assms(1) unfolding assms(6) by (auto simp: lengths_ok_def)
  have "\<exists>st'. recv_calls w (map read_script (cs # css)) st1 = (Ret TCPMAIN_RETURN_WAITINGFOR_SENDING, st')
     \<and> rbuf st' = splice_at (rbuf st1) 0 (concat (concat (cs # css))) \<and> p_body_bufsize st' = n"
    using len assms(2) by (intro recv_calls_resume [OF st1(2) assms(5,2)]) simp
  moreover have "splice_at buf 0 (concat (concat (cs # css))) = take (nat n) body @ drop (nat n) buf"
    using len unfolding assms(6) splice_at_def by simp
  ultimately show ?thesis unfolding same st1(3) by simp
qed

subsection \<open>Timeouts\<close>

definition usecs :: "timeval \<Rightarrow> int" where
  "usecs t = 1000000 * fst t + snd t"

lemma tv_norm_usecs: "usecs (tv_norm t) = usecs t" and tv_norm_usec: "0 \<le> snd (tv_norm t)"
  by (induction t rule: tv_norm.induct; subst tv_norm.simps; auto simp: usecs_def)+

lemma tv_elapse_usecs: "usecs (tv_elapse b e t) = usecs t - (usecs e - usecs b)"
  by (simp add: tv_elapse_def tv_norm_usecs) (simp add: usecs_def algebra_simps)

lemma tv_elapse_nonneg: "0 \<le> snd (tv_elapse b e t)"
  by (simp add: tv_elapse_def tv_norm_usec)


lemma TDHBSendData_timeout:
  assumes "lengths_ok w body n" "selected t" "w \<le> t_len t" "t_len t \<le> w + n"
  shows "usecs (timeout (snd (TDHBSendData w body n tmo [t])))
     = usecs (t_left t) - (usecs (t_end t) - usecs (t_begin t))"
proof -
  define st0 where "st0 = \<lparr>ctx = init_send w n zero_context, sent = [], p_body_len = n, timeout = tmo\<rparr>"
  have w: "0 < w" "w \<le> 20" using assms(1) by (auto simp: lengths_ok_def)
  have at0: "send_at w body n 0 (ctx st0) (sent st0)"
    using init_send_at [OF assms(1), of zero_context] by (simp add: st0_def zero_context_def)
  obtain bs where bs: "writev_bytes w body (t_len t) (ctx st0) = Some bs"
    using first_write [OF assms(1) at0 assms(3,4)] by blast
  have hr: "head_remain_len (ctx st0) \<noteq> 0" using at0 w by (auto simp: send_at_def)
  have "snd (send_loop w body [t] st0) = \<lparr>ctx = after_writev w (t_len t) (ctx st0), sent = sent st0 @ bs,
      p_body_len = p_body_len st0, timeout = tv_elapse (t_begin t) (t_end t) (t_left t)\<rparr>"
    using send_turn [of st0 t w body bs "[]"] hr assms w bs by simp
  moreover have "TDHBSendData w body n tmo [t] = send_loop w body [t] st0"
    using w by (simp add: TDHBSendData_def st0_def head_not_too_long)
  ultimately show ?thesis by (simp add: tv_elapse_usecs)
qed

subsection \<open>The client call\<close>

lemma c_closed_SendAndReceive [simp]: "c_closed (snd (TDHBSendAndReceiveData w sts rts st)) = c_closed st"
  by (simp add: TDHBSendAndReceiveData_def Let_def split: prod.splits)

lemma c_connects_SendAndReceive [simp]: "c_connects (snd (TDHBSendAndReceiveData w sts rts st)) = c_connects st"
  by (simp add: TDHBSendAndReceiveData_def Let_def split: prod.splits)

lemma TDHBCall_closes:
  assumes "-1 \<le> sock" "fst (TDHBCall ip port sock cr w sts rts st) = Ret r"
  shows "c_closed (snd (TDHBCall ip port sock cr w sts rts st)) = c_closed st @ (if sock = -1 then [] else [sock])"
proof -
  define st1 where "st1 = st\<lparr>c_connects := c_connects st @ [(sock, if ip = [] then INADDR_ANY else inet_addr ip, port mod 65536)]\<rparr>"
  obtain nret s where s: "TDHBSendAndReceiveData w sts rts st1 = (nret, s)" by fastforce
  then have c: "c_closed s = c_closed st" using c_closed_SendAndReceive [of w sts rts st1] by (simp add: st1_def)
  have "TDHBConnect ip port sock cr st = (if sock = -1 then (TDHB_ERROR_SOCKET_FAILED, st)
      else if cr = -1 then (TDHB_ERROR_CONNECT_FAILED, st1\<lparr>c_closed := c_closed st @ [sock]\<rparr>) else (sock, st1))"
    by (simp add: TDHBConnect_def st1_def Let_def)
  note call = TDHBCall_def TDHBDisconnect_def this tdhb_errors Let_def
  consider "sock = -1" | "sock \<noteq> -1" "cr = -1" | "sock \<noteq> -1" "cr \<noteq> -1" by blast
  then show ?thesis
  proof cases
    case 3
    then have "0 \<le> sock" using assms(1) by simp
    with 3 show ?thesis using assms s c by (cases nret) (simp_all add: call)
  qed (use assms(1) in \<open>simp_all add: TDHBCall_def TDHBConnect_def tdhb_errors Let_def\<close>)
qed

lemma TDHBCall_complete:
  assumes "0 \<le> sock" "cr \<noteq> -1" "lengths_ok w (c_buf st) (c_body_len st)" "\<forall>t \<in> set sts. selected t"
    "writes_ok w (w + c_body_len st) (map t_len sts)" "sum_list (map t_len sts) = w + c_body_len st"
    "lengths_ok w answer n" "readable t" "r_data t = Some (format_0d w n)"
    "delivers rts cs" "concat cs = take (nat n) answer" "n \<le> c_bufsize st" "c_bufsize st \<le> int (length (c_buf st))"
  shows "\<exists>st'. TDHBCall ip port sock cr w sts (t # rts) st = (Ret 0, st')
     \<and> c_sent st' = c_sent st @ message w (c_buf st) (c_body_len st)
     \<and> c_buf st' = take (nat n) answer @ drop (nat n) (c_buf st) \<and> c_bufsize st' = n
     \<and> c_closed st' = c_closed st @ [sock]
     \<and> c_connects st' = c_connects st @ [(sock, if ip = [] then INADDR_ANY else inet_addr ip, port mod 65536)]"
proof -
  obtain s where s: "TDHBSendData w (c_buf st) (c_body_len st) (c_timeout st) sts = (Ret 0, s)"
      "sent s = message w (c_buf st) (c_body_len st)" "p_body_len s = c_body_len st"
    using TDHBSendData_complete [OF assms(3-6)] by blast
  obtain r where r: "TDHBReceiveData w (c_buf st) (c_bufsize st) (timeout s) (t # rts) = (Ret 0, r)"
      "rbuf r = take (nat n) answer @ drop (nat n) (c_buf st)" "p_body_bufsize r = n"
    using TDHBReceiveData_complete [OF assms(7-13)] by blast
  show ?thesis
    using assms(1,2) s r
    by (simp add: TDHBCall_def TDHBConnect_def TDHBDisconnect_def TDHBSendAndReceiveData_def Let_def)
qed

end
