(* ===== verification/Props_Tdhb.thy ===== *)
theory Props_Tdhb
  imports TdhbInv
begin

text \<open>
  The properties of the fixed-header protocol, with their witnesses on a three-byte body behind
  a four-digit header.
\<close>

subsection \<open>A small transfer\<close>

definition demo_body :: "byte list" where "demo_body = [97, 98, 99]"

definition demo_turn :: "int \<Rightarrow> send_turn" where
  "demo_turn l = \<lparr>t_begin = (10, 0), t_select = 1, t_left = (5, 0), t_len = l, t_end = (12, 0)\<rparr>"

definition demo_read :: "byte list \<Rightarrow> recv_turn" where
  "demo_read bs = \<lparr>r_begin = (10, 0), r_select = 1, r_left = (5, 0), r_data = Some bs, r_end = (12, 0)\<rparr>"

lemma demo_lengths: "lengths_ok 4 demo_body 3"
  by (simp add: lengths_ok_def demo_body_def)

lemma demo_selected [simp]: "selected (demo_turn l)" "t_len (demo_turn l) = l"
  by (simp_all add: selected_def demo_turn_def)

lemma demo_readable [simp]: "readable (demo_read bs)" "r_data (demo_read bs) = Some bs"
  by (simp_all add: readable_def demo_read_def)

subsection \<open>Properties\<close>

text \<open>The decimal header: for a length that fits into the header's width and into an \<open>int\<close>,
  the text that \<open>sprintf\<close> with \<open>%0*d\<close> writes has exactly the announced width, \<open>atoi\<close> reads the
  length back from it, and the receiver's terminated buffer holds nothing else.\<close>

theorem header_roundtrip:
  assumes "0 \<le> n" "0 < w" "n < 10 ^ nat w" "n < 2 ^ 31"
  shows "length (format_0d w n) = nat w \<and> atoi (format_0d w n) = n
    \<and> takeWhile (\<lambda>b. b \<noteq> 0) (format_0d w n @ 0 # rest) = format_0d w n"
  using assms length_format_0d atoi_format_0d takeWhile_zero format_0d_digits by auto

theorem header_roundtrip_witness:
  "length (format_0d 4 42) = 4 \<and> atoi (format_0d 4 42) = 42"
  using header_roundtrip [of 42 4] by simp

text \<open>C6: \<open>TDHBSendData\<close> is correct for every way the kernel splits the body: when the turns send
  the whole message in nonempty pieces, the first at least the header, the function returns 0,
  the bytes on the wire are the header followed by the body, in order and without loss or
  repetition, and the caller's length is unchanged.\<close>

theorem send_data_correct:
  assumes "lengths_ok w body n" "\<forall>t \<in> set ts. selected t" "writes_ok w (w + n) (map t_len ts)"
    "sum_list (map t_len ts) = w + n"
  shows "\<exists>st. TDHBSendData w body n tmo ts = (Ret 0, st)
    \<and> sent st = format_0d w n @ take (nat n) body \<and> p_body_len st = n"
  using TDHBSendData_complete [OF assms] by (simp add: message_def)

theorem send_data_correct_witness:
  "\<exists>st. TDHBSendData 4 demo_body 3 (5, 0) (map demo_turn [5, 1, 1]) = (Ret 0, st)
    \<and> sent st = format_0d 4 3 @ take (nat 3) demo_body \<and> p_body_len st = 3"
  by (rule send_data_correct [OF demo_lengths]) (simp_all add: writes_ok_def)

text \<open>When \<open>select\<close> times out or fails, or a write fails, after any such run of successful
  turns, \<open>TDHBSendData\<close> returns the error code of that failure, stores in the caller's length
  the number of bytes it has sent, and exactly that prefix of the message is on the wire.\<close>

theorem send_data_failure:
  assumes "lengths_ok w body n" "\<forall>t \<in> set ts. selected t" "writes_ok w (w + n) (map t_len ts)"
    "sum_list (map t_len ts) < w + n"
    "e = TDHB_ERROR_SEND_TIMEOUT \<and> t_select t = 0
     \<or> e = TDHB_ERROR_SELECT_SEND_FAILED \<and> t_select t = -1
     \<or> e = TDHB_ERROR_SEND_FAILED \<and> selected t \<and> t_len t = -1"
  shows "\<exists>st. TDHBSendData w body n tmo (ts @ t # rest) = (Ret e, st)
    \<and> p_body_len st = sum_list (map t_len ts)
    \<and> sent st = take (nat (sum_list (map t_len ts))) (format_0d w n @ take (nat n) body)"
proof -
  have "send_failure t = Some e" using assms(5) by (auto simp: send_failure_def selected_def)
  from TDHBSendData_fails [OF assms(1-4) this] show ?thesis by (simp add: message_def)
qed

theorem send_data_failure_witness:
  "\<exists>st. TDHBSendData 4 demo_body 3 (5, 0) (map demo_turn [5] @ demo_turn (-1) # []) = (Ret TDHB_ERROR_SEND_FAILED, st)
    \<and> p_body_len st = sum_list (map t_len (map demo_turn [5]))
    \<and> sent st = take (nat (sum_list (map t_len (map demo_turn [5])))) (format_0d 4 3 @ take (nat 3) demo_body)"
  by (rule send_data_failure [OF demo_lengths]) (simp_all add: writes_ok_def)

text \<open>C22: What the code does when the first \<open>writev\<close> sends only part of the header and the second
  one all the rest: \<open>body_remain_len\<close> is reduced by the bytes sent less the whole header, not
  less the rest of the header, so as many bytes of the body as the first call sent are
  sent a second time, and the function still returns 0.\<close>

theorem split_header_repeats_body:
  assumes "lengths_ok w body n" "0 < k" "k < w" "k \<le> n" "\<forall>t \<in> {t1, t2, t3}. selected t"
    "t_len t1 = k" "t_len t2 = w - k + n" "t_len t3 = k"
  shows "\<exists>st. TDHBSendData w body n tmo [t1, t2, t3] = (Ret 0, st)
    \<and> sent st = (format_0d w n @ take (nat n) body) @ drop (nat (n - k)) (take (nat n) body)"
  using TDHBSendData_split [OF assms] by (simp add: message_def)

theorem split_header_repeats_body_witness:
  "\<exists>st. TDHBSendData 4 demo_body 3 (5, 0) [demo_turn 2, demo_turn (4 - 2 + 3), demo_turn 2] = (Ret 0, st)
    \<and> sent st = (format_0d 4 3 @ take (nat 3) demo_body) @ drop (nat (3 - 2)) (take (nat 3) demo_body)"
  by (rule split_header_repeats_body [OF demo_lengths]) simp_all

text \<open>C4: End to end, when neither side splits the header: if the body's length fits the header, every
  \<open>select\<close> of \<open>TDHBSendData\<close> reports the socket writable, its first \<open>writev\<close> takes at least the whole
  header and the writes together take the whole message, in any nonempty pieces, then a receiver that
  reads the bytes so sent as the header in one piece and the rest in any nonempty pieces, into a buffer with room
  for the body, returns 0 with the sender's body at the start of its buffer, the rest of the buffer
  untouched and the body's length in its size. (With a split header the code does otherwise, on
  both sides: \<open>split_header_repeats_body\<close>, \<open>split_header_underruns_buffer\<close>.)\<close>

theorem send_receive_roundtrip:
  assumes "lengths_ok w body n" "\<forall>t \<in> set ts. selected t" "writes_ok w (w + n) (map t_len ts)"
    "sum_list (map t_len ts) = w + n"
    "r_data t = Some (take (nat w) (sent (snd (TDHBSendData w body n tmo ts))))" "readable t"
    "delivers rts cs" "concat cs = drop (nat w) (sent (snd (TDHBSendData w body n tmo ts)))"
    "n \<le> room" "room \<le> int (length buf)"
  shows "\<exists>st. TDHBReceiveData w buf room rtmo (t # rts) = (Ret 0, st)
    \<and> rbuf st = take (nat n) body @ drop (nat n) buf \<and> p_body_bufsize st = n"
proof -
  have "sent (snd (TDHBSendData w body n tmo ts)) = message w body n"
    using TDHBSendData_complete [OF assms(1-4), of tmo] by auto
  then have "r_data t = Some (format_0d w n)" "concat cs = take (nat n) body"
    using assms(5,8) length_header [OF assms(1)] by (simp_all add: message_def)
  then show ?thesis using TDHBReceiveData_complete assms by blast
qed

theorem send_receive_roundtrip_witness:
  "\<exists>st. TDHBReceiveData 4 [0, 0, 0, 7] 4 (5, 0)
      (demo_read (format_0d 4 3) # [demo_read [97, 98], demo_read [99]]) = (Ret 0, st)
    \<and> rbuf st = take (nat 3) demo_body @ drop (nat 3) [0, 0, 0, 7] \<and> p_body_bufsize st = 3"
proof -
  have 1: "\<forall>t \<in> set (map demo_turn [5, 1, 1]). selected t" by simp
  have 2: "writes_ok 4 (4 + 3) (map t_len (map demo_turn [5, 1, 1]))" by (simp add: writes_ok_def)
  have 3: "sum_list (map t_len (map demo_turn [5, 1, 1])) = 4 + 3" by simp
  have s: "sent (snd (TDHBSendData 4 demo_body 3 (5, 0) (map demo_turn [5, 1, 1])))
      = format_0d 4 3 @ take (nat 3) demo_body"
    using TDHBSendData_complete [OF demo_lengths 1 2 3, of "(5, 0)"] by (auto simp: message_def)
  have h: "length (format_0d 4 3) = nat 4" by (rule length_header [OF demo_lengths])
  show ?thesis
  proof (rule send_receive_roundtrip [OF demo_lengths 1 2 3, of _ "(5, 0)"])
    show "r_data (demo_read (format_0d 4 3))
        = Some (take (nat 4) (sent (snd (TDHBSendData 4 demo_body 3 (5, 0) (map demo_turn [5, 1, 1])))))"
      unfolding s using h by simp
    show "concat [[97, 98], [99]]
        = drop (nat 4) (sent (snd (TDHBSendData 4 demo_body 3 (5, 0) (map demo_turn [5, 1, 1]))))"
      unfolding s using h by (simp add: demo_body_def)
  qed simp_all
qed

text \<open>A message that announces more than the caller's buffer holds is refused by
  \<open>TDHBReceiveData\<close> before a byte of it is stored: the buffer is unchanged, the size is 0.\<close>

theorem receive_overflow_refused:
  assumes "0 < w" "w \<le> 20" "0 \<le> n" "n < 10 ^ nat w" "n < 2 ^ 31"
    "readable t" "r_data t = Some (format_0d w n)" "room < n"
  shows "\<exists>st. TDHBReceiveData w buf room tmo (t # ts) = (Ret TDHB_ERROR_RECV_BUFFER_OVERFLOW, st)
    \<and> rbuf st = buf \<and> p_body_bufsize st = 0"
proof -
  have "lengths_ok w (replicate (nat n) 0) n" using assms by (simp add: lengths_ok_def)
  then show ?thesis by (rule TDHBReceiveData_overflow [OF _ assms(6-8)])
qed

theorem receive_overflow_refused_witness:
  "\<exists>st. TDHBReceiveData 4 [1, 2] 2 (5, 0) (demo_read (format_0d 4 3) # []) = (Ret TDHB_ERROR_RECV_BUFFER_OVERFLOW, st)
    \<and> rbuf st = [1, 2] \<and> p_body_bufsize st = 0"
  by (rule receive_overflow_refused [of 4 3]) simp_all

text \<open>C23: What the code does when the header arrives in two pieces: \<open>body_remain_len\<close> is computed
  from the length of the last piece less the whole header, so the offset of the first read
  of the body is negative and the body is stored in front of the caller's buffer.\<close>

theorem split_header_underruns_buffer:
  assumes "lengths_ok w body n" "n \<le> room" "H1 @ H2 = format_0d w n" "H1 \<noteq> []" "H2 \<noteq> []"
    "delivers [t1, t2, t3] [H1, H2, bs]"
  shows "fst (TDHBReceiveData w buf room tmo (t1 # t2 # t3 # ts)) = Fault"
  by (rule TDHBReceiveData_split [OF assms])

theorem split_header_underruns_buffer_witness:
  "fst (TDHBReceiveData 4 [0, 0, 0] 3 (5, 0)
     (demo_read (take 2 (format_0d 4 3)) # demo_read (drop 2 (format_0d 4 3)) # demo_read demo_body # [])) = Fault"
proof -
  have "length (format_0d 4 3) = 4" using length_header [OF demo_lengths] by simp
  then show ?thesis
    by (intro split_header_underruns_buffer [OF demo_lengths]) auto
qed

text \<open>C8: \<open>TDHBSendDataWithNonblock\<close> keeps its position over calls, from a cleared context on: when the
  first \<open>writev\<close> that takes anything takes at least the whole header, then however the kernel splits
  the rest of the message into nonempty pieces and spreads them over calls that end in \<open>EAGAIN\<close>, the calls together send the header and the
  body once, in order, and the last one returns \<open>WAITINGFOR_RECEIVING\<close>. (A header split by \<open>writev\<close> is
  excluded: the code then computes the rest of the body wrongly, by the same line as in
  \<open>split_header_repeats_body\<close>.)\<close>

theorem nonblock_send_resumes:
  assumes "lengths_ok w body n" "head_remain_len (nctx st) = 0" "body_remain_len (nctx st) = 0"
    "length (head_buffer (nctx st)) = 21" "nsent st = []" "np_body_len st = n" "lss \<noteq> []"
    "writes_ok w (w + n) (concat lss)" "sum_list (concat lss) = w + n"
  shows "\<exists>st'. send_calls w body (map call_script lss) st = (Ret TCPMAIN_RETURN_WAITINGFOR_RECEIVING, st')
    \<and> nsent st' = format_0d w n @ take (nat n) body"
  using send_calls_complete [OF assms] by (simp add: message_def)

definition demo_nb :: nb_send_st where
  "demo_nb = \<lparr>nctx = zero_context, nsent = [], np_body_len = 3\<rparr>"

theorem nonblock_send_resumes_witness:
  "\<exists>st'. send_calls 4 demo_body (map call_script [[], [5], [1, 1]]) demo_nb = (Ret TCPMAIN_RETURN_WAITINGFOR_RECEIVING, st')
    \<and> nsent st' = format_0d 4 3 @ take (nat 3) demo_body"
  by (rule nonblock_send_resumes [OF demo_lengths]) (simp_all add: demo_nb_def zero_context_def writes_ok_def)

text \<open>C9: \<open>TDHBReceiveDataWithNonblock\<close> keeps its position over calls: when the first call gets the
  header in one piece, the pieces of the body may be spread over any calls that end in
  \<open>EAGAIN\<close>; the last one returns \<open>WAITINGFOR_SENDING\<close> with the body in the buffer.\<close>

theorem nonblock_receive_resumes:
  assumes "lengths_ok w body n" "0 < n" "n \<le> room" "room \<le> int (length buf)"
    "\<forall>c \<in> set (concat (cs # css)). c \<noteq> []" "concat (concat (cs # css)) = take (nat n) body"
  shows "\<exists>st. recv_calls w (map read_script ((format_0d w n # cs) # css))
       \<lparr>rctx = zero_context, rbuf = buf, p_body_bufsize = room, rtimeout = tmo\<rparr>
     = (Ret TCPMAIN_RETURN_WAITINGFOR_SENDING, st)
    \<and> rbuf st = take (nat n) body @ drop (nat n) buf \<and> p_body_bufsize st = n"
  by (rule recv_calls_complete [OF assms])

theorem nonblock_receive_resumes_witness:
  "\<exists>st. recv_calls 4 (map read_script ((format_0d 4 3 # [[97]]) # [[], [[98], [99]]]))
       \<lparr>rctx = zero_context, rbuf = [0, 0, 0, 9], p_body_bufsize = 4, rtimeout = (0, 0)\<rparr>
     = (Ret TCPMAIN_RETURN_WAITINGFOR_SENDING, st)
    \<and> rbuf st = take (nat 3) demo_body @ drop (nat 3) [0, 0, 0, 9] \<and> p_body_bufsize st = 3"
  by (rule nonblock_receive_resumes [OF demo_lengths]) (simp_all add: demo_body_def)

text \<open>\<open>TDHBCall\<close> leaks no socket: whenever it returns, with success or with any error code,
  the socket it opened, if it could open one, has been closed exactly once.\<close>

theorem call_closes_socket:
  assumes "-1 \<le> sock" "fst (TDHBCall ip port sock cr w sts rts st) = Ret r"
  shows "c_closed (snd (TDHBCall ip port sock cr w sts rts st)) = c_closed st @ (if sock = -1 then [] else [sock])"
  by (rule TDHBCall_closes [OF assms])

definition demo_call :: call_st where
  "demo_call = \<lparr>c_sent = [], c_body_len = 3, c_buf = demo_body, c_bufsize = 3, c_timeout = (5, 0), c_closed = [], c_connects = []\<rparr>"

theorem call_closes_socket_witness:
  "c_closed (snd (TDHBCall [] 9527 8 0 30 [] [] demo_call)) = [8]"
proof -
  have "fst (TDHBCall [] 9527 8 0 30 [] [] demo_call) = Ret TDHB_ERROR_HEAD_TOO_LONG"
    by (simp add: TDHBCall_def TDHBConnect_def TDHBSendAndReceiveData_def TDHBSendData_def demo_call_def
        head_too_long_def tdhb_errors Let_def)
  from call_closes_socket [OF _ this] show ?thesis by (simp add: demo_call_def)
qed

text \<open>C38: \<open>TDHBCall\<close> as a whole, when no header is split: on a connection whose \<open>select\<close>s all succeed,
  that takes the whole request in nonempty pieces of which the first is at least the request's
  header, and that gives an answer whose header comes in one piece and whose body, in any pieces,
  fits the buffer, it returns 0, has sent the request's message, leaves the answer in the shared
  buffer with its length in the size, and has connected the socket once, to the given address (any
  address for an empty one) and the low 16 bits of the port, and closed it once.\<close>

theorem call_exchanges_messages:
  assumes "0 \<le> sock" "cr \<noteq> -1" "lengths_ok w (c_buf st) (c_body_len st)" "\<forall>t \<in> set sts. selected t"
    "writes_ok w (w + c_body_len st) (map t_len sts)" "sum_list (map t_len sts) = w + c_body_len st"
    "lengths_ok w answer n" "readable t" "r_data t = Some (format_0d w n)"
    "delivers rts cs" "concat cs = take (nat n) answer" "n \<le> c_bufsize st" "c_bufsize st \<le> int (length (c_buf st))"
  shows "\<exists>st'. TDHBCall ip port sock cr w sts (t # rts) st = (Ret 0, st')
    \<and> c_sent st' = c_sent st @ format_0d w (c_body_len st) @ take (nat (c_body_len st)) (c_buf st)
    \<and> c_buf st' = take (nat n) answer @ drop (nat n) (c_buf st) \<and> c_bufsize st' = n
    \<and> c_closed st' = c_closed st @ [sock]
    \<and> c_connects st' = c_connects st @ [(sock, if ip = [] then INADDR_ANY else inet_addr ip, port mod 65536)]"
  using TDHBCall_complete [OF assms] by (simp add: message_def)

theorem call_exchanges_messages_witness:
  "\<exists>st'. TDHBCall ''127.0.0.1'' 75063 8 0 4 [demo_turn 7] (demo_read (format_0d 4 2) # [demo_read [120, 121]]) demo_call = (Ret 0, st')
    \<and> c_sent st' = c_sent demo_call @ format_0d 4 (c_body_len demo_call) @ take (nat (c_body_len demo_call)) (c_buf demo_call)
    \<and> c_buf st' = take (nat 2) [120, 121] @ drop (nat 2) (c_buf demo_call) \<and> c_bufsize st' = 2
    \<and> c_closed st' = c_closed demo_call @ [8] \<and> c_connects st' = [(8, inet_addr ''127.0.0.1'', 9527)]"
proof -
  have "lengths_ok 4 (c_buf demo_call) (c_body_len demo_call)" using demo_lengths by (simp add: demo_call_def)
  moreover have "writes_ok 4 (4 + c_body_len demo_call) (map t_len [demo_turn 7])" "lengths_ok 4 [120, 121] 2"
    by (simp_all add: demo_call_def writes_ok_def lengths_ok_def)
  ultimately show ?thesis
    using call_exchanges_messages [of 8 0 4 demo_call "[demo_turn 7]" "[120, 121]" 2 "demo_read (format_0d 4 2)"
        "[demo_read [120, 121]]" "[[120, 121]]" "''127.0.0.1''" 75063]
    by (simp add: demo_call_def demo_body_def)
qed
text \<open>The timeout of the blocking calls, in microseconds: what a turn leaves is what \<open>select\<close> left
  less the whole time of the turn. Where \<open>select\<close> itself counts the timeout down, as Linux
  does, the time slept is charged twice.\<close>

theorem timeout_charged_twice:
  assumes "lengths_ok w body n" "selected t" "w \<le> t_len t" "t_len t \<le> w + n"
    "usecs (t_left t) = usecs tmo - slept" "usecs (t_end t) = usecs (t_begin t) + slept + working"
  shows "usecs (timeout (snd (TDHBSendData w body n tmo [t]))) = usecs tmo - 2 * slept - working"
  using TDHBSendData_timeout [OF assms(1-4), of tmo] assms(5,6) by simp

theorem timeout_charged_twice_witness:
  "usecs (timeout (snd (TDHBSendData 4 demo_body 3 (7, 0) [demo_turn 5]))) = usecs (7, 0) - 2 * 2000000 - 0"
  by (rule timeout_charged_twice [OF demo_lengths]) (simp_all add: demo_turn_def selected_def usecs_def)

end
