(* ===== verification/KListIter.thy ===== *)
theory KListIter
  imports KList
begin

text \<open>
  The iteration macros of \<open>list.h\<close>. A loop runs a body, a function on the program's state in
  which \<open>hp\<close> finds the list heap; \<open>None\<close> is a loop without end. The plain loops visit the
  entries in order, and the safe ones do so although their body deletes the current entry.
\<close>

subsection \<open>The macros\<close>

definition list_entry :: "addr \<Rightarrow> addr \<Rightarrow> addr" where
  "list_entry ptr offset = ptr - offset"

definition list_first_entry :: "addr \<Rightarrow> addr \<Rightarrow> lheap \<Rightarrow> addr" where
  "list_first_entry ptr offset h = list_entry (lnext (h ptr)) offset"

definition list_last_entry :: "addr \<Rightarrow> addr \<Rightarrow> lheap \<Rightarrow> addr" where
  "list_last_entry ptr offset h = list_entry (lprev (h ptr)) offset"

definition list_first_entry_or_null :: "addr \<Rightarrow> addr \<Rightarrow> lheap \<Rightarrow> addr" where
  "list_first_entry_or_null ptr offset h = (if \<not> list_empty ptr h then list_first_entry ptr offset h else 0)"

definition list_next_entry :: "addr \<Rightarrow> addr \<Rightarrow> lheap \<Rightarrow> addr" where
  "list_next_entry p_node offset h = list_entry (lnext (h (p_node + offset))) offset"

definition list_prev_entry :: "addr \<Rightarrow> addr \<Rightarrow> lheap \<Rightarrow> addr" where
  "list_prev_entry p_node offset h = list_entry (lprev (h (p_node + offset))) offset"

partial_function (option) each_loop ::
  "(addr \<Rightarrow> 's \<Rightarrow> addr) \<Rightarrow> (addr \<Rightarrow> 's \<Rightarrow> 's) \<Rightarrow> addr \<Rightarrow> addr \<Rightarrow> 's \<Rightarrow> 's option" where
  "each_loop step body head p_node s =
     (if p_node = head then Some s
      else (let s = body p_node s in each_loop step body head (step p_node s) s))"

definition list_for_each :: "('s \<Rightarrow> lheap) \<Rightarrow> (addr \<Rightarrow> 's \<Rightarrow> 's) \<Rightarrow> addr \<Rightarrow> 's \<Rightarrow> 's option" where
  "list_for_each hp body head s =
     each_loop (\<lambda>p s. lnext (hp s p)) body head (lnext (hp s head)) s"

definition list_for_each_prev :: "('s \<Rightarrow> lheap) \<Rightarrow> (addr \<Rightarrow> 's \<Rightarrow> 's) \<Rightarrow> addr \<Rightarrow> 's \<Rightarrow> 's option" where
  "list_for_each_prev hp body head s =
     each_loop (\<lambda>p s. lprev (hp s p)) body head (lprev (hp s head)) s"

partial_function (option) each_safe_loop ::
  "(addr \<Rightarrow> 's \<Rightarrow> addr) \<Rightarrow> (addr \<Rightarrow> 's \<Rightarrow> 's) \<Rightarrow> addr \<Rightarrow> addr \<Rightarrow> addr \<Rightarrow> 's \<Rightarrow> 's option" where
  "each_safe_loop step body head p_node n s =
     (if p_node = head then Some s
      else (let s = body p_node s; p_node = n
            in each_safe_loop step body head p_node (step p_node s) s))"

definition list_for_each_safe :: "('s \<Rightarrow> lheap) \<Rightarrow> (addr \<Rightarrow> 's \<Rightarrow> 's) \<Rightarrow> addr \<Rightarrow> 's \<Rightarrow> 's option" where
  "list_for_each_safe hp body head s =
     (let p_node = lnext (hp s head); n = lnext (hp s p_node)
      in each_safe_loop (\<lambda>p s. lnext (hp s p)) body head p_node n s)"

definition list_for_each_prev_safe :: "('s \<Rightarrow> lheap) \<Rightarrow> (addr \<Rightarrow> 's \<Rightarrow> 's) \<Rightarrow> addr \<Rightarrow> 's \<Rightarrow> 's option" where
  "list_for_each_prev_safe hp body head s =
     (let p_node = lprev (hp s head); n = lprev (hp s p_node)
      in each_safe_loop (\<lambda>p s. lprev (hp s p)) body head p_node n s)"

text \<open>The typed variants: the cursor is the entry, and the end test compares its member.\<close>

partial_function (option) each_entry_loop ::
  "('s \<Rightarrow> lheap) \<Rightarrow> (addr \<Rightarrow> 's \<Rightarrow> 's) \<Rightarrow> addr \<Rightarrow> addr \<Rightarrow> addr \<Rightarrow> 's \<Rightarrow> 's option" where
  "each_entry_loop hp body head offset p_node s =
     (if p_node + offset = head then Some s
      else (let s = body p_node s
            in each_entry_loop hp body head offset (list_next_entry p_node offset (hp s)) s))"

definition list_for_each_entry ::
  "('s \<Rightarrow> lheap) \<Rightarrow> (addr \<Rightarrow> 's \<Rightarrow> 's) \<Rightarrow> addr \<Rightarrow> addr \<Rightarrow> 's \<Rightarrow> 's option" where
  "list_for_each_entry hp body head offset s =
     each_entry_loop hp body head offset (list_first_entry head offset (hp s)) s"

partial_function (option) each_entry_safe_loop ::
  "('s \<Rightarrow> lheap) \<Rightarrow> (addr \<Rightarrow> 's \<Rightarrow> 's) \<Rightarrow> addr \<Rightarrow> addr \<Rightarrow> addr \<Rightarrow> addr \<Rightarrow> 's \<Rightarrow> 's option" where
  "each_entry_safe_loop hp body head offset p_node n s =
     (if p_node + offset = head then Some s
      else (let s = body p_node s; p_node = n
            in each_entry_safe_loop hp body head offset p_node (list_next_entry n offset (hp s)) s))"

definition list_for_each_entry_safe ::
  "('s \<Rightarrow> lheap) \<Rightarrow> (addr \<Rightarrow> 's \<Rightarrow> 's) \<Rightarrow> addr \<Rightarrow> addr \<Rightarrow> 's \<Rightarrow> 's option" where
  "list_for_each_entry_safe hp body head offset s =
     (let p_node = list_first_entry head offset (hp s);
          n = list_next_entry p_node offset (hp s)
      in each_entry_safe_loop hp body head offset p_node n s)"

lemmas entry_defs = list_first_entry_def list_next_entry_def list_last_entry_def
  list_prev_entry_def list_entry_def

subsection \<open>What the loops do\<close>

lemma dlist_first_entry: "dlist h head (x # xs) \<Longrightarrow> list_first_entry head offset h = x - offset"
  by (simp add: entry_defs dlist_def)

lemma dlist_last_entry: "dlist h head xs \<Longrightarrow> xs \<noteq> [] \<Longrightarrow> list_last_entry head offset h = last xs - offset"
  by (simp add: entry_defs dlist_prev)

lemma dlist_first_entry_or_null:
  "dlist h head xs \<Longrightarrow> list_first_entry_or_null head offset h = (case xs of [] \<Rightarrow> 0 | x # _ \<Rightarrow> x - offset)"
  by (cases xs) (auto simp: list_first_entry_or_null_def dlist_list_empty dlist_first_entry)

text \<open>A body that leaves the list alone sees the entries in order.\<close>

lemma each_loop_forward:
  assumes "dseg g p xs head" "head \<notin> set xs" "\<And>x s. hp (body x s) = hp s" "hp s = g"
  shows "each_loop (\<lambda>p s. lnext (hp s p)) body head (lnext (g p)) s = Some (fold body xs s)"
  using assms(1,2,4)
proof (induction xs arbitrary: p s)
  case Nil
  then show ?case by (subst each_loop.simps) simp
next
  case (Cons x xs)
  then show ?case
    using Cons.IH [of x "body x s"] by (subst each_loop.simps) (auto simp: Let_def assms(3))
qed

lemma list_for_each_visits:
  assumes "dlist (hp s) head xs" "\<And>x s. hp (body x s) = hp s"
  shows "list_for_each hp body head s = Some (fold body xs s)"
  using assms(1) each_loop_forward [where hp = hp and body = body, OF _ _ assms(2)]
  by (simp add: list_for_each_def dlist_def)

lemma dseg_snoc: "dseg h p (xs @ [x]) q \<longleftrightarrow> dseg h p xs x \<and> lnext (h x) = q \<and> lprev (h q) = x"
  by simp

lemma each_loop_backward:
  assumes "dseg g head xs q" "head \<notin> set xs" "\<And>x s. hp (body x s) = hp s" "hp s = g"
  shows "each_loop (\<lambda>p s. lprev (hp s p)) body head (lprev (g q)) s = Some (fold body (rev xs) s)"
  using assms(1,2,4)
proof (induction xs arbitrary: q s rule: rev_induct)
  case Nil
  then show ?case by (subst each_loop.simps) simp
next
  case (snoc x xs)
  then show ?case
    using snoc.IH [of x "body x s"] by (subst each_loop.simps) (auto simp: Let_def assms(3))
qed

lemma list_for_each_prev_visits:
  assumes "dlist (hp s) head xs" "\<And>x s. hp (body x s) = hp s"
  shows "list_for_each_prev hp body head s = Some (fold body (rev xs) s)"
  using assms(1) each_loop_backward [where hp = hp and body = body, OF _ _ assms(2)]
  by (simp add: list_for_each_prev_def dlist_def)

lemma each_entry_forward:
  assumes "dseg g p xs head" "head \<notin> set xs" "\<And>x s. hp (body x s) = hp s" "hp s = g"
  shows "each_entry_loop hp body head offset (lnext (g p) - offset) s
    = Some (fold body (map (\<lambda>x. x - offset) xs) s)"
  using assms(1,2,4)
proof (induction xs arbitrary: p s)
  case Nil
  then show ?case by (subst each_entry_loop.simps) simp
next
  case (Cons x xs)
  then show ?case
    using Cons.IH [of x "body (x - offset) s"]
    by (subst each_entry_loop.simps) (auto simp: Let_def assms(3) entry_defs)
qed

lemma list_for_each_entry_visits:
  assumes "dlist (hp s) head xs" "\<And>x s. hp (body x s) = hp s"
  shows "list_for_each_entry hp body head offset s = Some (fold body (map (\<lambda>x. x - offset) xs) s)"
  using assms(1) each_entry_forward [where hp = hp and body = body, OF _ _ assms(2)]
  by (simp add: list_for_each_entry_def dlist_def entry_defs)

text \<open>A body that deletes the entry it is given.\<close>

lemma each_safe_deletes:
  assumes "dlist (hp s) head (x # xs)" "\<And>x s. hp (body x s) = list_del x (hp s)"
  shows "each_safe_loop (\<lambda>p s. lnext (hp s p)) body head x (hd (xs @ [head])) s = Some (fold body (x # xs) s)
    \<and> dlist (hp (fold body (x # xs) s)) head []"
  using assms(1)
proof (induction xs arbitrary: x s)
  case Nil
  have "x \<noteq> head" using Nil by (auto simp: dlist_def)
  moreover have "dlist (hp (body x s)) head []" using dlist_list_del [of _ head "[]" x "[]"] Nil by (simp add: assms(2))
  ultimately show ?case by (simp add: each_safe_loop.simps Let_def)
next
  case (Cons y ys)
  have "x \<noteq> head" using Cons.prems by (auto simp: dlist_def)
  have del: "dlist (hp (body x s)) head (y # ys)"
    using dlist_list_del [of "hp s" head "[]" x "y # ys"] Cons.prems by (simp add: assms(2))
  then have "lnext (hp (body x s) y) = hd (ys @ [head])"
    using dlist_entry(2) [of _ head "[]" y ys] by simp
  then show ?case
    using Cons.IH [OF del] \<open>x \<noteq> head\<close> by (subst each_safe_loop.simps) (simp add: Let_def)
qed

lemma list_for_each_safe_deletes:
  assumes "dlist (hp s) head xs" "\<And>x s. hp (body x s) = list_del x (hp s)"
  shows "list_for_each_safe hp body head s = Some (fold body xs s) \<and> dlist (hp (fold body xs s)) head []"
proof (cases xs)
  case Nil
  then show ?thesis
    using assms(1) by (simp add: list_for_each_safe_def dlist_def each_safe_loop.simps)
next
  case (Cons x ys)
  have "lnext (hp s head) = x" "lnext (hp s x) = hd (ys @ [head])"
    using assms(1) dlist_entry(2) [of _ head "[]" x ys] by (auto simp: Cons dlist_def)
  then show ?thesis
    using each_safe_deletes [of hp s head x ys body] assms unfolding Cons list_for_each_safe_def by simp
qed

lemma each_safe_prev_deletes:
  assumes "dlist (hp s) head (xs @ [x])" "\<And>x s. hp (body x s) = list_del x (hp s)"
  shows "each_safe_loop (\<lambda>p s. lprev (hp s p)) body head x (last (head # xs)) s
      = Some (fold body (x # rev xs) s)
    \<and> dlist (hp (fold body (x # rev xs) s)) head []"
  using assms(1)
proof (induction xs arbitrary: x s rule: rev_induct)
  case Nil
  have "x \<noteq> head" using Nil by (auto simp: dlist_def)
  moreover have "dlist (hp (body x s)) head []" using dlist_list_del [of _ head "[]" x "[]"] Nil by (simp add: assms(2))
  ultimately show ?case by (simp add: each_safe_loop.simps Let_def)
next
  case (snoc y ys)
  have "x \<noteq> head" using snoc.prems by (auto simp: dlist_def)
  have del: "dlist (hp (body x s)) head (ys @ [y])"
    using dlist_list_del [of "hp s" head "ys @ [y]" x "[]"] snoc.prems by (simp add: assms(2))
  then have "lprev (hp (body x s) y) = last (head # ys)"
    using dlist_entry(1) [of _ head ys y "[]"] by simp
  then show ?case
    using snoc.IH [OF del] \<open>x \<noteq> head\<close> by (subst each_safe_loop.simps) (simp add: Let_def)
qed

lemma list_for_each_prev_safe_deletes:
  assumes "dlist (hp s) head xs" "\<And>x s. hp (body x s) = list_del x (hp s)"
  shows "list_for_each_prev_safe hp body head s = Some (fold body (rev xs) s)
    \<and> dlist (hp (fold body (rev xs) s)) head []"
proof (cases xs rule: rev_cases)
  case Nil
  then show ?thesis
    using assms(1) by (simp add: list_for_each_prev_safe_def dlist_def each_safe_loop.simps)
next
  case (snoc ys x)
  have "lprev (hp s head) = x" "lprev (hp s x) = last (head # ys)"
    using dlist_prev [OF assms(1)] dlist_entry(1) [of "hp s" head ys x "[]"] assms(1) by (auto simp: snoc)
  then show ?thesis
    using each_safe_prev_deletes [of hp s head ys x body] assms
    unfolding snoc list_for_each_prev_safe_def by simp
qed

lemma each_entry_safe_deletes:
  assumes "dlist (hp s) head (x # xs)" "\<And>x s. hp (body x s) = list_del (x + offset) (hp s)"
  shows "each_entry_safe_loop hp body head offset (x - offset) (hd (xs @ [head]) - offset) s
      = Some (fold body (map (\<lambda>x. x - offset) (x # xs)) s)
    \<and> dlist (hp (fold body (map (\<lambda>x. x - offset) (x # xs)) s)) head []"
  using assms(1)
proof (induction xs arbitrary: x s)
  case Nil
  have "x \<noteq> head" using Nil by (auto simp: dlist_def)
  moreover have "dlist (hp (body (x - offset) s)) head []"
    using dlist_list_del [of _ head "[]" x "[]"] Nil by (simp add: assms(2))
  ultimately show ?case by (simp add: each_entry_safe_loop.simps Let_def)
next
  case (Cons y ys)
  have "x \<noteq> head" using Cons.prems by (auto simp: dlist_def)
  have del: "dlist (hp (body (x - offset) s)) head (y # ys)"
    using dlist_list_del [of "hp s" head "[]" x "y # ys"] Cons.prems by (simp add: assms(2))
  then have "list_next_entry (y - offset) offset (hp (body (x - offset) s)) = hd (ys @ [head]) - offset"
    using dlist_entry(2) [of _ head "[]" y ys] by (simp add: entry_defs)
  then show ?case
    using Cons.IH [OF del] \<open>x \<noteq> head\<close> by (subst each_entry_safe_loop.simps) (simp add: Let_def)
qed

lemma list_for_each_entry_safe_deletes:
  assumes "dlist (hp s) head xs" "\<And>x s. hp (body x s) = list_del (x + offset) (hp s)"
  shows "list_for_each_entry_safe hp body head offset s = Some (fold body (map (\<lambda>x. x - offset) xs) s)
    \<and> dlist (hp (fold body (map (\<lambda>x. x - offset) xs) s)) head []"
proof (cases xs)
  case Nil
  then show ?thesis
    using assms(1)
    by (simp add: list_for_each_entry_safe_def dlist_def entry_defs each_entry_safe_loop.simps)
next
  case (Cons x ys)
  have "list_first_entry head offset (hp s) = x - offset"
      "list_next_entry (x - offset) offset (hp s) = hd (ys @ [head]) - offset"
    using assms(1) dlist_entry(2) [of _ head "[]" x ys] by (auto simp: Cons dlist_def entry_defs)
  then show ?thesis
    using each_entry_safe_deletes [of hp s head x ys body offset] assms
    unfolding Cons list_for_each_entry_safe_def by simp
qed

end
