(* ===== verification/KHlist.thy ===== *)
theory KHlist
  imports Prelude
begin

text \<open>
  The hash-chain lists of \<open>list.c\<close> (\<open>hlist_head\<close>, \<open>hlist_node\<close>). \<open>first\<close> and \<open>next\<close> are at offset
  0 of their structs, so \<open>&h->first\<close> and \<open>&n->next\<close> are the addresses \<open>h\<close> and \<open>n\<close>: the word
  at such an address is \<open>link\<close>, and \<open>pprev\<close> holds the address of the link that points to a node.
\<close>

record hheap =
  link :: "addr \<Rightarrow> addr"
  pprev :: "addr \<Rightarrow> addr"

definition set_link :: "addr \<Rightarrow> addr \<Rightarrow> hheap \<Rightarrow> hheap" where
  "set_link a v h = h\<lparr>link := (link h)(a := v)\<rparr>"

definition set_pprev :: "addr \<Rightarrow> addr \<Rightarrow> hheap \<Rightarrow> hheap" where
  "set_pprev a v h = h\<lparr>pprev := (pprev h)(a := v)\<rparr>"

lemma hheap_simps [heap_simps, simp]:
  "link (set_link a v h) x = (if x = a then v else link h x)"
  "pprev (set_link a v h) x = pprev h x"
  "pprev (set_pprev a v h) x = (if x = a then v else pprev h x)"
  "link (set_pprev a v h) x = link h x"
  by (auto simp: set_link_def set_pprev_def)

definition HLIST_POISON1 :: addr where "HLIST_POISON1 = 0x100"
definition HLIST_POISON2 :: addr where "HLIST_POISON2 = 0x200"

subsection \<open>Operations\<close>

definition INIT_HLIST_HEAD :: "addr \<Rightarrow> hheap \<Rightarrow> hheap" where
  "INIT_HLIST_HEAD p h = set_link p 0 h"

definition INIT_HLIST_NODE :: "addr \<Rightarrow> hheap \<Rightarrow> hheap" where
  "INIT_HLIST_NODE n h = (let h = set_link n 0 h in set_pprev n 0 h)"

definition hlist_unhashed :: "addr \<Rightarrow> hheap \<Rightarrow> bool" where
  "hlist_unhashed n h \<longleftrightarrow> pprev h n = 0"

definition hlist_empty :: "addr \<Rightarrow> hheap \<Rightarrow> bool" where
  "hlist_empty p h \<longleftrightarrow> link h p = 0"

definition ll_hlist_del :: "addr \<Rightarrow> hheap \<Rightarrow> hheap" where
  "ll_hlist_del n h =
     (let nxt = link h n;
          pp = pprev h n;
          h = set_link pp nxt h
      in if nxt \<noteq> 0 then set_pprev nxt pp h else h)"

definition hlist_del :: "addr \<Rightarrow> hheap \<Rightarrow> hheap" where
  "hlist_del n h =
     (let h = ll_hlist_del n h;
          h = set_link n HLIST_POISON1 h
      in set_pprev n HLIST_POISON2 h)"

definition hlist_del_init :: "addr \<Rightarrow> hheap \<Rightarrow> hheap" where
  "hlist_del_init n h =
     (if \<not> hlist_unhashed n h
      then (let h = ll_hlist_del n h in INIT_HLIST_NODE n h)
      else h)"

definition hlist_add_head :: "addr \<Rightarrow> addr \<Rightarrow> hheap \<Rightarrow> hheap" where
  "hlist_add_head n p h =
     (let first = link h p;
          h = set_link n first h;
          h = (if first \<noteq> 0 then set_pprev first n h else h);
          h = set_link p n h
      in set_pprev n p h)"

definition hlist_add_before :: "addr \<Rightarrow> addr \<Rightarrow> hheap \<Rightarrow> hheap" where
  "hlist_add_before n nxt h =
     (let h = set_pprev n (pprev h nxt) h;
          h = set_link n nxt h;
          h = set_pprev nxt n h
      in set_link (pprev h n) n h)"

definition hlist_add_behind :: "addr \<Rightarrow> addr \<Rightarrow> hheap \<Rightarrow> hheap" where
  "hlist_add_behind n prev h =
     (let h = set_link n (link h prev) h;
          h = set_link prev n h;
          h = set_pprev n prev h
      in if link h n \<noteq> 0 then set_pprev (link h n) n h else h)"

definition hlist_add_fake :: "addr \<Rightarrow> hheap \<Rightarrow> hheap" where
  "hlist_add_fake n h = set_pprev n n h"

definition hlist_fake :: "addr \<Rightarrow> hheap \<Rightarrow> bool" where
  "hlist_fake n h \<longleftrightarrow> pprev h n = n"

definition hlist_is_singular_node :: "addr \<Rightarrow> addr \<Rightarrow> hheap \<Rightarrow> bool" where
  "hlist_is_singular_node n p h \<longleftrightarrow> link h n = 0 \<and> pprev h n = p"

definition hlist_move_list :: "addr \<Rightarrow> addr \<Rightarrow> hheap \<Rightarrow> hheap" where
  "hlist_move_list old new h =
     (let h = set_link new (link h old) h;
          h = (if link h new \<noteq> 0 then set_pprev (link h new) new h else h)
      in set_link old 0 h)"

text \<open>\<open>hlist_for_each\<close> with a body that may change the state; \<open>None\<close> is a loop without end.\<close>

partial_function (option) hlist_for_each_loop ::
  "('s \<Rightarrow> hheap) \<Rightarrow> (addr \<Rightarrow> 's \<Rightarrow> 's) \<Rightarrow> addr \<Rightarrow> 's \<Rightarrow> 's option" where
  "hlist_for_each_loop hp body pos s =
     (if pos = 0 then Some s
      else (let s = body pos s in hlist_for_each_loop hp body (link (hp s) pos) s))"

definition hlist_for_each :: "('s \<Rightarrow> hheap) \<Rightarrow> (addr \<Rightarrow> 's \<Rightarrow> 's) \<Rightarrow> addr \<Rightarrow> 's \<Rightarrow> 's option" where
  "hlist_for_each hp body p s = hlist_for_each_loop hp body (link (hp s) p) s"

partial_function (option) hlist_for_each_safe_loop ::
  "('s \<Rightarrow> hheap) \<Rightarrow> (addr \<Rightarrow> 's \<Rightarrow> 's) \<Rightarrow> addr \<Rightarrow> addr \<Rightarrow> 's \<Rightarrow> 's option" where
  "hlist_for_each_safe_loop hp body pos n s =
     (if pos = 0 then Some s
      else (let s = body pos s;
                pos = n;
                n = (if pos \<noteq> 0 then link (hp s) pos else 0)
            in hlist_for_each_safe_loop hp body pos n s))"

definition hlist_for_each_safe :: "('s \<Rightarrow> hheap) \<Rightarrow> (addr \<Rightarrow> 's \<Rightarrow> 's) \<Rightarrow> addr \<Rightarrow> 's \<Rightarrow> 's option" where
  "hlist_for_each_safe hp body p s =
     (let pos = link (hp s) p;
          n = (if pos \<noteq> 0 then link (hp s) pos else 0)
      in hlist_for_each_safe_loop hp body pos n s)"

subsection \<open>The abstract list\<close>

fun hseg :: "hheap \<Rightarrow> addr \<Rightarrow> addr list \<Rightarrow> bool" where
  "hseg h a [] \<longleftrightarrow> link h a = 0"
| "hseg h a (x # xs) \<longleftrightarrow> link h a = x \<and> x \<noteq> 0 \<and> pprev h x = a \<and> hseg h x xs"

definition hlist :: "hheap \<Rightarrow> addr \<Rightarrow> addr list \<Rightarrow> bool" where
  "hlist h p xs \<longleftrightarrow> hseg h p xs \<and> distinct (p # xs)"

text \<open>The cells before a given point of the chain.\<close>

fun hpre :: "hheap \<Rightarrow> addr \<Rightarrow> addr list \<Rightarrow> bool" where
  "hpre h a [] \<longleftrightarrow> True"
| "hpre h a (x # xs) \<longleftrightarrow> link h a = x \<and> x \<noteq> 0 \<and> pprev h x = a \<and> hpre h x xs"

lemma hseg_split: "hseg h a (xs @ ys) \<longleftrightarrow> hpre h a xs \<and> hseg h (last (a # xs)) ys"
  by (induction xs arbitrary: a) auto

lemma hpre_cong:
  "(\<And>x. x \<in> set (a # xs) \<Longrightarrow> x \<noteq> last (a # xs) \<Longrightarrow> link h' x = link h x) \<Longrightarrow>
   (\<And>x. x \<in> set xs \<Longrightarrow> pprev h' x = pprev h x) \<Longrightarrow> distinct (a # xs) \<Longrightarrow> hpre h a xs \<Longrightarrow> hpre h' a xs"
proof (induction xs arbitrary: a)
  case (Cons x xs)
  have "a \<noteq> last (a # x # xs)" using Cons.prems(3) by (auto simp: last_in_set)
  then have "link h' a = link h a" using Cons.prems(1) by auto
  moreover have "hpre h' x xs" using Cons.prems by (intro Cons.IH) auto
  ultimately show ?case using Cons.prems by auto
qed simp

lemma hseg_cong:
  "(\<And>x. x \<in> set (a # xs) \<Longrightarrow> link h' x = link h x) \<Longrightarrow>
   (\<And>x. x \<in> set xs \<Longrightarrow> pprev h' x = pprev h x) \<Longrightarrow> hseg h a xs \<Longrightarrow> hseg h' a xs"
  by (induction xs arbitrary: a) auto

lemma hseg_functional: "hseg h a xs \<Longrightarrow> hseg h a ys \<Longrightarrow> xs = ys"
  by (induction xs arbitrary: a ys) (case_tac ys; auto)+

lemma hlist_nonzero: "hlist h p xs \<Longrightarrow> x \<in> set xs \<Longrightarrow> x \<noteq> 0"
proof -
  have "hseg h a xs \<Longrightarrow> x \<in> set xs \<Longrightarrow> x \<noteq> 0" for a by (induction xs arbitrary: a) auto
  then show "hlist h p xs \<Longrightarrow> x \<in> set xs \<Longrightarrow> x \<noteq> 0" by (auto simp: hlist_def)
qed

lemma hlist_functional: "hlist h p xs \<Longrightarrow> hlist h p ys \<Longrightarrow> xs = ys"
  by (auto simp: hlist_def intro: hseg_functional)

lemma hlist_cong:
  "(\<And>x. x \<in> set (p # xs) \<Longrightarrow> link h' x = link h x) \<Longrightarrow>
   (\<And>x. x \<in> set xs \<Longrightarrow> pprev h' x = pprev h x) \<Longrightarrow> hlist h p xs \<Longrightarrow> hlist h' p xs"
  unfolding hlist_def using hseg_cong by blast

text \<open>What a change behind the cells \<open>xs\<close> has to respect.\<close>

lemma hlist_change_tail:
  assumes "hlist h p (xs @ ys)" "distinct (p # xs @ ys')" "hseg h' (last (p # xs)) ys'"
    "\<And>x. x \<in> set (p # xs) \<Longrightarrow> x \<noteq> last (p # xs) \<Longrightarrow> link h' x = link h x"
    "\<And>x. x \<in> set xs \<Longrightarrow> pprev h' x = pprev h x"
  shows "hlist h' p (xs @ ys')"
  using assms hpre_cong [of p xs h' h] by (auto simp: hlist_def hseg_split)

lemma last_notin:
  assumes "distinct (p # xs @ ys)"
  shows "last (p # xs) \<notin> set ys"
proof -
  have "last (p # xs) \<in> set (p # xs)" by (rule last_in_set) simp
  moreover have "set (p # xs) \<inter> set ys = {}" using assms by auto
  ultimately show ?thesis by blast
qed

lemma last_member: "last (p # xs) \<in> set (p # xs)"
  by (rule last_in_set) simp

text \<open>What each operation leaves in every link and back link.\<close>

lemma link_add_head: "link (hlist_add_head n p h) x = (if x = p then n else if x = n then link h p else link h x)"
  by (simp add: hlist_add_head_def Let_def)

lemma pprev_add_head:
  "pprev (hlist_add_head n p h) x = (if x = n then p else if x \<noteq> 0 \<and> x = link h p then n else pprev h x)"
  by (simp add: hlist_add_head_def Let_def)

lemma link_add_behind:
  "n \<noteq> q \<Longrightarrow> link (hlist_add_behind n q h) x = (if x = q then n else if x = n then link h q else link h x)"
  by (simp add: hlist_add_behind_def Let_def)

lemma pprev_add_behind:
  "n \<noteq> q \<Longrightarrow> pprev (hlist_add_behind n q h) x =
     (if x \<noteq> 0 \<and> x = link h q then n else if x = n then q else pprev h x)"
  by (auto simp: hlist_add_behind_def Let_def)

lemma link_add_before:
  "n \<noteq> y \<Longrightarrow> link (hlist_add_before n y h) x = (if x = pprev h y then n else if x = n then y else link h x)"
  by (simp add: hlist_add_before_def Let_def)

lemma pprev_add_before:
  "n \<noteq> y \<Longrightarrow> pprev (hlist_add_before n y h) x = (if x = y then n else if x = n then pprev h y else pprev h x)"
  by (simp add: hlist_add_before_def Let_def)

lemma link_ll_del: "link (ll_hlist_del n h) x = (if x = pprev h n then link h n else link h x)"
  by (simp add: ll_hlist_del_def Let_def)

lemma pprev_ll_del: "pprev (ll_hlist_del n h) x = (if x \<noteq> 0 \<and> x = link h n then pprev h n else pprev h x)"
  by (simp add: ll_hlist_del_def Let_def)

text \<open>The cells around a point of the list.\<close>

lemma hlist_middle:
  assumes "hlist h p (xs @ ys)"
  shows "\<exists>l. l = last (p # xs) \<and> l \<in> set (p # xs) \<and> l \<notin> set ys \<and> hseg h l ys \<and> distinct (p # xs @ ys)"
  using assms last_notin [of p xs ys] last_member [of p xs] by (simp only: hlist_def hseg_split) blast

subsection \<open>Refinement\<close>

lemma hlist_INIT: "hlist (INIT_HLIST_HEAD p h) p []"
  by (simp add: hlist_def INIT_HLIST_HEAD_def)

lemma hlist_hlist_empty: "hlist h p xs \<Longrightarrow> hlist_empty p h \<longleftrightarrow> xs = []"
  by (cases xs) (auto simp: hlist_def hlist_empty_def)

lemma hlist_first: "hlist h p xs \<Longrightarrow> link h p = (case xs of [] \<Rightarrow> 0 | x # _ \<Rightarrow> x)"
  by (cases xs) (auto simp: hlist_def)

lemma hlist_add_behind_refines:
  assumes "hlist h p (xs @ ys)" "n \<notin> set (p # xs @ ys)" "n \<noteq> 0"
  shows "hlist (hlist_add_behind n (last (p # xs)) h) p (xs @ n # ys)"
proof -
  obtain l where l: "l = last (p # xs)" "l \<in> set (p # xs)" "l \<notin> set ys" "hseg h l ys" "distinct (p # xs @ ys)"
    using hlist_middle [OF assms(1)] by blast
  have n: "n \<noteq> l" "n \<notin> set ys" "n \<notin> set (p # xs)" using l(2) assms(2) by auto
  let ?h = "hlist_add_behind n l h"
  have "hseg ?h l (n # ys)"
  proof (cases ys)
    case Nil
    then show ?thesis using l(4) n assms(3) by (simp add: link_add_behind pprev_add_behind)
  next
    case (Cons y zs)
    have y: "link h l = y" "y \<noteq> 0" "hseg h y zs" "y \<noteq> n" "y \<notin> set zs" using l(4,5) n(2) Cons by auto
    have "hseg ?h y zs"
    proof (rule hseg_cong [OF _ _ y(3)])
      show "x \<in> set (y # zs) \<Longrightarrow> link ?h x = link h x" for x
        using l(3) n unfolding Cons link_add_behind [OF n(1)] by (metis)
      show "x \<in> set zs \<Longrightarrow> pprev ?h x = pprev h x" for x
        using y n(2) unfolding Cons pprev_add_behind [OF n(1)] by auto
    qed
    then show ?thesis
      using y n assms(3) by (simp add: Cons link_add_behind pprev_add_behind)
  qed
  moreover have "x \<in> set (p # xs) \<Longrightarrow> x \<noteq> l \<Longrightarrow> link ?h x = link h x" for x
    using n(3) unfolding link_add_behind [OF n(1)] by auto
  moreover have "link h l = 0 \<or> link h l \<notin> set xs" using l(4,5) by (cases ys) auto
  then have "x \<in> set xs \<Longrightarrow> pprev ?h x = pprev h x" for x
    using n(3) unfolding pprev_add_behind [OF n(1)] by auto
  moreover have "distinct (p # xs @ n # ys)" using l(5) assms(2) by auto
  ultimately show ?thesis
    using hlist_change_tail [OF assms(1), of "n # ys" ?h] unfolding l(1) by blast
qed

lemma hlist_add_head_refines:
  assumes "hlist h p xs" "n \<notin> set (p # xs)" "n \<noteq> 0"
  shows "hlist (hlist_add_head n p h) p (n # xs)"
proof -
  have "hlist (hlist_add_behind n p h) p (n # xs)"
    using hlist_add_behind_refines [of h p "[]" xs n] assms by simp
  moreover have "link h p = 0 \<or> link h p \<in> set xs" using assms(1) by (cases xs) (auto simp: hlist_def)
  ultimately show ?thesis
    using assms(2)
    by (elim hlist_cong [rotated 2])
       (auto simp: link_add_head pprev_add_head link_add_behind pprev_add_behind)
qed

lemma hlist_add_before_refines:
  assumes "hlist h p (xs @ y # ys)" "n \<notin> set (p # xs @ y # ys)" "n \<noteq> 0"
  shows "hlist (hlist_add_before n y h) p (xs @ n # y # ys)"
proof -
  obtain l where l: "l = last (p # xs)" "l \<in> set (p # xs)" "l \<notin> set (y # ys)" "hseg h l (y # ys)" "distinct (p # xs @ y # ys)"
    using hlist_middle [OF assms(1)] by blast
  have n: "n \<noteq> y" "n \<notin> set (y # ys)" "n \<notin> set (p # xs)" "n \<noteq> l" using l(2) assms(2) by auto
  let ?h = "hlist_add_before n y h"
  have y: "link h l = y" "pprev h y = l" "hseg h y ys" "y \<noteq> 0" "y \<notin> set ys" using l(4,5) by auto
  have "hseg ?h y ys"
  proof (rule hseg_cong [OF _ _ y(3)])
    show "x \<in> set (y # ys) \<Longrightarrow> link ?h x = link h x" for x
      using l(3) n unfolding link_add_before [OF n(1)] y(2) by metis
    show "x \<in> set ys \<Longrightarrow> pprev ?h x = pprev h x" for x
      using y(5) n unfolding pprev_add_before [OF n(1)] by auto
  qed
  then have "hseg ?h l (n # y # ys)"
    using y n assms(3) by (simp add: link_add_before pprev_add_before)
  moreover have "x \<in> set (p # xs) \<Longrightarrow> x \<noteq> l \<Longrightarrow> link ?h x = link h x" for x
    using n(3) unfolding link_add_before [OF n(1)] y(2) by auto
  moreover have "x \<in> set xs \<Longrightarrow> pprev ?h x = pprev h x" for x
    using n(3) l(5) unfolding pprev_add_before [OF n(1)] by auto
  moreover have "distinct (p # xs @ n # y # ys)" using l(5) assms(2) by auto
  ultimately show ?thesis
    using hlist_change_tail [OF assms(1), of "n # y # ys" ?h] unfolding l(1) by blast
qed

lemma ll_hlist_del_refines:
  assumes "hlist h p (xs @ n # ys)"
  shows "hlist (ll_hlist_del n h) p (xs @ ys)"
proof -
  obtain l where l: "l = last (p # xs)" "l \<in> set (p # xs)" "l \<notin> set (n # ys)" "hseg h l (n # ys)" "distinct (p # xs @ n # ys)"
    using hlist_middle [OF assms(1)] by blast
  let ?h = "ll_hlist_del n h"
  have n: "link h l = n" "pprev h n = l" "hseg h n ys" using l(4) by auto
  have "hseg ?h l ys"
  proof (cases ys)
    case Nil
    then show ?thesis using n by (simp add: link_ll_del)
  next
    case (Cons y zs)
    have y: "link h n = y" "y \<noteq> 0" "hseg h y zs" "y \<notin> set zs" using n(3) l(5) Cons by auto
    have "hseg ?h y zs"
    proof (rule hseg_cong [OF _ _ y(3)])
      show "x \<in> set (y # zs) \<Longrightarrow> link ?h x = link h x" for x
        using l(3) unfolding Cons link_ll_del n(2) by auto
      show "x \<in> set zs \<Longrightarrow> pprev ?h x = pprev h x" for x
        using y unfolding pprev_ll_del by auto
    qed
    then show ?thesis using y n by (simp add: Cons link_ll_del pprev_ll_del)
  qed
  moreover have "x \<in> set (p # xs) \<Longrightarrow> x \<noteq> l \<Longrightarrow> link ?h x = link h x" for x
    unfolding link_ll_del n(2) by auto
  moreover have "link h n = 0 \<or> link h n \<notin> set xs" using n(3) l(5) by (cases ys) auto
  then have "x \<in> set xs \<Longrightarrow> pprev ?h x = pprev h x" for x
    unfolding pprev_ll_del by auto
  moreover have "distinct (p # xs @ ys)" using l(5) by auto
  ultimately show ?thesis
    using hlist_change_tail [OF assms(1), of ys ?h] unfolding l(1) by blast
qed

lemma hlist_set_outside:
  assumes "hlist h p xs" "n \<notin> set (p # xs)"
  shows "hlist (set_pprev n v (set_link n w h)) p xs"
  using assms(2) by (intro hlist_cong [OF _ _ assms(1)]) auto

lemma hlist_hlist_del:
  assumes "hlist h p (xs @ n # ys)"
  shows "hlist (hlist_del n h) p (xs @ ys) \<and> link (hlist_del n h) n = HLIST_POISON1
     \<and> pprev (hlist_del n h) n = HLIST_POISON2"
proof -
  have "n \<notin> set (p # xs @ ys)" using assms by (auto simp: hlist_def)
  then show ?thesis
    using hlist_set_outside [OF ll_hlist_del_refines [OF assms]] by (auto simp: hlist_del_def Let_def)
qed

lemma hlist_hlist_del_init:
  assumes "hlist h p (xs @ n # ys)" "p \<noteq> 0"
  shows "hlist (hlist_del_init n h) p (xs @ ys) \<and> hlist_unhashed n (hlist_del_init n h)"
proof -
  have n: "n \<notin> set (p # xs @ ys)" using assms by (auto simp: hlist_def)
  have "pprev h n = last (p # xs)" using assms(1) by (simp add: hlist_def hseg_split)
  moreover have "last (p # xs) \<noteq> 0"
    using assms hlist_nonzero [OF assms(1)] last_in_set [of "p # xs"] by (auto split: if_splits)
  ultimately have "\<not> hlist_unhashed n h" by (simp add: hlist_unhashed_def)
  then show ?thesis
    using n hlist_set_outside [OF ll_hlist_del_refines [OF assms(1)], of n]
    by (simp add: hlist_del_init_def INIT_HLIST_NODE_def Let_def hlist_unhashed_def)
qed

lemma link_hlist_move_list:
  "link (hlist_move_list old new h) x = (if x = old then 0 else if x = new then link h old else link h x)"
  by (simp add: hlist_move_list_def Let_def)

lemma pprev_hlist_move_list:
  "new \<noteq> old \<Longrightarrow> pprev (hlist_move_list old new h) x = (if link h old \<noteq> 0 \<and> x = link h old then new else pprev h x)"
  by (simp add: hlist_move_list_def Let_def)

lemma hlist_hlist_move_list:
  assumes "hlist h old xs" "new \<notin> set (old # xs)"
  shows "hlist (hlist_move_list old new h) new xs \<and> hlist (hlist_move_list old new h) old []"
proof -
  have new: "new \<noteq> old" using assms(2) by simp
  have "hlist (hlist_move_list old new h) new xs"
  proof (cases xs)
    case Nil
    then show ?thesis using assms new by (simp add: hlist_def link_hlist_move_list)
  next
    case (Cons y ys)
    have seg: "hseg h y ys" "link h old = y" "y \<noteq> 0" "distinct (old # y # ys)"
      using assms(1) by (auto simp: hlist_def Cons)
    have "hseg (hlist_move_list old new h) y ys"
    proof (rule hseg_cong [OF _ _ seg(1)])
      show "x \<in> set (y # ys) \<Longrightarrow> link (hlist_move_list old new h) x = link h x" for x
        using assms(2) seg(4) by (auto simp: link_hlist_move_list Cons)
      show "x \<in> set ys \<Longrightarrow> pprev (hlist_move_list old new h) x = pprev h x" for x
        using seg new by (auto simp: pprev_hlist_move_list)
    qed
    then show ?thesis
      using seg assms(2) new by (simp add: hlist_def Cons link_hlist_move_list pprev_hlist_move_list)
  qed
  moreover have "hlist (hlist_move_list old new h) old []"
    by (simp add: hlist_def link_hlist_move_list)
  ultimately show ?thesis ..
qed

text \<open>Another chain is left alone.\<close>

lemma hlist_apart:
  assumes "hlist h q zs" "set (q # zs) \<inter> A = {}"
    "\<And>x. x \<notin> A \<Longrightarrow> link h' x = link h x" "\<And>x. x \<notin> A \<Longrightarrow> pprev h' x = pprev h x"
  shows "hlist h' q zs"
  using assms(2) by (intro hlist_cong [OF assms(3,4) assms(1)]) auto

lemma hlist_other:
  assumes "hlist h p (xs @ y # ys)" "n \<notin> set (p # xs @ y # ys)" "hlist h q zs"
    "set (q # zs) \<inter> set (n # p # xs @ y # ys) = {}"
  shows "hlist (hlist_add_head n p h) q zs" "hlist (hlist_add_before n y h) q zs" "hlist (hlist_add_behind n y h) q zs"
    "hlist (hlist_del y h) q zs" "hlist (hlist_del_init y h) q zs" "hlist (hlist_move_list p n h) q zs"
proof -
  let ?A = "set (n # p # xs @ y # ys)"
  have y: "hseg h y ys" "pprev h y = last (p # xs)" using assms(1) by (simp_all add: hlist_def hseg_split)
  have f: "pprev h y \<in> ?A" using y(2) last_member [of p xs] by auto
  have g: "link h y = 0 \<or> link h y \<in> ?A" using y(1) by (cases ys) auto
  have k: "link h p = 0 \<or> link h p \<in> ?A" using assms(1) by (cases xs) (auto simp: hlist_def)
  have n: "n \<noteq> y" "n \<noteq> p" using assms(2) by auto
  note apart = hlist_apart [OF assms(3,4)]
  show "hlist (hlist_add_head n p h) q zs"
    by (rule apart) (use k in \<open>auto simp: link_add_head pprev_add_head\<close>)
  show "hlist (hlist_add_before n y h) q zs"
    by (rule apart) (use f n in \<open>auto simp: link_add_before pprev_add_before\<close>)
  show "hlist (hlist_add_behind n y h) q zs"
    by (rule apart) (use g n in \<open>auto simp: link_add_behind pprev_add_behind\<close>)
  have ll: "link (ll_hlist_del y h) x = link h x" "pprev (ll_hlist_del y h) x = pprev h x" if "x \<notin> ?A" for x
    using that f g by (auto simp: link_ll_del pprev_ll_del)
  show "hlist (hlist_del y h) q zs"
    by (rule apart) (use ll in \<open>auto simp: hlist_del_def Let_def\<close>)
  show "hlist (hlist_del_init y h) q zs"
    by (rule apart) (use ll in \<open>auto simp: hlist_del_init_def INIT_HLIST_NODE_def Let_def\<close>)
  show "hlist (hlist_move_list p n h) q zs"
    by (rule apart) (use k n in \<open>auto simp: link_hlist_move_list pprev_hlist_move_list\<close>)
qed

lemma hlist_hlist_is_singular_node:
  assumes "hlist h p xs" "n \<in> set xs"
  shows "hlist_is_singular_node n p h \<longleftrightarrow> xs = [n]"
proof -
  obtain ys zs where xs: "xs = ys @ n # zs" using assms(2) by (meson split_list)
  have "pprev h n = last (p # ys)" "hseg h n zs" using assms(1) by (auto simp: xs hlist_def hseg_split)
  moreover have "last (p # ys) = p \<longleftrightarrow> ys = []"
    using assms(1) last_in_set [of ys] by (auto simp: xs hlist_def)
  moreover have "link h n = 0 \<longleftrightarrow> zs = []" using \<open>hseg h n zs\<close> by (cases zs) auto
  ultimately show ?thesis by (cases ys) (auto simp: hlist_is_singular_node_def xs)
qed

text \<open>A fake node can be deleted without a list, and no list changes.\<close>

lemma hlist_fake_delete:
  assumes "hlist h p xs" "n \<notin> set (p # xs)" "link h n = 0" "n \<noteq> 0"
  shows "hlist_fake n (hlist_add_fake n h) \<and> hlist (hlist_del n (hlist_add_fake n h)) p xs"
proof -
  have "link (hlist_del n (hlist_add_fake n h)) x = link h x \<and> pprev (hlist_del n (hlist_add_fake n h)) x = pprev h x"
    if "x \<noteq> n" for x
    using that assms(3) by (simp add: hlist_del_def ll_hlist_del_def hlist_add_fake_def Let_def)
  then have "hlist (hlist_del n (hlist_add_fake n h)) p xs"
    using assms(2) by (intro hlist_cong [OF _ _ assms(1)]) (metis list.set_intros)+
  then show ?thesis by (simp add: hlist_fake_def hlist_add_fake_def)
qed

subsection \<open>Iteration\<close>

lemma hlist_for_each_visits:
  assumes "hlist (hp s) p xs" "\<And>x s. link (hp (body x s)) = link (hp s)"
  shows "hlist_for_each hp body p s = Some (fold body xs s)"
proof -
  have "hseg g a xs \<Longrightarrow> link (hp t) = link g \<Longrightarrow>
      hlist_for_each_loop hp body (link (hp t) a) t = Some (fold body xs t)" for g a t
    proof (induction xs arbitrary: a t)
    case Nil
    then show ?case by (simp add: hlist_for_each_loop.simps)
  next
    case (Cons x xs)
    then show ?case by (subst hlist_for_each_loop.simps) (simp add: Let_def assms(2))
  qed
  then show ?thesis using assms(1) by (simp add: hlist_for_each_def hlist_def)
qed

text \<open>The safe variant: the body may delete the node it is given.\<close>

lemma hlist_for_each_safe_deletes:
  assumes "hlist (hp s) p xs" "\<And>x s. hp (body x s) = hlist_del x (hp s)"
  shows "\<exists>s'. hlist_for_each_safe hp body p s = Some s' \<and> s' = fold body xs s \<and> hlist (hp s') p []"
proof -
  have del: "hlist (hlist_del x h) p ys" if "hlist h p (x # ys)" for x ys h
    using hlist_hlist_del [of h p "[]"] that by simp
  have loop: "hlist_for_each_safe_loop hp body x (case ys of [] \<Rightarrow> 0 | y # _ \<Rightarrow> y) t = Some (fold body (x # ys) t)
      \<and> hlist (hp (fold body (x # ys) t)) p []" if "hlist (hp t) p (x # ys)" for x ys t
    using that
  proof (induction ys arbitrary: x t)
    case Nil
    then have "x \<noteq> 0" using hlist_nonzero by fastforce
    then show ?case using del [OF Nil] by (simp add: hlist_for_each_safe_loop.simps assms(2))
  next
    case (Cons y ys)
    have "x \<noteq> 0" "y \<noteq> 0" using hlist_nonzero [OF Cons.prems] by auto
    have rest: "hlist (hp (body x t)) p (y # ys)" using del [OF Cons.prems] by (simp add: assms(2))
    have "link (hp (body x t)) y = (case ys of [] \<Rightarrow> 0 | y # _ \<Rightarrow> y)"
      using rest by (cases ys) (auto simp: hlist_def)
    then show ?case
      using Cons.IH [OF rest] \<open>x \<noteq> 0\<close> \<open>y \<noteq> 0\<close>
      by (subst hlist_for_each_safe_loop.simps) (simp add: Let_def)
  qed
  show ?thesis
  proof (cases xs)
    case Nil
    then show ?thesis using assms(1) hlist_first [OF assms(1)]
      by (simp add: hlist_for_each_safe_def hlist_for_each_safe_loop.simps)
  next
    case (Cons x ys)
    then have "x \<noteq> 0" using hlist_nonzero [OF assms(1)] by simp
    moreover have "link (hp s) p = x" "link (hp s) x = (case ys of [] \<Rightarrow> 0 | y # _ \<Rightarrow> y)"
      using assms(1) Cons by (auto simp: hlist_def split: list.splits)
    ultimately show ?thesis using loop [of s x ys] assms(1) Cons by (simp add: hlist_for_each_safe_def)
  qed
qed

end
