(* ===== verification/Props_List.thy ===== *)
theory Props_List
  imports KListIter KHlist
begin

text \<open>
  The properties of the intrusive lists, with their witnesses on a circular list of two
  entries and on a hash chain of two nodes.
\<close>

subsection \<open>Small lists\<close>

definition demo_ring :: lheap where
  "demo_ring = (\<lambda>_. \<lparr>lnext = 0, lprev = 0\<rparr>)
     (0x10 := \<lparr>lnext = 0x20, lprev = 0x30\<rparr>, 0x20 := \<lparr>lnext = 0x30, lprev = 0x10\<rparr>,
      0x30 := \<lparr>lnext = 0x10, lprev = 0x20\<rparr>, 0x50 := \<lparr>lnext = 0x50, lprev = 0x50\<rparr>)"

lemma demo_ring: "dlist demo_ring 0x10 [0x20, 0x30]" "dlist demo_ring 0x50 []"
  by (simp_all add: dlist_def demo_ring_def)

definition demo_chain :: hheap where
  "demo_chain = \<lparr>link = (\<lambda>_. 0)(0x10 := 0x20, 0x20 := 0x30), pprev = (\<lambda>_. 0)(0x20 := 0x10, 0x30 := 0x20)\<rparr>"

lemma demo_chain: "hlist demo_chain 0x10 [0x20, 0x30]"
  by (simp add: hlist_def demo_chain_def)

subsection \<open>Properties\<close>

text \<open>C40: Editing a circular list: \<open>list_add\<close> puts a new entry first and \<open>list_add_tail\<close> puts it last,
  \<open>list_del\<close> takes an entry out wherever it is and poisons both its pointers, \<open>list_replace\<close>
  puts a new entry in an old one's place, and a list at another head is not changed by the
  deletion.\<close>

theorem list_edit_correct:
  assumes "dlist h head (ys @ x # zs)" "new \<notin> set (head # ys @ x # zs)" "dlist h other ws"
    "set (other # ws) \<inter> set (head # ys @ x # zs) = {}"
  shows "dlist (list_add new head h) head (new # ys @ x # zs)
    \<and> dlist (list_add_tail new head h) head (ys @ x # zs @ [new])
    \<and> dlist (list_del x h) head (ys @ zs)
    \<and> lnext (list_del x h x) = LIST_POISON1 \<and> lprev (list_del x h x) = LIST_POISON2
    \<and> dlist (list_replace x new h) head (ys @ new # zs)
    \<and> dlist (list_del x h) other ws"
  using dlist_list_add [OF assms(1,2)] dlist_list_add_tail [OF assms(1,2)] dlist_list_del [OF assms(1)]
    list_del_poisons [OF assms(1)] dlist_list_replace [OF assms(1,2)]
    kl.del_other [OF assms(1,3)] assms(4) by (auto simp: Int_commute)

theorem list_edit_correct_witness:
  "dlist (list_add 0x40 0x10 demo_ring) 0x10 [0x40, 0x20, 0x30]
    \<and> dlist (list_del 0x30 demo_ring) 0x10 [0x20]
    \<and> dlist (list_replace 0x30 0x40 demo_ring) 0x10 [0x20, 0x40]"
  using list_edit_correct [of demo_ring "0x10" "[0x20]" "0x30" "[]" "0x40" "0x50" "[]"] demo_ring by simp

text \<open>Cutting and splicing are inverse: \<open>list_cut_position\<close> moves the entries up to and including
  the given one to the other head and leaves the rest, and \<open>list_splice_init\<close> puts them back in
  front, giving the original list and an empty initialised one; \<open>list_splice_tail_init\<close>
  appends them instead.\<close>

theorem list_cut_splice_correct:
  assumes "dlist h head (ys @ e # zs)" "l \<notin> set (head # ys @ e # zs)"
  shows "dlist (list_cut_position l head e h) l (ys @ [e])
    \<and> dlist (list_cut_position l head e h) head zs
    \<and> dlist (list_splice_init l head (list_cut_position l head e h)) head (ys @ e # zs)
    \<and> dlist (list_splice_init l head (list_cut_position l head e h)) l []
    \<and> dlist (list_splice_tail_init l head (list_cut_position l head e h)) head (zs @ ys @ [e])"
proof -
  note cut = dlist_list_cut_position [OF assms]
  have "set (l # ys @ [e]) \<inter> set (head # zs) = {}" using assms by (auto simp: dlist_def)
  then show ?thesis
    using cut dlist_list_splice_init [OF cut] dlist_list_splice_tail_init [OF cut] by simp
qed

theorem list_cut_splice_correct_witness:
  "dlist (list_cut_position 0x50 0x10 0x20 demo_ring) 0x50 [0x20]
    \<and> dlist (list_splice_init 0x50 0x10 (list_cut_position 0x50 0x10 0x20 demo_ring)) 0x10 [0x20, 0x30]
    \<and> dlist (list_splice_tail_init 0x50 0x10 (list_cut_position 0x50 0x10 0x20 demo_ring)) 0x10 [0x30, 0x20]"
  using list_cut_splice_correct [of demo_ring "0x10" "[]" "0x20" "[0x30]" "0x50"] demo_ring by simp

text \<open>Draining a list with \<open>list_for_each_entry_safe\<close>: when the body deletes the entry it is
  given, the loop ends, the body has run once for every entry, in order and with the entry's
  address computed from the member's, and the list is empty.\<close>

theorem list_drain_correct:
  assumes "dlist (hp s) head xs" "\<And>x s. hp (body x s) = list_del (x + offset) (hp s)"
  shows "\<exists>s'. list_for_each_entry_safe hp body head offset s = Some s'
    \<and> s' = fold body (map (\<lambda>x. x - offset) xs) s \<and> dlist (hp s') head []"
  using list_for_each_entry_safe_deletes [OF assms] by simp

theorem list_drain_correct_witness:
  "\<exists>s'. list_for_each_entry_safe fst (\<lambda>x s. (list_del (x + 8) (fst s), snd s @ [x])) 0x10 8 (demo_ring, [])
      = Some s'
    \<and> s' = fold (\<lambda>x s. (list_del (x + 8) (fst s), snd s @ [x])) (map (\<lambda>x. x - 8) [0x20, 0x30]) (demo_ring, [])
    \<and> dlist (fst s') 0x10 []"
  by (rule list_drain_correct) (simp_all add: demo_ring)

text \<open>C15: The hash chains, pointer by pointer: insertion at the head, before and behind a node, deletion of
  any node (the first one included, through its \<open>pprev\<close>), re-initialising deletion and moving a
  chain to another head do to the chain what they do to the list of its nodes; a deleted node is
  poisoned, or unhashed by the re-initialising deletion; and none of them changes another chain.\<close>

theorem hlist_edit_correct:
  assumes "hlist h p (xs @ y # ys)" "n \<notin> set (p # xs @ y # ys)" "n \<noteq> 0" "p \<noteq> 0"
    "hlist h q zs" "set (q # zs) \<inter> set (n # p # xs @ y # ys) = {}"
  shows "hlist (hlist_add_head n p h) p (n # xs @ y # ys) \<and> hlist (hlist_add_head n p h) q zs
    \<and> hlist (hlist_add_before n y h) p (xs @ n # y # ys) \<and> hlist (hlist_add_before n y h) q zs
    \<and> hlist (hlist_add_behind n y h) p (xs @ y # n # ys) \<and> hlist (hlist_add_behind n y h) q zs
    \<and> hlist (hlist_del y h) p (xs @ ys) \<and> hlist (hlist_del y h) q zs
    \<and> link (hlist_del y h) y = HLIST_POISON1 \<and> pprev (hlist_del y h) y = HLIST_POISON2
    \<and> hlist (hlist_del_init y h) p (xs @ ys) \<and> hlist (hlist_del_init y h) q zs \<and> hlist_unhashed y (hlist_del_init y h)
    \<and> hlist (hlist_move_list p n h) n (xs @ y # ys) \<and> hlist_empty p (hlist_move_list p n h)
    \<and> hlist (hlist_move_list p n h) q zs"
proof -
  have "hlist (hlist_add_behind n y h) p (xs @ y # n # ys)"
    using hlist_add_behind_refines [of h p "xs @ [y]" ys n] assms by simp
  moreover have "hlist_empty p (hlist_move_list p n h)"
    using hlist_hlist_move_list [OF assms(1,2)] hlist_hlist_empty by blast
  ultimately show ?thesis
    using hlist_add_head_refines [OF assms(1-3)] hlist_add_before_refines [OF assms(1-3)]
      hlist_hlist_del [OF assms(1)] hlist_hlist_del_init [OF assms(1,4)] hlist_hlist_move_list [OF assms(1,2)]
      hlist_other [OF assms(1,2,5,6)] by blast
qed

theorem hlist_edit_correct_witness:
  "hlist (hlist_add_behind 0x40 0x30 demo_chain) 0x10 [0x20, 0x30, 0x40]
    \<and> hlist (hlist_del 0x30 demo_chain) 0x10 [0x20]
    \<and> hlist (hlist_move_list 0x10 0x40 demo_chain) 0x40 [0x20, 0x30]
    \<and> hlist (hlist_del 0x30 demo_chain) 0x50 []"
proof -
  have "hlist demo_chain 0x50 []" by (simp add: hlist_def demo_chain_def)
  then show ?thesis
    using hlist_edit_correct [of demo_chain "0x10" "[0x20]" "0x30" "[]" "0x40" "0x50" "[]"] demo_chain by simp
qed

end
