(* ===== verification/Lf.thy ===== *)
theory Lf
  imports Consts
begin

text \<open>
  The leader-follower pool: \<open>tcpdaemon_LF_worker\<close> of \<open>tcpdaemon_lib.c\<close> as a step function of one
  worker process on the System V semaphore \<open>accept_mutex\<close>, and the pool as interleaved steps of
  its workers. A step is one blocking call with its answer; \<open>SEM_UNDO\<close> is in the model, because
  the kernel applies it when a process ends, at whatever point it is.
\<close>

subsection \<open>A worker\<close>

datatype lf_pc =
    Entering      \<comment> \<open>in \<open>semop\<close> with -1\<close>
  | Selecting     \<comment> \<open>in \<open>select\<close> on the listening socket and the alive pipe\<close>
  | Accepting     \<comment> \<open>in \<open>accept\<close>\<close>
  | Leaving       \<comment> \<open>in \<open>semop\<close> with 1, inside the loop\<close>
  | Serving       \<comment> \<open>in the application's callback\<close>
  | Finally       \<comment> \<open>in \<open>semop\<close> with 1, after the loop\<close>
  | Returned int  \<comment> \<open>the function has returned\<close>
  | Gone          \<comment> \<open>no process: not forked yet, or ended\<close>

datatype lf_event = LfAccept int | LfNodelay int | LfLinger int int | LfServe int | LfClose int

record lf_cfg =
  lf_tcp_nodelay :: int
  lf_tcp_linger :: int
  lf_max_requests_per_process :: int

text \<open>\<open>semadj\<close> is the kernel's undo value of the process for the semaphore.\<close>

record lf_worker =
  pc :: lf_pc
  accepted_sock :: int
  requests_per_process :: int
  semadj :: int
  lf_trace :: "lf_event list"

text \<open>Answers of the kernel and of the application, and what happens to the process.\<close>

datatype lf_ans =
    SemopOk | SemopFails
  | SelectFails | AlivePipeReadable | ListenReadable
  | AcceptFails | Accepted int
  | TcpmainReturned int
  | ProcessEnds | Forked

definition lf_note :: "lf_event \<Rightarrow> lf_worker \<Rightarrow> lf_worker" where
  "lf_note e w = w\<lparr>lf_trace := lf_trace w @ [e]\<rparr>"

definition lf_set_sock_opts :: "lf_cfg \<Rightarrow> lf_worker \<Rightarrow> lf_worker" where
  "lf_set_sock_opts cfg w =
     (let w = (if lf_tcp_nodelay cfg = 1 then lf_note (LfNodelay (accepted_sock w)) w else w)
      in if lf_tcp_linger cfg > 0 then lf_note (LfLinger (accepted_sock w) (lf_tcp_linger cfg)) w else w)"

text \<open>\<open>semop\<close> with \<open>SEM_UNDO\<close>; a negative operation that would go below 0 blocks.\<close>

definition semop :: "int \<Rightarrow> int \<times> lf_worker \<Rightarrow> (int \<times> lf_worker) option" where
  "semop sem_op mw =
     (if fst mw + sem_op < 0 then None
      else Some (fst mw + sem_op, (snd mw)\<lparr>semadj := semadj (snd mw) - sem_op\<rparr>))"

definition lf_goto :: "lf_pc \<Rightarrow> int \<times> lf_worker \<Rightarrow> int \<times> lf_worker" where
  "lf_goto l mw = (fst mw, (snd mw)\<lparr>pc := l\<rparr>)"

text \<open>After the callback has answered.\<close>

definition lf_served :: "lf_cfg \<Rightarrow> int \<Rightarrow> lf_worker \<Rightarrow> lf_worker" where
  "lf_served cfg nret w =
     (let w = lf_note (LfServe (accepted_sock w)) w in
      if nret = TCPMAIN_RETURN_CLOSE then
        (let w = lf_note (LfClose (accepted_sock w)) w;
             w = w\<lparr>requests_per_process := requests_per_process w + 1\<rparr>
         in if lf_max_requests_per_process cfg \<noteq> 0
               \<and> requests_per_process w \<ge> lf_max_requests_per_process cfg
            then w\<lparr>pc := Returned 1\<rparr> else w\<lparr>pc := Entering\<rparr>)
      else w\<lparr>pc := Finally\<rparr>)"

text \<open>\<open>None\<close>: the answer does not fit the call the worker is in, or the call blocks.\<close>

definition lf_ends :: "int \<times> lf_worker \<Rightarrow> int \<times> lf_worker" where
  "lf_ends mw = (max 0 (fst mw + semadj (snd mw)), (snd mw)\<lparr>pc := Gone, semadj := 0\<rparr>)"

definition lf_step :: "lf_cfg \<Rightarrow> lf_ans \<Rightarrow> int \<times> lf_worker \<Rightarrow> (int \<times> lf_worker) option" where
  "lf_step cfg ans mw =
     (let w = snd mw in
      case pc w of
        Entering \<Rightarrow>
          (case ans of
             SemopOk \<Rightarrow> map_option (lf_goto Selecting) (semop (-1) mw)
           | SemopFails \<Rightarrow> Some (lf_goto Finally mw)
           | ProcessEnds \<Rightarrow> Some (lf_ends mw) | _ \<Rightarrow> None)
      | Selecting \<Rightarrow>
          (case ans of
             SelectFails \<Rightarrow> Some (lf_goto Finally mw)
           | AlivePipeReadable \<Rightarrow> Some (lf_goto Finally mw)
           | ListenReadable \<Rightarrow> Some (lf_goto Accepting mw)
           | ProcessEnds \<Rightarrow> Some (lf_ends mw) | _ \<Rightarrow> None)
      | Accepting \<Rightarrow>
          (case ans of
             AcceptFails \<Rightarrow> Some (lf_goto Finally mw)
           | Accepted s \<Rightarrow>
               Some (lf_goto Leaving
                 (fst mw, lf_set_sock_opts cfg (lf_note (LfAccept s) (w\<lparr>accepted_sock := s\<rparr>))))
           | ProcessEnds \<Rightarrow> Some (lf_ends mw) | _ \<Rightarrow> None)
      | Leaving \<Rightarrow>
          (case ans of
             SemopOk \<Rightarrow> map_option (lf_goto Serving) (semop 1 mw)
           | SemopFails \<Rightarrow> Some (lf_goto Finally mw)
           | ProcessEnds \<Rightarrow> Some (lf_ends mw) | _ \<Rightarrow> None)
      | Serving \<Rightarrow>
          (case ans of
             TcpmainReturned nret \<Rightarrow> Some (fst mw, lf_served cfg nret w)
           | ProcessEnds \<Rightarrow> Some (lf_ends mw) | _ \<Rightarrow> None)
      | Finally \<Rightarrow>
          (case ans of
             SemopOk \<Rightarrow> map_option (lf_goto (Returned 0)) (semop 1 mw)
           | SemopFails \<Rightarrow> Some (lf_goto (Returned 1) mw)
           | ProcessEnds \<Rightarrow> Some (lf_ends mw) | _ \<Rightarrow> None)
      | Returned _ \<Rightarrow> (case ans of ProcessEnds \<Rightarrow> Some (lf_ends mw) | _ \<Rightarrow> None)
      | Gone \<Rightarrow>
          (case ans of
             Forked \<Rightarrow> Some (fst mw, w\<lparr>pc := Entering, requests_per_process := 0, semadj := 0, lf_trace := []\<rparr>)
           | _ \<Rightarrow> None))"

subsection \<open>The pool\<close>

record lf_sys =
  accept_mutex :: int
  workers :: "lf_worker list"

definition no_worker :: lf_worker where
  "no_worker = \<lparr>pc = Gone, accepted_sock = 0, requests_per_process = 0, semadj = 0, lf_trace = []\<rparr>"

text \<open>After \<open>InitDaemonEnv_LF\<close>: the semaphore is 1 and no worker is forked.\<close>

definition lf_init :: "nat \<Rightarrow> lf_sys" where
  "lf_init n = \<lparr>accept_mutex = 1, workers = replicate n no_worker\<rparr>"

definition lf_move :: "lf_cfg \<Rightarrow> nat \<Rightarrow> lf_ans \<Rightarrow> lf_sys \<Rightarrow> lf_sys option" where
  "lf_move cfg i ans s =
     (if i < length (workers s)
      then map_option (\<lambda>(m, w). \<lparr>accept_mutex = m, workers = (workers s)[i := w]\<rparr>)
             (lf_step cfg ans (accept_mutex s, workers s ! i))
      else None)"

fun lf_run :: "lf_cfg \<Rightarrow> (nat \<times> lf_ans) list \<Rightarrow> lf_sys \<Rightarrow> lf_sys option" where
  "lf_run cfg [] s = Some s"
| "lf_run cfg ((i, ans) # es) s =
     (case lf_move cfg i ans s of None \<Rightarrow> None | Some s \<Rightarrow> lf_run cfg es s)"

text \<open>
  The two answers after which a worker leaves its loop without holding the semaphore: the
  failure to enter, and a callback that returns anything but \<open>TCPMAIN_RETURN_CLOSE\<close>.
\<close>

definition leaves_unheld :: "lf_ans \<Rightarrow> lf_worker \<Rightarrow> bool" where
  "leaves_unheld ans w \<longleftrightarrow>
     pc w = Entering \<and> ans = SemopFails
     \<or> pc w = Serving \<and> (case ans of TcpmainReturned r \<Rightarrow> r \<noteq> TCPMAIN_RETURN_CLOSE | _ \<Rightarrow> False)"

inductive lf_reachable :: "lf_cfg \<Rightarrow> nat \<Rightarrow> lf_sys \<Rightarrow> bool" for cfg n where
  lf_start: "lf_reachable cfg n (lf_init n)"
| lf_next: "lf_reachable cfg n s \<Longrightarrow> lf_move cfg i ans s = Some t \<Longrightarrow>
     \<not> leaves_unheld ans (workers s ! i) \<Longrightarrow> lf_reachable cfg n t"

definition in_critical :: "lf_worker \<Rightarrow> bool" where
  "in_critical w \<longleftrightarrow> pc w \<in> {Selecting, Accepting, Leaving}"

end
