(* ===== verification/LfInv.thy ===== *)
theory LfInv
  imports Lf
begin

text \<open>
  The invariant of the leader-follower pool: the semaphore and the undo values of the workers
  add up to one, and each worker's trace, request count and program point agree.
\<close>

subsection \<open>The invariant\<close>

definition accepts_of :: "lf_worker \<Rightarrow> int list" where
  "accepts_of w = [s. LfAccept s \<leftarrow> lf_trace w]"

definition closes_of :: "lf_worker \<Rightarrow> int list" where
  "closes_of w = [s. LfClose s \<leftarrow> lf_trace w]"

definition serves_of :: "lf_worker \<Rightarrow> int list" where
  "serves_of w = [s. LfServe s \<leftarrow> lf_trace w]"

text \<open>
  Inside the loop: the sockets \<open>ss\<close> are accepted and still open, all others have been served
  and closed, and the limit on requests is not reached.
\<close>

definition lf_balanced :: "lf_cfg \<Rightarrow> lf_worker \<Rightarrow> int list \<Rightarrow> bool" where
  "lf_balanced cfg w ss \<longleftrightarrow>
     accepts_of w = closes_of w @ ss \<and> serves_of w = closes_of w
     \<and> (lf_max_requests_per_process cfg > 0 \<longrightarrow> requests_per_process w < lf_max_requests_per_process cfg)"

definition lf_worker_inv :: "lf_cfg \<Rightarrow> lf_worker \<Rightarrow> bool" where
  "lf_worker_inv cfg w \<longleftrightarrow>
     requests_per_process w = int (length (closes_of w))
     \<and> (lf_max_requests_per_process cfg > 0 \<longrightarrow> requests_per_process w \<le> lf_max_requests_per_process cfg)
     \<and> (case pc w of
          Entering \<Rightarrow> semadj w = 0 \<and> lf_balanced cfg w []
        | Selecting \<Rightarrow> semadj w = 1 \<and> lf_balanced cfg w []
        | Accepting \<Rightarrow> semadj w = 1 \<and> lf_balanced cfg w []
        | Leaving \<Rightarrow> semadj w = 1 \<and> lf_balanced cfg w [accepted_sock w]
        | Serving \<Rightarrow> semadj w = 0 \<and> lf_balanced cfg w [accepted_sock w]
        | Finally \<Rightarrow> semadj w = 1
        | Returned _ \<Rightarrow> semadj w = 0 \<or> semadj w = 1
        | Gone \<Rightarrow> semadj w = 0)"

lemma lf_worker_inv_semadj:
  "lf_worker_inv cfg w \<Longrightarrow> semadj w = 0 \<or> semadj w = 1"
  "lf_worker_inv cfg w \<Longrightarrow> in_critical w \<Longrightarrow> semadj w = 1"
  by (cases "pc w"; simp add: lf_worker_inv_def in_critical_def)+

definition lf_inv :: "lf_cfg \<Rightarrow> lf_sys \<Rightarrow> bool" where
  "lf_inv cfg s \<longleftrightarrow>
     0 \<le> accept_mutex s \<and> accept_mutex s + sum_list (map semadj (workers s)) = 1
     \<and> (\<forall>w \<in> set (workers s). lf_worker_inv cfg w)"

lemmas lf_trace_defs = accepts_of_def closes_of_def serves_of_def

lemma lf_trace_note [simp]:
  "accepts_of (lf_note e w) = accepts_of w @ (case e of LfAccept s \<Rightarrow> [s] | _ \<Rightarrow> [])"
  "closes_of (lf_note e w) = closes_of w @ (case e of LfClose s \<Rightarrow> [s] | _ \<Rightarrow> [])"
  "serves_of (lf_note e w) = serves_of w @ (case e of LfServe s \<Rightarrow> [s] | _ \<Rightarrow> [])"
  by (cases e; simp add: lf_trace_defs lf_note_def)+

lemma lf_note_fields [simp]:
  "pc (lf_note e w) = pc w" "accepted_sock (lf_note e w) = accepted_sock w"
  "requests_per_process (lf_note e w) = requests_per_process w" "semadj (lf_note e w) = semadj w"
  by (simp_all add: lf_note_def)

lemma lf_set_sock_opts_fields [simp]:
  "pc (lf_set_sock_opts cfg w) = pc w" "accepted_sock (lf_set_sock_opts cfg w) = accepted_sock w"
  "requests_per_process (lf_set_sock_opts cfg w) = requests_per_process w"
  "semadj (lf_set_sock_opts cfg w) = semadj w"
  "accepts_of (lf_set_sock_opts cfg w) = accepts_of w"
  "closes_of (lf_set_sock_opts cfg w) = closes_of w"
  "serves_of (lf_set_sock_opts cfg w) = serves_of w"
  by (simp_all add: lf_set_sock_opts_def Let_def)

lemma lf_trace_update [simp]:
  "accepts_of (w\<lparr>pc := l\<rparr>) = accepts_of w" "closes_of (w\<lparr>pc := l\<rparr>) = closes_of w"
  "serves_of (w\<lparr>pc := l\<rparr>) = serves_of w"
  "accepts_of (w\<lparr>semadj := a\<rparr>) = accepts_of w" "closes_of (w\<lparr>semadj := a\<rparr>) = closes_of w"
  "serves_of (w\<lparr>semadj := a\<rparr>) = serves_of w"
  "accepts_of (w\<lparr>accepted_sock := i\<rparr>) = accepts_of w" "closes_of (w\<lparr>accepted_sock := i\<rparr>) = closes_of w"
  "serves_of (w\<lparr>accepted_sock := i\<rparr>) = serves_of w"
  "accepts_of (w\<lparr>requests_per_process := i\<rparr>) = accepts_of w"
  "closes_of (w\<lparr>requests_per_process := i\<rparr>) = closes_of w"
  "serves_of (w\<lparr>requests_per_process := i\<rparr>) = serves_of w"
  by (simp_all add: lf_trace_defs)

text \<open>One step of one worker.\<close>

lemma lf_step_inv:
  assumes "lf_step cfg ans (m, w) = Some (m', w')" "\<not> leaves_unheld ans w" "lf_worker_inv cfg w"
    "0 \<le> m"
  shows "lf_worker_inv cfg w' \<and> 0 \<le> m' \<and> m' + semadj w' = m + semadj w"
proof -
  note defs = lf_step_def lf_ends_def semop_def lf_goto_def lf_worker_inv_def lf_balanced_def
  show ?thesis
  proof (cases "pc w")
    case Serving
    then show ?thesis
      using assms by (cases ans) (auto simp: defs lf_served_def Let_def leaves_unheld_def split: if_splits)
  next
    case Entering
    then show ?thesis
      using assms by (cases ans) (auto simp: defs leaves_unheld_def split: if_splits)
  next
    case Gone
    then show ?thesis using assms by (cases ans) (auto simp: defs lf_trace_defs)
  qed (use assms in \<open>(cases ans; clarsimp simp: defs split: if_splits; (auto)?)+\<close>)
qed

lemma sum_list_update_int:
  "i < length ws \<Longrightarrow> sum_list (map f (ws[i := w])) = sum_list (map f ws) - f (ws ! i) + (f w :: int)"
proof (induction ws arbitrary: i)
  case (Cons a ws)
  then show ?case by (cases i) auto
qed simp

lemma lf_move_inv:
  assumes "lf_move cfg i ans s = Some t" "\<not> leaves_unheld ans (workers s ! i)" "lf_inv cfg s"
  shows "lf_inv cfg t"
proof -
  let ?w = "workers s ! i"
  from assms(1) obtain m' w' where st: "i < length (workers s)"
      "lf_step cfg ans (accept_mutex s, ?w) = Some (m', w')"
      "t = \<lparr>accept_mutex = m', workers = (workers s)[i := w']\<rparr>"
    by (auto simp: lf_move_def split: if_splits)
  have "lf_worker_inv cfg ?w" "0 \<le> accept_mutex s" using assms(3) st(1) by (auto simp: lf_inv_def)
  then have "lf_worker_inv cfg w'" "0 \<le> m'" "m' + semadj w' = accept_mutex s + semadj ?w"
    using lf_step_inv [OF st(2) assms(2)] by auto
  then show ?thesis
    using assms(3) st by (auto simp: lf_inv_def sum_list_update_int dest: set_update_subset_insert [THEN subsetD])
qed

lemma lf_init_inv: "lf_inv cfg (lf_init n)"
  by (auto simp: lf_inv_def lf_init_def no_worker_def lf_worker_inv_def lf_trace_defs sum_list_replicate map_replicate)

lemma lf_reachable_inv: "lf_reachable cfg n s \<Longrightarrow> lf_inv cfg s"
  by (induction rule: lf_reachable.induct) (auto intro: lf_init_inv lf_move_inv)

text \<open>In a run without the two answers after which a worker leaves unheld, every state is reachable.\<close>

definition answer_ok :: "nat \<times> lf_ans \<Rightarrow> bool" where
  "answer_ok e \<longleftrightarrow> snd e \<noteq> SemopFails \<and> (\<forall>r. snd e = TcpmainReturned r \<longrightarrow> r = TCPMAIN_RETURN_CLOSE)"

interpretation lf_reach: guarded_system "\<lambda>e. lf_move cfg (fst e) (snd e)" "lf_run cfg" "lf_reachable cfg n" answer_ok for cfg n
  by unfold_locales
     (auto simp: answer_ok_def leaves_unheld_def split: option.splits lf_ans.splits intro: lf_next)

lemma lf_reachable_run:
  "lf_reachable cfg n s \<Longrightarrow> lf_run cfg es s = Some t \<Longrightarrow>
   (\<And>i ans r. (i, ans) \<in> set es \<Longrightarrow> ans \<noteq> SemopFails \<and> (ans = TcpmainReturned r \<longrightarrow> r = TCPMAIN_RETURN_CLOSE)) \<Longrightarrow>
   lf_reachable cfg n t"
  by (rule lf_reach.run_keeps) (auto simp: list_all_iff answer_ok_def)

text \<open>The same of a run in which leaving the semaphore may fail: only the steps themselves are excluded
  after which a worker is at its last \<open>semop\<close> without holding the semaphore.\<close>

fun run_leaves_unheld :: "lf_cfg \<Rightarrow> (nat \<times> lf_ans) list \<Rightarrow> lf_sys \<Rightarrow> bool" where
  "run_leaves_unheld cfg [] s \<longleftrightarrow> False"
| "run_leaves_unheld cfg ((i, ans) # es) s \<longleftrightarrow> leaves_unheld ans (workers s ! i) \<or>
     (case lf_move cfg i ans s of None \<Rightarrow> False | Some s \<Rightarrow> run_leaves_unheld cfg es s)"

lemma lf_run_reachable:
  "lf_reachable cfg n s \<Longrightarrow> lf_run cfg es s = Some t \<Longrightarrow> \<not> run_leaves_unheld cfg es s \<Longrightarrow> lf_reachable cfg n t"
  by (induction cfg es s rule: lf_run.induct) (auto split: option.splits intro: lf_next)

text \<open>At most one worker holds the semaphore, and none holds it exactly when it is free.\<close>

lemma sum_01:
  assumes "\<forall>w \<in> set ws. f w \<in> {0, 1 :: int}" "i < length ws" "j < length ws" "f (ws ! i) = 1" "f (ws ! j) = 1"
    "sum_list (map f ws) \<le> 1"
  shows "i = j"
proof (rule ccontr)
  assume "i \<noteq> j"
  then have "2 = (\<Sum>k \<in> {i, j}. f (ws ! k))" using assms(4,5) by simp
  also have "\<dots> \<le> (\<Sum>k \<in> {0..<length ws}. f (ws ! k))"
  proof (rule sum_mono2)
    fix k
    assume "k \<in> {0..<length ws} - {i, j}"
    then have "ws ! k \<in> set ws" by simp
    with assms(1) have "f (ws ! k) \<in> {0, 1}" by blast
    then show "0 \<le> f (ws ! k)" by auto
  qed (use assms(2,3) in auto)
  also have "\<dots> = sum_list (map f ws)" by (simp add: sum_list_sum_nth)
  finally show False using assms(6) by simp
qed

lemma lf_inv_exclusive:
  assumes "lf_inv cfg s" "i < length (workers s)" "j < length (workers s)"
    "in_critical (workers s ! i)" "in_critical (workers s ! j)"
  shows "i = j"
proof (rule sum_01 [of "workers s" semadj])
  have inv: "lf_worker_inv cfg w" if "w \<in> set (workers s)" for w using assms(1) that by (simp add: lf_inv_def)
  show "\<forall>w \<in> set (workers s). semadj w \<in> {0, 1}" using inv lf_worker_inv_semadj(1) by blast
  show "semadj (workers s ! i) = 1" "semadj (workers s ! j) = 1"
    using inv lf_worker_inv_semadj(2) assms(2-5) nth_mem by blast+
  show "sum_list (map semadj (workers s)) \<le> 1" using assms(1) by (simp add: lf_inv_def)
qed (use assms in auto)

lemma lf_inv_held:
  assumes "lf_inv cfg s" "accept_mutex s = 0"
  shows "\<exists>w \<in> set (workers s). semadj w = 1"
proof (rule ccontr)
  assume "\<not> ?thesis"
  then have "\<forall>w \<in> set (workers s). semadj w = 0" using assms(1) lf_worker_inv_semadj(1) unfolding lf_inv_def by blast
  then have "map semadj (workers s) = map (\<lambda>_. 0) (workers s)" by simp
  then have "sum_list (map semadj (workers s)) = sum_list (map (\<lambda>_. 0) (workers s))" by (simp only:)
  then show False using assms by (simp add: lf_inv_def)
qed

end
