(* ===== verification/Props_Lf.thy ===== *)
theory Props_Lf
  imports LfInv
begin

text \<open>
  The properties of the leader-follower pool, with their witnesses on a pool of two workers.
\<close>

subsection \<open>A short run\<close>

definition demo_lf :: lf_cfg where
  "demo_lf = \<lparr>lf_tcp_nodelay = 1, lf_tcp_linger = 0, lf_max_requests_per_process = 2\<rparr>"

text \<open>Worker 0 serves one connection and is killed in its next \<open>select\<close>; worker 1 then enters.\<close>

definition demo_lf_run :: "(nat \<times> lf_ans) list" where
  "demo_lf_run = [(0, Forked), (1, Forked), (0, SemopOk), (0, ListenReadable), (0, Accepted 7), (0, SemopOk),
     (0, TcpmainReturned 0), (0, SemopOk), (0, ProcessEnds), (1, SemopOk)]"

definition demo_lf_sys :: lf_sys where
  "demo_lf_sys = \<lparr>accept_mutex = 0,
     workers = [\<lparr>pc = Gone, accepted_sock = 7, requests_per_process = 1, semadj = 0,
                 lf_trace = [LfAccept 7, LfNodelay 7, LfServe 7, LfClose 7]\<rparr>,
                \<lparr>pc = Selecting, accepted_sock = 0, requests_per_process = 0, semadj = 1, lf_trace = []\<rparr>]\<rparr>"

lemmas lf_eval = lf_move_def lf_step_def semop_def lf_goto_def lf_ends_def lf_served_def lf_note_def
  lf_set_sock_opts_def lf_init_def no_worker_def TCPMAIN_RETURN_CLOSE_def Let_def numeral_nat

lemma demo_lf_reachable: "lf_reachable demo_lf 2 demo_lf_sys"
proof (rule lf_reachable_run [OF lf_start])
  show "lf_run demo_lf demo_lf_run (lf_init 2) = Some demo_lf_sys"
    by (simp add: demo_lf_run_def demo_lf_sys_def demo_lf_def lf_eval)
qed (auto simp: demo_lf_run_def TCPMAIN_RETURN_CLOSE_def)

subsection \<open>Properties\<close>

text \<open>Mutual exclusion in the leader-follower pool: as long as every callback answers
  \<open>TCPMAIN_RETURN_CLOSE\<close> and entering the semaphore does not fail, at most one worker at a time
  is between entering and leaving the accept section, however the workers are interleaved,
  restarted, or killed at any point; the semaphore is 0 or 1, and when it is 0 some process
  holds it, so the pool is never locked by a dead worker.\<close>

theorem lf_mutual_exclusion:
  assumes "lf_reachable cfg n s" "i < length (workers s)" "j < length (workers s)"
    "in_critical (workers s ! i)" "in_critical (workers s ! j)"
  shows "i = j \<and> accept_mutex s \<in> {0, 1} \<and> (accept_mutex s = 0 \<longrightarrow> (\<exists>w \<in> set (workers s). semadj w = 1 \<and> pc w \<noteq> Gone))"
proof -
  have inv: "lf_inv cfg s" using assms(1) by (rule lf_reachable_inv)
  have "0 \<le> sum_list (map semadj (workers s))"
    using inv lf_worker_inv_semadj(1) unfolding lf_inv_def by (intro sum_list_nonneg) force
  then have "accept_mutex s \<in> {0, 1}" using inv by (auto simp: lf_inv_def)
  moreover have "pc w \<noteq> Gone" if "w \<in> set (workers s)" "semadj w = 1" for w
    using inv that by (auto simp: lf_inv_def lf_worker_inv_def)
  ultimately show ?thesis
    using lf_inv_exclusive [OF inv assms(2-5)] lf_inv_held [OF inv] by blast
qed

theorem lf_mutual_exclusion_witness:
  "accept_mutex demo_lf_sys = 0 \<and> (\<exists>w \<in> set (workers demo_lf_sys). semadj w = 1 \<and> pc w \<noteq> Gone)"
  using lf_mutual_exclusion [OF demo_lf_reachable, of 1 1] by (simp add: demo_lf_sys_def in_critical_def)

text \<open>C25: Accounting in the leader-follower pool: in every such run, a worker at the top of its loop
  has handed every socket it accepted to the application once and closed it once, in order,
  its request count is the number of sockets it closed since it was forked, and it never
  exceeds \<open>max_requests_per_process\<close>; in the callback exactly one socket is open.\<close>

theorem lf_worker_accounts_for_sockets:
  assumes "lf_reachable cfg n s" "w \<in> set (workers s)" "pc w \<in> {Entering, Selecting, Accepting, Serving}"
  shows "requests_per_process w = int (length (closes_of w)) \<and> serves_of w = closes_of w
    \<and> accepts_of w = closes_of w @ (if pc w = Serving then [accepted_sock w] else [])
    \<and> (lf_max_requests_per_process cfg > 0 \<longrightarrow> requests_per_process w < lf_max_requests_per_process cfg)"
proof -
  have "lf_worker_inv cfg w" using lf_reachable_inv [OF assms(1)] assms(2) by (simp add: lf_inv_def)
  then show ?thesis using assms(3) by (auto simp: lf_worker_inv_def lf_balanced_def)
qed

theorem lf_worker_accounts_for_sockets_witness:
  "requests_per_process (workers demo_lf_sys ! 1) = int (length (closes_of (workers demo_lf_sys ! 1)))"
  using lf_worker_accounts_for_sockets [OF demo_lf_reachable, of "workers demo_lf_sys ! 1"]
  by (simp add: demo_lf_sys_def)

text \<open>What the code does when a callback answers anything else: the worker, which has already
  left the accept section, leaves its loop and releases the semaphore a second time. Until it
  ends, two other workers are in the accept section together; and when it ends while they are
  there, the kernel's undo stops at 0, so that the semaphore stays at 2 after they leave.\<close>

theorem lf_double_release:
  "\<exists>es s t.
     lf_run demo_lf es (lf_init 3) = Some s
     \<and> in_critical (workers s ! 1) \<and> in_critical (workers s ! 2)
     \<and> lf_run demo_lf [(0, ProcessEnds), (1, ListenReadable), (1, Accepted 8), (1, SemopOk),
          (2, ListenReadable), (2, Accepted 9), (2, SemopOk)] s = Some t
     \<and> accept_mutex t = 2 \<and> \<not> in_critical (workers t ! 1) \<and> \<not> in_critical (workers t ! 2)"
proof -
  let ?es = "[(0, Forked), (1, Forked), (2, Forked), (0, SemopOk), (0, ListenReadable), (0, Accepted 7), (0, SemopOk),
    (0, TcpmainReturned (-1)), (0, SemopOk), (1, SemopOk), (2, SemopOk)]"
  show ?thesis
    by (rule exI [of _ ?es]) (simp add: demo_lf_def lf_eval in_critical_def)
qed

end
