(* ===== verification/Daemon.thy ===== *)
theory Daemon
  imports Pool Consts "HOL-Library.Multiset"
begin

text \<open>
  The managing process: \<open>InitDaemonEnv\<close> and \<open>CleanDaemonEnv\<close> with their variants, and the parents
  \<open>tcpdaemon_LF\<close> and \<open>tcpdaemon_IOMP\<close> of \<open>tcpdaemon_lib.c\<close>. The system's answers are parameters,
  and every call that acquires, changes or releases something of the system is an entry of
  \<open>calls\<close>, from which the resources still held are read off.
\<close>

subsection \<open>The entry parameters and the environment\<close>

record entry_para =
  daemon_level :: int
  log_pathfilename :: string
  log_level :: int
  server_model :: string
  process_count :: int
  max_requests_per_process :: int
  ip :: string
  port :: int
  so_pathfilename :: string
  work_user :: string
  work_path :: string
  p_pfunc_tcpmain :: addr
  p_param_tcpmain :: addr
  tcp_nodelay :: int
  tcp_linger :: int
  timeout_seconds :: int
  cpu_affinity :: int

datatype heap_array = Pids | AlivePipes | EpollArray

datatype sys_call =
    CDlopen string addr | CDlclose addr
  | CSocket int | CReuseAddr int | CBind int "string \<times> int" int | CListen int int int
  | CSetuid int | CSetgid int | CChdir string
  | CClose int
  | CMalloc heap_array bool | CFree heap_array
  | CSemget int | CSemSetVal int int | CSemRemove int
  | CNonblock int | CTcpNodelay int
  | CEpollCreate int | CEpollAdd int int "32 word" int
  | CMallocBlock addr | CFreeBlock addr
  | CPipe int int | CFork nat int | CWrite int | CWaitpid

record env =
  so_handle :: addr
  pfunc_tcpmain :: addr
  param_tcpmain :: addr
  listen_sock :: int
  listen_addr :: "string \<times> int"
  pids :: "int list option"
  alive_pipes :: "(int \<times> int) list option"
  accept_mutex :: int
  index :: nat
  requests_per_process :: int
  epoll_array :: "int list option"
  env_mem :: tdmem
  calls :: "sys_call list"

text \<open>What the system answers while the daemon starts.\<close>

record start_os =
  d_dlopen :: addr
  d_dlsym :: addr
  d_socket :: int
  d_bind :: int
  d_listen :: int
  d_getpwnam :: "(int \<times> int) option"
  d_malloc :: "heap_array \<Rightarrow> bool"
  d_semget :: int
  d_semctl :: int
  d_epoll_create :: "nat \<Rightarrow> int"
  d_epoll_ctl :: "nat \<Rightarrow> int"
  d_block :: addr

definition call :: "sys_call \<Rightarrow> env \<Rightarrow> env" where
  "call c e = e\<lparr>calls := calls e @ [c]\<rparr>"

subsection \<open>The common part\<close>

definition load_tcpmain :: "entry_para \<Rightarrow> start_os \<Rightarrow> env \<Rightarrow> int \<times> env" where
  "load_tcpmain p os e =
     (if so_pathfilename p \<noteq> [] then
        (let e = e\<lparr>so_handle := d_dlopen os\<rparr>;
             e = call (CDlopen (so_pathfilename p) (so_handle e)) e
         in if so_handle e = NULL then (-1, e)
            else
              (let e = e\<lparr>pfunc_tcpmain := d_dlsym os\<rparr>
               in if pfunc_tcpmain e = NULL then (-1, e) else (0, e)))
      else (0, e\<lparr>pfunc_tcpmain := p_pfunc_tcpmain p\<rparr>))"

definition switch_user :: "entry_para \<Rightarrow> start_os \<Rightarrow> env \<Rightarrow> env" where
  "switch_user p os e =
     (if work_user p \<noteq> [] then
        (case d_getpwnam os of
           Some (pw_uid, pw_gid) \<Rightarrow> call (CSetgid pw_gid) (call (CSetuid pw_uid) e)
         | None \<Rightarrow> e)
      else e)"

definition switch_path :: "entry_para \<Rightarrow> env \<Rightarrow> env" where
  "switch_path p e = (if work_path p \<noteq> [] then call (CChdir (work_path p)) e else e)"

definition InitDaemonEnv :: "entry_para \<Rightarrow> start_os \<Rightarrow> env \<Rightarrow> int \<times> env" where
  "InitDaemonEnv p os e =
     (let e = e\<lparr>listen_sock := -1\<rparr>;
          (nret, e) = load_tcpmain p os e
      in if nret \<noteq> 0 then (nret, e)
      else
        (let e = e\<lparr>param_tcpmain := p_param_tcpmain p\<rparr>;
             e = e\<lparr>listen_sock := d_socket os\<rparr>;
             e = call (CSocket (listen_sock e)) e
         in if listen_sock e = -1 then (-1, e)
         else
           (let e = call (CReuseAddr (listen_sock e)) e;
                e = e\<lparr>listen_addr := (ip p, port p mod 65536)\<rparr>;
                e = call (CBind (listen_sock e) (listen_addr e) (d_bind os)) e
            in if d_bind os = -1 then (-1, e)
            else
              (let e = call (CListen (listen_sock e) (process_count p * 2) (d_listen os)) e
               in if d_listen os = -1 then (-1, e)
               else (0, switch_path p (switch_user p os e))))))"

definition CleanDaemonEnv :: "env \<Rightarrow> env" where
  "CleanDaemonEnv e =
     (let e = (if so_handle e \<noteq> NULL then call (CDlclose (so_handle e)) e else e)
      in if listen_sock e \<noteq> -1 then call (CClose (listen_sock e)) e else e)"

subsection \<open>Leader-follower\<close>

definition malloc_pids :: "entry_para \<Rightarrow> start_os \<Rightarrow> env \<Rightarrow> int \<times> env" where
  "malloc_pids p os e =
     (let e = call (CMalloc Pids (d_malloc os Pids)) e in
      if \<not> d_malloc os Pids then (-1, e)
      else (0, e\<lparr>pids := Some (replicate (nat (process_count p)) 0)\<rparr>))"

definition malloc_pipes :: "entry_para \<Rightarrow> start_os \<Rightarrow> env \<Rightarrow> int \<times> env" where
  "malloc_pipes p os e =
     (let e = call (CMalloc AlivePipes (d_malloc os AlivePipes)) e in
      if \<not> d_malloc os AlivePipes then (-1, e)
      else (0, e\<lparr>alive_pipes := Some (replicate (nat (process_count p)) (0, 0))\<rparr>))"

definition InitDaemonEnv_LF :: "entry_para \<Rightarrow> start_os \<Rightarrow> env \<Rightarrow> int \<times> env" where
  "InitDaemonEnv_LF p os e =
     (let (nret, e) = InitDaemonEnv p os e in
      if nret \<noteq> 0 then (nret, e)
      else let (nret, e) = malloc_pids p os e in
      if nret \<noteq> 0 then (nret, e)
      else let (nret, e) = malloc_pipes p os e in
      if nret \<noteq> 0 then (nret, e)
      else
        (let e = e\<lparr>accept_mutex := d_semget os\<rparr>;
             e = call (CSemget (accept_mutex e)) e
         in if accept_mutex e = -1 then (-1, e)
         else
           (let e = call (CSemSetVal (accept_mutex e) 1) e
            in if d_semctl os = -1 then (-1, e) else (0, e))))"

definition CleanDaemonEnv_LF :: "env \<Rightarrow> env" where
  "CleanDaemonEnv_LF e =
     (let e = (if accept_mutex e \<noteq> 0 then call (CSemRemove (accept_mutex e)) e else e);
          e = (if pids e \<noteq> None then call (CFree Pids) e else e);
          e = (if alive_pipes e \<noteq> None then call (CFree AlivePipes) e else e)
      in CleanDaemonEnv e)"

subsection \<open>IO multiplexing\<close>

fun create_epolls :: "start_os \<Rightarrow> nat \<Rightarrow> nat \<Rightarrow> env \<Rightarrow> int \<times> env" where
  "create_epolls os 0 i e = (0, e)"
| "create_epolls os (Suc k) i e =
     (let e = e\<lparr>epoll_array := map_option (\<lambda>a. a[i := d_epoll_create os i]) (epoll_array e)\<rparr>;
          e = call (CEpollCreate (d_epoll_create os i)) e
      in if d_epoll_create os i = -1 then (-1, e) else create_epolls os k (Suc i) e)"

definition epoll_fd :: "env \<Rightarrow> nat \<Rightarrow> int" where
  "epoll_fd e i = the (epoll_array e) ! i"

fun add_listen_all :: "start_os \<Rightarrow> nat \<Rightarrow> nat \<Rightarrow> env \<Rightarrow> int \<times> env" where
  "add_listen_all os 0 i e = (0, e)"
| "add_listen_all os (Suc k) i e =
     (let events = (if i = 0 then EPOLLIN OR EPOLLERR OR EPOLLONESHOT else EPOLLERR);
          e = call (CEpollAdd (epoll_fd e i) (listen_sock e) events (d_epoll_ctl os i)) e
      in if d_epoll_ctl os i = -1 then (-1, e) else add_listen_all os k (Suc i) e)"

definition add_listen :: "entry_para \<Rightarrow> start_os \<Rightarrow> env \<Rightarrow> int \<times> env" where
  "add_listen p os e =
     (if process_count p > 1 then add_listen_all os (nat (process_count p)) 0 e
      else
        (let e = call (CEpollAdd (epoll_fd e 0) (listen_sock e) (EPOLLIN OR EPOLLERR) (d_epoll_ctl os 0)) e
         in if d_epoll_ctl os 0 = -1 then (-1, e) else (0, e)))"

definition malloc_epolls :: "entry_para \<Rightarrow> start_os \<Rightarrow> env \<Rightarrow> int \<times> env" where
  "malloc_epolls p os e =
     (let e = call (CMalloc EpollArray (d_malloc os EpollArray)) e in
      if \<not> d_malloc os EpollArray then (-1, e)
      else (0, e\<lparr>epoll_array := Some (replicate (nat (process_count p)) 0)\<rparr>))"

definition prealloc_sessions :: "start_os \<Rightarrow> env \<Rightarrow> int \<times> env" where
  "prealloc_sessions os e =
     (let (nret, m) = IncreaseTcpdaemonAcceptedSessions (d_block os) (env_mem e);
          e = call (CMallocBlock (d_block os)) (e\<lparr>env_mem := m\<rparr>)
      in if nret \<noteq> 0 then (-1, e) else (0, e))"

text \<open>
  The two list heads are part of the environment; clearing them first has no effect that
  \<open>INIT_LIST_HEAD\<close> does not overwrite.
\<close>

definition InitDaemonEnv_IOMP :: "entry_para \<Rightarrow> start_os \<Rightarrow> env \<Rightarrow> int \<times> env" where
  "InitDaemonEnv_IOMP p os e =
     (let e = e\<lparr>env_mem := init_lists (env_mem e)\<rparr>;
          (nret, e) = InitDaemonEnv p os e
      in if nret \<noteq> 0 then (nret, e)
      else
        let e = call (CNonblock (listen_sock e)) e;
            e = (if tcp_nodelay p = 1 then call (CTcpNodelay (listen_sock e)) e else e);
            (nret, e) = malloc_pids p os e in
      if nret \<noteq> 0 then (nret, e)
      else let (nret, e) = malloc_pipes p os e in
      if nret \<noteq> 0 then (nret, e)
      else let (nret, e) = malloc_epolls p os e in
      if nret \<noteq> 0 then (nret, e)
      else let (nret, e) = create_epolls os (nat (process_count p)) 0 e in
      if nret \<noteq> 0 then (nret, e)
      else let (nret, e) = add_listen p os e in
      if nret \<noteq> 0 then (nret, e)
      else prealloc_sessions os e)"

definition free_epolls :: "env \<Rightarrow> env" where
  "free_epolls e =
     (case epoll_array e of
        None \<Rightarrow> e
      | Some fds \<Rightarrow> call (CFree EpollArray) (fold (\<lambda>fd. call (CClose fd)) fds e))"

definition CleanDaemonEnv_IOMP :: "env \<Rightarrow> env option" where
  "CleanDaemonEnv_IOMP e =
     (let e = (if pids e \<noteq> None then call (CFree Pids) e else e);
          e = (if alive_pipes e \<noteq> None then call (CFree AlivePipes) e else e);
          e = free_epolls e
      in case FreeAllTcpdaemonAcceptedSessionArray (env_mem e) of
           None \<Rightarrow> None
         | Some (bs, m) \<Rightarrow> Some (CleanDaemonEnv (fold (\<lambda>b. call (CFreeBlock b)) bs (e\<lparr>env_mem := m\<rparr>))))"

subsection \<open>The managing process of a pool\<close>

text \<open>
  \<open>tcpdaemon_LF\<close> and \<open>tcpdaemon_IOMP\<close> are the same text around their own start, worker and
  cleaning functions. An answer of \<open>pipe\<close> is \<open>None\<close> for -1, and of \<open>fork\<close> what the parent sees.
\<close>

record spawn_ans =
  a_pipe :: "(int \<times> int) option"
  a_fork :: int

datatype 'e flow = Cont 'e | Stop int 'e | Waiting 'e

definition spawn_worker :: "nat \<Rightarrow> spawn_ans \<Rightarrow> env \<Rightarrow> env flow" where
  "spawn_worker i a e =
     (case a_pipe a of
        None \<Rightarrow> Stop (-11) e
      | Some (r, w) \<Rightarrow>
          (let e = e\<lparr>alive_pipes := map_option (\<lambda>ps. ps[i := (r, w)]) (alive_pipes e)\<rparr>;
               e = call (CPipe r w) e;
               e = e\<lparr>pids := map_option (\<lambda>ps. ps[i := a_fork a]) (pids e)\<rparr>;
               e = call (CFork (index e) (a_fork a)) e
           in if a_fork a = -1 then Stop (-11) e
              else Cont (call (CClose (fst (the (alive_pipes e) ! i))) e)))"

fun spawn_pool :: "nat \<Rightarrow> nat \<Rightarrow> spawn_ans list \<Rightarrow> env \<Rightarrow> env flow" where
  "spawn_pool i n [] e = (let e = e\<lparr>index := i\<rparr> in if i < n then Waiting e else Cont e)"
| "spawn_pool i n (a # as) e =
     (let e = e\<lparr>index := i\<rparr> in
      if i < n then
        (case spawn_worker i a e of
           Cont e \<Rightarrow> spawn_pool (Suc i) n as e
         | other \<Rightarrow> other)
      else Cont e)"

text \<open>The search for the worker that has ended, by its pid.\<close>

fun find_pid :: "int list \<Rightarrow> int \<Rightarrow> nat option" where
  "find_pid [] pid = None"
| "find_pid (x # xs) pid = (if x = pid then Some 0 else map_option Suc (find_pid xs pid))"

datatype wait_ans = WaitFails | ChildEnds int spawn_ans

fun monitor_pool :: "wait_ans list \<Rightarrow> env \<Rightarrow> env flow" where
  "monitor_pool [] e = Waiting e"
| "monitor_pool (WaitFails # ws) e = Cont e"
| "monitor_pool (ChildEnds pid a # ws) e =
     (case find_pid (the (pids e)) pid of
        None \<Rightarrow> monitor_pool ws (e\<lparr>index := length (the (pids e))\<rparr>)
      | Some i \<Rightarrow>
          (let e = e\<lparr>index := i\<rparr>;
               e = call (CClose (snd (the (alive_pipes e) ! i))) e;
               e = e\<lparr>requests_per_process := 0\<rparr>
           in case spawn_worker i a e of
                Cont e \<Rightarrow> monitor_pool ws e
              | other \<Rightarrow> other))"

definition destroy_pool :: "env \<Rightarrow> env" where
  "destroy_pool e =
     (let e = fold (\<lambda>fds. call (CWrite (snd fds))) (the (alive_pipes e)) e;
          e = fold (\<lambda>fds e. call (CClose (snd fds)) (call CWaitpid e)) (the (alive_pipes e)) e
      in e\<lparr>index := length (the (alive_pipes e))\<rparr>)"

definition pool_parent ::
  "entry_para \<Rightarrow> spawn_ans list \<Rightarrow> wait_ans list \<Rightarrow> env \<Rightarrow> env flow" where
  "pool_parent p as ws e =
     (case spawn_pool 0 (nat (process_count p)) as e of
        Cont e \<Rightarrow>
          (case monitor_pool ws e of
             Cont e \<Rightarrow> Stop 0 (destroy_pool e)
           | other \<Rightarrow> other)
      | other \<Rightarrow> other)"

definition tcpdaemon_LF ::
  "entry_para \<Rightarrow> start_os \<Rightarrow> spawn_ans list \<Rightarrow> wait_ans list \<Rightarrow> env \<Rightarrow> env flow" where
  "tcpdaemon_LF p os as ws e =
     (let (nret, e) = InitDaemonEnv_LF p os e in
      if nret \<noteq> 0 then Stop nret (CleanDaemonEnv_LF e)
      else (case pool_parent p as ws e of
              Stop n e \<Rightarrow> Stop n (CleanDaemonEnv_LF e)
            | other \<Rightarrow> other))"

definition tcpdaemon_IOMP ::
  "entry_para \<Rightarrow> start_os \<Rightarrow> spawn_ans list \<Rightarrow> wait_ans list \<Rightarrow> env \<Rightarrow> env flow option" where
  "tcpdaemon_IOMP p os as ws e =
     (let (nret, e) = InitDaemonEnv_IOMP p os e in
      if nret \<noteq> 0 then map_option (Stop nret) (CleanDaemonEnv_IOMP e)
      else (case pool_parent p as ws e of
              Stop n e \<Rightarrow> map_option (Stop n) (CleanDaemonEnv_IOMP e)
            | other \<Rightarrow> Some other))"

subsection \<open>Resources\<close>

datatype resource = RLib addr | RFd int | RSem int | RArr heap_array | RBlock addr

fun acquires :: "sys_call \<Rightarrow> resource multiset" where
  "acquires (CDlopen f h) = (if h = NULL then {#} else {#RLib h#})"
| "acquires (CSocket s) = (if s = -1 then {#} else {#RFd s#})"
| "acquires (CEpollCreate s) = (if s = -1 then {#} else {#RFd s#})"
| "acquires (CPipe r w) = {#RFd r, RFd w#}"
| "acquires (CMalloc a ok) = (if ok then {#RArr a#} else {#})"
| "acquires (CSemget i) = (if i = -1 then {#} else {#RSem i#})"
| "acquires (CMallocBlock b) = (if b = NULL then {#} else {#RBlock b#})"
| "acquires _ = {#}"

fun releases :: "sys_call \<Rightarrow> resource multiset" where
  "releases (CDlclose h) = {#RLib h#}"
| "releases (CClose s) = (if s = -1 then {#} else {#RFd s#})"
| "releases (CFree a) = {#RArr a#}"
| "releases (CSemRemove i) = (if i = -1 then {#} else {#RSem i#})"
| "releases (CFreeBlock b) = {#RBlock b#}"
| "releases _ = {#}"

definition acquired :: "env \<Rightarrow> resource multiset" where
  "acquired e = sum_list (map acquires (calls e))"

definition released :: "env \<Rightarrow> resource multiset" where
  "released e = sum_list (map releases (calls e))"

end
