(* ===== verification/DaemonInv.thy ===== *)
theory DaemonInv
  imports Daemon
begin

text \<open>
  Accounting for the managing process: at every point, what it has acquired is what it has
  released and what its environment still refers to.
\<close>

definition fresh_env :: "env \<Rightarrow> bool" where
  "fresh_env e \<longleftrightarrow> calls e = [] \<and> so_handle e = NULL \<and> pids e = None \<and> alive_pipes e = None
     \<and> accept_mutex e = 0 \<and> epoll_array e = None"

text \<open>What each field of the environment refers to.\<close>

definition held_lib :: "addr \<Rightarrow> resource multiset" where
  "held_lib h = (if h = NULL then {#} else {#RLib h#})"

definition held_fd :: "int \<Rightarrow> resource multiset" where
  "held_fd s = (if s = -1 then {#} else {#RFd s#})"

definition held_arr :: "heap_array \<Rightarrow> 'a option \<Rightarrow> resource multiset" where
  "held_arr a x = (if x = None then {#} else {#RArr a#})"

definition held_sem :: "int \<Rightarrow> resource multiset" where
  "held_sem i = (if i = 0 \<or> i = -1 then {#} else {#RSem i#})"

definition held_epolls :: "int list option \<Rightarrow> resource multiset" where
  "held_epolls x = (case x of None \<Rightarrow> {#} | Some fds \<Rightarrow> {#RArr EpollArray#} + sum_list (map held_fd fds))"

definition held_blocks :: "addr list \<Rightarrow> resource multiset" where
  "held_blocks bs = mset (map RBlock bs)"

lemma held_empty [simp]:
  "held_lib NULL = {#}" "held_fd (-1) = {#}" "held_arr a None = {#}" "held_sem 0 = {#}" "held_sem (-1) = {#}"
  "held_epolls None = {#}" "held_blocks [] = {#}"
  by (simp_all add: held_lib_def held_fd_def held_arr_def held_sem_def held_epolls_def held_blocks_def)

lemma held_arr_Some [simp]: "held_arr a (Some x) = {#RArr a#}"
  by (simp add: held_arr_def)

text \<open>What the calls move, in these terms.\<close>

lemma acquires_held [simp]:
  "acquires (CDlopen f h) = held_lib h" "acquires (CSocket s) = held_fd s" "acquires (CEpollCreate s) = held_fd s"
  "releases (CClose s) = held_fd s"
  by (simp_all add: held_lib_def held_fd_def)

declare acquires.simps(1-3) [simp del] releases.simps(2) [simp del]

lemma releases_lib: "h \<noteq> NULL \<Longrightarrow> releases (CDlclose h) = held_lib h"
  by (simp add: held_lib_def)

lemma acquires_sem: "i \<noteq> 0 \<Longrightarrow> acquires (CSemget i) = held_sem i"
  by (simp add: held_sem_def)

lemma releases_sem: "i \<noteq> 0 \<Longrightarrow> releases (CSemRemove i) = held_sem i"
  by (simp add: held_sem_def)

text \<open>The accounting; \<open>X\<close> is what else is held: pipes and session arrays.\<close>

definition env_bal :: "env \<Rightarrow> resource multiset \<Rightarrow> bool" where
  "env_bal e X \<longleftrightarrow> acquired e = released e +
     (held_lib (so_handle e) + held_fd (listen_sock e) + held_arr Pids (pids e)
      + held_arr AlivePipes (alive_pipes e) + held_sem (accept_mutex e) + held_epolls (epoll_array e) + X)"

lemma acquired_call [simp]: "acquired (call c e) = acquired e + acquires c"
  by (simp add: acquired_def call_def)

lemma released_call [simp]: "released (call c e) = released e + releases c"
  by (simp add: released_def call_def)

lemma call_fields [simp]:
  "so_handle (call c e) = so_handle e" "pfunc_tcpmain (call c e) = pfunc_tcpmain e"
  "listen_sock (call c e) = listen_sock e" "listen_addr (call c e) = listen_addr e"
  "pids (call c e) = pids e" "alive_pipes (call c e) = alive_pipes e"
  "accept_mutex (call c e) = accept_mutex e" "epoll_array (call c e) = epoll_array e"
  "env_mem (call c e) = env_mem e" "calls (call c e) = calls e @ [c]"
  by (simp_all add: call_def)

text \<open>Updates of the environment that call nothing.\<close>

lemma accounts_update [simp]:
  "acquired (e\<lparr>so_handle := a\<rparr>) = acquired e" "released (e\<lparr>so_handle := a\<rparr>) = released e"
  "acquired (e\<lparr>pfunc_tcpmain := a\<rparr>) = acquired e" "released (e\<lparr>pfunc_tcpmain := a\<rparr>) = released e"
  "acquired (e\<lparr>param_tcpmain := a\<rparr>) = acquired e" "released (e\<lparr>param_tcpmain := a\<rparr>) = released e"
  "acquired (e\<lparr>listen_sock := i\<rparr>) = acquired e" "released (e\<lparr>listen_sock := i\<rparr>) = released e"
  "acquired (e\<lparr>listen_addr := l\<rparr>) = acquired e" "released (e\<lparr>listen_addr := l\<rparr>) = released e"
  "acquired (e\<lparr>pids := ps\<rparr>) = acquired e" "released (e\<lparr>pids := ps\<rparr>) = released e"
  "acquired (e\<lparr>alive_pipes := qs\<rparr>) = acquired e" "released (e\<lparr>alive_pipes := qs\<rparr>) = released e"
  "acquired (e\<lparr>accept_mutex := i\<rparr>) = acquired e" "released (e\<lparr>accept_mutex := i\<rparr>) = released e"
  "acquired (e\<lparr>epoll_array := ps\<rparr>) = acquired e" "released (e\<lparr>epoll_array := ps\<rparr>) = released e"
  "acquired (e\<lparr>index := k\<rparr>) = acquired e" "released (e\<lparr>index := k\<rparr>) = released e"
  "acquired (e\<lparr>requests_per_process := i\<rparr>) = acquired e" "released (e\<lparr>requests_per_process := i\<rparr>) = released e"
  "acquired (e\<lparr>env_mem := m\<rparr>) = acquired e" "released (e\<lparr>env_mem := m\<rparr>) = released e"
  by (simp_all add: acquired_def released_def)

text \<open>What a starting step leaves alone.\<close>

definition same_handles :: "env \<Rightarrow> env \<Rightarrow> bool" where
  "same_handles e e' \<longleftrightarrow> pids e' = pids e \<and> alive_pipes e' = alive_pipes e \<and> accept_mutex e' = accept_mutex e
     \<and> epoll_array e' = epoll_array e \<and> env_mem e' = env_mem e"

subsection \<open>Starting and cleaning\<close>

lemma load_tcpmain_bal:
  assumes "load_tcpmain p os e = (nret, e')" "env_bal e X" "so_handle e = NULL"
  shows "env_bal e' X \<and> same_handles e e' \<and> listen_sock e' = listen_sock e \<and> (nret = 0 \<or> nret = -1)"
  using assms by (auto simp: load_tcpmain_def Let_def env_bal_def same_handles_def ac_simps split: if_splits)

lemma switch_bal [simp]:
  "env_bal (switch_user p os e) X \<longleftrightarrow> env_bal e X" "env_bal (switch_path p e) X \<longleftrightarrow> env_bal e X"
  "same_handles e0 (switch_user p os e) \<longleftrightarrow> same_handles e0 e" "same_handles e0 (switch_path p e) \<longleftrightarrow> same_handles e0 e"
  by (auto simp: switch_user_def switch_path_def env_bal_def same_handles_def split: option.splits)

lemma InitDaemonEnv_bal:
  assumes "InitDaemonEnv p os e = (nret, e')" "env_bal (e\<lparr>listen_sock := -1\<rparr>) X" "so_handle e = NULL"
  shows "env_bal e' X \<and> same_handles e e' \<and> (nret = 0 \<or> nret = -1)"
proof -
  obtain n1 e1 where l: "load_tcpmain p os (e\<lparr>listen_sock := -1\<rparr>) = (n1, e1)" by fastforce
  have L: "env_bal e1 X" "same_handles e e1" "listen_sock e1 = -1" "n1 = 0 \<or> n1 = -1"
    using load_tcpmain_bal [OF l assms(2)] assms(3) by (auto simp: same_handles_def)
  show ?thesis
  proof (cases "n1 = 0")
    case False
    then show ?thesis using assms(1) l L by (simp add: InitDaemonEnv_def Let_def)
  next
    case True
    define e2 where "e2 = call (CSocket (d_socket os)) (e1\<lparr>param_tcpmain := p_param_tcpmain p, listen_sock := d_socket os\<rparr>)"
    have e2: "env_bal e2 X" "same_handles e e2"
      using L by (auto simp: e2_def env_bal_def same_handles_def ac_simps)
    define e3 where "e3 = call (CBind (d_socket os) (ip p, port p mod 65536) (d_bind os))
       ((call (CReuseAddr (d_socket os)) e2)\<lparr>listen_addr := (ip p, port p mod 65536)\<rparr>)"
    have e3: "env_bal e3 X" "same_handles e e3" using e2 by (auto simp: e3_def env_bal_def same_handles_def)
    define e4 where "e4 = call (CListen (d_socket os) (process_count p * 2) (d_listen os)) e3"
    have e4: "env_bal e4 X" "same_handles e e4" using e3 by (auto simp: e4_def env_bal_def same_handles_def)
    have "InitDaemonEnv p os e = (if d_socket os = -1 then (-1, e2) else if d_bind os = -1 then (-1, e3)
        else if d_listen os = -1 then (-1, e4) else (0, switch_path p (switch_user p os e4)))"
      using l True by (simp add: InitDaemonEnv_def Let_def e2_def e3_def e4_def)
    then show ?thesis using assms(1) e2 e3 e4 by (auto split: if_splits)
  qed
qed

lemma malloc_pids_bal:
  assumes "malloc_pids p os e = (nret, e')" "env_bal e X" "pids e = None"
  shows "env_bal e' X \<and> (nret = 0 \<or> nret = -1)
    \<and> (nret = 0 \<longrightarrow> pids e' = Some (replicate (nat (process_count p)) 0))
    \<and> alive_pipes e' = alive_pipes e \<and> accept_mutex e' = accept_mutex e \<and> epoll_array e' = epoll_array e
    \<and> env_mem e' = env_mem e"
  using assms by (auto simp: malloc_pids_def Let_def env_bal_def ac_simps split: if_splits)

lemma malloc_pipes_bal:
  assumes "malloc_pipes p os e = (nret, e')" "env_bal e X" "alive_pipes e = None"
  shows "env_bal e' X \<and> (nret = 0 \<or> nret = -1)
    \<and> (nret = 0 \<longrightarrow> alive_pipes e' = Some (replicate (nat (process_count p)) (0, 0)))
    \<and> pids e' = pids e \<and> accept_mutex e' = accept_mutex e \<and> epoll_array e' = epoll_array e
    \<and> env_mem e' = env_mem e"
  using assms by (auto simp: malloc_pipes_def Let_def env_bal_def ac_simps split: if_splits)

lemma fresh_bal: "fresh_env e \<Longrightarrow> env_bal (e\<lparr>listen_sock := -1\<rparr>) {#}"
  by (simp add: fresh_env_def env_bal_def acquired_def released_def)

text \<open>
  The semaphore with id 0, which \<open>semget\<close> may give and the cleaning function takes for none: what a
  start that returns \<open>nret\<close> leaves of it.
\<close>

definition lost_sem :: "start_os \<Rightarrow> resource multiset" where
  "lost_sem os = (if d_semget os = 0 then {#RSem 0#} else {#})"

definition lf_leaves :: "start_os \<Rightarrow> int \<Rightarrow> resource multiset \<Rightarrow> bool" where
  "lf_leaves os nret Z \<longleftrightarrow> Z = lost_sem os \<or> nret \<noteq> 0 \<and> Z = {#}"

lemma InitDaemonEnv_LF_bal:
  assumes "InitDaemonEnv_LF p os e = (nret, e')" "fresh_env e"
  shows "(\<exists>Z. env_bal e' Z \<and> lf_leaves os nret Z) \<and> epoll_array e' = None \<and> (nret = 0 \<or> nret = -1)
    \<and> (nret = 0 \<longrightarrow> pids e' = Some (replicate (nat (process_count p)) 0)
         \<and> alive_pipes e' = Some (replicate (nat (process_count p)) (0, 0)))"
proof -
  have f: "so_handle e = NULL" "pids e = None" "alive_pipes e = None" "accept_mutex e = 0" "epoll_array e = None"
    using assms(2) by (auto simp: fresh_env_def)
  obtain n1 e1 where i: "InitDaemonEnv p os e = (n1, e1)" by fastforce
  note I = InitDaemonEnv_bal [OF i fresh_bal [OF assms(2)] f(1)]
  have h1: "pids e1 = None" "alive_pipes e1 = None" "accept_mutex e1 = 0" "epoll_array e1 = None"
    using I f by (auto simp: same_handles_def)
  obtain n2 e2 where q: "malloc_pids p os e1 = (n2, e2)" by fastforce
  note P = malloc_pids_bal [OF q conjunct1 [OF I] h1(1)]
  obtain n3 e3 where r: "malloc_pipes p os e2 = (n3, e3)" by fastforce
  have "alive_pipes e2 = None" using P h1 by simp
  note R = malloc_pipes_bal [OF r conjunct1 [OF P] this]
  have mutex: "accept_mutex e3 = 0" "epoll_array e3 = None" using P R h1 by auto
  show ?thesis
  proof (cases "n1 = 0 \<and> n2 = 0 \<and> n3 = 0")
    case True
    define e4 where "e4 = call (CSemget (d_semget os)) (e3\<lparr>accept_mutex := d_semget os\<rparr>)"
    have e4: "env_bal e4 (lost_sem os)" "pids e4 = pids e3" "alive_pipes e4 = alive_pipes e3" "epoll_array e4 = None"
      using R mutex acquires_sem [of "d_semget os"] by (auto simp: e4_def env_bal_def lost_sem_def ac_simps)
    define e5 where "e5 = call (CSemSetVal (d_semget os) 1) e4"
    have e5: "env_bal e5 (lost_sem os)" "pids e5 = pids e3" "alive_pipes e5 = alive_pipes e3" "epoll_array e5 = None"
      using e4 by (auto simp: e5_def env_bal_def)
    have "InitDaemonEnv_LF p os e = (if d_semget os = -1 then (-1, e4) else (if d_semctl os = -1 then -1 else 0, e5))"
      using True i q r by (simp add: InitDaemonEnv_LF_def Let_def e4_def e5_def)
    then show ?thesis using P R True e4 e5 assms(1) by (auto simp: lf_leaves_def split: if_splits)
  next
    case False
    then show ?thesis
      using assms(1) i q r I P R h1 by (auto simp: InitDaemonEnv_LF_def Let_def lf_leaves_def split: if_splits)
  qed
qed

text \<open>The steps of the cleaning functions.\<close>

lemma CleanDaemonEnv_bal:
  "acquired e = released e + (held_lib (so_handle e) + held_fd (listen_sock e) + X) \<Longrightarrow>
   acquired (CleanDaemonEnv e) = released (CleanDaemonEnv e) + X"
  by (cases "so_handle e = NULL"; cases "listen_sock e = -1")
     (simp_all add: CleanDaemonEnv_def Let_def releases_lib ac_simps del: releases.simps(1))

definition free_arrays_calls :: "env \<Rightarrow> env" where
  "free_arrays_calls e =
     (let e = (if pids e \<noteq> None then call (CFree Pids) e else e)
      in if alive_pipes e \<noteq> None then call (CFree AlivePipes) e else e)"

lemma free_arrays_calls_bal:
  "acquired e = released e + (held_arr Pids (pids e) + held_arr AlivePipes (alive_pipes e) + X) \<Longrightarrow>
   acquired (free_arrays_calls e) = released (free_arrays_calls e) + X"
  by (cases "pids e"; cases "alive_pipes e") (simp_all add: free_arrays_calls_def)

lemma free_arrays_calls_fields [simp]:
  "so_handle (free_arrays_calls e) = so_handle e" "listen_sock (free_arrays_calls e) = listen_sock e"
  "epoll_array (free_arrays_calls e) = epoll_array e" "env_mem (free_arrays_calls e) = env_mem e"
  by (simp_all add: free_arrays_calls_def Let_def)

lemma CleanDaemonEnv_LF_eq:
  "CleanDaemonEnv_LF e = CleanDaemonEnv (free_arrays_calls
     (if accept_mutex e \<noteq> 0 then call (CSemRemove (accept_mutex e)) e else e))"
  by (simp only: CleanDaemonEnv_LF_def free_arrays_calls_def Let_def)

lemma CleanDaemonEnv_LF_bal:
  assumes "env_bal e X" "epoll_array e = None"
  shows "acquired (CleanDaemonEnv_LF e) = released (CleanDaemonEnv_LF e) + X"
proof -
  define e1 where "e1 = (if accept_mutex e \<noteq> 0 then call (CSemRemove (accept_mutex e)) e else e)"
  have f: "so_handle e1 = so_handle e" "listen_sock e1 = listen_sock e" "pids e1 = pids e" "alive_pipes e1 = alive_pipes e"
    by (auto simp: e1_def)
  have "acquired e1 = released e1 + (held_arr Pids (pids e1) + held_arr AlivePipes (alive_pipes e1)
      + (held_lib (so_handle e1) + held_fd (listen_sock e1) + X))"
  proof (cases "accept_mutex e = 0")
    case True
    then show ?thesis using assms by (simp add: e1_def env_bal_def ac_simps)
  next
    case False
    then show ?thesis
      using assms releases_sem [OF False] by (simp add: e1_def env_bal_def ac_simps del: releases.simps)
  qed
  from free_arrays_calls_bal [OF this] show ?thesis
    unfolding CleanDaemonEnv_LF_eq e1_def [symmetric] by (intro CleanDaemonEnv_bal) simp
qed

subsection \<open>The managing process\<close>

text \<open>The write ends of the alive pipes.\<close>

definition write_ends :: "(int \<times> int) list \<Rightarrow> resource multiset" where
  "write_ends fs = sum_list (map (\<lambda>f. held_fd (snd f)) fs)"

lemma write_ends_simps [simp]: "write_ends [] = {#}" "write_ends (f # fs) = held_fd (snd f) + write_ends fs"
  "write_ends (fs @ gs) = write_ends fs + write_ends gs"
  by (simp_all add: write_ends_def)

lemma write_ends_update:
  "i < length fs \<Longrightarrow> write_ends (fs[i := f]) + held_fd (snd (fs ! i)) = write_ends fs + held_fd (snd f)"
proof (induction fs arbitrary: i)
  case (Cons g gs)
  then show ?case by (cases i) (auto simp: ac_simps)
qed simp

lemma write_ends_take_update:
  "i < length fs \<Longrightarrow> write_ends (take (Suc i) (fs[i := f])) = write_ends (take i fs) + held_fd (snd f)"
  by (simp add: take_Suc_conv_app_nth)

text \<open>\<open>pipe\<close> gives descriptors.\<close>

definition pipe_ok :: "spawn_ans \<Rightarrow> bool" where
  "pipe_ok a \<longleftrightarrow> (\<forall>r w. a_pipe a = Some (r, w) \<longrightarrow> r \<noteq> -1 \<and> w \<noteq> -1)"

definition pool_state :: "env \<Rightarrow> nat \<Rightarrow> (int \<times> int) list \<Rightarrow> bool" where
  "pool_state e n fs \<longleftrightarrow> (\<exists>ps. pids e = Some ps \<and> length ps = n) \<and> alive_pipes e = Some fs \<and> length fs = n"

definition same_rest :: "env \<Rightarrow> env \<Rightarrow> bool" where
  "same_rest e e' \<longleftrightarrow> epoll_array e' = epoll_array e \<and> env_mem e' = env_mem e \<and> accept_mutex e' = accept_mutex e"

text \<open>The pipe ends that have been opened, closed since or not.\<close>

definition pipe_ends :: "env \<Rightarrow> resource multiset" where
  "pipe_ends e = sum_list (map (\<lambda>c. case c of CPipe r w \<Rightarrow> held_fd r + held_fd w | _ \<Rightarrow> {#}) (calls e))"

lemma pipe_ends_call [simp]:
  "pipe_ends (call c e) = pipe_ends e + (case c of CPipe r w \<Rightarrow> held_fd r + held_fd w | _ \<Rightarrow> {#})"
  by (simp add: pipe_ends_def call_def)

lemma pipe_ends_update [simp]:
  "pipe_ends (e\<lparr>pids := ps\<rparr>) = pipe_ends e" "pipe_ends (e\<lparr>alive_pipes := qs\<rparr>) = pipe_ends e"
  "pipe_ends (e\<lparr>index := k\<rparr>) = pipe_ends e" "pipe_ends (e\<lparr>requests_per_process := i\<rparr>) = pipe_ends e"
  "pipe_ends (e\<lparr>env_mem := m\<rparr>) = pipe_ends e"
  by (simp_all add: pipe_ends_def)

text \<open>What is left when a worker cannot be created: some pipe ends, and nothing else.\<close>

definition leaves_pipes :: "env \<Rightarrow> resource multiset \<Rightarrow> bool" where
  "leaves_pipes e X \<longleftrightarrow> (\<exists>Y. env_bal e (X + Y) \<and> Y \<subseteq># pipe_ends e)"

lemma pipe_ends_grow:
  fixes A B R W :: "resource multiset"
  assumes "A \<subseteq># B" shows "A + W \<subseteq># B + R + W"
  using assms by (simp add: subset_mset.add_increasing2)

lemma same_rest_refl [simp]: "same_rest e e"
  by (simp add: same_rest_def)

lemma spawn_worker_bal:
  assumes "env_bal e X" "pool_state e n fs" "i < n" "pipe_ok a"
  shows "case spawn_worker i a e of
       Cont e' \<Rightarrow> (\<exists>r w. a_pipe a = Some (r, w) \<and> env_bal e' (X + held_fd w) \<and> pool_state e' n (fs[i := (r, w)])
         \<and> same_rest e e' \<and> pipe_ends e' = pipe_ends e + held_fd r + held_fd w)
     | Stop k e' \<Rightarrow> k = -11 \<and> same_rest e e' \<and> (\<exists>Y. env_bal e' (X + Y) \<and> pipe_ends e' = pipe_ends e + Y)
     | Waiting e' \<Rightarrow> False"
proof (cases "a_pipe a")
  case None
  then show ?thesis using assms(1) by (auto simp: spawn_worker_def intro: exI [of _ "{#}"])
next
  case (Some rw)
  obtain r w where rw: "rw = (r, w)" by (cases rw)
  then have ne: "r \<noteq> -1" "w \<noteq> -1" using assms(4) Some by (auto simp: pipe_ok_def)
  obtain ps where ps: "pids e = Some ps" "length ps = n" "alive_pipes e = Some fs" "length fs = n"
    using assms(2) by (auto simp: pool_state_def)
  define e1 where "e1 = call (CPipe r w) (e\<lparr>alive_pipes := Some (fs[i := (r, w)])\<rparr>)"
  define e2 where "e2 = call (CFork (index e1) (a_fork a)) (e1\<lparr>pids := Some (ps[i := a_fork a])\<rparr>)"
  have "env_bal e1 (X + held_fd w + held_fd r)"
    using assms(1) ps(3) ne by (simp add: e1_def env_bal_def held_fd_def ac_simps)
  moreover have "pids e1 = Some ps" using ps(1) by (simp add: e1_def)
  ultimately have e2: "env_bal e2 (X + held_fd w + held_fd r)"
    by (simp add: e2_def env_bal_def)
  have e3: "env_bal (call (CClose r) e2) (X + held_fd w)"
    using e2 by (simp add: env_bal_def ac_simps)
  have e2': "\<exists>Y. env_bal e2 (X + Y) \<and> pipe_ends e2 = pipe_ends e + Y"
    using e2 by (intro exI [of _ "held_fd w + held_fd r"]) (simp add: e2_def e1_def ac_simps)
  have g: "pipe_ends (call (CClose r) e2) = pipe_ends e + held_fd r + held_fd w"
    by (simp add: e2_def e1_def ac_simps)
  have f: "pids e2 = Some (ps[i := a_fork a])" "alive_pipes e2 = Some (fs[i := (r, w)])" "same_rest e e2"
    by (simp_all add: e2_def e1_def same_rest_def)
  have "spawn_worker i a e = (if a_fork a = -1 then Stop (-11) e2 else Cont (call (CClose r) e2))"
    using Some rw ps assms(3) f(2) by (simp add: spawn_worker_def Let_def e1_def e2_def)
  then show ?thesis
    using e2' e3 f g ps Some rw by (simp add: pool_state_def same_rest_def)
qed

lemma index_bal [simp]:
  "env_bal (e\<lparr>index := i\<rparr>) X \<longleftrightarrow> env_bal e X" "pool_state (e\<lparr>index := i\<rparr>) n fs \<longleftrightarrow> pool_state e n fs"
  "same_rest (e\<lparr>index := i\<rparr>) e' \<longleftrightarrow> same_rest e e'" "same_rest e (e'\<lparr>index := i\<rparr>) \<longleftrightarrow> same_rest e e'"
  by (simp_all add: env_bal_def pool_state_def same_rest_def)

lemma spawn_pool_bal:
  assumes "env_bal e (X + write_ends (take i fs))" "pool_state e n fs" "i \<le> n" "\<forall>a \<in> set as. pipe_ok a"
    "write_ends (take i fs) \<subseteq># pipe_ends e"
  shows "case spawn_pool i n as e of
       Cont e' \<Rightarrow> (\<exists>fs'. env_bal e' (X + write_ends fs') \<and> pool_state e' n fs' \<and> same_rest e e'
         \<and> write_ends fs' \<subseteq># pipe_ends e')
     | Stop k e' \<Rightarrow> k = -11 \<and> same_rest e e' \<and> leaves_pipes e' X | Waiting e' \<Rightarrow> True"
  using assms
proof (induction as arbitrary: i e fs)
  case Nil
  then show ?case by (cases "i < n") (auto simp: Let_def pool_state_def same_rest_def)
next
  case (Cons a as)
  let ?e = "e\<lparr>index := i\<rparr>"
  show ?case
  proof (cases "i < n")
    case False
    then show ?thesis using Cons.prems by (auto simp: Let_def pool_state_def same_rest_def)
  next
    case True
    have sw: "case spawn_worker i a ?e of
         Cont e' \<Rightarrow> (\<exists>r w. a_pipe a = Some (r, w) \<and> env_bal e' (X + write_ends (take i fs) + held_fd w)
           \<and> pool_state e' n (fs[i := (r, w)]) \<and> same_rest ?e e'
           \<and> pipe_ends e' = pipe_ends ?e + held_fd r + held_fd w)
       | Stop k e' \<Rightarrow> k = -11 \<and> same_rest ?e e'
           \<and> (\<exists>Y. env_bal e' (X + write_ends (take i fs) + Y) \<and> pipe_ends e' = pipe_ends ?e + Y)
       | Waiting e' \<Rightarrow> False"
      using Cons.prems True by (intro spawn_worker_bal) auto
    show ?thesis
    proof (cases "spawn_worker i a ?e")
      case (Cont e1)
      then obtain r w where e1: "env_bal e1 (X + write_ends (take i fs) + held_fd w)"
          "pool_state e1 n (fs[i := (r, w)])" "same_rest e e1" "pipe_ends e1 = pipe_ends e + held_fd r + held_fd w"
        using sw by auto
      have "length fs = n" using Cons.prems(2) by (simp add: pool_state_def)
      then have we: "write_ends (take (Suc i) (fs[i := (r, w)])) = write_ends (take i fs) + held_fd w"
        using True write_ends_take_update [of i fs "(r, w)"] by simp
      then have bal: "env_bal e1 (X + write_ends (take (Suc i) (fs[i := (r, w)])))"
        using e1(1) by (simp add: add.assoc)
      have sub: "write_ends (take (Suc i) (fs[i := (r, w)])) \<subseteq># pipe_ends e1"
        unfolding we e1(4) using Cons.prems(5) by (rule pipe_ends_grow)
      from Cons.IH [OF bal e1(2) _ _ sub] have "case spawn_pool (Suc i) n as e1 of
         Cont e' \<Rightarrow> (\<exists>fs'. env_bal e' (X + write_ends fs') \<and> pool_state e' n fs' \<and> same_rest e1 e'
           \<and> write_ends fs' \<subseteq># pipe_ends e')
       | Stop k e' \<Rightarrow> k = -11 \<and> same_rest e1 e' \<and> leaves_pipes e' X | Waiting e' \<Rightarrow> True"
        using True Cons.prems(4) by simp
      then show ?thesis
        using True Cont e1(3) by (auto simp: Let_def same_rest_def split: flow.splits)
    next
      case (Stop k e1)
      then obtain Y where Y: "k = -11" "same_rest e e1" "env_bal e1 (X + write_ends (take i fs) + Y)"
          "pipe_ends e1 = pipe_ends e + Y"
        using sw by auto
      have "write_ends (take i fs) + Y \<subseteq># pipe_ends e1" using Cons.prems(5) Y(4) by simp
      then have "leaves_pipes e1 X" using Y(3) by (auto simp: leaves_pipes_def add.assoc)
      then show ?thesis using True Stop Y by (simp add: Let_def)
    qed (use sw in auto)
  qed
qed

lemma find_pid_Some: "find_pid xs pid = Some i \<Longrightarrow> i < length xs \<and> xs ! i = pid \<and> pid \<notin> set (take i xs)"
  by (induction xs arbitrary: i) (auto split: if_splits)

lemma find_pid_None: "find_pid xs pid = None \<longleftrightarrow> pid \<notin> set xs"
  by (induction xs) auto

text \<open>One worker has ended and is replaced: its write end is closed, a new one may be opened.\<close>

lemma replace_worker_bal:
  assumes "env_bal e (X + write_ends fs)" "pool_state e n fs" "pipe_ok a" "write_ends fs \<subseteq># pipe_ends e" "i < n"
  defines "e0 \<equiv> (call (CClose (snd (fs ! i))) (e\<lparr>index := i\<rparr>))\<lparr>requests_per_process := 0\<rparr>"
  shows "case spawn_worker i a e0 of
       Cont e1 \<Rightarrow> (\<exists>fs'. env_bal e1 (X + write_ends fs') \<and> pool_state e1 n fs' \<and> same_rest e e1
         \<and> write_ends fs' \<subseteq># pipe_ends e1)
     | Stop k e1 \<Rightarrow> k = -11 \<and> same_rest e e1 \<and> leaves_pipes e1 X | Waiting e1 \<Rightarrow> False"
proof -
  have len: "length fs = n" using assms(2) by (auto simp: pool_state_def)
  obtain Y where Y: "write_ends fs = held_fd (snd (fs ! i)) + Y"
    using assms(5) len by (metis id_take_nth_drop write_ends_simps(2,3) union_lcomm add.assoc)
  have e0: "env_bal e0 (X + Y)" "pool_state e0 n fs"
    using assms(1,2) Y by (auto simp: e0_def env_bal_def pool_state_def ac_simps)
  have upd: "write_ends (fs[i := f]) = Y + held_fd (snd f)" for f
    using write_ends_update [of i fs f] assms(5) len Y by (simp add: ac_simps)
  have rest: "same_rest e e0" "pipe_ends e0 = pipe_ends e" by (simp_all add: e0_def same_rest_def)
  have Ysub: "Y \<subseteq># pipe_ends e"
    using assms(4) unfolding Y by (metis mset_subset_eq_add_right subset_mset.order_trans)
  note sw = spawn_worker_bal [OF e0 assms(5,3)]
  show ?thesis
  proof (cases "spawn_worker i a e0")
    case (Cont e1)
    then obtain r w where e1: "env_bal e1 (X + write_ends (fs[i := (r, w)]))"
        "pool_state e1 n (fs[i := (r, w)])" "same_rest e e1"
        "pipe_ends e1 = pipe_ends e + held_fd r + held_fd w"
      using sw rest upd by (auto simp: same_rest_def add.assoc)
    have "write_ends (fs[i := (r, w)]) \<subseteq># pipe_ends e1"
      unfolding upd snd_conv e1(4) using Ysub by (rule pipe_ends_grow)
    then show ?thesis using e1(1-3) Cont by auto
  next
    case (Stop k e1)
    then obtain Z where Z: "k = -11" "same_rest e0 e1" "env_bal e1 (X + Y + Z)" "pipe_ends e1 = pipe_ends e + Z"
      using sw rest(2) by auto
    have "Y + Z \<subseteq># pipe_ends e1" using Ysub Z(4) by simp
    then have "leaves_pipes e1 X" using Z(3) by (auto simp: leaves_pipes_def add.assoc)
    then show ?thesis using Stop Z(1,2) rest by (auto simp: same_rest_def)
  qed (use sw in auto)
qed

lemma monitor_pool_bal:
  assumes "env_bal e (X + write_ends fs)" "pool_state e n fs" "\<forall>pid a. ChildEnds pid a \<in> set ws \<longrightarrow> pipe_ok a"
    "write_ends fs \<subseteq># pipe_ends e"
  shows "case monitor_pool ws e of
       Cont e' \<Rightarrow> (\<exists>fs'. env_bal e' (X + write_ends fs') \<and> pool_state e' n fs' \<and> same_rest e e'
         \<and> write_ends fs' \<subseteq># pipe_ends e')
     | Stop k e' \<Rightarrow> k = -11 \<and> same_rest e e' \<and> leaves_pipes e' X | Waiting e' \<Rightarrow> True"
  using assms
proof (induction ws arbitrary: e fs)
  case (Cons x ws)
  show ?case
  proof (cases x)
    case WaitFails
    then show ?thesis using Cons.prems by (auto simp: same_rest_def)
  next
    case (ChildEnds pid a)
    obtain ps where ps: "pids e = Some ps" "length ps = n" "alive_pipes e = Some fs" "length fs = n"
      using Cons.prems(2) by (auto simp: pool_state_def)
    show ?thesis
    proof (cases "find_pid ps pid")
      case None
      then show ?thesis
        using Cons.IH [of "e\<lparr>index := length ps\<rparr>" fs] Cons.prems ChildEnds ps by (auto split: flow.splits)
    next
      case (Some i)
      then have i: "i < n" using find_pid_Some ps(2) by blast
      define e0 where "e0 = (call (CClose (snd (fs ! i))) (e\<lparr>index := i\<rparr>))\<lparr>requests_per_process := 0\<rparr>"
      have a: "pipe_ok a" using Cons.prems(3) ChildEnds by auto
      note sw = replace_worker_bal [OF Cons.prems(1,2) a Cons.prems(4) i, folded e0_def]
      have step: "monitor_pool (x # ws) e = (case spawn_worker i a e0 of Cont e \<Rightarrow> monitor_pool ws e | other \<Rightarrow> other)"
        using ChildEnds Some ps by (simp add: e0_def Let_def)
      show ?thesis
      proof (cases "spawn_worker i a e0")
        case (Cont e1)
        then obtain fs1 where e1: "env_bal e1 (X + write_ends fs1)" "pool_state e1 n fs1" "same_rest e e1"
            "write_ends fs1 \<subseteq># pipe_ends e1"
          using sw by auto
        note IH = Cons.IH [OF e1(1,2) _ e1(4)]
        have "\<forall>pid a. ChildEnds pid a \<in> set ws \<longrightarrow> pipe_ok a" using Cons.prems(3) by simp
        from IH [OF this] show ?thesis using step Cont e1(3) by (auto simp: same_rest_def split: flow.splits)
      qed (use sw step in auto)
    qed
  qed
qed simp

lemma fold_close_bal:
  "env_bal e (X + write_ends fs) \<Longrightarrow>
   env_bal (fold (\<lambda>f e. call (CClose (snd f)) (call CWaitpid e)) fs e) X"
proof (induction fs arbitrary: e)
  case (Cons f fs)
  then have "env_bal (call (CClose (snd f)) (call CWaitpid e)) (X + write_ends fs)"
    by (simp add: env_bal_def ac_simps)
  then show ?case using Cons.IH by simp
qed simp

lemma fold_same_rest:
  "(\<And>f e. same_rest e (g f e)) \<Longrightarrow> same_rest e (fold g fs e)"
  by (induction fs arbitrary: e) (auto simp: same_rest_def)

lemma env_bal_write [simp]: "env_bal (call (CWrite i) e) X \<longleftrightarrow> env_bal e X"
  by (simp add: env_bal_def)

lemma fold_write_bal:
  "env_bal (fold (\<lambda>f. call (CWrite (snd f))) fs e) X \<longleftrightarrow> env_bal e X"
  "alive_pipes (fold (\<lambda>f. call (CWrite (snd f))) fs e) = alive_pipes e"
  by (induction fs arbitrary: e) simp_all

lemma destroy_pool_bal:
  assumes "env_bal e (X + write_ends fs)" "alive_pipes e = Some fs"
  shows "env_bal (destroy_pool e) X \<and> same_rest e (destroy_pool e)"
proof -
  let ?e = "fold (\<lambda>f. call (CWrite (snd f))) fs e"
  have "env_bal ?e (X + write_ends fs)" using assms(1) by (simp add: fold_write_bal)
  from fold_close_bal [OF this] have "env_bal (destroy_pool e) X"
    using assms(2) by (simp add: destroy_pool_def fold_write_bal Let_def)
  moreover have "same_rest e ?e" by (rule fold_same_rest) (simp add: same_rest_def)
  moreover have "same_rest ?e (fold (\<lambda>f e. call (CClose (snd f)) (call CWaitpid e)) fs ?e)"
    by (rule fold_same_rest) (simp add: same_rest_def)
  ultimately show ?thesis using assms(2) by (simp add: destroy_pool_def same_rest_def fold_write_bal Let_def)
qed

text \<open>A managing process that ends normally has closed all its pipes.\<close>

lemma pool_parent_bal:
  assumes "env_bal e X" "pool_state e (nat (process_count p)) fs"
    "\<forall>a \<in> set as. pipe_ok a" "\<forall>pid a. ChildEnds pid a \<in> set ws \<longrightarrow> pipe_ok a"
  shows "case pool_parent p as ws e of
       Stop k e' \<Rightarrow> same_rest e e' \<and> (k = -11 \<and> leaves_pipes e' X \<or> k = 0 \<and> env_bal e' X)
     | Cont e' \<Rightarrow> False | Waiting e' \<Rightarrow> True"
proof -
  have s: "case spawn_pool 0 (nat (process_count p)) as e of
       Cont e' \<Rightarrow> (\<exists>fs'. env_bal e' (X + write_ends fs') \<and> pool_state e' (nat (process_count p)) fs' \<and> same_rest e e'
         \<and> write_ends fs' \<subseteq># pipe_ends e')
     | Stop k e' \<Rightarrow> k = -11 \<and> same_rest e e' \<and> leaves_pipes e' X | Waiting e' \<Rightarrow> True"
    using assms by (intro spawn_pool_bal) auto
  show ?thesis
  proof (cases "spawn_pool 0 (nat (process_count p)) as e")
    case (Cont e1)
    then obtain fs1 where e1: "env_bal e1 (X + write_ends fs1)" "pool_state e1 (nat (process_count p)) fs1" "same_rest e e1"
        "write_ends fs1 \<subseteq># pipe_ends e1"
      using s by auto
    note m = monitor_pool_bal [OF e1(1,2) assms(4) e1(4)]
    show ?thesis
    proof (cases "monitor_pool ws e1")
      case c: (Cont e2)
      then obtain fs2 where "env_bal e2 (X + write_ends fs2)" "pool_state e2 (nat (process_count p)) fs2" "same_rest e1 e2"
        using m by auto
      then show ?thesis
        using destroy_pool_bal [of e2 X fs2] Cont c e1(3)
        by (auto simp: pool_parent_def pool_state_def same_rest_def)
    qed (use m Cont e1(3) in \<open>auto simp: pool_parent_def same_rest_def\<close>)
  qed (use s in \<open>auto simp: pool_parent_def\<close>)
qed

lemma pipe_ends_clean [simp]:
  "pipe_ends (CleanDaemonEnv e) = pipe_ends e" "pipe_ends (free_arrays_calls e) = pipe_ends e"
  by (simp_all add: CleanDaemonEnv_def free_arrays_calls_def Let_def)

lemma pipe_ends_clean_LF: "pipe_ends (CleanDaemonEnv_LF e) = pipe_ends e"
  by (simp add: CleanDaemonEnv_LF_eq)

subsection \<open>The contract of a managing process\<close>

text \<open>
  \<open>tcpdaemon_LF\<close> and \<open>tcpdaemon_IOMP\<close> need of their own start and cleaning functions that the start
  leaves a balanced account even when it fails, and that cleaning gives back what the account
  says, also after the pool has run, except for what it cannot tell from nothing. \<open>kept\<close> is what
  cleaning relies on besides the account \<open>X\<close>, with the exception \<open>Z\<close>; \<open>leaves\<close> says which exceptions a
  start with a given result can make.
\<close>

definition run_pool ::
  "(env \<Rightarrow> int \<times> env) \<Rightarrow> (env \<Rightarrow> env option) \<Rightarrow> entry_para \<Rightarrow> spawn_ans list \<Rightarrow> wait_ans list \<Rightarrow> env \<Rightarrow> env flow option" where
  "run_pool start clean p as ws e =
     (let (nret, e) = start e in
      if nret \<noteq> 0 then map_option (Stop nret) (clean e)
      else (case pool_parent p as ws e of
              Stop n e \<Rightarrow> map_option (Stop n) (clean e)
            | other \<Rightarrow> Some other))"

locale pool_daemon =
  fixes ok :: "env \<Rightarrow> bool"
    and start :: "env \<Rightarrow> int \<times> env"
    and clean :: "env \<Rightarrow> env option"
    and kept :: "env \<Rightarrow> resource multiset \<Rightarrow> resource multiset \<Rightarrow> bool"
    and leaves :: "int \<Rightarrow> resource multiset \<Rightarrow> bool"
    and n :: nat
  assumes start_result: "ok e \<Longrightarrow> start e = (nret, e') \<Longrightarrow> nret = 0 \<or> nret = -1"
    and start_kept: "ok e \<Longrightarrow> start e = (nret, e') \<Longrightarrow>
      \<exists>X Z. kept e' X Z \<and> env_bal e' X \<and> leaves nret Z"
    and start_pool: "ok e \<Longrightarrow> start e = (0, e') \<Longrightarrow> \<exists>fs. pool_state e' n fs"
    and kept_rest: "kept e X Z \<Longrightarrow> same_rest e e' \<Longrightarrow> kept e' X Z"
    and clean_ends: "kept e X Z \<Longrightarrow> clean e \<noteq> None"
    and clean_releases: "kept e X Z \<Longrightarrow> env_bal e (X + Y) \<Longrightarrow> clean e = Some e' \<Longrightarrow>
      acquired e' = released e' + (Z + Y) \<and> pipe_ends e' = pipe_ends e"
begin

lemma run_releases:
  assumes "ok e" "n = nat (process_count p)"
    "\<forall>a \<in> set as. pipe_ok a" "\<forall>pid a. ChildEnds pid a \<in> set ws \<longrightarrow> pipe_ok a"
  shows "case run_pool start clean p as ws e of
       Some (Stop k e') \<Rightarrow> k = -11 \<and> (\<exists>Y Z. acquired e' = released e' + (Z + Y) \<and> Y \<subseteq># pipe_ends e' \<and> leaves 0 Z)
         \<or> (k = 0 \<or> k = -1) \<and> (\<exists>Z. acquired e' = released e' + Z \<and> leaves k Z)
     | Some (Cont e') \<Rightarrow> False | Some (Waiting e') \<Rightarrow> True | None \<Rightarrow> False"
proof -
  obtain n1 e1 where i: "start e = (n1, e1)" by fastforce
  obtain X Z where X: "kept e1 X Z" "env_bal e1 X" "leaves n1 Z" using start_kept [OF assms(1) i] by blast
  show ?thesis
  proof (cases "n1 = 0")
    case False
    obtain e2 where e2: "clean e1 = Some e2" using clean_ends [OF X(1)] by blast
    have "acquired e2 = released e2 + Z" using clean_releases [OF X(1) _ e2, of "{#}"] X(2) by simp
    then show ?thesis
      using i start_result [OF assms(1) i] False e2 X(3) by (auto simp: run_pool_def)
  next
    case True
    obtain fs where "pool_state e1 n fs" using start_pool assms(1) i True by blast
    note P = pool_parent_bal [OF X(2) this [unfolded assms(2)] assms(3,4)]
    show ?thesis
    proof (cases "pool_parent p as ws e1")
      case (Stop k e2)
      have kept: "kept e2 X Z" using kept_rest [OF X(1)] P Stop by simp
      then obtain e3 where c: "clean e2 = Some e3" using clean_ends by blast
      have "k = -11 \<and> (\<exists>Y. acquired e3 = released e3 + (Z + Y) \<and> Y \<subseteq># pipe_ends e3)
          \<or> k = 0 \<and> acquired e3 = released e3 + Z"
        using P Stop clean_releases [OF kept _ c] clean_releases [OF kept _ c, of "{#}"]
        by (auto simp: leaves_pipes_def)
      then show ?thesis using i True Stop c X(3) by (auto simp: run_pool_def)
    qed (use P i True in \<open>auto simp: run_pool_def\<close>)
  qed
qed

end

text \<open>The leader-follower daemon keeps the contract.\<close>

interpretation lf_daemon: pool_daemon fresh_env "InitDaemonEnv_LF p os" "\<lambda>e. Some (CleanDaemonEnv_LF e)"
    "\<lambda>e X Z. X = Z \<and> epoll_array e = None" "lf_leaves os" "nat (process_count p)"
proof unfold_locales
  fix e nret e' assume "fresh_env e" and i: "InitDaemonEnv_LF p os e = (nret, e')"
  then have "(\<exists>Z. env_bal e' Z \<and> lf_leaves os nret Z) \<and> epoll_array e' = None \<and> (nret = 0 \<or> nret = -1)"
    using InitDaemonEnv_LF_bal [OF i] by blast
  then show "nret = 0 \<or> nret = -1" "\<exists>X Z. (X = Z \<and> epoll_array e' = None) \<and> env_bal e' X \<and> lf_leaves os nret Z" by auto
next
  fix e e' assume "fresh_env e" and i: "InitDaemonEnv_LF p os e = (0, e')"
  then show "\<exists>fs. pool_state e' (nat (process_count p)) fs"
    using InitDaemonEnv_LF_bal [OF i] by (auto simp: pool_state_def)
next
  fix e X Z Y e'
  assume "X = Z \<and> epoll_array e = None" "env_bal e (X + Y)" "Some (CleanDaemonEnv_LF e) = Some e'"
  then show "acquired e' = released e' + (Z + Y) \<and> pipe_ends e' = pipe_ends e"
    using CleanDaemonEnv_LF_bal [of e "X + Y"] pipe_ends_clean_LF [of e] by auto
qed (auto simp: same_rest_def)

lemma tcpdaemon_LF_eq:
  "Some (tcpdaemon_LF p os as ws e) = run_pool (InitDaemonEnv_LF p os) (\<lambda>e. Some (CleanDaemonEnv_LF e)) p as ws e"
  by (auto simp: tcpdaemon_LF_def run_pool_def split: prod.splits flow.splits)

lemma tcpdaemon_LF_bal:
  assumes "fresh_env e"
    "\<forall>a \<in> set as. pipe_ok a" "\<forall>pid a. ChildEnds pid a \<in> set ws \<longrightarrow> pipe_ok a"
  shows "case tcpdaemon_LF p os as ws e of
       Stop k e' \<Rightarrow> k = -11 \<and> (\<exists>Y. acquired e' = released e' + lost_sem os + Y \<and> Y \<subseteq># pipe_ends e')
         \<or> k = 0 \<and> acquired e' = released e' + lost_sem os
         \<or> k = -1 \<and> (acquired e' = released e' \<or> acquired e' = released e' + lost_sem os)
     | Cont e' \<Rightarrow> False | Waiting e' \<Rightarrow> True"
proof -
  have "case Some (tcpdaemon_LF p os as ws e) of
       Some (Stop k e') \<Rightarrow> k = -11 \<and> (\<exists>Y Z. acquired e' = released e' + (Z + Y) \<and> Y \<subseteq># pipe_ends e' \<and> lf_leaves os 0 Z)
         \<or> (k = 0 \<or> k = -1) \<and> (\<exists>Z. acquired e' = released e' + Z \<and> lf_leaves os k Z)
     | Some (Cont e') \<Rightarrow> False | Some (Waiting e') \<Rightarrow> True | None \<Rightarrow> False"
    unfolding tcpdaemon_LF_eq by (rule lf_daemon.run_releases [OF assms(1) refl assms(2,3)])
  then show ?thesis by (auto simp: lf_leaves_def ac_simps split: flow.splits)
qed

end
