(* ===== verification/DaemonIomp.thy ===== *)
theory DaemonIomp
  imports DaemonInv
begin

text \<open>
  The accounting for the IO-multiplexing daemon: its epoll instances, the arming of the listening
  socket in them, and the preallocated sessions.
\<close>

subsection \<open>The epoll instances\<close>

definition held_fds :: "int list \<Rightarrow> resource multiset" where
  "held_fds fds = sum_list (map held_fd fds)"

lemma held_fds_simps [simp]: "held_fds [] = {#}" "held_fds (x # xs) = held_fd x + held_fds xs"
  "held_fds (xs @ ys) = held_fds xs + held_fds ys"
  by (simp_all add: held_fds_def)

lemma held_epolls_Some: "held_epolls (Some fds) = {#RArr EpollArray#} + held_fds fds"
  by (simp add: held_epolls_def held_fds_def)

text \<open>
  An array that is still being filled: the first \<open>i\<close> entries are descriptors, the others 0.
  \<open>bal_upto\<close> counts the filled entries only.
\<close>

definition bal_upto :: "nat \<Rightarrow> env \<Rightarrow> resource multiset \<Rightarrow> bool" where
  "bal_upto i e X \<longleftrightarrow> (\<exists>fds. epoll_array e = Some fds \<and> env_bal (e\<lparr>epoll_array := Some (take i fds)\<rparr>) X)"

lemma bal_upto_call:
  assumes "bal_upto i e X" "i < length (the (epoll_array e))"
  shows "bal_upto (Suc i) (call (CEpollCreate s) (e\<lparr>epoll_array := map_option (\<lambda>a. a[i := s]) (epoll_array e)\<rparr>)) X"
proof -
  obtain fds where f: "epoll_array e = Some fds" "env_bal (e\<lparr>epoll_array := Some (take i fds)\<rparr>) X"
    using assms(1) by (auto simp: bal_upto_def)
  have "held_epolls (Some (take (Suc i) (fds[i := s]))) = held_epolls (Some (take i fds)) + held_fd s"
    using assms(2) f(1) by (simp add: held_epolls_Some take_Suc_conv_app_nth)
  then show ?thesis
    using f by (simp add: bal_upto_def env_bal_def ac_simps)
qed

lemma epoll_filled:
  assumes "bal_upto (length fds) e X" "epoll_array e = Some fds"
  shows "env_bal e X"
  using assms by (simp add: bal_upto_def env_bal_def)

definition same_but_epolls :: "env \<Rightarrow> env \<Rightarrow> bool" where
  "same_but_epolls e e' \<longleftrightarrow> listen_sock e' = listen_sock e \<and> env_mem e' = env_mem e \<and> pids e' = pids e
     \<and> alive_pipes e' = alive_pipes e \<and> accept_mutex e' = accept_mutex e \<and> so_handle e' = so_handle e"

lemma upt_step: "[i..<i + Suc k] = i # [Suc i..<Suc i + k]"
  by (simp add: upt_conv_Cons del: upt_Suc)

lemma create_epolls_ok:
  assumes "create_epolls os k i e = (nret, e')" "bal_upto i e X" "epoll_array e = Some fds" "length fds = i + k"
    "\<forall>j < i + k. d_epoll_create os j \<noteq> -1"
  shows "nret = 0 \<and> env_bal e' X \<and> same_but_epolls e e'
    \<and> epoll_array e' = Some (take i fds @ map (d_epoll_create os) [i..<i + k])"
  using assms
proof (induction k arbitrary: i e fds)
  case 0
  then show ?case using epoll_filled [of fds e X] by (auto simp: same_but_epolls_def)
next
  case (Suc k)
  define e1 where "e1 = call (CEpollCreate (d_epoll_create os i))
    (e\<lparr>epoll_array := map_option (\<lambda>a. a[i := d_epoll_create os i]) (epoll_array e)\<rparr>)"
  have b: "bal_upto (Suc i) e1 X"
    unfolding e1_def using Suc.prems by (intro bal_upto_call) auto
  have f: "epoll_array e1 = Some (fds[i := d_epoll_create os i])" "same_but_epolls e e1"
    using Suc.prems(3) by (simp_all add: e1_def same_but_epolls_def)
  have "create_epolls os k (Suc i) e1 = (nret, e')"
    using Suc.prems(1,5) by (simp add: e1_def Let_def)
  from Suc.IH [OF this b f(1)] Suc.prems(4,5) f(2) show ?case
    unfolding upt_step by (auto simp: same_but_epolls_def take_Suc_conv_app_nth)
qed

text \<open>When creation \<open>j\<close> fails, the entries behind it keep the 0 of \<open>memset\<close>.\<close>

lemma create_epolls_fails:
  assumes "create_epolls os k i e = (nret, e')" "epoll_array e = Some fds" "length fds = i + k"
    "i \<le> j" "j < i + k" "\<forall>x < j. d_epoll_create os x \<noteq> -1" "d_epoll_create os j = -1"
  shows "nret = -1 \<and> (\<exists>fds'. epoll_array e' = Some fds' \<and> drop (Suc j) fds' = drop (Suc j) fds)"
  using assms
proof (induction k arbitrary: i e fds)
  case (Suc k)
  define e1 where "e1 = call (CEpollCreate (d_epoll_create os i))
    (e\<lparr>epoll_array := map_option (\<lambda>a. a[i := d_epoll_create os i]) (epoll_array e)\<rparr>)"
  have f: "epoll_array e1 = Some (fds[i := d_epoll_create os i])"
    using Suc.prems(2) by (simp add: e1_def)
  have eq: "(if d_epoll_create os i = -1 then (-1, e1) else create_epolls os k (Suc i) e1) = (nret, e')"
    using Suc.prems(1) unfolding create_epolls.simps Let_def e1_def .
  show ?case
  proof (cases "j = i")
    case True
    then show ?thesis using eq f Suc.prems(7) by auto
  next
    case False
    then have "create_epolls os k (Suc i) e1 = (nret, e')" using eq Suc.prems(4,6) by (auto split: if_splits)
    from Suc.IH [OF this f] False Suc.prems(3-7) show ?thesis by auto
  qed
qed simp

lemma create_epolls_mem: "create_epolls os k i e = (nret, e') \<Longrightarrow> env_mem e' = env_mem e"
  by (induction k arbitrary: i e) (auto simp: Let_def split: if_splits)

subsection \<open>Arming the listening socket\<close>

lemma add_listen_all_calls:
  assumes "add_listen_all os k i e = (nret, e')" "\<forall>j. d_epoll_ctl os j \<noteq> -1"
  shows "nret = 0 \<and> e' = e\<lparr>calls := calls e @ map (\<lambda>j. CEpollAdd (epoll_fd e j) (listen_sock e)
      (if j = 0 then EPOLLIN OR EPOLLERR OR EPOLLONESHOT else EPOLLERR) (d_epoll_ctl os j)) [i..<i + k]\<rparr>"
  using assms(1)
proof (induction k arbitrary: i e)
  case (Suc k)
  define ev where "ev = (if i = 0 then EPOLLIN OR EPOLLERR OR EPOLLONESHOT else EPOLLERR)"
  define e1 where "e1 = call (CEpollAdd (epoll_fd e i) (listen_sock e) ev (d_epoll_ctl os i)) e"
  have "add_listen_all os k (Suc i) e1 = (nret, e')"
    using Suc.prems assms(2) by (simp add: e1_def ev_def)
  from Suc.IH [OF this] show ?case
    unfolding upt_step by (simp add: e1_def ev_def call_def epoll_fd_def)
qed simp

lemma env_bal_epoll_add [simp]: "env_bal (call (CEpollAdd f s v r) e) X \<longleftrightarrow> env_bal e X"
  by (simp add: env_bal_def)

lemma add_listen_all_bal:
  "add_listen_all os k i e = (nret, e') \<Longrightarrow>
   (nret = 0 \<or> nret = -1) \<and> (env_bal e' X \<longleftrightarrow> env_bal e X) \<and> same_but_epolls e e' \<and> epoll_array e' = epoll_array e"
proof (induction k arbitrary: i e)
  case (Suc k)
  define e1 where "e1 = call (CEpollAdd (epoll_fd e i) (listen_sock e)
    (if i = 0 then EPOLLIN OR EPOLLERR OR EPOLLONESHOT else EPOLLERR) (d_epoll_ctl os i)) e"
  have e1: "env_bal e1 X \<longleftrightarrow> env_bal e X" "same_but_epolls e e1" "epoll_array e1 = epoll_array e"
    by (simp_all add: e1_def same_but_epolls_def)
  have "(if d_epoll_ctl os i = -1 then (-1, e1) else add_listen_all os k (Suc i) e1) = (nret, e')"
    using Suc.prems unfolding add_listen_all.simps Let_def e1_def .
  then show ?case using e1 Suc.IH [of "Suc i" e1] by (auto simp: same_but_epolls_def split: if_splits)
qed (simp add: same_but_epolls_def)

lemma add_listen_bal:
  assumes "add_listen p os e = (nret, e')"
  shows "(nret = 0 \<or> nret = -1) \<and> (env_bal e' X \<longleftrightarrow> env_bal e X) \<and> same_but_epolls e e' \<and> epoll_array e' = epoll_array e"
proof (cases "process_count p > 1")
  case True
  then show ?thesis using assms add_listen_all_bal [of os "nat (process_count p)" 0 e nret e' X]
    by (simp add: add_listen_def)
next
  case False
  then show ?thesis using assms by (auto simp: add_listen_def Let_def same_but_epolls_def split: if_splits)
qed

subsection \<open>Starting\<close>

definition fresh_pool :: "start_os \<Rightarrow> tdmem \<Rightarrow> bool" where
  "fresh_pool os m \<longleftrightarrow> unused_list m \<noteq> array_list m \<and> rb_root (timers m) = NULL
     \<and> (d_block os = NULL \<or> block_ok m (d_block os))"

text \<open>What holds all the way through the start: a pool, and a balanced account.\<close>

definition iomp_bal :: "env \<Rightarrow> resource multiset \<Rightarrow> bool" where
  "iomp_bal e X \<longleftrightarrow> accept_mutex e = 0 \<and> (\<exists>bs fs. pool (env_mem e) bs fs [] \<and> env_bal e (held_blocks bs + X))"

lemma malloc_epolls_bal:
  assumes "malloc_epolls p os e = (nret, e')" "env_bal e X" "epoll_array e = None"
  shows "same_but_epolls e e' \<and> (nret = -1 \<and> env_bal e' X \<and> epoll_array e' = None
    \<or> nret = 0 \<and> bal_upto 0 e' X \<and> epoll_array e' = Some (replicate (nat (process_count p)) 0))"
proof (cases "d_malloc os EpollArray")
  case True
  then have "e' = (call (CMalloc EpollArray True) e)\<lparr>epoll_array := Some (replicate (nat (process_count p)) 0)\<rparr>" "nret = 0"
    using assms(1) by (auto simp: malloc_epolls_def)
  then show ?thesis
    using assms(2,3)
    by (simp add: bal_upto_def env_bal_def same_but_epolls_def held_epolls_Some ac_simps)
next
  case False
  then show ?thesis
    using assms by (auto simp: malloc_epolls_def Let_def env_bal_def same_but_epolls_def)
qed

lemma prealloc_sessions_bal:
  assumes "prealloc_sessions os e = (nret, e')" "env_bal e X" "pool (env_mem e) [] [] []"
    "d_block os = NULL \<or> block_ok (env_mem e) (d_block os)" "accept_mutex e = 0"
  shows "(nret = 0 \<or> nret = -1) \<and> iomp_bal e' X
    \<and> pids e' = pids e \<and> alive_pipes e' = alive_pipes e \<and> epoll_array e' = epoll_array e"
proof (cases "d_block os = NULL")
  case True
  then show ?thesis
    using assms by (auto simp: prealloc_sessions_def IncreaseTcpdaemonAcceptedSessions_def iomp_bal_def env_bal_def
        intro!: exI [of _ "[]"])
next
  case False
  then have "blocks_ok (env_mem e) ([] @ [d_block os])"
    using assms(3,4) by (auto simp: blocks_ok_def pool_def)
  then obtain m' where m': "IncreaseTcpdaemonAcceptedSessions (d_block os) (env_mem e) = (0, m')"
      "pool m' [d_block os] (slots (d_block os)) []"
    using pool_Increase [OF assms(3)] by auto
  then have "e' = call (CMallocBlock (d_block os)) (e\<lparr>env_mem := m'\<rparr>)" "nret = 0"
    using assms(1) by (auto simp: prealloc_sessions_def)
  moreover have "env_bal (call (CMallocBlock (d_block os)) (e\<lparr>env_mem := m'\<rparr>)) (held_blocks [d_block os] + X)"
    using assms(2) False by (simp add: env_bal_def held_blocks_def ac_simps)
  ultimately show ?thesis using m'(2) assms(5) by (auto simp: iomp_bal_def)
qed

lemma InitDaemonEnv_IOMP_bal:
  assumes "InitDaemonEnv_IOMP p os e = (nret, e')" "fresh_env e" "fresh_pool os (env_mem e)"
    "\<forall>j < nat (process_count p). d_epoll_create os j \<noteq> -1"
  shows "(nret = 0 \<or> nret = -1) \<and> iomp_bal e' {#}
    \<and> (nret = 0 \<longrightarrow> pids e' = Some (replicate (nat (process_count p)) 0)
         \<and> alive_pipes e' = Some (replicate (nat (process_count p)) (0, 0))
         \<and> epoll_array e' = Some (map (d_epoll_create os) [0..<nat (process_count p)]))"
proof -
  define e0 where "e0 = e\<lparr>env_mem := init_lists (env_mem e)\<rparr>"
  have f0: "fresh_env e0" "so_handle e0 = NULL" "pids e0 = None" "alive_pipes e0 = None" "accept_mutex e0 = 0"
      "epoll_array e0 = None" "env_mem e0 = init_lists (env_mem e)"
    using assms(2) by (auto simp: fresh_env_def e0_def)
  have pl: "pool (init_lists (env_mem e)) [] [] []" using assms(3) by (intro pool_init) (simp_all add: fresh_pool_def)
  have blk: "d_block os = NULL \<or> block_ok (init_lists (env_mem e)) (d_block os)"
    using assms(3) by (auto simp: fresh_pool_def block_ok_def init_lists_def Let_def)
  obtain n1 e1 where s1: "InitDaemonEnv p os e0 = (n1, e1)" by fastforce
  note I = InitDaemonEnv_bal [OF s1 fresh_bal [OF f0(1)] f0(2)]
  define e2 where "e2 = (let e = call (CNonblock (listen_sock e1)) e1
     in if tcp_nodelay p = 1 then call (CTcpNodelay (listen_sock e)) e else e)"
  have e2: "env_bal e2 {#}" "same_handles e0 e2"
    using I by (auto simp: e2_def Let_def env_bal_def same_handles_def)
  obtain n3 e3 where s3: "malloc_pids p os e2 = (n3, e3)" by fastforce
  have "pids e2 = None" using e2(2) f0 by (simp add: same_handles_def)
  note B3 = malloc_pids_bal [OF s3 e2(1) this]
  obtain n4 e4 where s4: "malloc_pipes p os e3 = (n4, e4)" by fastforce
  have "alive_pipes e3 = None" using B3 e2(2) f0 by (simp add: same_handles_def)
  note B4 = malloc_pipes_bal [OF s4 conjunct1 [OF B3] this]
  obtain n5 e5 where s5: "malloc_epolls p os e4 = (n5, e5)" by fastforce
  have ep4: "epoll_array e4 = None" using B3 B4 e2(2) f0 by (simp add: same_handles_def)
  note B5 = malloc_epolls_bal [OF s5 conjunct1 [OF B4] ep4]
  obtain n6 e6 where s6: "create_epolls os (nat (process_count p)) 0 e5 = (n6, e6)" by fastforce
  obtain n7 e7 where s7: "add_listen p os e6 = (n7, e7)" by fastforce
  note B7 = add_listen_bal [OF s7, of "{#}"]
  have eq: "(nret, e') = (if n1 \<noteq> 0 then (n1, e1) else if n3 \<noteq> 0 then (n3, e3) else if n4 \<noteq> 0 then (n4, e4)
      else if n5 \<noteq> 0 then (n5, e5) else if n6 \<noteq> 0 then (n6, e6) else if n7 \<noteq> 0 then (n7, e7)
      else prealloc_sessions os e7)"
    unfolding assms(1) [symmetric] InitDaemonEnv_IOMP_def
    by (simp only: Let_def e0_def [symmetric] s1 e2_def [unfolded Let_def, symmetric] s3 s4 s5 s6 s7 prod.case)
  have m: "env_mem e1 = init_lists (env_mem e)" "env_mem e3 = init_lists (env_mem e)" "env_mem e4 = init_lists (env_mem e)"
      "accept_mutex e1 = 0" "accept_mutex e3 = 0" "accept_mutex e4 = 0"
    using I B3 B4 e2(2) f0 by (auto simp: same_handles_def)
  have m5: "env_mem e5 = init_lists (env_mem e)" "accept_mutex e5 = 0"
    using B5 m by (auto simp: same_but_epolls_def)
  have start: "iomp_bal x {#}" if "env_bal x {#}" "env_mem x = init_lists (env_mem e)" "accept_mutex x = 0" for x
    using that pl by (auto simp: iomp_bal_def intro!: exI [of _ "[]"])
  show ?thesis
  proof (cases "n1 = 0 \<and> n3 = 0 \<and> n4 = 0 \<and> n5 = 0")
    case False
    then show ?thesis
      using eq start [of e1] start [of e3] start [of e4] start [of e5] I B3 B4 B5 m m5
      by (auto split: if_splits)
  next
    case True
    then have up: "bal_upto 0 e5 {#}" "epoll_array e5 = Some (replicate (nat (process_count p)) 0)" using B5 by auto
    have B6: "n6 = 0 \<and> env_bal e6 {#} \<and> same_but_epolls e5 e6
        \<and> epoll_array e6 = Some (map (d_epoll_create os) [0..<nat (process_count p)])"
      using create_epolls_ok [OF s6 up] assms(4) by simp
    have m7: "env_mem e7 = init_lists (env_mem e)" "accept_mutex e7 = 0" "env_bal e7 {#}"
        "pids e7 = pids e4" "alive_pipes e7 = alive_pipes e4"
        "epoll_array e7 = Some (map (d_epoll_create os) [0..<nat (process_count p)])"
      using B5 B6 B7 m5 m by (auto simp: same_but_epolls_def)
    show ?thesis
    proof (cases "n7 = 0")
      case False
      then show ?thesis using eq True B6 B7 start [of e7] m7 by auto
    next
      case n7: True
      then have "prealloc_sessions os e7 = (nret, e')" using eq True B6 by simp
      from prealloc_sessions_bal [OF this m7(3)] pl blk m7 B3 B4 True show ?thesis by simp
    qed
  qed
qed

subsection \<open>Cleaning\<close>

lemma acquired_fold_call: "acquired (fold (\<lambda>x. call (g x)) xs e) = acquired e + sum_list (map (\<lambda>x. acquires (g x)) xs)"
  by (induction xs arbitrary: e) (simp_all add: add.assoc)

lemma released_fold_call: "released (fold (\<lambda>x. call (g x)) xs e) = released e + sum_list (map (\<lambda>x. releases (g x)) xs)"
  by (induction xs arbitrary: e) (simp_all add: add.assoc)

lemma fold_call_fields [simp]:
  "so_handle (fold (\<lambda>x. call (g x)) xs e) = so_handle e" "listen_sock (fold (\<lambda>x. call (g x)) xs e) = listen_sock e"
  "env_mem (fold (\<lambda>x. call (g x)) xs e) = env_mem e"
  "calls (fold (\<lambda>x. call (g x)) xs e) = calls e @ map g xs"
  by (induction xs arbitrary: e) simp_all

lemma free_blocks_account:
  "sum_list (map (\<lambda>b. acquires (CFreeBlock b)) bs) = {#}"
  "sum_list (map (\<lambda>b. releases (CFreeBlock b)) bs) = held_blocks bs"
  by (induction bs) (simp_all add: held_blocks_def)

lemma free_blocks_account_simp: "sum_list (map (\<lambda>b. {#RBlock b#}) bs) = held_blocks bs"
  by (induction bs) (simp_all add: held_blocks_def)

lemma close_fds_account:
  "sum_list (map (\<lambda>b. acquires (CClose b)) bs) = {#}"
  "sum_list (map (\<lambda>b. releases (CClose b)) bs) = held_fds bs"
  by (induction bs) simp_all

lemma free_epolls_bal:
  "acquired e = released e + (held_epolls (epoll_array e) + X) \<Longrightarrow>
   acquired (free_epolls e) = released (free_epolls e) + X"
  by (cases "epoll_array e")
     (simp_all add: free_epolls_def acquired_fold_call released_fold_call close_fds_account held_epolls_Some
       held_fds_def ac_simps)

lemma free_epolls_fields [simp]:
  "so_handle (free_epolls e) = so_handle e" "listen_sock (free_epolls e) = listen_sock e"
  "env_mem (free_epolls e) = env_mem e"
  by (simp_all add: free_epolls_def split: option.splits)

lemma CleanDaemonEnv_IOMP_eq:
  assumes "pool (env_mem e) bs fs ls"
  shows "\<exists>m. CleanDaemonEnv_IOMP e = Some (CleanDaemonEnv (fold (\<lambda>b. call (CFreeBlock b)) bs
    ((free_epolls (free_arrays_calls e))\<lparr>env_mem := m\<rparr>)))"
proof -
  have "env_mem (free_epolls (free_arrays_calls e)) = env_mem e" by simp
  then show ?thesis
    using pool_FreeAll [OF assms]
    by (auto simp: CleanDaemonEnv_IOMP_def free_arrays_calls_def Let_def)
qed

lemma CleanDaemonEnv_IOMP_bal:
  assumes "iomp_bal e X"
  shows "\<exists>e'. CleanDaemonEnv_IOMP e = Some e' \<and> acquired e' = released e' + X"
proof -
  obtain bs fs where p: "pool (env_mem e) bs fs []" and b: "env_bal e (held_blocks bs + X)" and a: "accept_mutex e = 0"
    using assms by (auto simp: iomp_bal_def)
  obtain m where c: "CleanDaemonEnv_IOMP e = Some (CleanDaemonEnv (fold (\<lambda>b. call (CFreeBlock b)) bs
      ((free_epolls (free_arrays_calls e))\<lparr>env_mem := m\<rparr>)))"
    using CleanDaemonEnv_IOMP_eq [OF p] by blast
  define e1 where "e1 = free_arrays_calls e"
  define e2 where "e2 = (free_epolls e1)\<lparr>env_mem := m\<rparr>"
  have "acquired e = released e + (held_arr Pids (pids e) + held_arr AlivePipes (alive_pipes e)
      + (held_epolls (epoll_array e) + (held_lib (so_handle e) + held_fd (listen_sock e) + held_blocks bs + X)))"
    using b a by (simp add: env_bal_def ac_simps)
  from free_arrays_calls_bal [OF this]
  have "acquired e1 = released e1 + (held_epolls (epoll_array e1)
      + (held_lib (so_handle e) + held_fd (listen_sock e) + held_blocks bs + X))"
    by (simp add: e1_def)
  from free_epolls_bal [OF this]
  have "acquired e2 = released e2 + (held_lib (so_handle e2) + held_fd (listen_sock e2) + held_blocks bs + X)"
    by (simp add: e2_def e1_def)
  then have "acquired (fold (\<lambda>b. call (CFreeBlock b)) bs e2) = released (fold (\<lambda>b. call (CFreeBlock b)) bs e2)
      + (held_lib (so_handle e2) + held_fd (listen_sock e2) + X)"
    by (simp add: acquired_fold_call released_fold_call free_blocks_account free_blocks_account_simp ac_simps
        del: sum_list_singleton_mset)
  then have "acquired (CleanDaemonEnv (fold (\<lambda>b. call (CFreeBlock b)) bs e2))
      = released (CleanDaemonEnv (fold (\<lambda>b. call (CFreeBlock b)) bs e2)) + X"
    by (intro CleanDaemonEnv_bal) simp
  then show ?thesis using c by (simp add: e1_def e2_def)
qed

lemma pipe_ends_fold:
  "(\<And>x e. pipe_ends (call (g x) e) = pipe_ends e) \<Longrightarrow> pipe_ends (fold (\<lambda>x. call (g x)) xs e) = pipe_ends e"
  by (induction xs arbitrary: e) simp_all

lemma pipe_ends_free: "pipe_ends (fold (\<lambda>b. call (CFreeBlock b)) bs e) = pipe_ends e"
  "pipe_ends (free_epolls e) = pipe_ends e"
  by (simp_all add: pipe_ends_fold free_epolls_def split: option.splits)

text \<open>The IO-multiplexing daemon keeps the contract of a managing process.\<close>

definition iomp_kept :: "env \<Rightarrow> resource multiset \<Rightarrow> bool" where
  "iomp_kept e X \<longleftrightarrow> accept_mutex e = 0 \<and> (\<exists>bs fs. pool (env_mem e) bs fs [] \<and> X = held_blocks bs)"

lemma iomp_bal_kept: "iomp_bal e {#} \<longleftrightarrow> (\<exists>X. iomp_kept e X \<and> env_bal e X)"
  by (auto simp: iomp_bal_def iomp_kept_def)

interpretation iomp_daemon: pool_daemon
    "\<lambda>e. fresh_env e \<and> fresh_pool os (env_mem e) \<and> (\<forall>j < nat (process_count p). d_epoll_create os j \<noteq> -1)"
    "InitDaemonEnv_IOMP p os" CleanDaemonEnv_IOMP "\<lambda>e X Z. iomp_kept e X \<and> Z = {#}" "\<lambda>_ Z. Z = {#}" "nat (process_count p)"
proof unfold_locales
  fix e nret e'
  assume "fresh_env e \<and> fresh_pool os (env_mem e) \<and> (\<forall>j < nat (process_count p). d_epoll_create os j \<noteq> -1)"
    and i: "InitDaemonEnv_IOMP p os e = (nret, e')"
  then have "(nret = 0 \<or> nret = -1) \<and> iomp_bal e' {#}" using InitDaemonEnv_IOMP_bal [OF i] by blast
  then show "nret = 0 \<or> nret = -1" "\<exists>X Z. (iomp_kept e' X \<and> Z = {#}) \<and> env_bal e' X \<and> Z = {#}" by (auto simp: iomp_bal_kept)
next
  fix e e'
  assume "fresh_env e \<and> fresh_pool os (env_mem e) \<and> (\<forall>j < nat (process_count p). d_epoll_create os j \<noteq> -1)"
    and i: "InitDaemonEnv_IOMP p os e = (0, e')"
  then show "\<exists>fs. pool_state e' (nat (process_count p)) fs"
    using InitDaemonEnv_IOMP_bal [OF i] by (auto simp: pool_state_def)
next
  fix e e' :: env and X Z :: "resource multiset" assume "iomp_kept e X \<and> Z = {#}" "same_rest e e'"
  then show "iomp_kept e' X \<and> Z = {#}" by (simp add: iomp_kept_def same_rest_def)
next
  fix e X and Z :: "resource multiset" assume "iomp_kept e X \<and> Z = {#}"
  then show "CleanDaemonEnv_IOMP e \<noteq> None" using CleanDaemonEnv_IOMP_eq by (force simp: iomp_kept_def)
next
  fix e X e' and Y Z :: "resource multiset" assume kept: "iomp_kept e X \<and> Z = {#}" and "env_bal e (X + Y)" and c: "CleanDaemonEnv_IOMP e = Some e'"
  then have "iomp_bal e Y" "Z = {#}" by (auto simp: iomp_bal_def iomp_kept_def)
  from CleanDaemonEnv_IOMP_bal [OF this(1)] this(2) have "acquired e' = released e' + (Z + Y)" using c by simp
  moreover have "pipe_ends e' = pipe_ends e"
    using kept c CleanDaemonEnv_IOMP_eq [of e] by (fastforce simp: iomp_kept_def pipe_ends_free)
  ultimately show "acquired e' = released e' + (Z + Y) \<and> pipe_ends e' = pipe_ends e" by simp
qed

lemma tcpdaemon_IOMP_eq:
  "tcpdaemon_IOMP p os as ws e = run_pool (InitDaemonEnv_IOMP p os) CleanDaemonEnv_IOMP p as ws e"
  by (simp add: tcpdaemon_IOMP_def run_pool_def)

lemma tcpdaemon_IOMP_bal:
  assumes "fresh_env e" "fresh_pool os (env_mem e)"
    "\<forall>j < nat (process_count p). d_epoll_create os j \<noteq> -1"
    "\<forall>a \<in> set as. pipe_ok a" "\<forall>pid a. ChildEnds pid a \<in> set ws \<longrightarrow> pipe_ok a"
  shows "case tcpdaemon_IOMP p os as ws e of
       Some (Stop k e') \<Rightarrow> k = -11 \<and> (\<exists>Y. acquired e' = released e' + Y \<and> Y \<subseteq># pipe_ends e')
         \<or> (k = 0 \<or> k = -1) \<and> acquired e' = released e'
     | Some (Cont e') \<Rightarrow> False | Some (Waiting e') \<Rightarrow> True | None \<Rightarrow> False"
  using iomp_daemon.run_releases [where e = e and os = os and p = p and pa = p and as = as and ws = ws] assms unfolding tcpdaemon_IOMP_eq
  by (simp split: option.splits flow.splits)

subsection \<open>A failing \<open>epoll_create\<close>\<close>

text \<open>All the answers before the epoll instances are good ones.\<close>

definition starts_well :: "entry_para \<Rightarrow> start_os \<Rightarrow> bool" where
  "starts_well p os \<longleftrightarrow> (so_pathfilename p = [] \<or> d_dlopen os \<noteq> NULL \<and> d_dlsym os \<noteq> NULL)
     \<and> d_socket os \<noteq> -1 \<and> d_bind os \<noteq> -1 \<and> d_listen os \<noteq> -1 \<and> (\<forall>a. d_malloc os a)"

lemma InitDaemonEnv_ok: "starts_well p os \<Longrightarrow> \<exists>e'. InitDaemonEnv p os e = (0, e')"
  by (auto simp: InitDaemonEnv_def load_tcpmain_def starts_well_def Let_def)

lemma CleanDaemonEnv_calls: "\<exists>cs. calls (CleanDaemonEnv e) = calls e @ cs"
  by (auto simp: CleanDaemonEnv_def Let_def)

lemma free_epolls_closes:
  assumes "epoll_array e = Some fds" "fd \<in> set fds"
  shows "CClose fd \<in> set (calls (free_epolls e))"
  using assms by (auto simp: free_epolls_def)

lemma epoll_failure_closes_zero:
  assumes "starts_well p os" "fresh_env e" "fresh_pool os (env_mem e)"
    "Suc j < nat (process_count p)" "\<forall>x < j. d_epoll_create os x \<noteq> -1" "d_epoll_create os j = -1"
  shows "\<exists>e'. tcpdaemon_IOMP p os as ws e = Some (Stop (-1) e') \<and> CClose 0 \<in> set (calls e')"
proof -
  define e0 where "e0 = e\<lparr>env_mem := init_lists (env_mem e)\<rparr>"
  have f0: "fresh_env e0" "so_handle e0 = NULL" "env_mem e0 = init_lists (env_mem e)"
    using assms(2) by (auto simp: fresh_env_def e0_def)
  have pl: "pool (init_lists (env_mem e)) [] [] []" using assms(3) by (intro pool_init) (simp_all add: fresh_pool_def)
  obtain e1 where s1: "InitDaemonEnv p os e0 = (0, e1)" using InitDaemonEnv_ok [OF assms(1)] by blast
  note I = InitDaemonEnv_bal [OF s1 fresh_bal [OF f0(1)] f0(2)]
  define e2 where "e2 = (let e = call (CNonblock (listen_sock e1)) e1
     in if tcp_nodelay p = 1 then call (CTcpNodelay (listen_sock e)) e else e)"
  have m2: "env_mem e2 = init_lists (env_mem e)"
    using I f0(3) by (auto simp: e2_def Let_def same_handles_def)
  have am: "\<forall>a. d_malloc os a" using assms(1) by (simp add: starts_well_def)
  obtain e3 where s3: "malloc_pids p os e2 = (0, e3)" and m3: "env_mem e3 = init_lists (env_mem e)"
    using am m2 by (auto simp: malloc_pids_def Let_def)
  obtain e4 where s4: "malloc_pipes p os e3 = (0, e4)" and m4: "env_mem e4 = init_lists (env_mem e)"
    using am m3 by (auto simp: malloc_pipes_def Let_def)
  obtain e5 where s5: "malloc_epolls p os e4 = (0, e5)" and m5: "env_mem e5 = init_lists (env_mem e)"
      and a5: "epoll_array e5 = Some (replicate (nat (process_count p)) 0)"
    using am m4 by (auto simp: malloc_epolls_def Let_def)
  obtain n6 e6 where s6: "create_epolls os (nat (process_count p)) 0 e5 = (n6, e6)" by fastforce
  obtain fds where c: "n6 = -1" "epoll_array e6 = Some fds"
      "drop (Suc j) fds = drop (Suc j) (replicate (nat (process_count p)) 0)"
    using create_epolls_fails [OF s6 a5, of j] assms(4-6) by auto
  have m6: "env_mem e6 = env_mem e5" using create_epolls_mem [OF s6] .
  have "InitDaemonEnv_IOMP p os e = (-1, e6)"
    unfolding InitDaemonEnv_IOMP_def
    using c(1) by (simp add: Let_def e0_def [symmetric] s1 e2_def [unfolded Let_def, symmetric] s3 s4 s5 s6)
  then have r: "tcpdaemon_IOMP p os as ws e = map_option (Stop (-1)) (CleanDaemonEnv_IOMP e6)"
    by (simp add: tcpdaemon_IOMP_def)
  have "pool (env_mem e6) [] [] []" using m5 m6 pl by simp
  then obtain m where cl: "CleanDaemonEnv_IOMP e6 = Some (CleanDaemonEnv
      ((free_epolls (free_arrays_calls e6))\<lparr>env_mem := m\<rparr>))"
    using CleanDaemonEnv_IOMP_eq [of e6 "[]"] by auto
  have "0 \<in> set (drop (Suc j) fds)" unfolding c(3) using assms(4) by simp
  then have "CClose 0 \<in> set (calls (free_epolls (free_arrays_calls e6)))"
    using c(2) by (intro free_epolls_closes [of _ fds]) (auto dest: in_set_dropD)
  then have "CClose 0 \<in> set (calls (CleanDaemonEnv ((free_epolls (free_arrays_calls e6))\<lparr>env_mem := m\<rparr>)))"
    using CleanDaemonEnv_calls [of "(free_epolls (free_arrays_calls e6))\<lparr>env_mem := m\<rparr>"] by auto
  then show ?thesis using r cl by simp
qed

end
