(* ===== verification/Ifork.thy ===== *)
theory Ifork
  imports DaemonInv
begin

text \<open>
  The instance-fork daemon: the parent of \<open>tcpdaemon_IF\<close> of \<open>tcpdaemon_lib.c\<close>, with its signal
  handlers, as a step function. A step is one blocking call with its answer, a signal handler,
  or a child that ends; \<open>live\<close> and \<open>zombies\<close> are the kernel's view of the children. Updates of
  \<open>process_count\<close> and of \<open>g_EXIT_flag\<close> are taken as indivisible.
\<close>

subsection \<open>The parent\<close>

datatype if_pc =
    IfSelect   \<comment> \<open>in \<open>select\<close>\<close>
  | IfReap     \<comment> \<open>in \<open>waitpid\<close> with \<open>WNOHANG\<close>, after a timeout of \<open>select\<close>\<close>
  | IfReaped   \<comment> \<open>that call has returned a child, not yet counted\<close>
  | IfAccept   \<comment> \<open>in \<open>accept\<close>\<close>
  | IfGuard    \<comment> \<open>a connection is accepted\<close>
  | IfFork     \<comment> \<open>in \<open>fork\<close>\<close>
  | IfForked   \<comment> \<open>\<open>fork\<close> has returned a child, not yet counted\<close>
  | IfDrain    \<comment> \<open>at the head of the final loop\<close>
  | IfWait     \<comment> \<open>in its \<open>waitpid\<close>\<close>
  | IfEnd      \<comment> \<open>the final loop is left\<close>

datatype if_event = EvAccept int | EvNodelay int | EvLinger int int | EvFork int | EvClose int

record if_cfg =
  if_limit :: int        \<comment> \<open>\<open>p_para->process_count\<close>\<close>
  if_tcp_nodelay :: int
  if_tcp_linger :: int

record if_state =
  if_pc :: if_pc
  if_count :: int        \<comment> \<open>\<open>p_env->process_count\<close>\<close>
  if_sock :: int         \<comment> \<open>\<open>accepted_sock\<close>\<close>
  g_EXIT_flag :: bool
  live :: nat
  zombies :: nat
  if_trace :: "if_event list"

datatype if_ans =
    SelIntr | SelFails | SelTimeout | SelReady
  | AccIntr | AccFails | AccOk int
  | ForkIntr | ForkFails | ForkOk
  | WaitChild | WaitNone | Proceed
  | ChildExits | SigTerm | SigChld

definition if_goto :: "if_pc \<Rightarrow> if_state \<Rightarrow> if_state" where
  "if_goto l s = s\<lparr>if_pc := l\<rparr>"

definition if_note :: "if_event \<Rightarrow> if_state \<Rightarrow> if_state" where
  "if_note e s = s\<lparr>if_trace := if_trace s @ [e]\<rparr>"

text \<open>What every interrupted call does: leave the loop when asked to exit, else call again.\<close>

definition if_interrupted :: "if_state \<Rightarrow> if_state" where
  "if_interrupted s = (if g_EXIT_flag s then if_goto IfDrain s else s)"

definition if_set_sock_opts :: "if_cfg \<Rightarrow> if_state \<Rightarrow> if_state" where
  "if_set_sock_opts cfg s =
     (let s = (if if_tcp_nodelay cfg = 1 then if_note (EvNodelay (if_sock s)) s else s)
      in if if_tcp_linger cfg > 0 then if_note (EvLinger (if_sock s) (if_tcp_linger cfg)) s else s)"

definition if_guard :: "if_cfg \<Rightarrow> if_state \<Rightarrow> if_state" where
  "if_guard cfg s =
     (if if_limit cfg \<noteq> 0 \<and> if_count s + 1 > if_limit cfg
      then if_goto IfSelect (if_note (EvClose (if_sock s)) s)
      else if_goto IfFork (if_set_sock_opts cfg s))"

definition sigproc_SIGTERM :: "if_state \<Rightarrow> if_state" where
  "sigproc_SIGTERM s = s\<lparr>g_EXIT_flag := True\<rparr>"

text \<open>The handler's loop: \<open>waitpid\<close> with \<open>WNOHANG\<close> until it returns no child; \<open>n\<close> have ended.\<close>

fun reap_all :: "nat \<Rightarrow> if_state \<Rightarrow> if_state" where
  "reap_all 0 s = s"
| "reap_all (Suc n) s = reap_all n (s\<lparr>zombies := n, if_count := if_count s - 1\<rparr>)"

definition sigproc_SIGCHLD :: "if_state \<Rightarrow> if_state" where
  "sigproc_SIGCHLD s = reap_all (zombies s) s"

text \<open>\<open>None\<close>: the answer does not fit the call the parent is in, or the call blocks.\<close>

definition if_parent_step :: "if_cfg \<Rightarrow> if_ans \<Rightarrow> if_state \<Rightarrow> if_state option" where
  "if_parent_step cfg ans s =
     (case if_pc s of
        IfSelect \<Rightarrow>
          (case ans of
             SelIntr \<Rightarrow> Some (if_interrupted s)
           | SelFails \<Rightarrow> Some (if_goto IfDrain s)
           | SelTimeout \<Rightarrow> Some (if_goto IfReap s)
           | SelReady \<Rightarrow> Some (if_goto IfAccept s) | _ \<Rightarrow> None)
      | IfReap \<Rightarrow>
          (case ans of
             WaitChild \<Rightarrow> if zombies s = 0 then None else Some (if_goto IfReaped (s\<lparr>zombies := zombies s - 1\<rparr>))
           | WaitNone \<Rightarrow> if zombies s = 0 then Some (if_goto IfSelect s) else None | _ \<Rightarrow> None)
      | IfReaped \<Rightarrow>
          (case ans of Proceed \<Rightarrow> Some (if_goto IfReap (s\<lparr>if_count := if_count s - 1\<rparr>)) | _ \<Rightarrow> None)
      | IfAccept \<Rightarrow>
          (case ans of
             AccIntr \<Rightarrow> Some (if_interrupted s)
           | AccFails \<Rightarrow> Some (if_goto IfDrain s)
           | AccOk k \<Rightarrow> Some (if_goto IfGuard (if_note (EvAccept k) (s\<lparr>if_sock := k\<rparr>))) | _ \<Rightarrow> None)
      | IfGuard \<Rightarrow> (case ans of Proceed \<Rightarrow> Some (if_guard cfg s) | _ \<Rightarrow> None)
      | IfFork \<Rightarrow>
          (case ans of
             ForkIntr \<Rightarrow> Some (if_interrupted s)
           | ForkFails \<Rightarrow> Some (if_goto IfSelect (if_note (EvClose (if_sock s)) s))
           | ForkOk \<Rightarrow> Some (if_goto IfForked (if_note (EvFork (if_sock s)) (s\<lparr>live := live s + 1\<rparr>))) | _ \<Rightarrow> None)
      | IfForked \<Rightarrow>
          (case ans of
             Proceed \<Rightarrow> Some (if_goto IfSelect ((if_note (EvClose (if_sock s)) s)\<lparr>if_count := if_count s + 1\<rparr>))
           | _ \<Rightarrow> None)
      | IfDrain \<Rightarrow>
          (case ans of Proceed \<Rightarrow> Some (if_goto (if if_count s > 0 then IfWait else IfEnd) s) | _ \<Rightarrow> None)
      | IfWait \<Rightarrow>
          (case ans of
             WaitChild \<Rightarrow> if zombies s = 0 then None else Some (if_goto IfDrain (s\<lparr>zombies := zombies s - 1\<rparr>))
           | WaitNone \<Rightarrow> if live s + zombies s = 0 then Some (if_goto IfDrain s) else None | _ \<Rightarrow> None)
      | IfEnd \<Rightarrow> None)"

text \<open>Children and signals, at any point; \<open>SIGTERM\<close> is ours until the loop is left.\<close>

definition if_step :: "if_cfg \<Rightarrow> if_ans \<Rightarrow> if_state \<Rightarrow> if_state option" where
  "if_step cfg ans s =
     (case ans of
        ChildExits \<Rightarrow> if live s = 0 then None else Some (s\<lparr>live := live s - 1, zombies := zombies s + 1\<rparr>)
      | SigTerm \<Rightarrow> if if_pc s \<in> {IfDrain, IfWait, IfEnd} then None else Some (sigproc_SIGTERM s)
      | SigChld \<Rightarrow> Some (sigproc_SIGCHLD s)
      | _ \<Rightarrow> if_parent_step cfg ans s)"

fun if_run :: "if_cfg \<Rightarrow> if_ans list \<Rightarrow> if_state \<Rightarrow> if_state option" where
  "if_run cfg [] s = Some s"
| "if_run cfg (a # as) s = (case if_step cfg a s of None \<Rightarrow> None | Some s \<Rightarrow> if_run cfg as s)"

definition if_start :: if_state where
  "if_start = \<lparr>if_pc = IfSelect, if_count = 0, if_sock = 0, g_EXIT_flag = False, live = 0, zombies = 0, if_trace = []\<rparr>"

inductive if_reachable :: "if_cfg \<Rightarrow> if_state \<Rightarrow> bool" for cfg where
  if_first: "if_reachable cfg if_start"
| if_next: "if_reachable cfg s \<Longrightarrow> if_step cfg ans s = Some t \<Longrightarrow> if_reachable cfg t"

subsection \<open>The child and the daemon\<close>

datatype child_event = ChSigDefault | ChClose int | ChTcpmain int | ChExit int

definition if_child :: "int \<Rightarrow> int \<Rightarrow> child_event list" where
  "if_child listenfd accepted_sock =
     [ChSigDefault, ChClose listenfd, ChTcpmain accepted_sock, ChClose accepted_sock, ChExit 0]"

definition InitDaemonEnv_IF :: "entry_para \<Rightarrow> start_os \<Rightarrow> env \<Rightarrow> int \<times> env" where
  "InitDaemonEnv_IF = InitDaemonEnv"

definition CleanDaemonEnv_IF :: "env \<Rightarrow> env" where
  "CleanDaemonEnv_IF = CleanDaemonEnv"

definition if_cfg_of :: "entry_para \<Rightarrow> if_cfg" where
  "if_cfg_of p = \<lparr>if_limit = process_count p, if_tcp_nodelay = tcp_nodelay p, if_tcp_linger = tcp_linger p\<rparr>"

text \<open>\<open>None\<close>: the answers \<open>as\<close> do not fit the calls.\<close>

definition tcpdaemon_IF ::
  "entry_para \<Rightarrow> start_os \<Rightarrow> if_ans list \<Rightarrow> env \<Rightarrow> (env flow \<times> if_state) option" where
  "tcpdaemon_IF p os as e =
     (let (nret, e) = InitDaemonEnv_IF p os e in
      if nret \<noteq> 0 then Some (Stop nret (CleanDaemonEnv_IF e), if_start)
      else (case if_run (if_cfg_of p) as if_start of
              None \<Rightarrow> None
            | Some s \<Rightarrow> Some (if if_pc s = IfEnd then Stop 0 (CleanDaemonEnv_IF e) else Waiting e, s)))"

subsection \<open>Counting children\<close>

definition accepts_of_if :: "if_state \<Rightarrow> int list" where
  "accepts_of_if s = concat (map (\<lambda>e. case e of EvAccept x \<Rightarrow> [x] | _ \<Rightarrow> []) (if_trace s))"

definition closes_of_if :: "if_state \<Rightarrow> int list" where
  "closes_of_if s = concat (map (\<lambda>e. case e of EvClose x \<Rightarrow> [x] | _ \<Rightarrow> []) (if_trace s))"

definition forks_of_if :: "if_state \<Rightarrow> int list" where
  "forks_of_if s = concat (map (\<lambda>e. case e of EvFork x \<Rightarrow> [x] | _ \<Rightarrow> []) (if_trace s))"

text \<open>
  \<open>process_count\<close> against the number of children, at each point: a child returned by \<open>waitpid\<close>
  and not yet counted off, a child returned by \<open>fork\<close> and not yet counted; in the final loop
  it may be too large. While the parent is in \<open>fork\<close> there is room for one more child.
\<close>

definition count_ok :: "if_pc \<Rightarrow> int \<Rightarrow> int \<Rightarrow> bool" where
  "count_ok l c children \<longleftrightarrow>
     (case l of IfReaped \<Rightarrow> c - 1 = children | IfForked \<Rightarrow> c + 1 = children
      | IfDrain \<Rightarrow> c \<ge> children | IfWait \<Rightarrow> c \<ge> children | IfEnd \<Rightarrow> c \<ge> children | _ \<Rightarrow> c = children)"

definition limit_ok :: "int \<Rightarrow> if_pc \<Rightarrow> int \<Rightarrow> int \<Rightarrow> bool" where
  "limit_ok lim l c children \<longleftrightarrow> lim > 0 \<longrightarrow> children \<le> lim \<and> (l = IfFork \<longrightarrow> c + 1 \<le> lim)"

text \<open>The accepted sockets against the closed ones.\<close>

definition at_most_one :: "int list \<Rightarrow> int list \<Rightarrow> bool" where
  "at_most_one as cs \<longleftrightarrow> (\<exists>xs. as = cs @ xs \<and> length xs \<le> 1)"

definition sockets_ok :: "if_pc \<Rightarrow> int list \<Rightarrow> int list \<Rightarrow> int \<Rightarrow> bool" where
  "sockets_ok l as cs k \<longleftrightarrow>
     (case l of IfGuard \<Rightarrow> as = cs @ [k] | IfFork \<Rightarrow> as = cs @ [k] | IfForked \<Rightarrow> as = cs @ [k]
      | IfDrain \<Rightarrow> at_most_one as cs | IfWait \<Rightarrow> at_most_one as cs | IfEnd \<Rightarrow> at_most_one as cs
      | _ \<Rightarrow> as = cs)"

lemma at_most_one_simps [simp]: "at_most_one as as" "at_most_one (as @ [k]) as"
  by (simp_all add: at_most_one_def)

definition if_children :: "if_state \<Rightarrow> int" where
  "if_children s = int (live s + zombies s)"

definition if_inv :: "if_cfg \<Rightarrow> if_state \<Rightarrow> bool" where
  "if_inv cfg s \<longleftrightarrow> count_ok (if_pc s) (if_count s) (if_children s)
     \<and> limit_ok (if_limit cfg) (if_pc s) (if_count s) (if_children s)
     \<and> sockets_ok (if_pc s) (accepts_of_if s) (closes_of_if s) (if_sock s)"

lemma reap_all_eq: "n = zombies s \<Longrightarrow> reap_all n s = s\<lparr>zombies := 0, if_count := if_count s - int n\<rparr>"
proof (induction n arbitrary: s)
  case (Suc n)
  show ?case using Suc.IH [of "s\<lparr>zombies := n, if_count := if_count s - 1\<rparr>"] by (simp add: algebra_simps)
qed simp

lemma sigproc_SIGCHLD_eq: "sigproc_SIGCHLD s = s\<lparr>zombies := 0, if_count := if_count s - int (zombies s)\<rparr>"
  by (simp add: sigproc_SIGCHLD_def reap_all_eq)

lemma if_note_lists [simp]:
  "accepts_of_if (s\<lparr>if_trace := if_trace s @ [EvAccept x]\<rparr>) = accepts_of_if s @ [x]"
  "closes_of_if (s\<lparr>if_trace := if_trace s @ [EvAccept x]\<rparr>) = closes_of_if s"
  by (simp_all add: accepts_of_if_def closes_of_if_def)

definition same_sockets :: "if_state \<Rightarrow> if_state \<Rightarrow> bool" where
  "same_sockets s t \<longleftrightarrow> accepts_of_if t = accepts_of_if s \<and> closes_of_if t = closes_of_if s \<and> if_sock t = if_sock s"

definition same_count :: "if_state \<Rightarrow> if_state \<Rightarrow> bool" where
  "same_count s t \<longleftrightarrow> if_count t = if_count s \<and> live t = live s \<and> zombies t = zombies s"

lemma if_goto_simps [simp]:
  "if_pc (if_goto l s) = l" "same_sockets s (if_goto l t) \<longleftrightarrow> same_sockets s t" "same_count s (if_goto l t) \<longleftrightarrow> same_count s t"
  "if_count (if_goto l s) = if_count s" "live (if_goto l s) = live s" "zombies (if_goto l s) = zombies s"
  "if_sock (if_goto l s) = if_sock s" "accepts_of_if (if_goto l s) = accepts_of_if s"
  "closes_of_if (if_goto l s) = closes_of_if s" "forks_of_if (if_goto l s) = forks_of_if s"
  by (simp_all add: if_goto_def same_sockets_def same_count_def accepts_of_if_def closes_of_if_def forks_of_if_def)

lemma if_note_simps [simp]:
  "if_pc (if_note v s) = if_pc s" "if_count (if_note v s) = if_count s" "live (if_note v s) = live s"
  "zombies (if_note v s) = zombies s" "if_sock (if_note v s) = if_sock s"
  "accepts_of_if (if_note v s) = accepts_of_if s @ (case v of EvAccept x \<Rightarrow> [x] | _ \<Rightarrow> [])"
  "closes_of_if (if_note v s) = closes_of_if s @ (case v of EvClose x \<Rightarrow> [x] | _ \<Rightarrow> [])"
  "forks_of_if (if_note v s) = forks_of_if s @ (case v of EvFork x \<Rightarrow> [x] | _ \<Rightarrow> [])"
  by (simp_all add: if_note_def accepts_of_if_def closes_of_if_def forks_of_if_def)

lemma if_update_simps [simp]:
  "accepts_of_if (s\<lparr>if_sock := x\<rparr>) = accepts_of_if s" "closes_of_if (s\<lparr>if_sock := x\<rparr>) = closes_of_if s"
  "accepts_of_if (s\<lparr>if_count := c\<rparr>) = accepts_of_if s" "closes_of_if (s\<lparr>if_count := c\<rparr>) = closes_of_if s"
  "accepts_of_if (s\<lparr>live := n\<rparr>) = accepts_of_if s" "closes_of_if (s\<lparr>live := n\<rparr>) = closes_of_if s"
  "accepts_of_if (s\<lparr>zombies := n\<rparr>) = accepts_of_if s" "closes_of_if (s\<lparr>zombies := n\<rparr>) = closes_of_if s"
  "accepts_of_if (s\<lparr>g_EXIT_flag := b\<rparr>) = accepts_of_if s" "closes_of_if (s\<lparr>g_EXIT_flag := b\<rparr>) = closes_of_if s"
  by (simp_all add: accepts_of_if_def closes_of_if_def)

lemma if_opts_simps [simp]:
  "if_pc (if_set_sock_opts cfg s) = if_pc s" "if_count (if_set_sock_opts cfg s) = if_count s"
  "live (if_set_sock_opts cfg s) = live s" "zombies (if_set_sock_opts cfg s) = zombies s"
  "if_sock (if_set_sock_opts cfg s) = if_sock s"
  "accepts_of_if (if_set_sock_opts cfg s) = accepts_of_if s" "closes_of_if (if_set_sock_opts cfg s) = closes_of_if s"
  by (simp_all add: if_set_sock_opts_def Let_def)

text \<open>One lemma for each place of the parent.\<close>

lemma if_children_simps [simp]:
  "if_children (if_goto l s) = if_children s" "if_children (if_note v s) = if_children s"
  "if_children (if_set_sock_opts cfg s) = if_children s" "if_children (s\<lparr>if_sock := x\<rparr>) = if_children s"
  "if_children (s\<lparr>if_count := c\<rparr>) = if_children s" "if_children (s\<lparr>live := Suc (live s)\<rparr>) = if_children s + 1"
  "0 < zombies s \<Longrightarrow> if_children (s\<lparr>zombies := zombies s - Suc 0\<rparr>) = if_children s - 1"
  by (simp_all add: if_children_def)

lemma if_parent_inv:
  assumes "if_inv cfg s" "if_parent_step cfg ans s = Some t"
  shows "if_inv cfg t"
proof -
  have c: "count_ok (if_pc s) (if_count s) (if_children s)"
    and l: "limit_ok (if_limit cfg) (if_pc s) (if_count s) (if_children s)"
    and k: "sockets_ok (if_pc s) (accepts_of_if s) (closes_of_if s) (if_sock s)"
    using assms(1) by (simp_all add: if_inv_def)
  note d = count_ok_def limit_ok_def sockets_ok_def
  show ?thesis
  proof (cases "if_pc s")
    case IfSelect
    then show ?thesis using assms(2) c l k
      by (cases ans) (auto simp: if_inv_def if_parent_step_def if_interrupted_def d split: if_splits)
  next
    case IfReap
    then show ?thesis using assms(2) c l k
      by (cases ans) (auto simp: if_inv_def if_parent_step_def d split: if_splits)
  next
    case IfReaped
    then show ?thesis using assms(2) c l k
      by (cases ans) (auto simp: if_inv_def if_parent_step_def d)
  next
    case IfAccept
    then show ?thesis using assms(2) c l k
      by (cases ans) (auto simp: if_inv_def if_parent_step_def if_interrupted_def d split: if_splits)
  next
    case IfGuard
    then show ?thesis using assms(2) c l k
      by (cases ans) (auto simp: if_inv_def if_parent_step_def if_guard_def d split: if_splits)
  next
    case IfFork
    then show ?thesis using assms(2) c l k
      by (cases ans) (auto simp: if_inv_def if_parent_step_def if_interrupted_def d split: if_splits)
  next
    case IfForked
    then show ?thesis using assms(2) c l k
      by (cases ans) (auto simp: if_inv_def if_parent_step_def d)
  next
    case IfDrain
    then show ?thesis using assms(2) c l k
      by (cases ans; cases "if_count s > 0") (auto simp: if_inv_def if_parent_step_def d)
  next
    case IfWait
    then show ?thesis using assms(2) c l k
      by (cases ans) (auto simp: if_inv_def if_parent_step_def d split: if_splits)
  next
    case IfEnd
    then show ?thesis using assms(2) by (simp add: if_parent_step_def)
  qed
qed

lemma handlers_inv:
  assumes "if_inv cfg s"
  shows "if_inv cfg (sigproc_SIGTERM s)" "if_inv cfg (sigproc_SIGCHLD s)"
    "live s \<noteq> 0 \<Longrightarrow> if_inv cfg (s\<lparr>live := live s - 1, zombies := zombies s + 1\<rparr>)"
proof -
  have "if_children (sigproc_SIGCHLD s) = if_children s - int (zombies s)"
    by (simp add: if_children_def sigproc_SIGCHLD_eq)
  moreover have "count_ok l (c - int n) (x - int n) \<longleftrightarrow> count_ok l c x" for l c x n
    by (cases l) (auto simp: count_ok_def)
  moreover have "limit_ok lim l c x \<Longrightarrow> limit_ok lim l (c - int n) (x - int n)" for lim l c x n
    by (auto simp: limit_ok_def)
  ultimately show "if_inv cfg (sigproc_SIGCHLD s)"
    using assms by (simp add: if_inv_def) (simp add: sigproc_SIGCHLD_eq)
  show "if_inv cfg (sigproc_SIGTERM s)" using assms by (simp add: if_inv_def sigproc_SIGTERM_def if_children_def)
  show "live s \<noteq> 0 \<Longrightarrow> if_inv cfg (s\<lparr>live := live s - 1, zombies := zombies s + 1\<rparr>)"
    using assms by (simp add: if_inv_def if_children_def)
qed

lemma if_step_inv:
  assumes "if_inv cfg s" "if_step cfg ans s = Some t"
  shows "if_inv cfg t"
  using assms(2) if_parent_inv [OF assms(1)] handlers_inv [OF assms(1)]
  by (cases ans) (auto simp: if_step_def split: if_splits)

lemma if_reachable_inv: "if_reachable cfg s \<Longrightarrow> if_inv cfg s"
proof (induction rule: if_reachable.induct)
  case if_first
  show ?case
    by (simp add: if_inv_def if_start_def if_children_def accepts_of_if_def closes_of_if_def
        count_ok_def limit_ok_def sockets_ok_def)
qed (use if_step_inv in blast)

interpretation if_reach: guarded_system "if_step cfg" "if_run cfg" "if_reachable cfg" "\<lambda>_. True" for cfg
  by unfold_locales (auto intro: if_next)

lemma if_reachable_run: "if_reachable cfg s \<Longrightarrow> if_run cfg as s = Some t \<Longrightarrow> if_reachable cfg t"
  by (rule if_reach.run_keeps) (simp_all add: list_all_iff)

subsection \<open>The final loop\<close>

text \<open>More are counted than there are children: no way out of the final loop.\<close>

definition overcounted :: "if_state \<Rightarrow> bool" where
  "overcounted s \<longleftrightarrow> if_pc s \<in> {IfDrain, IfWait} \<and> if_count s > if_children s"

lemma overcounted_step:
  assumes "overcounted s" "if_step cfg ans s = Some t"
  shows "overcounted t"
proof (cases "if_pc s = IfDrain")
  case True
  then show ?thesis using assms
    by (cases ans)
       (auto simp: overcounted_def if_step_def if_parent_step_def sigproc_SIGCHLD_eq if_children_def split: if_splits)
next
  case False
  then have "if_pc s = IfWait" using assms(1) by (simp add: overcounted_def)
  then show ?thesis using assms
    by (cases ans)
       (auto simp: overcounted_def if_step_def if_parent_step_def sigproc_SIGCHLD_eq if_children_def split: if_splits)
qed

interpretation if_over: guarded_system "if_step cfg" "if_run cfg" overcounted "\<lambda>_. True" for cfg
  by unfold_locales (auto intro: overcounted_step)

lemma overcounted_run: "overcounted s \<Longrightarrow> if_run cfg as s = Some t \<Longrightarrow> overcounted t"
  by (rule if_over.run_keeps) (simp_all add: list_all_iff)

lemma wait_overcounts:
  assumes "if_inv cfg s" "if_pc s = IfWait" "if_step cfg WaitChild s = Some t"
  shows "overcounted t"
  using assms
  by (auto simp: overcounted_def if_step_def if_parent_step_def if_inv_def count_ok_def split: if_splits)

text \<open>Otherwise every child is reaped by the handler, and the loop ends.\<close>

lemma drain_by_handler:
  assumes "if_inv cfg s" "if_pc s = IfDrain" "if_count s = if_children s"
  shows "\<exists>as t. if_run cfg as s = Some t \<and> if_pc t = IfEnd \<and> if_count t = 0 \<and> live t = 0 \<and> zombies t = 0"
proof (cases "if_count s = 0")
  case True
  then show ?thesis
    using assms by (intro exI [of _ "[Proceed]"]) (simp add: if_step_def if_parent_step_def if_children_def)
next
  case False
  define n where "n = live s"
  have exits: "if_run cfg (replicate k ChildExits) u = Some (u\<lparr>live := live u - k, zombies := zombies u + k\<rparr>)"
    if "k \<le> live u" for k u
    using that by (induction k arbitrary: u) (auto simp: if_step_def)
  have "if_count s > 0" using False assms(3) by (simp add: if_children_def)
  then have "if_run cfg (Proceed # replicate n ChildExits @ [SigChld, WaitNone, Proceed]) s
     = Some (s\<lparr>if_pc := IfEnd, if_count := 0, live := 0, zombies := 0\<rparr>)"
    using assms(2,3)
    by (simp add: if_step_def if_parent_step_def if_goto_def if_reach.run_append exits n_def sigproc_SIGCHLD_eq if_children_def)
  then show ?thesis by (intro exI conjI) (assumption, simp_all)
qed

end
