(* ===== verification/Props_Daemon.thy ===== *)
theory Props_Daemon
  imports DaemonIomp Ifork
begin

text \<open>
  The properties of the managing processes, with their witnesses on small configurations.
\<close>

subsection \<open>Small configurations\<close>

definition demo_para :: entry_para where
  "demo_para = \<lparr>daemon_level = 0, log_pathfilename = [], log_level = 0, server_model = ''LF'', process_count = 2,
     max_requests_per_process = 0, ip = ''0'', port = 9527, so_pathfilename = ''demo.so'', work_user = [], work_path = [],
     p_pfunc_tcpmain = NULL, p_param_tcpmain = NULL, tcp_nodelay = 0, tcp_linger = 0, timeout_seconds = 60, cpu_affinity = 0\<rparr>"

definition demo_tdmem :: tdmem where
  "demo_tdmem = \<lparr>sess = (\<lambda>_. zero_session), lists = (\<lambda>_. \<lparr>lnext = NULL, lprev = NULL\<rparr>),
     timers = \<lparr>rbn = (\<lambda>_. \<lparr>rb_parent_color = 0, rb_right = NULL, rb_left = NULL\<rparr>), rb_root = NULL\<rparr>,
     unused_list = 8, array_list = 64\<rparr>"

definition demo_env :: env where
  "demo_env = \<lparr>so_handle = NULL, pfunc_tcpmain = NULL, param_tcpmain = NULL, listen_sock = 0, listen_addr = ([], 0),
     pids = None, alive_pipes = None, accept_mutex = 0, index = 0, requests_per_process = 0, epoll_array = None,
     env_mem = demo_tdmem, calls = []\<rparr>"

text \<open>The second \<open>epoll_create\<close> answers \<open>f\<close>; there is no memory for sessions.\<close>

definition demo_os :: "int \<Rightarrow> start_os" where
  "demo_os f = \<lparr>d_dlopen = 1, d_dlsym = 1, d_socket = 3, d_bind = 0, d_listen = 0, d_getpwnam = None,
     d_malloc = (\<lambda>_. True), d_semget = 77, d_semctl = 0, d_epoll_create = (\<lambda>i. if i = 1 then f else 20 + int i),
     d_epoll_ctl = (\<lambda>_. 0), d_block = NULL\<rparr>"

text \<open>Two workers, the second one ends and is replaced, then \<open>waitpid\<close> is interrupted.\<close>

definition demo_spawns :: "spawn_ans list" where
  "demo_spawns = [\<lparr>a_pipe = Some (4, 5), a_fork = 101\<rparr>, \<lparr>a_pipe = Some (4, 6), a_fork = 102\<rparr>]"

definition demo_waits :: "wait_ans list" where
  "demo_waits = [ChildEnds 102 \<lparr>a_pipe = Some (4, 6), a_fork = 103\<rparr>, WaitFails]"

lemmas demo_daemon = demo_para_def demo_env_def demo_os_def demo_spawns_def demo_waits_def demo_tdmem_def

lemma demo_fresh: "fresh_env demo_env" "fresh_pool (demo_os f) (env_mem demo_env)"
  by (simp_all add: fresh_env_def fresh_pool_def demo_daemon)

lemma demo_pipes: "\<forall>a \<in> set demo_spawns. pipe_ok a" "\<forall>pid a. ChildEnds pid a \<in> set demo_waits \<longrightarrow> pipe_ok a"
  by (simp_all add: pipe_ok_def demo_daemon)

subsection \<open>Nothing is left behind\<close>

text \<open>C26: The leader-follower daemon gives back what it took, but for a semaphore with id 0. Whatever
  the system answers to the calls of the start, to \<open>pipe\<close>, \<open>fork\<close> and \<open>waitpid\<close>, when \<open>tcpdaemon_LF\<close>
  returns 0 or -1 every library, descriptor, array and semaphore with an id other than 0 that it
  acquired has been released exactly once: on each error path of the start, and at the end of the
  pool however many workers were replaced. A semaphore to which \<open>semget\<close> gives the id 0 is never
  removed once the start has succeeded. When it returns -11, because a worker could not be created,
  pipe ends are left besides.\<close>

theorem lf_daemon_releases_everything:
  assumes "fresh_env e" "\<forall>a \<in> set as. pipe_ok a" "\<forall>pid a. ChildEnds pid a \<in> set ws \<longrightarrow> pipe_ok a"
    "lost = (if d_semget os = 0 then {#RSem 0#} else {#})"
  shows "case tcpdaemon_LF p os as ws e of
       Stop k e' \<Rightarrow> k = -11 \<and> (\<exists>Y. acquired e' = released e' + lost + Y \<and> Y \<subseteq># pipe_ends e')
         \<or> k = 0 \<and> acquired e' = released e' + lost
         \<or> k = -1 \<and> (acquired e' = released e' \<or> acquired e' = released e' + lost)
     | Cont e' \<Rightarrow> False | Waiting e' \<Rightarrow> True"
  using tcpdaemon_LF_bal [OF assms(1-3), of os p] unfolding lost_sem_def assms(4) .

text \<open>What the parent calls in the small run: the replaced worker's pipe is closed as well.\<close>

lemma demo_lf_daemon:
  "\<exists>e'. tcpdaemon_LF demo_para (demo_os 21) demo_spawns demo_waits demo_env = Stop 0 e' \<and> count_list (calls e') (CClose 6) = 2"
  by (simp add: demo_daemon tcpdaemon_LF_def InitDaemonEnv_LF_def InitDaemonEnv_def load_tcpmain_def switch_user_def
      switch_path_def malloc_pids_def malloc_pipes_def pool_parent_def spawn_worker_def destroy_pool_def
      CleanDaemonEnv_LF_def CleanDaemonEnv_def call_def Let_def numeral_2_eq_2)

theorem lf_daemon_releases_everything_witness:
  "\<exists>e'. tcpdaemon_LF demo_para (demo_os 21) demo_spawns demo_waits demo_env = Stop 0 e' \<and> acquired e' = released e'"
  using lf_daemon_releases_everything [OF demo_fresh(1) demo_pipes refl, of "demo_os 21" demo_para] demo_lf_daemon
  by (auto simp: demo_os_def)

text \<open>C27: The IO-multiplexing daemon gives back what it took, provided no \<open>epoll_create\<close> fails:
  whatever else the system answers, \<open>tcpdaemon_IOMP\<close> ends its cleaning loop over the session
  arrays, and when it returns 0 or -1 every library, descriptor, epoll instance, array and
  session block has been released exactly once, while -11 leaves pipe ends only.\<close>

theorem iomp_daemon_releases_everything:
  assumes "fresh_env e" "fresh_pool os (env_mem e)"
    "\<forall>j < nat (process_count p). d_epoll_create os j \<noteq> -1"
    "\<forall>a \<in> set as. pipe_ok a" "\<forall>pid a. ChildEnds pid a \<in> set ws \<longrightarrow> pipe_ok a"
  shows "case tcpdaemon_IOMP p os as ws e of
       Some (Stop k e') \<Rightarrow> k = -11 \<and> (\<exists>Y. acquired e' = released e' + Y \<and> Y \<subseteq># pipe_ends e')
         \<or> (k = 0 \<or> k = -1) \<and> acquired e' = released e'
     | Some (Cont e') \<Rightarrow> False | Some (Waiting e') \<Rightarrow> True | None \<Rightarrow> False"
  using assms by (rule tcpdaemon_IOMP_bal)

theorem iomp_daemon_releases_everything_witness:
  "case tcpdaemon_IOMP demo_para (demo_os 21) demo_spawns demo_waits demo_env of
       Some (Stop k e') \<Rightarrow> k = -11 \<and> (\<exists>Y. acquired e' = released e' + Y \<and> Y \<subseteq># pipe_ends e')
         \<or> (k = 0 \<or> k = -1) \<and> acquired e' = released e'
     | Some (Cont e') \<Rightarrow> False | Some (Waiting e') \<Rightarrow> True | None \<Rightarrow> False"
  by (rule iomp_daemon_releases_everything [OF demo_fresh _ demo_pipes]) (simp add: demo_os_def demo_para_def)

text \<open>What the code does when \<open>epoll_create\<close> fails for any worker but the last: the entries it
  has not reached still hold the 0 of \<open>memset\<close>, and \<open>CleanDaemonEnv_IOMP\<close> closes them all, so that
  it closes descriptor 0, which the daemon never opened.\<close>

theorem epoll_failure_closes_descriptor_zero:
  assumes "starts_well p os" "fresh_env e" "fresh_pool os (env_mem e)"
    "Suc j < nat (process_count p)" "\<forall>x < j. d_epoll_create os x \<noteq> -1" "d_epoll_create os j = -1"
  shows "\<exists>e'. tcpdaemon_IOMP p os as ws e = Some (Stop (-1) e') \<and> CClose 0 \<in> set (calls e')"
  using assms by (rule epoll_failure_closes_zero)

theorem epoll_failure_closes_descriptor_zero_witness:
  "\<exists>e'. tcpdaemon_IOMP (demo_para\<lparr>process_count := 3\<rparr>) (demo_os (-1)) [] [] demo_env = Some (Stop (-1) e')
     \<and> CClose 0 \<in> set (calls e')"
  by (rule epoll_failure_closes_descriptor_zero [OF _ demo_fresh, of _ _ 1])
     (simp_all add: starts_well_def demo_os_def demo_para_def)

subsection \<open>The instance-fork daemon\<close>

definition demo_if :: if_cfg where
  "demo_if = \<lparr>if_limit = 1, if_tcp_nodelay = 1, if_tcp_linger = 0\<rparr>"

text \<open>One child is forked; a second connection is refused; \<open>SIGTERM\<close> arrives while the child runs.\<close>

definition demo_if_run :: "if_ans list" where
  "demo_if_run = [SelReady, AccOk 7, Proceed, ForkOk, Proceed, SelReady, AccOk 8, Proceed, SigTerm, SelIntr, Proceed]"

definition demo_if_state :: if_state where
  "demo_if_state = \<lparr>if_pc = IfWait, if_count = 1, if_sock = 8, g_EXIT_flag = True, live = 1, zombies = 0,
     if_trace = [EvAccept 7, EvNodelay 7, EvFork 7, EvClose 7, EvAccept 8, EvClose 8]\<rparr>"

lemmas if_eval = if_step_def if_parent_step_def if_goto_def if_note_def if_guard_def if_interrupted_def
  if_set_sock_opts_def sigproc_SIGTERM_def sigproc_SIGCHLD_def if_start_def

lemma demo_if_reachable: "if_reachable demo_if demo_if_state"
proof (rule if_reachable_run [OF if_first])
  show "if_run demo_if demo_if_run if_start = Some demo_if_state"
    by (simp add: demo_if_run_def demo_if_state_def demo_if_def if_eval)
qed

text \<open>C28: The instance-fork parent, at every reachable point, however its calls, its signal handlers
  and the ends of its children are interleaved: with a positive \<open>process_count\<close> parameter it never
  has more children than that; and while it serves, each connection it accepted before the
  current one has been closed in the parent once, in order.\<close>

theorem if_parent_bounded:
  assumes "if_reachable cfg s"
  shows "(if_limit cfg > 0 \<longrightarrow> int (live s + zombies s) \<le> if_limit cfg)
    \<and> (\<exists>xs. accepts_of_if s = closes_of_if s @ xs \<and> length xs \<le> 1)
    \<and> (if_pc s \<in> {IfSelect, IfReap, IfReaped, IfAccept} \<longrightarrow> accepts_of_if s = closes_of_if s)"
proof -
  have inv: "if_inv cfg s" using assms by (rule if_reachable_inv)
  then have "sockets_ok (if_pc s) (accepts_of_if s) (closes_of_if s) (if_sock s)" by (simp add: if_inv_def)
  then have "at_most_one (accepts_of_if s) (closes_of_if s)
      \<and> (if_pc s \<in> {IfSelect, IfReap, IfReaped, IfAccept} \<longrightarrow> accepts_of_if s = closes_of_if s)"
    by (cases "if_pc s") (auto simp: sockets_ok_def)
  then show ?thesis
    using inv by (auto simp: if_inv_def limit_ok_def if_children_def at_most_one_def)
qed

theorem if_parent_bounded_witness:
  "int (live demo_if_state + zombies demo_if_state) \<le> if_limit demo_if"
  using if_parent_bounded [OF demo_if_reachable] by (simp add: demo_if_def)

text \<open>C29: What the final loop of the instance-fork parent does: it waits for \<open>process_count\<close> to become 0,
  but only the \<open>SIGCHLD\<close> handler counts it down. If its own \<open>waitpid\<close> returns a child even once,
  then from there on, whatever happens, \<open>tcpdaemon_IF\<close> does not end.\<close>

theorem if_final_loop_hangs:
  assumes "if_reachable cfg s" "if_pc s = IfWait" "if_step cfg WaitChild s = Some t" "if_run cfg as t = Some u"
  shows "if_pc u \<noteq> IfEnd \<and> if_count u > 0"
proof -
  have "overcounted t" using wait_overcounts [OF if_reachable_inv [OF assms(1)] assms(2,3)] .
  then have "overcounted u" using overcounted_run assms(4) by blast
  then show ?thesis by (auto simp: overcounted_def if_children_def)
qed

theorem if_final_loop_hangs_witness:
  "\<exists>t u. if_run demo_if [ChildExits, WaitChild] demo_if_state = Some t
     \<and> if_run demo_if [Proceed, WaitNone, SigChld] t = Some u \<and> if_pc u \<noteq> IfEnd \<and> if_count u > 0"
proof -
  let ?s = "demo_if_state\<lparr>live := 0, zombies := 1\<rparr>"
  let ?t = "demo_if_state\<lparr>live := 0, zombies := 0, if_pc := IfDrain\<rparr>"
  let ?u = "demo_if_state\<lparr>live := 0, zombies := 0, if_pc := IfDrain\<rparr>"
  have r: "if_reachable demo_if ?s"
    by (rule if_reachable_run [OF demo_if_reachable, of "[ChildExits]"]) (simp add: demo_if_state_def if_eval)
  have w: "if_step demo_if WaitChild ?s = Some ?t" by (simp add: demo_if_state_def if_eval)
  have u: "if_run demo_if [Proceed, WaitNone, SigChld] ?t = Some ?u" by (simp add: demo_if_state_def if_eval)
  have "if_pc ?u \<noteq> IfEnd \<and> if_count ?u > 0"
    by (rule if_final_loop_hangs [OF r _ w u]) (simp add: demo_if_state_def)
  moreover have "if_run demo_if [ChildExits, WaitChild] demo_if_state = Some ?t"
    by (simp add: demo_if_state_def if_eval)
  ultimately show ?thesis using u by blast
qed

text \<open>A \<open>SIGTERM\<close> that does not interrupt a call is seen only when some later call is interrupted.\<close>

lemma sigterm_missed:
  assumes "if_pc s = IfSelect" "zombies s = 0"
  shows "if_run cfg (concat (replicate n [SelTimeout, WaitNone])) (sigproc_SIGTERM s) = Some (sigproc_SIGTERM s)"
  using assms
proof (induction n)
  case (Suc n)
  let ?s = "sigproc_SIGTERM s"
  have pc: "if_pc ?s = IfSelect" "zombies ?s = 0" using Suc.prems by (simp_all add: sigproc_SIGTERM_def)
  have "if_step cfg SelTimeout ?s = Some (if_goto IfReap ?s)" using pc by (simp add: if_step_def if_parent_step_def)
  moreover have "if_step cfg WaitNone (if_goto IfReap ?s) = Some (if_goto IfSelect (if_goto IfReap ?s))"
    using pc by (simp add: if_step_def if_parent_step_def)
  moreover have "if_goto IfSelect (if_goto IfReap ?s) = ?s" using pc(1) by (simp add: if_goto_def)
  ultimately show ?case using Suc by simp
qed simp

end
