(* ===== verification/Logc.thy ===== *)
theory Logc
  imports Tdhb
begin

text \<open>
  The logging library \<open>LOGC.c\<close>: the log file and level, the composition of a line and of a
  hexadecimal dump in fixed buffers with \<open>snprintf\<close>, and the level filters. What a format
  expands to is an argument \<open>msg\<close>; the clock, \<open>localtime_r\<close> with \<open>strftime\<close>, and \<open>open\<close> are
  parameters. Every write is recorded.
\<close>

definition MAXLEN_FILENAME :: nat where "MAXLEN_FILENAME = 256"

text \<open>Characters of a literal.\<close>

definition str :: "string \<Rightarrow> byte list" where
  "str s = map of_char s"

definition NEWLINE :: "byte list" where "NEWLINE = [10]"

definition log_level_itoa :: "string list" where
  "log_level_itoa = ['''', ''DEBUG'', ''INFO'', ''WARN'', ''ERROR'', ''FATAL'']"

datatype log_event = LogOpen string int | LogWrite int "byte list" | LogClose int

record log_state =
  g_log_pathfilename :: string
  g_log_level :: int
  g_pid :: int
  last_tv_sec :: int
  last_time_buf :: "byte list"
  log_events :: "log_event list"

record log_os =
  tv_sec :: int
  tv_usec :: int
  local_time :: "int \<Rightarrow> byte list"
  l_open :: int
  l_getpid :: int

definition log_emit :: "log_event \<Rightarrow> log_state \<Rightarrow> log_state" where
  "log_emit e st = st\<lparr>log_events := log_events st @ [e]\<rparr>"

subsection \<open>Settings\<close>

text \<open>\<open>vsnprintf\<close> with a size of one less than the array, which keeps a place for the zero itself.\<close>

definition SetLogFileV :: "string \<Rightarrow> log_state \<Rightarrow> log_state" where
  "SetLogFileV msg st = st\<lparr>g_log_pathfilename := take (MAXLEN_FILENAME - 1) msg\<rparr>"

definition SetLogFile :: "log_os \<Rightarrow> string \<Rightarrow> log_state \<Rightarrow> log_state" where
  "SetLogFile os msg st =
     (let st = st\<lparr>g_log_pathfilename := take (MAXLEN_FILENAME - 1) msg\<rparr>
      in st\<lparr>g_pid := l_getpid os\<rparr>)"

definition SetLogLevel :: "int \<Rightarrow> log_state \<Rightarrow> log_state" where
  "SetLogLevel log_level st = st\<lparr>g_log_level := log_level\<rparr>"

subsection \<open>A buffer that is filled from the left\<close>

text \<open>\<open>buffer\<close> has one place more than \<open>buflen + remain_len\<close>; \<open>bufptr\<close> is its place \<open>buflen\<close>.\<close>

record lbuf =
  buffer :: "byte list"
  buflen :: nat
  remain_len :: nat

definition lbuf_init :: "nat \<Rightarrow> lbuf" where
  "lbuf_init sizeof = \<lparr>buffer = replicate sizeof 0, buflen = 0, remain_len = sizeof - 1\<rparr>"

text \<open>What \<open>snprintf\<close> with size \<open>n\<close> leaves in an array, from place \<open>off\<close> on.\<close>

definition snprintf_at :: "nat \<Rightarrow> nat \<Rightarrow> byte list \<Rightarrow> byte list \<Rightarrow> byte list" where
  "snprintf_at off n msg arr =
     (if n = 0 then arr
      else take off arr @ overlay (take (n - 1) msg @ [0]) (drop off arr))"

text \<open>\<open>len = SNPRINTF( bufptr , remain_len , ... )\<close>.\<close>

definition SNPRINTF :: "byte list \<Rightarrow> lbuf \<Rightarrow> nat \<times> lbuf" where
  "SNPRINTF msg b = (length msg, b\<lparr>buffer := snprintf_at (buflen b) (remain_len b) msg (buffer b)\<rparr>)"

definition offset_ok :: "nat \<Rightarrow> lbuf \<Rightarrow> bool" where
  "offset_ok len b \<longleftrightarrow> len > 0 \<and> buflen b + len \<le> length (buffer b) - 1 \<and> buffer b ! buflen b \<noteq> 0"

definition OFFSET_BUFPTR :: "nat \<Rightarrow> lbuf \<Rightarrow> lbuf" where
  "OFFSET_BUFPTR len b =
     (if offset_ok len b then b\<lparr>buflen := buflen b + len, remain_len := remain_len b - len\<rparr> else b)"

text \<open>The variant that leaves the enclosing loop; the first component tells whether it does.\<close>

definition OFFSET_BUFPTR_IN_LOOP :: "nat \<Rightarrow> lbuf \<Rightarrow> bool \<times> lbuf" where
  "OFFSET_BUFPTR_IN_LOOP len b =
     (if offset_ok len b then (False, b\<lparr>buflen := buflen b + len, remain_len := remain_len b - len\<rparr>)
      else (True, b))"

definition append_log :: "byte list \<Rightarrow> lbuf \<Rightarrow> lbuf" where
  "append_log msg b = (let (len, b) = SNPRINTF msg b in OFFSET_BUFPTR len b)"

definition append_in_loop :: "byte list \<Rightarrow> lbuf \<Rightarrow> bool \<times> lbuf" where
  "append_in_loop msg b = (let (len, b) = SNPRINTF msg b in OFFSET_BUFPTR_IN_LOOP len b)"

subsection \<open>A line\<close>

fun strrchr :: "char \<Rightarrow> string \<Rightarrow> string option" where
  "strrchr c [] = None"
| "strrchr c (x # xs) =
     (case strrchr c xs of Some p \<Rightarrow> Some p | None \<Rightarrow> if x = c then Some (x # xs) else None)"

definition source_name :: "string \<Rightarrow> string" where
  "source_name c_filename =
     (let copy = take MAXLEN_FILENAME c_filename
      in case strrchr (CHR 0x5C) copy of Some p \<Rightarrow> tl p | None \<Rightarrow> copy)"

text \<open>The text of the current second, computed again only when the second has changed.\<close>

definition log_time :: "log_os \<Rightarrow> log_state \<Rightarrow> log_state" where
  "log_time os st =
     (if tv_sec os \<noteq> last_tv_sec st
      then st\<lparr>last_time_buf := local_time os (tv_sec os), last_tv_sec := tv_sec os\<rparr> else st)"

definition pad_right :: "nat \<Rightarrow> byte list \<Rightarrow> byte list" where
  "pad_right w s = s @ replicate (w - length s) 32"

definition log_prefix :: "log_os \<Rightarrow> int \<Rightarrow> string \<Rightarrow> int \<Rightarrow> log_state \<Rightarrow> byte list" where
  "log_prefix os log_level c_filename c_fileline st =
     last_time_buf st @ str ''.'' @ format_0d 6 (tv_usec os) @ str '' | ''
     @ pad_right 5 (str (log_level_itoa ! nat log_level)) @ str '' | ''
     @ format_0d 0 (g_pid st) @ str '':'' @ str (source_name c_filename) @ str '':''
     @ format_0d 0 c_fileline @ str '' | ''"

definition log_write :: "log_os \<Rightarrow> byte list \<Rightarrow> log_state \<Rightarrow> int \<times> log_state" where
  "log_write os bytes st =
     (if g_log_pathfilename st = [] then (0, log_emit (LogWrite 1 bytes) st)
      else
        (let fd = l_open os;
             st = log_emit (LogOpen (g_log_pathfilename st) fd) st
         in if fd = -1 then (-1, st)
            else (0, log_emit (LogClose fd) (log_emit (LogWrite fd bytes) st))))"

definition WriteLogBaseV ::
  "log_os \<Rightarrow> int \<Rightarrow> string \<Rightarrow> int \<Rightarrow> byte list \<Rightarrow> log_state \<Rightarrow> int \<times> log_state" where
  "WriteLogBaseV os log_level c_filename c_fileline msg st =
     (let st = log_time os st;
          b = lbuf_init (1024 + 1);
          b = append_log (log_prefix os log_level c_filename c_fileline st) b;
          b = append_log msg b;
          b = append_log NEWLINE b
      in log_write os (take (buflen b) (buffer b)) st)"

definition WriteLogBase ::
  "log_os \<Rightarrow> int \<Rightarrow> string \<Rightarrow> int \<Rightarrow> byte list \<Rightarrow> log_state \<Rightarrow> int \<times> log_state" where
  "WriteLogBase os log_level c_filename c_fileline msg st =
     (0, snd (WriteLogBaseV os log_level c_filename c_fileline msg st))"

subsection \<open>A hexadecimal dump\<close>

definition hex_digit :: "nat \<Rightarrow> byte" where
  "hex_digit d = of_nat (if d < 10 then 48 + d else 55 + d)"

text \<open>\<open>%0wX\<close>.\<close>

fun hex_digits :: "nat \<Rightarrow> byte list" where
  "hex_digits n = (if n < 16 then [hex_digit n] else hex_digits (n div 16) @ [hex_digit (n mod 16)])"

declare hex_digits.simps [simp del]

definition format_0X :: "nat \<Rightarrow> nat \<Rightarrow> byte list" where
  "format_0X w n = replicate (w - length (hex_digits n)) 48 @ hex_digits n"

definition isprint :: "byte \<Rightarrow> bool" where
  "isprint c \<longleftrightarrow> 32 \<le> uint c \<and> uint c \<le> 126"

definition hex_header :: "byte list" where
  "hex_header = str ''             0  1  2  3  4  5  6  7  8  9  A  B  C  D  E  F    0123456789ABCDEF''"

text \<open>What is put in a column of a row; \<open>None\<close> is a read outside of \<open>buf\<close>.\<close>

definition byte_at :: "byte list \<Rightarrow> nat \<Rightarrow> byte option" where
  "byte_at buf i = (if i < length buf then Some (buf ! i) else None)"

definition hex_cell :: "byte list \<Rightarrow> int \<Rightarrow> nat \<Rightarrow> nat \<Rightarrow> byte list option" where
  "hex_cell buf n row_offset col_offset =
     (if int (row_offset * 16 + col_offset) < n
      then map_option (\<lambda>c. format_0X 2 (unat c) @ [32]) (byte_at buf (row_offset * 16 + col_offset))
      else Some (str ''   ''))"

definition char_cell :: "byte list \<Rightarrow> int \<Rightarrow> nat \<Rightarrow> nat \<Rightarrow> byte list option" where
  "char_cell buf n row_offset col_offset =
     (if int (row_offset * 16 + col_offset) < n
      then map_option (\<lambda>c. if isprint c then [c] else str ''.'') (byte_at buf (row_offset * 16 + col_offset))
      else Some (str '' ''))"

text \<open>A loop over the columns: the column it ends at, and the buffer.\<close>

fun col_loop :: "(nat \<Rightarrow> byte list option) \<Rightarrow> nat \<Rightarrow> nat \<Rightarrow> lbuf \<Rightarrow> (nat \<times> lbuf) option" where
  "col_loop cell 0 col_offset b = Some (col_offset, b)"
| "col_loop cell (Suc k) col_offset b =
     (case cell col_offset of
        None \<Rightarrow> None
      | Some msg \<Rightarrow>
          (let (brk, b) = append_in_loop msg b
           in if brk then Some (col_offset, b) else col_loop cell k (Suc col_offset) b))"

definition hex_row :: "byte list \<Rightarrow> int \<Rightarrow> nat \<Rightarrow> lbuf \<Rightarrow> (bool \<times> lbuf) option" where
  "hex_row buf n row_offset b =
     (let (brk, b) = append_in_loop (str ''0x'' @ format_0X 8 (row_offset * 16) @ str ''   '') b
      in if brk then Some (True, b)
      else (case col_loop (hex_cell buf n row_offset) 16 0 b of
              None \<Rightarrow> None
            | Some (_, b) \<Rightarrow>
      let (brk, b) = append_in_loop (str ''  '') b
      in if brk then Some (True, b)
      else (case col_loop (char_cell buf n row_offset) 16 0 b of
              None \<Rightarrow> None
            | Some (col_offset, b) \<Rightarrow>
      let (brk, b) = append_in_loop NEWLINE b
      in if brk then Some (True, b)
      else Some (int (row_offset * 16 + col_offset) \<ge> n, b))))"

lemma append_in_loop_remain:
  "append_in_loop msg b = (brk, b') \<Longrightarrow> remain_len b' \<le> remain_len b
     \<and> (\<not> brk \<longrightarrow> remain_len b > 0 \<longrightarrow> remain_len b' < remain_len b)"
  by (auto simp: append_in_loop_def SNPRINTF_def OFFSET_BUFPTR_IN_LOOP_def offset_ok_def split: if_splits)

lemma col_loop_remain: "col_loop cell k c b = Some (c', b') \<Longrightarrow> remain_len b' \<le> remain_len b"
proof (induction k arbitrary: c b)
  case (Suc k)
  obtain msg where m: "cell c = Some msg" using Suc.prems by (auto split: option.splits)
  obtain brk b1 where a: "append_in_loop msg b = (brk, b1)" by fastforce
  then show ?case
    using Suc.prems Suc.IH [of "Suc c" b1] m append_in_loop_remain [OF a] by (auto split: if_splits)
qed simp

lemma hex_row_remain:
  assumes "hex_row buf n r b = Some (brk, b')" "\<not> brk" "remain_len b > 0"
  shows "remain_len b' < remain_len b"
proof -
  obtain k1 b1 where 1: "append_in_loop (str ''0x'' @ format_0X 8 (r * 16) @ str ''   '') b = (k1, b1)" by fastforce
  then have k1: "\<not> k1" using assms by (auto simp: hex_row_def)
  then obtain c2 b2 where 2: "col_loop (hex_cell buf n r) 16 0 b1 = Some (c2, b2)"
    using assms(1) 1 by (auto simp: hex_row_def split: option.splits)
  obtain k3 b3 where 3: "append_in_loop (str ''  '') b2 = (k3, b3)" by fastforce
  then have k3: "\<not> k3" using assms(1,2) 1 2 k1 by (auto simp: hex_row_def)
  then obtain c4 b4 where 4: "col_loop (char_cell buf n r) 16 0 b3 = Some (c4, b4)"
    using assms(1) 1 2 3 k1 by (auto simp: hex_row_def split: option.splits)
  obtain k5 b5 where 5: "append_in_loop NEWLINE b4 = (k5, b5)" by fastforce
  then have "b' = b5" using assms(1) 1 2 3 4 k1 k3 by (auto simp: hex_row_def split: if_splits)
  then show ?thesis
    using append_in_loop_remain [OF 1] append_in_loop_remain [OF 3] append_in_loop_remain [OF 5]
      col_loop_remain [OF 2] col_loop_remain [OF 4] k1 assms(3) by auto
qed

function hex_rows :: "byte list \<Rightarrow> int \<Rightarrow> nat \<Rightarrow> lbuf \<Rightarrow> lbuf option" where
  "hex_rows buf n row_offset b =
     (if remain_len b > 0
      then (case hex_row buf n row_offset b of
              None \<Rightarrow> None
            | Some (brk, b') \<Rightarrow> if brk then Some b' else hex_rows buf n (row_offset + 1) b')
      else Some b)"
  by auto
termination
  by (relation "measure (\<lambda>(buf, n, r, b). remain_len b)") (auto dest: hex_row_remain)

declare hex_rows.simps [simp del]

definition last_newline :: "lbuf \<Rightarrow> lbuf" where
  "last_newline b =
     (if buffer b ! (buflen b - 1) \<noteq> hd NEWLINE then b\<lparr>buffer := (buffer b)[buflen b - 1 := hd NEWLINE]\<rparr> else b)"

text \<open>
  \<open>buf\<close> is \<open>None\<close> for a null pointer. The comparison of the \<open>long\<close> argument \<open>n\<close> with a \<open>sizeof\<close>
  is unsigned. \<open>None\<close>: an access outside of \<open>buf\<close>.
\<close>

definition WriteHexLogBaseV ::
  "log_os \<Rightarrow> int \<Rightarrow> string \<Rightarrow> int \<Rightarrow> byte list option \<Rightarrow> int \<Rightarrow> byte list \<Rightarrow> log_state
   \<Rightarrow> (int \<times> log_state) option" where
  "WriteHexLogBaseV os log_level c_filename c_fileline buf n msg st =
     (if buf = None \<and> n \<le> 0 then Some (0, st)
      else if n < 0 \<or> n > 4096 * 10 then Some (-1, st)
      else
        (let (_, st) = WriteLogBaseV os log_level c_filename c_fileline msg st;
             b = lbuf_init (4096 * 10 + 1);
             b = append_log hex_header b;
             b = append_log NEWLINE b
         in case hex_rows (case buf of None \<Rightarrow> [] | Some bs \<Rightarrow> bs) n 0 b of
              None \<Rightarrow> None
            | Some b \<Rightarrow> (let b = last_newline b in Some (log_write os (take (buflen b) (buffer b)) st))))"

definition WriteHexLogBase ::
  "log_os \<Rightarrow> int \<Rightarrow> string \<Rightarrow> int \<Rightarrow> byte list option \<Rightarrow> int \<Rightarrow> byte list \<Rightarrow> log_state
   \<Rightarrow> (int \<times> log_state) option" where
  "WriteHexLogBase os log_level c_filename c_fileline buf n msg st =
     map_option (\<lambda>r. (0, snd r)) (WriteHexLogBaseV os log_level c_filename c_fileline buf n msg st)"

end
