(* ===== verification/LogLevels.thy ===== *)
theory LogLevels
  imports Logc
begin

text \<open>
  The level filters of \<open>LOGC.c\<close> and \<open>LOGC.h\<close>, which exist twice: as functions for C90, and as
  macros, which are what the library is compiled with (\<open>-std=gnu99\<close>).
\<close>

subsection \<open>The functions\<close>

definition WriteLog ::
  "log_os \<Rightarrow> int \<Rightarrow> string \<Rightarrow> int \<Rightarrow> byte list \<Rightarrow> log_state \<Rightarrow> int \<times> log_state" where
  "WriteLog os log_level f l msg st =
     (if log_level < g_log_level st then (0, st)
      else (0, snd (WriteLogBaseV os log_level f l msg st)))"

definition FatalLog :: "log_os \<Rightarrow> string \<Rightarrow> int \<Rightarrow> byte list \<Rightarrow> log_state \<Rightarrow> int \<times> log_state" where
  "FatalLog os f l msg st =
     (if LOGLEVEL_FATAL < g_log_level st then (0, st)
      else (0, snd (WriteLogBaseV os LOGLEVEL_FATAL f l msg st)))"

definition ErrorLog :: "log_os \<Rightarrow> string \<Rightarrow> int \<Rightarrow> byte list \<Rightarrow> log_state \<Rightarrow> int \<times> log_state" where
  "ErrorLog os f l msg st =
     (if LOGLEVEL_ERROR < g_log_level st then (0, st)
      else (0, snd (WriteLogBaseV os LOGLEVEL_ERROR f l msg st)))"

definition WarnLog :: "log_os \<Rightarrow> string \<Rightarrow> int \<Rightarrow> byte list \<Rightarrow> log_state \<Rightarrow> int \<times> log_state" where
  "WarnLog os f l msg st =
     (if LOGLEVEL_WARN < g_log_level st then (0, st)
      else (0, snd (WriteLogBaseV os LOGLEVEL_WARN f l msg st)))"

definition InfoLog :: "log_os \<Rightarrow> string \<Rightarrow> int \<Rightarrow> byte list \<Rightarrow> log_state \<Rightarrow> int \<times> log_state" where
  "InfoLog os f l msg st =
     (if LOGLEVEL_INFO < g_log_level st then (0, st)
      else (0, snd (WriteLogBaseV os LOGLEVEL_INFO f l msg st)))"

definition DebugLog :: "log_os \<Rightarrow> string \<Rightarrow> int \<Rightarrow> byte list \<Rightarrow> log_state \<Rightarrow> int \<times> log_state" where
  "DebugLog os f l msg st =
     (if LOGLEVEL_DEBUG < g_log_level st then (0, st)
      else (0, snd (WriteLogBaseV os LOGLEVEL_DEBUG f l msg st)))"

definition WriteHexLog ::
  "log_os \<Rightarrow> int \<Rightarrow> string \<Rightarrow> int \<Rightarrow> byte list option \<Rightarrow> int \<Rightarrow> byte list \<Rightarrow> log_state
   \<Rightarrow> (int \<times> log_state) option" where
  "WriteHexLog os log_level f l buf n msg st =
     (if log_level < g_log_level st then Some (0, st)
      else map_option (\<lambda>r. (0, snd r)) (WriteHexLogBaseV os log_level f l buf n msg st))"

definition FatalHexLog ::
  "log_os \<Rightarrow> string \<Rightarrow> int \<Rightarrow> byte list option \<Rightarrow> int \<Rightarrow> byte list \<Rightarrow> log_state \<Rightarrow> (int \<times> log_state) option" where
  "FatalHexLog os f l buf n msg st =
     (if LOGLEVEL_FATAL < g_log_level st then Some (0, st)
      else map_option (\<lambda>r. (0, snd r)) (WriteHexLogBaseV os LOGLEVEL_FATAL f l buf n msg st))"

definition ErrorHexLog ::
  "log_os \<Rightarrow> string \<Rightarrow> int \<Rightarrow> byte list option \<Rightarrow> int \<Rightarrow> byte list \<Rightarrow> log_state \<Rightarrow> (int \<times> log_state) option" where
  "ErrorHexLog os f l buf n msg st =
     (if LOGLEVEL_ERROR < g_log_level st then Some (0, st)
      else map_option (\<lambda>r. (0, snd r)) (WriteHexLogBaseV os LOGLEVEL_ERROR f l buf n msg st))"

definition WarnHexLog ::
  "log_os \<Rightarrow> string \<Rightarrow> int \<Rightarrow> byte list option \<Rightarrow> int \<Rightarrow> byte list \<Rightarrow> log_state \<Rightarrow> (int \<times> log_state) option" where
  "WarnHexLog os f l buf n msg st =
     (if LOGLEVEL_WARN < g_log_level st then Some (0, st)
      else map_option (\<lambda>r. (0, snd r)) (WriteHexLogBaseV os LOGLEVEL_WARN f l buf n msg st))"

definition InfoHexLog ::
  "log_os \<Rightarrow> string \<Rightarrow> int \<Rightarrow> byte list option \<Rightarrow> int \<Rightarrow> byte list \<Rightarrow> log_state \<Rightarrow> (int \<times> log_state) option" where
  "InfoHexLog os f l buf n msg st =
     (if LOGLEVEL_INFO < g_log_level st then Some (0, st)
      else map_option (\<lambda>r. (0, snd r)) (WriteHexLogBaseV os LOGLEVEL_INFO f l buf n msg st))"

definition DebugHexLog ::
  "log_os \<Rightarrow> string \<Rightarrow> int \<Rightarrow> byte list option \<Rightarrow> int \<Rightarrow> byte list \<Rightarrow> log_state \<Rightarrow> (int \<times> log_state) option" where
  "DebugHexLog os f l buf n msg st =
     (if LOGLEVEL_DEBUG < g_log_level st then Some (0, st)
      else map_option (\<lambda>r. (0, snd r)) (WriteHexLogBaseV os LOGLEVEL_DEBUG f l buf n msg st))"

subsection \<open>The macros\<close>

text \<open>A macro is a statement, so what it gives is a state.\<close>

definition WriteLog_macro ::
  "log_os \<Rightarrow> int \<Rightarrow> string \<Rightarrow> int \<Rightarrow> byte list \<Rightarrow> log_state \<Rightarrow> log_state" where
  "WriteLog_macro os log_level f l msg st =
     (if log_level \<ge> g_log_level st then snd (WriteLogBase os log_level f l msg st) else st)"

definition FatalLog_macro :: "log_os \<Rightarrow> string \<Rightarrow> int \<Rightarrow> byte list \<Rightarrow> log_state \<Rightarrow> log_state" where
  "FatalLog_macro os f l msg st =
     (if LOGLEVEL_FATAL \<ge> g_log_level st then snd (WriteLogBase os LOGLEVEL_FATAL f l msg st) else st)"

definition ErrorLog_macro :: "log_os \<Rightarrow> string \<Rightarrow> int \<Rightarrow> byte list \<Rightarrow> log_state \<Rightarrow> log_state" where
  "ErrorLog_macro os f l msg st =
     (if LOGLEVEL_ERROR \<ge> g_log_level st then snd (WriteLogBase os LOGLEVEL_ERROR f l msg st) else st)"

definition WarnLog_macro :: "log_os \<Rightarrow> string \<Rightarrow> int \<Rightarrow> byte list \<Rightarrow> log_state \<Rightarrow> log_state" where
  "WarnLog_macro os f l msg st =
     (if LOGLEVEL_WARN \<ge> g_log_level st then snd (WriteLogBase os LOGLEVEL_WARN f l msg st) else st)"

definition InfoLog_macro :: "log_os \<Rightarrow> string \<Rightarrow> int \<Rightarrow> byte list \<Rightarrow> log_state \<Rightarrow> log_state" where
  "InfoLog_macro os f l msg st =
     (if LOGLEVEL_INFO \<ge> g_log_level st then snd (WriteLogBase os LOGLEVEL_INFO f l msg st) else st)"

definition DebugLog_macro :: "log_os \<Rightarrow> string \<Rightarrow> int \<Rightarrow> byte list \<Rightarrow> log_state \<Rightarrow> log_state" where
  "DebugLog_macro os f l msg st =
     (if LOGLEVEL_DEBUG \<ge> g_log_level st then snd (WriteLogBase os LOGLEVEL_DEBUG f l msg st) else st)"

definition WriteHexLog_macro ::
  "log_os \<Rightarrow> int \<Rightarrow> string \<Rightarrow> int \<Rightarrow> byte list option \<Rightarrow> int \<Rightarrow> byte list \<Rightarrow> log_state \<Rightarrow> log_state option" where
  "WriteHexLog_macro os log_level f l buf n msg st =
     (if log_level \<ge> g_log_level st then map_option snd (WriteHexLogBase os log_level f l buf n msg st)
      else Some st)"

definition FatalHexLog_macro ::
  "log_os \<Rightarrow> string \<Rightarrow> int \<Rightarrow> byte list option \<Rightarrow> int \<Rightarrow> byte list \<Rightarrow> log_state \<Rightarrow> log_state option" where
  "FatalHexLog_macro os f l buf n msg st =
     (if LOGLEVEL_FATAL \<ge> g_log_level st then map_option snd (WriteHexLogBase os LOGLEVEL_FATAL f l buf n msg st)
      else Some st)"

definition ErrorHexLog_macro ::
  "log_os \<Rightarrow> string \<Rightarrow> int \<Rightarrow> byte list option \<Rightarrow> int \<Rightarrow> byte list \<Rightarrow> log_state \<Rightarrow> log_state option" where
  "ErrorHexLog_macro os f l buf n msg st =
     (if LOGLEVEL_ERROR \<ge> g_log_level st then map_option snd (WriteHexLogBase os LOGLEVEL_ERROR f l buf n msg st)
      else Some st)"

definition WarnHexLog_macro ::
  "log_os \<Rightarrow> string \<Rightarrow> int \<Rightarrow> byte list option \<Rightarrow> int \<Rightarrow> byte list \<Rightarrow> log_state \<Rightarrow> log_state option" where
  "WarnHexLog_macro os f l buf n msg st =
     (if LOGLEVEL_WARN \<ge> g_log_level st then map_option snd (WriteHexLogBase os LOGLEVEL_WARN f l buf n msg st)
      else Some st)"

definition InfoHexLog_macro ::
  "log_os \<Rightarrow> string \<Rightarrow> int \<Rightarrow> byte list option \<Rightarrow> int \<Rightarrow> byte list \<Rightarrow> log_state \<Rightarrow> log_state option" where
  "InfoHexLog_macro os f l buf n msg st =
     (if LOGLEVEL_INFO \<ge> g_log_level st then map_option snd (WriteHexLogBase os LOGLEVEL_INFO f l buf n msg st)
      else Some st)"

definition DebugHexLog_macro ::
  "log_os \<Rightarrow> string \<Rightarrow> int \<Rightarrow> byte list option \<Rightarrow> int \<Rightarrow> byte list \<Rightarrow> log_state \<Rightarrow> log_state option" where
  "DebugHexLog_macro os f l buf n msg st =
     (if LOGLEVEL_DEBUG \<ge> g_log_level st then map_option snd (WriteHexLogBase os LOGLEVEL_DEBUG f l buf n msg st)
      else Some st)"

lemmas log_levels = WriteLog_def FatalLog_def ErrorLog_def WarnLog_def InfoLog_def DebugLog_def
  WriteLog_macro_def FatalLog_macro_def ErrorLog_macro_def WarnLog_macro_def InfoLog_macro_def DebugLog_macro_def

lemmas hex_levels = WriteHexLog_def FatalHexLog_def ErrorHexLog_def WarnHexLog_def InfoHexLog_def DebugHexLog_def
  WriteHexLog_macro_def FatalHexLog_macro_def ErrorHexLog_macro_def WarnHexLog_macro_def InfoHexLog_macro_def
  DebugHexLog_macro_def

text \<open>A filter lets a message pass exactly when its level is not below the level that is set.\<close>

lemma macro_is_function:
  "WriteLog_macro os lv f l msg st = snd (WriteLog os lv f l msg st)"
  "WriteHexLog_macro os lv f l buf n msg st = map_option snd (WriteHexLog os lv f l buf n msg st)"
  by (auto simp: log_levels hex_levels WriteLogBase_def WriteHexLogBase_def option.map_comp comp_def)

lemma level_filters:
  "FatalLog os f l msg st = WriteLog os LOGLEVEL_FATAL f l msg st"
  "ErrorLog os f l msg st = WriteLog os LOGLEVEL_ERROR f l msg st"
  "WarnLog os f l msg st = WriteLog os LOGLEVEL_WARN f l msg st"
  "InfoLog os f l msg st = WriteLog os LOGLEVEL_INFO f l msg st"
  "DebugLog os f l msg st = WriteLog os LOGLEVEL_DEBUG f l msg st"
  by (simp_all add: log_levels)

end
