(* ===== verification/LogInv.thy ===== *)
theory LogInv
  imports LogLevels
begin

text \<open>
  Facts about the log buffers: what is in them stays what was put there, nothing is written
  past their end, and as long as everything fits a dump is the text that \<open>hex_dump\<close> describes.
\<close>

subsection \<open>A buffer in use\<close>

text \<open>\<open>fits cap b\<close>: the sizes agree; \<open>holds cap s b\<close>: \<open>s\<close> has been put in.\<close>

definition fits :: "nat \<Rightarrow> lbuf \<Rightarrow> bool" where
  "fits cap b \<longleftrightarrow> length (buffer b) = cap + 1 \<and> buflen b + remain_len b = cap"

definition holds :: "nat \<Rightarrow> byte list \<Rightarrow> lbuf \<Rightarrow> bool" where
  "holds cap s b \<longleftrightarrow> fits cap b \<and> buflen b = length s \<and> take (length s) (buffer b) = s"

lemma fits_init: "fits cap (lbuf_init (cap + 1))"
  by (simp add: fits_def lbuf_init_def)

lemma holds_init: "holds cap [] (lbuf_init (cap + 1))"
  using fits_init [of cap] by (simp add: holds_def lbuf_init_def)

lemma length_snprintf_at:
  "off + n \<le> length arr \<Longrightarrow> length (snprintf_at off n msg arr) = length arr"
  by (auto simp: snprintf_at_def overlay_def)

lemma fits_SNPRINTF:
  assumes "fits cap b" "SNPRINTF msg b = (len, b')"
  shows "fits cap b' \<and> buflen b' = buflen b \<and> remain_len b' = remain_len b \<and> len = length msg"
  using assms by (auto simp: SNPRINTF_def fits_def length_snprintf_at)

lemma fits_append:
  assumes "fits cap b"
  shows "fits cap (append_log msg b) \<and> buflen b \<le> buflen (append_log msg b)"
proof -
  obtain len b1 where s: "SNPRINTF msg b = (len, b1)" by fastforce
  show ?thesis
    using fits_SNPRINTF [OF assms s] s
    by (auto simp: append_log_def OFFSET_BUFPTR_def offset_ok_def fits_def)
qed

lemma append_in_loop_eq: "append_in_loop msg b = (brk, b') \<Longrightarrow> b' = append_log msg b"
  by (auto simp: append_in_loop_def append_log_def SNPRINTF_def OFFSET_BUFPTR_def OFFSET_BUFPTR_IN_LOOP_def
      split: if_splits)

lemma fits_append_in_loop:
  "fits cap b \<Longrightarrow> append_in_loop msg b = (brk, b') \<Longrightarrow> fits cap b' \<and> buflen b \<le> buflen b'"
  using append_in_loop_eq fits_append by blast

lemma take_snprintf_at: "off \<le> length arr \<Longrightarrow> take off (snprintf_at off n msg arr) = take off arr"
  by (simp add: snprintf_at_def)

lemma take_snprintf_msg:
  "off + length msg < length arr \<Longrightarrow> length msg < n \<Longrightarrow>
   take (off + length msg) (snprintf_at off n msg arr) = take off arr @ msg"
  by (simp add: snprintf_at_def overlay_def)

lemma nth_snprintf:
  "off + n \<le> length arr \<Longrightarrow> 0 < n \<Longrightarrow> snprintf_at off n msg arr ! off = (if n = 1 \<or> msg = [] then 0 else hd msg)"
  by (cases msg; cases "n - 1") (auto simp: snprintf_at_def overlay_def nth_append)

lemma SNPRINTF_fields:
  "SNPRINTF msg b = (length msg, b\<lparr>buffer := snprintf_at (buflen b) (remain_len b) msg (buffer b)\<rparr>)"
  by (simp add: SNPRINTF_def)

text \<open>A message that fits with room for its zero.\<close>

lemma holds_append:
  assumes "holds cap s b" "msg \<noteq> []" "hd msg \<noteq> 0" "length s + length msg < cap"
  shows "holds cap (s @ msg) (append_log msg b) \<and> append_in_loop msg b = (False, append_log msg b)"
proof -
  let ?arr = "snprintf_at (buflen b) (remain_len b) msg (buffer b)"
  have b: "length (buffer b) = cap + 1" "buflen b = length s" "remain_len b = cap - length s" "take (length s) (buffer b) = s"
    using assms(1) by (auto simp: holds_def fits_def)
  have len: "length ?arr = cap + 1" using b assms(4) by (simp add: length_snprintf_at)
  have "remain_len b \<noteq> 1" using b assms(2,4) by (cases msg) auto
  then have "?arr ! length s \<noteq> 0" using nth_snprintf [of "buflen b" "remain_len b" "buffer b" msg] b assms by auto
  moreover have "take (length s + length msg) ?arr = s @ msg"
    using take_snprintf_msg [of "buflen b" msg "buffer b" "remain_len b"] b assms(4) by simp
  ultimately show ?thesis
    using b assms(2,4) len
    by (auto simp: append_log_def append_in_loop_def SNPRINTF_def OFFSET_BUFPTR_def OFFSET_BUFPTR_IN_LOOP_def
        offset_ok_def holds_def fits_def)
qed

text \<open>The other cases at the end of a buffer.\<close>

lemma holds_append_long:
  assumes "holds cap s b" "length s + length msg > cap"
  shows "holds cap s (append_log msg b)"
proof -
  have b: "length (buffer b) = cap + 1" "buflen b = length s" "remain_len b = cap - length s" "take (length s) (buffer b) = s"
      "length s \<le> cap"
    using assms(1) by (auto simp: holds_def fits_def)
  then have "length (snprintf_at (buflen b) (remain_len b) msg (buffer b)) = cap + 1" by (simp add: length_snprintf_at)
  then show ?thesis
    using b assms(2) take_snprintf_at [of "length s" "buffer b" "remain_len b" msg]
    by (auto simp: append_log_def SNPRINTF_def OFFSET_BUFPTR_def offset_ok_def holds_def fits_def)
qed

lemma holds_append_exact:
  assumes "holds cap s b" "length msg > 1" "hd msg \<noteq> 0" "length s + length msg = cap"
  shows "holds cap (s @ butlast msg @ [0]) (append_log msg b)"
proof -
  let ?arr = "snprintf_at (buflen b) (remain_len b) msg (buffer b)"
  have b: "length (buffer b) = cap + 1" "buflen b = length s" "remain_len b = length msg" "take (length s) (buffer b) = s"
    using assms(1,4) by (auto simp: holds_def fits_def)
  have len: "length ?arr = cap + 1" using b assms(4) by (simp add: length_snprintf_at)
  have "?arr ! length s \<noteq> 0"
    using nth_snprintf [of "buflen b" "remain_len b" "buffer b" msg] b assms by (cases msg) auto
  moreover have "take (length s + length msg) ?arr = s @ butlast msg @ [0]"
    using b assms(2) by (cases "msg = []") (simp_all add: snprintf_at_def overlay_def butlast_conv_take)
  ultimately show ?thesis
    using b assms(2,4) len
    by (auto simp: append_log_def SNPRINTF_def OFFSET_BUFPTR_def offset_ok_def holds_def fits_def)
qed

lemma holds_append_last:
  assumes "holds cap s b" "length s + 1 = cap" "length msg = 1"
  shows "holds cap s (append_log msg b)"
proof -
  have b: "length (buffer b) = cap + 1" "buflen b = length s" "remain_len b = 1" "take (length s) (buffer b) = s"
    using assms by (auto simp: holds_def fits_def)
  then have "snprintf_at (buflen b) 1 msg (buffer b) ! length s = 0"
    using nth_snprintf [of "buflen b" 1 "buffer b" msg] assms(2) by simp
  then show ?thesis
    using b assms take_snprintf_at [of "length s" "buffer b" 1 msg]
    by (auto simp: append_log_def SNPRINTF_def OFFSET_BUFPTR_def offset_ok_def holds_def fits_def length_snprintf_at)
qed

lemma holds_append_nil: "holds cap s b \<Longrightarrow> holds cap s (append_log [] b)"
  using take_snprintf_at [of "length s" "buffer b" "remain_len b" "[]"]
  by (auto simp: append_log_def SNPRINTF_def OFFSET_BUFPTR_def offset_ok_def holds_def fits_def length_snprintf_at)

subsection \<open>A line\<close>

text \<open>What a line of prefix \<open>p\<close> and message \<open>m\<close> is.\<close>

definition line_of :: "byte list \<Rightarrow> byte list \<Rightarrow> byte list" where
  "line_of p m =
     (if length p + length m > 1024 then p @ NEWLINE
      else if length p + length m = 1024 then p @ butlast m @ [0]
      else if length p + length m = 1023 then p @ m
      else p @ m @ NEWLINE)"

lemma line_correct:
  assumes "p \<noteq> []" "hd p \<noteq> 0" "length p < 1022" "m = [] \<or> hd m \<noteq> 0"
  defines "b \<equiv> append_log NEWLINE (append_log m (append_log p (lbuf_init (1024 + 1))))"
  shows "take (buflen b) (buffer b) = line_of p m"
proof -
  have n: "NEWLINE \<noteq> []" "hd NEWLINE \<noteq> 0" "length NEWLINE = 1" by (simp_all add: NEWLINE_def)
  have 1: "holds 1024 p (append_log p (lbuf_init (1024 + 1)))"
    using holds_append [OF holds_init [of 1024] assms(1,2)] assms(3) by simp
  consider "length p + length m > 1024" | "length p + length m = 1024"
    | "length p + length m = 1023" | "length p + length m < 1023" by linarith
  then have "holds 1024 (line_of p m) b"
  proof cases
    case 1
    have "holds 1024 p (append_log m (append_log p (lbuf_init (1024 + 1))))"
      by (rule holds_append_long [OF \<open>holds 1024 p _\<close> 1])
    from holds_append [OF this n(1,2)] show ?thesis
      using assms(3) 1 n(3) by (simp add: b_def line_of_def)
  next
    case 2
    then have m: "length m > 1" "hd m \<noteq> 0" using assms(3,4) by auto
    from holds_append_exact [OF 1 m 2]
    have h: "holds 1024 (p @ butlast m @ [0]) (append_log m (append_log p (lbuf_init (1024 + 1))))" .
    have "holds 1024 (p @ butlast m @ [0]) b"
      unfolding b_def using 2 n(3) m by (intro holds_append_long [OF h]) simp
    then show ?thesis using 2 by (simp add: line_of_def)
  next
    case 3
    then have h: "holds 1024 (p @ m) (append_log m (append_log p (lbuf_init (1024 + 1))))"
      using holds_append [OF 1, of m] holds_append_nil [OF 1] assms(4) by (cases "m = []") auto
    have "holds 1024 (p @ m) b"
      unfolding b_def using 3 n(3) by (intro holds_append_last [OF h]) simp_all
    then show ?thesis using 3 by (simp add: line_of_def)
  next
    case 4
    then have h: "holds 1024 (p @ m) (append_log m (append_log p (lbuf_init (1024 + 1))))"
      using holds_append [OF 1, of m] holds_append_nil [OF 1] assms(4) by (cases "m = []") auto
    have "holds 1024 ((p @ m) @ NEWLINE) b"
      unfolding b_def using holds_append [OF h n(1,2)] 4 n(3) by simp
    then show ?thesis using 4 by (simp add: line_of_def)
  qed
  then show ?thesis by (simp add: holds_def)
qed

end
