(* ===== verification/LogHex.thy ===== *)
theory LogHex
  imports LogInv
begin

text \<open>
  The hexadecimal dump against the text it should be: \<open>hex_dump\<close> describes that text by the bytes
  alone, without buffers, columns or offsets.
\<close>

definition hex_line :: "nat \<Rightarrow> byte list \<Rightarrow> byte list" where
  "hex_line r xs = str ''0x'' @ format_0X 8 (16 * r) @ str ''   ''
     @ concat (map (\<lambda>c. format_0X 2 (unat c) @ str '' '') xs) @ concat (replicate (16 - length xs) (str ''   ''))
     @ str ''  ''
     @ map (\<lambda>c. if isprint c then c else 46) xs @ concat (replicate (16 - length xs) (str '' '')) @ NEWLINE"

function hex_lines :: "nat \<Rightarrow> byte list \<Rightarrow> byte list" where
  "hex_lines r xs = hex_line r (take 16 xs) @ (if length xs \<le> 16 then [] else hex_lines (r + 1) (drop 16 xs))"
  by auto
termination by (relation "measure (\<lambda>(r, xs). length xs)") auto

declare hex_lines.simps [simp del]

definition hex_dump :: "byte list \<Rightarrow> byte list" where
  "hex_dump xs = hex_header @ NEWLINE @ hex_lines 0 xs"

subsection \<open>Lengths\<close>

lemma length_hex_digits: "n < 16 ^ k \<Longrightarrow> 0 < k \<Longrightarrow> length (hex_digits n) \<le> k"
proof (induction k arbitrary: n)
  case (Suc k)
  show ?case
  proof (cases "n < 16")
    case True
    then show ?thesis by (subst hex_digits.simps) simp
  next
    case False
    then have "0 < k" using Suc.prems by (cases k) auto
    moreover have "n div 16 < 16 ^ k" using Suc.prems by (simp add: less_mult_imp_div_less)
    ultimately show ?thesis using Suc.IH [of "n div 16"] False by (subst hex_digits.simps) simp
  qed
qed simp

lemma hex_digits_pos: "hex_digits n \<noteq> []"
  by (subst hex_digits.simps) simp

lemma length_format_0X: "n < 16 ^ w \<Longrightarrow> 0 < w \<Longrightarrow> length (format_0X w n) = w"
  using length_hex_digits [of n w] by (simp add: format_0X_def)

lemma hex_digit_nonzero: "d < 16 \<Longrightarrow> hex_digit d \<noteq> 0"
proof
  assume "d < 16" "hex_digit d = 0"
  then have "unat (hex_digit d) = 0" by simp
  with \<open>d < 16\<close> show False by (auto simp: hex_digit_def unat_of_nat split: if_splits)
qed

lemma hex_digits_nonzero: "b \<in> set (hex_digits n) \<Longrightarrow> b \<noteq> 0"
proof (induction n arbitrary: b rule: hex_digits.induct)
  case (1 n)
  show ?case
    using 1 by (subst (asm) (2) hex_digits.simps) (auto simp: hex_digit_nonzero split: if_splits)
qed

lemma hd_format_0X: "0 < w \<Longrightarrow> format_0X w n \<noteq> [] \<and> hd (format_0X w n) \<noteq> 0"
  using hex_digits_pos [of n] hex_digits_nonzero [of "hd (hex_digits n)" n]
  by (cases "w - length (hex_digits n)") (auto simp: format_0X_def)

lemma length_concat_replicate: "length (concat (replicate k xs)) = k * length xs"
  by (induction k) simp_all

lemma length_hex_cells:
  fixes xs :: "byte list"
  shows "length (concat (map (\<lambda>c. format_0X 2 (unat c) @ str '' '') xs)) = 3 * length xs"
proof (induction xs)
  case (Cons x xs)
  have "unat x < 2 ^ LENGTH(8)" by (rule unsigned_less)
  then have "unat x < 16 ^ 2" by simp
  then have "length (format_0X 2 (unat x)) = 2" by (intro length_format_0X) simp_all
  then show ?case using Cons by (simp add: str_def)
qed simp

lemma length_hex_line:
  assumes "length xs \<le> 16" "r < 2 ^ 28"
  shows "length (hex_line r xs) = 80"
proof -
  have "length (format_0X 8 (16 * r)) = 8" using assms(2) by (intro length_format_0X) simp_all
  then show ?thesis
    using assms(1) by (simp only: hex_line_def length_append length_hex_cells length_concat_replicate length_map)
      (simp add: str_def NEWLINE_def)
qed

lemma length_hex_lines:
  "r + length xs div 16 + 1 < 2 ^ 28 \<Longrightarrow> length (hex_lines r xs) = 80 * (if xs = [] then 1 else (length xs + 15) div 16)"
proof (induction r xs rule: hex_lines.induct)
  case (1 r xs)
  have l: "length (hex_line r (take 16 xs)) = 80" using 1(2) by (intro length_hex_line) simp_all
  show ?case
  proof (cases "length xs \<le> 16")
    case True
    moreover have "(m + 15) div 16 = 1" if "m \<noteq> 0" "m \<le> 16" for m :: nat using that by presburger
    ultimately have "xs \<noteq> [] \<Longrightarrow> (length xs + 15) div 16 = 1" by simp
    then show ?thesis using True l by (subst hex_lines.simps) (auto split: if_splits)
  next
    case False
    then obtain k where k: "length xs = 16 + k" "k > 0" using le_Suc_ex [of 16 "length xs"] by force
    have "length (hex_lines (r + 1) (drop 16 xs)) = 80 * ((k + 15) div 16)"
      using 1(1) [OF False] 1(2) k by (simp split: if_splits)
    moreover have "(31 + k) div 16 = 1 + (k + 15) div 16" by presburger
    ultimately show ?thesis using False l k by (subst hex_lines.simps) auto
  qed
qed

subsection \<open>The loop over the columns\<close>

lemma col_loop_holds:
  assumes "\<forall>c. col \<le> c \<and> c < col + k \<longrightarrow> cell c = Some (t c) \<and> t c \<noteq> [] \<and> hd (t c) \<noteq> 0"
    "holds cap s b" "length s + length (concat (map t [col..<col + k])) < cap"
  shows "\<exists>b'. col_loop cell k col b = Some (col + k, b') \<and> holds cap (s @ concat (map t [col..<col + k])) b'"
  using assms
proof (induction k arbitrary: col s b)
  case (Suc k)
  have c: "cell col = Some (t col)" "t col \<noteq> []" "hd (t col) \<noteq> 0" using Suc.prems(1) by auto
  have u: "[col..<col + Suc k] = col # [Suc col..<Suc col + k]" by (simp add: upt_conv_Cons del: upt_Suc)
  have "length s + length (t col) < cap" using Suc.prems(3) unfolding u by simp
  note a = holds_append [OF Suc.prems(2) c(2,3) this]
  have "\<exists>b'. col_loop cell k (Suc col) (append_log (t col) b) = Some (Suc col + k, b')
      \<and> holds cap ((s @ t col) @ concat (map t [Suc col..<Suc col + k])) b'"
    using Suc.prems(1,3) a unfolding u by (intro Suc.IH) auto
  then show ?case unfolding u using c(1) a by auto
qed simp

lemma concat_columns:
  assumes "length xs \<le> 16"
  shows "concat (map (\<lambda>c. if c < length xs then f (xs ! c) else g) [0..<16])
    = concat (map f xs) @ concat (replicate (16 - length xs) g)"
proof -
  have "[0..<16] = [0..<length xs] @ [length xs..<16]" using assms upt_add_eq_append [of 0 "length xs" "16 - length xs"] by simp
  moreover have "map (\<lambda>c. if c < length xs then f (xs ! c) else g) [0..<length xs] = map f xs"
    by (rule nth_equalityI) simp_all
  moreover have "map (\<lambda>c. if c < length xs then f (xs ! c) else g) [length xs..<16] = replicate (16 - length xs) g"
    by (rule nth_equalityI) simp_all
  ultimately show ?thesis by (simp del: upt_conv_Cons)
qed

text \<open>The bytes of a row, and its cells.\<close>

lemma row_bytes:
  fixes buf :: "byte list" and r :: nat
  assumes "n \<le> length buf" "c < 16"
  defines "xs \<equiv> take 16 (drop (16 * r) (take n buf))"
  shows "r * 16 + c < n \<longleftrightarrow> c < length xs" "c < length xs \<Longrightarrow> byte_at buf (r * 16 + c) = Some (xs ! c)"
  using assms by (auto simp: byte_at_def ac_simps)

lemma hex_cells:
  fixes r :: nat
  assumes "n \<le> length buf" "c < 16"
  defines "xs \<equiv> take 16 (drop (16 * r) (take n buf))"
  shows "hex_cell buf (int n) r c = Some (if c < length xs then format_0X 2 (unat (xs ! c)) @ str '' '' else str ''   '')"
    "char_cell buf (int n) r c
      = Some (if c < length xs then [if isprint (xs ! c) then xs ! c else 46] else str '' '')"
  using row_bytes [OF assms(1,2), of r, folded xs_def]
  by (auto simp: hex_cell_def char_cell_def str_def simp flip: of_nat_mult of_nat_add)

lemma str_nonzero: "str ''   '' \<noteq> []" "hd (str ''   '') \<noteq> 0" "str '' '' \<noteq> []" "hd (str '' '') \<noteq> 0"
  "hd (str ''  '') \<noteq> 0" "str ''  '' \<noteq> []"
  by (simp_all add: str_def)

lemma isprint_nonzero: "isprint c \<Longrightarrow> c \<noteq> 0"
  by (auto simp: isprint_def)

subsection \<open>A row and the rows\<close>

lemma hex_row_holds:
  fixes buf :: "byte list"
  assumes "n \<le> length buf" "holds cap s b" "r < 2 ^ 28" "length s + 80 < cap"
  defines "xs \<equiv> take 16 (drop (16 * r) (take n buf))"
  shows "\<exists>b'. hex_row buf (int n) r b = Some (n \<le> 16 * r + 16, b') \<and> holds cap (s @ hex_line r xs) b'"
proof -
  define t1 where "t1 = (\<lambda>c. if c < length xs then format_0X 2 (unat (xs ! c)) @ str '' '' else str ''   '')"
  define t2 where "t2 = (\<lambda>c. if c < length xs then [if isprint (xs ! c) then xs ! c else 46] else str '' '')"
  have lx: "length xs \<le> 16" by (simp add: xs_def)
  have c1: "concat (map t1 [0..<16]) = concat (map (\<lambda>c. format_0X 2 (unat c) @ str '' '') xs)
      @ concat (replicate (16 - length xs) (str ''   ''))"
    unfolding t1_def by (rule concat_columns [OF lx])
  have c2: "concat (map t2 [0..<16]) = map (\<lambda>c. if isprint c then c else 46) xs
      @ concat (replicate (16 - length xs) (str '' ''))"
    unfolding t2_def using concat_columns [OF lx, of "\<lambda>c. [if isprint c then c else 46]"]
    by (simp add: concat_map_singleton del: upt_conv_Cons)
  define p where "p = str ''0x'' @ format_0X 8 (r * 16) @ str ''   ''"
  have line: "hex_line r xs = p @ concat (map t1 [0..<16]) @ str ''  '' @ concat (map t2 [0..<16]) @ NEWLINE"
    unfolding c1 c2 by (simp add: hex_line_def p_def ac_simps)
  have l80: "length (hex_line r xs) = 80" using lx assms(3) by (rule length_hex_line)
  have len: "length s + length p < cap" "length (s @ p) + length (concat (map t1 [0..<0 + 16])) < cap"
      "length (s @ p @ concat (map t1 [0..<16])) + length (str ''  '') < cap"
      "length (s @ p @ concat (map t1 [0..<16]) @ str ''  '') + length (concat (map t2 [0..<0 + 16])) < cap"
      "length (s @ p @ concat (map t1 [0..<16]) @ str ''  '' @ concat (map t2 [0..<16])) + length NEWLINE < cap"
    using assms(4) l80 unfolding line by (simp_all del: upt_conv_Cons upt_Suc)
  have "p \<noteq> []" "hd p \<noteq> 0" by (simp_all add: p_def str_def)
  note 1 = holds_append [OF assms(2) this len(1)]
  have cell1: "\<forall>c. 0 \<le> c \<and> c < 0 + 16 \<longrightarrow> hex_cell buf (int n) r c = Some (t1 c) \<and> t1 c \<noteq> [] \<and> hd (t1 c) \<noteq> 0"
    using hex_cells(1) [OF assms(1), of _ r, folded xs_def] hd_format_0X [of 2] str_nonzero
    by (simp add: t1_def)
  obtain b2 where 2: "col_loop (hex_cell buf (int n) r) 16 0 (append_log p b) = Some (16, b2)"
      "holds cap (s @ p @ concat (map t1 [0..<16])) b2"
    using col_loop_holds [OF cell1 conjunct1 [OF 1] len(2)] by (auto simp del: upt_conv_Cons upt_Suc)
  note 3 = holds_append [OF 2(2) str_nonzero(6,5) len(3)]
  have cell2: "\<forall>c. 0 \<le> c \<and> c < 0 + 16 \<longrightarrow> char_cell buf (int n) r c = Some (t2 c) \<and> t2 c \<noteq> [] \<and> hd (t2 c) \<noteq> 0"
    using hex_cells(2) [OF assms(1), of _ r, folded xs_def] isprint_nonzero str_nonzero
    by (auto simp: t2_def)
  have "holds cap (s @ p @ concat (map t1 [0..<16]) @ str ''  '') (append_log (str ''  '') b2)"
    using 3 by simp
  from col_loop_holds [OF cell2 this len(4)]
  obtain b4 where 4: "col_loop (char_cell buf (int n) r) 16 0 (append_log (str ''  '') b2) = Some (16, b4)"
      "holds cap (s @ p @ concat (map t1 [0..<16]) @ str ''  '' @ concat (map t2 [0..<16])) b4"
    by (auto simp del: upt_conv_Cons upt_Suc)
  have "NEWLINE \<noteq> []" "hd NEWLINE \<noteq> 0" by (simp_all add: NEWLINE_def)
  note 5 = holds_append [OF 4(2) this len(5)]
  have "hex_row buf (int n) r b = Some (int (r * 16 + 16) \<ge> int n, append_log NEWLINE b4)"
    using 1 2(1) 3 4(1) 5 by (simp add: hex_row_def p_def)
  moreover have "int (r * 16 + 16) \<ge> int n \<longleftrightarrow> n \<le> 16 * r + 16" by linarith
  ultimately show ?thesis using 5 unfolding line by (auto simp del: upt_conv_Cons upt_Suc)
qed

lemma hex_rows_holds:
  fixes buf :: "byte list"
  assumes "n \<le> length buf" "holds cap s b" "16 * r \<le> n"
    "r + (n - 16 * r) div 16 + 1 < 2 ^ 28" "length s + length (hex_lines r (drop (16 * r) (take n buf))) < cap"
  shows "\<exists>b'. hex_rows buf (int n) r b = Some b' \<and> holds cap (s @ hex_lines r (drop (16 * r) (take n buf))) b'"
  using assms
proof (induction "n - 16 * r" arbitrary: r s b rule: less_induct)
  case less
  define xs where "xs = drop (16 * r) (take n buf)"
  have lx: "length xs = n - 16 * r" using less.prems(1) by (simp add: xs_def)
  have rem: "remain_len b > 0" using less.prems(2,5) by (auto simp: holds_def fits_def)
  have eq: "hex_lines r xs = hex_line r (take 16 xs) @ (if length xs \<le> 16 then [] else hex_lines (r + 1) (drop 16 xs))"
    by (subst hex_lines.simps) simp
  have r28: "r < 2 ^ 28" using less.prems(4) by simp
  have "length (hex_line r (take 16 xs)) = 80" using r28 by (intro length_hex_line) simp_all
  then have "length s + 80 < cap" using less.prems(5) eq by (simp add: xs_def)
  from hex_row_holds [OF less.prems(1,2) r28 this]
  obtain b1 where b1: "hex_row buf (int n) r b = Some (n \<le> 16 * r + 16, b1)" "holds cap (s @ hex_line r (take 16 xs)) b1"
    by (auto simp: xs_def)
  show ?case
  proof (cases "n \<le> 16 * r + 16")
    case True
    then have "length xs \<le> 16" using lx by simp
    then show ?thesis using b1 rem eq True by (subst hex_rows.simps) (auto simp: xs_def)
  next
    case False
    then have long: "\<not> length xs \<le> 16" using lx by simp
    have d: "drop 16 xs = drop (16 * (r + 1)) (take n buf)" by (simp add: xs_def ac_simps)
    have "\<exists>b'. hex_rows buf (int n) (r + 1) b1 = Some b'
        \<and> holds cap ((s @ hex_line r (take 16 xs)) @ hex_lines (r + 1) (drop (16 * (r + 1)) (take n buf))) b'"
    proof (rule less.hyps)
      show "r + 1 + (n - 16 * (r + 1)) div 16 + 1 < 2 ^ 28"
      proof -
        have "n - 16 * r = (n - 16 * (r + 1)) + 16" using False by simp
        moreover have "(a + 16) div 16 = a div 16 + 1" for a :: nat by simp
        ultimately have "(n - 16 * r) div 16 = (n - 16 * (r + 1)) div 16 + 1" by metis
        then show ?thesis using less.prems(4) by simp
      qed
      show "length (s @ hex_line r (take 16 xs)) + length (hex_lines (r + 1) (drop (16 * (r + 1)) (take n buf))) < cap"
      proof -
        have "length s + length (hex_lines r xs) < cap" using less.prems(5) unfolding xs_def .
        then show ?thesis unfolding eq d using long by (simp only: if_False length_append add.assoc)
      qed
    qed (use False less.prems(1) b1(2) in auto)
    moreover have "hex_rows buf (int n) r b = hex_rows buf (int n) (r + 1) b1"
      using rem b1(1) False by (subst hex_rows.simps) simp
    moreover have "hex_lines r xs = hex_line r (take 16 xs) @ hex_lines (r + 1) (drop (16 * (r + 1)) (take n buf))"
      using eq long unfolding d by (simp only: if_False)
    ultimately show ?thesis unfolding xs_def [symmetric] by (simp only: append_assoc)
  qed
qed

lemma length_hex_header: "length hex_header = 79"
  by (simp add: hex_header_def str_def)

lemma last_hex_lines: "last (hex_lines r xs) = 10 \<and> hex_lines r xs \<noteq> []"
proof (induction r xs rule: hex_lines.induct)
  case (1 r xs)
  have "last (hex_line r ys) = 10 \<and> hex_line r ys \<noteq> []" for ys by (simp add: hex_line_def NEWLINE_def str_def)
  then show ?case using 1 by (subst (1 2) hex_lines.simps) auto
qed

lemma last_newline_holds:
  assumes "holds cap s b" "s \<noteq> []" "last s = 10"
  shows "last_newline b = b"
proof -
  have "length s \<le> length (buffer b)" "take (length s) (buffer b) = s" "buflen b = length s"
    using assms(1) by (auto simp: holds_def fits_def)
  then have "buffer b ! (buflen b - 1) = s ! (length s - 1)"
    using assms(2) by (metis diff_less length_greater_0_conv nth_take zero_less_one)
  then show ?thesis using assms(2,3) by (simp add: last_newline_def NEWLINE_def last_conv_nth)
qed

text \<open>The buffer after the header.\<close>

lemma hex_start:
  "holds 40960 (hex_header @ NEWLINE) (append_log NEWLINE (append_log hex_header (lbuf_init (4096 * 10 + 1))))"
proof -
  have h: "hex_header \<noteq> []" "hd hex_header \<noteq> 0" "NEWLINE \<noteq> []" "hd NEWLINE \<noteq> 0" "length NEWLINE = 1"
    by (simp_all add: hex_header_def str_def NEWLINE_def)
  have 1: "holds 40960 ([] @ hex_header) (append_log hex_header (lbuf_init (4096 * 10 + 1)))"
    using holds_append [OF holds_init [of 40960] h(1,2)] length_hex_header by simp
  show ?thesis using holds_append [OF 1 h(3,4)] length_hex_header h(5) by simp
qed

text \<open>The dump of at most 8160 bytes.\<close>

lemma hex_log_correct:
  fixes buf :: "byte list"
  assumes "n \<le> length buf" "n \<le> 8160"
  shows "\<exists>b. hex_rows buf (int n) 0 (append_log NEWLINE (append_log hex_header (lbuf_init (4096 * 10 + 1)))) = Some b
    \<and> take (buflen (last_newline b)) (buffer (last_newline b)) = hex_dump (take n buf)"
proof -
  note 2 = hex_start
  have "length (hex_lines 0 (take n buf)) = 80 * (if take n buf = [] then 1 else (length (take n buf) + 15) div 16)"
    using assms by (intro length_hex_lines) simp
  also have "\<dots> \<le> 80 * 510" using assms by (auto simp: min_def)
  finally have len: "length (hex_header @ NEWLINE) + length (hex_lines 0 (drop (16 * 0) (take n buf))) < 40960"
    using length_hex_header by (simp add: NEWLINE_def)
  have "0 + (n - 16 * 0) div 16 + 1 < 2 ^ 28" using assms(2) by simp
  from hex_rows_holds [OF assms(1) 2 _ this len] obtain b where
    b: "hex_rows buf (int n) 0 (append_log NEWLINE (append_log hex_header (lbuf_init (4096 * 10 + 1)))) = Some b"
      "holds 40960 (hex_dump (take n buf)) b"
    by (auto simp: hex_dump_def)
  have "last_newline b = b"
    using last_newline_holds [OF b(2)] last_hex_lines [of 0 "take n buf"] by (simp add: hex_dump_def)
  then show ?thesis using b by (simp add: holds_def)
qed

subsection \<open>Any length\<close>

text \<open>Whatever the length, nothing is written past the end of the buffer, and the rows end.\<close>

lemma col_loop_fits:
  assumes "\<And>c. cell c \<noteq> None" "fits cap b"
  shows "\<exists>c' b'. col_loop cell k c b = Some (c', b') \<and> fits cap b' \<and> buflen b \<le> buflen b'"
  using assms(2)
proof (induction k arbitrary: c b)
  case (Suc k)
  obtain m where m: "cell c = Some m" using assms(1) [of c] by auto
  obtain brk b1 where a: "append_in_loop m b = (brk, b1)" by fastforce
  note f = fits_append_in_loop [OF Suc.prems a]
  obtain c' b' where "col_loop cell k (Suc c) b1 = Some (c', b')" "fits cap b'" "buflen b1 \<le> buflen b'"
    using Suc.IH [of b1 "Suc c"] f by auto
  then show ?case using m a f by (cases brk) auto
qed simp

lemma cells_defined:
  assumes "n \<le> int (length buf)"
  shows "hex_cell buf n r c \<noteq> None" "char_cell buf n r c \<noteq> None"
  using assms by (auto simp: hex_cell_def char_cell_def byte_at_def)

lemma hex_row_fits:
  assumes "n \<le> int (length buf)" "fits cap b"
  shows "\<exists>brk b'. hex_row buf n r b = Some (brk, b') \<and> fits cap b' \<and> buflen b \<le> buflen b'"
proof -
  obtain k1 b1 where 1: "append_in_loop (str ''0x'' @ format_0X 8 (r * 16) @ str ''   '') b = (k1, b1)" by fastforce
  note f1 = fits_append_in_loop [OF assms(2) 1]
  obtain c2 b2 where 2: "col_loop (hex_cell buf n r) 16 0 b1 = Some (c2, b2)" "fits cap b2" "buflen b1 \<le> buflen b2"
    using col_loop_fits [of "hex_cell buf n r", OF cells_defined(1) [OF assms(1)] conjunct1 [OF f1]] by blast
  obtain k3 b3 where 3: "append_in_loop (str ''  '') b2 = (k3, b3)" by fastforce
  note f3 = fits_append_in_loop [OF 2(2) 3]
  obtain c4 b4 where 4: "col_loop (char_cell buf n r) 16 0 b3 = Some (c4, b4)" "fits cap b4" "buflen b3 \<le> buflen b4"
    using col_loop_fits [of "char_cell buf n r", OF cells_defined(2) [OF assms(1)] conjunct1 [OF f3]] by blast
  obtain k5 b5 where 5: "append_in_loop NEWLINE b4 = (k5, b5)" by fastforce
  note f5 = fits_append_in_loop [OF 4(2) 5]
  have "hex_row buf n r b = (if k1 then Some (True, b1) else if k3 then Some (True, b3)
      else if k5 then Some (True, b5) else Some (int (r * 16 + c4) \<ge> n, b5))"
    by (simp add: hex_row_def 1 2(1) 3 4(1) 5)
  then show ?thesis using f1 f3 f5 2 4 by auto
qed

lemma hex_rows_fits:
  assumes "n \<le> int (length buf)" "fits cap b"
  shows "\<exists>b'. hex_rows buf n r b = Some b' \<and> fits cap b' \<and> buflen b \<le> buflen b'"
  using assms
proof (induction buf n r b rule: hex_rows.induct)
  case (1 buf n r b)
  obtain brk b1 where h: "hex_row buf n r b = Some (brk, b1)" "fits cap b1" "buflen b \<le> buflen b1"
    using hex_row_fits [OF 1(2,3)] by blast
  show ?case
  proof (cases "remain_len b > 0 \<and> \<not> brk")
    case True
    then have "\<exists>b'. hex_rows buf n (r + 1) b1 = Some b' \<and> fits cap b' \<and> buflen b1 \<le> buflen b'"
      using 1(1) [of "(brk, b1)" brk b1] 1(2) h by simp
    then obtain b' where "hex_rows buf n (r + 1) b1 = Some b'" "fits cap b'" "buflen b1 \<le> buflen b'" by blast
    moreover have "hex_rows buf n r b = hex_rows buf n (r + 1) b1" using True h(1) by (subst hex_rows.simps) simp
    ultimately show ?thesis using h(3) by auto
  next
    case False
    then show ?thesis using h 1(3) by (subst hex_rows.simps) auto
  qed
qed

lemma last_newline_last:
  assumes "fits cap b" "0 < buflen b"
  shows "last (take (buflen (last_newline b)) (buffer (last_newline b))) = 10
    \<and> length (take (buflen (last_newline b)) (buffer (last_newline b))) = buflen b"
proof -
  have len: "length (buffer b) = cap + 1" "buflen b \<le> cap" using assms(1) by (auto simp: fits_def)
  let ?b = "last_newline b"
  have eq: "buflen ?b = buflen b" "length (buffer ?b) = cap + 1" "buffer ?b ! (buflen b - 1) = 10"
    using assms(2) len by (auto simp: last_newline_def NEWLINE_def)
  have "last (take (buflen b) (buffer ?b)) = take (buflen b) (buffer ?b) ! (buflen b - 1)"
    using assms(2) len eq by (subst last_conv_nth) auto
  then show ?thesis using eq len assms(2) by simp
qed

end
