(* ===== verification/Props_Log.thy ===== *)
theory Props_Log
  imports LogHex
begin

text \<open>
  The properties of the logging library, with their witnesses.
\<close>

definition demo_log_os :: log_os where
  "demo_log_os = \<lparr>tv_sec = 1700000000, tv_usec = 1234, local_time = (\<lambda>_. str ''2023-11-14 22:13:20''), l_open = 5, l_getpid = 77\<rparr>"

definition demo_log :: log_state where
  "demo_log = \<lparr>g_log_pathfilename = ''x.log'', g_log_level = 2, g_pid = 77, last_tv_sec = 0, last_time_buf = [], log_events = []\<rparr>"

subsection \<open>Lines\<close>

text \<open>What reaches the log file. A message below the level that is set leaves no trace; any other
  is written as one line, by one write to the file or to standard output: the prefix with the
  time of the current second, the level, the process, the source file and line, then the message
  and a newline, if the whole is at most 1023 characters. \<open>line_of\<close> also says what the code does
  beyond: a longer message is dropped and only its prefix is written, a line that fits exactly
  loses its newline, and with one character more a zero replaces its last character.\<close>

theorem log_line_correct:
  assumes "last_time_buf (log_time os st) \<noteq> []" "0 \<notin> set (last_time_buf (log_time os st))"
    "length (log_prefix os lv f l (log_time os st)) < 1022" "m = [] \<or> hd m \<noteq> 0"
  shows "WriteLog os lv f l m st =
      (if lv < g_log_level st then (0, st)
       else (0, snd (log_write os (line_of (log_prefix os lv f l (log_time os st)) m) (log_time os st))))
    \<and> WriteLog_macro os lv f l m st = snd (WriteLog os lv f l m st)"
proof -
  let ?p = "log_prefix os lv f l (log_time os st)"
  have "?p \<noteq> []" "hd ?p \<noteq> 0"
    using assms(1,2) by (auto simp: log_prefix_def) (metis hd_in_set)
  then have "take (buflen b) (buffer b) = line_of ?p m"
    if "b = append_log NEWLINE (append_log m (append_log ?p (lbuf_init (1024 + 1))))" for b
    using line_correct [of ?p m] assms(3,4) that by blast
  then have "WriteLogBaseV os lv f l m st = log_write os (line_of ?p m) (log_time os st)"
    by (simp add: WriteLogBaseV_def Let_def)
  then show ?thesis by (simp add: WriteLog_def macro_is_function)
qed

lemma demo_prefix:
  "log_prefix demo_log_os 3 ''a.c'' 12 (log_time demo_log_os demo_log) = str ''2023-11-14 22:13:20.001234 | WARN  | 77:a.c:12 | ''"
  by code_simp

theorem log_line_correct_witness:
  "snd (WriteLog demo_log_os 3 ''a.c'' 12 (str ''hello'') demo_log)
    = snd (log_write demo_log_os (str ''2023-11-14 22:13:20.001234 | WARN  | 77:a.c:12 | hello'' @ NEWLINE)
        (log_time demo_log_os demo_log))"
proof -
  have t: "last_time_buf (log_time demo_log_os demo_log) = str ''2023-11-14 22:13:20''"
    by (simp add: log_time_def demo_log_os_def demo_log_def)
  have len: "length (str ''2023-11-14 22:13:20.001234 | WARN  | 77:a.c:12 | '') < 1022" "hd (str ''hello'') \<noteq> 0"
    "0 \<notin> set (str ''2023-11-14 22:13:20'')" "str ''2023-11-14 22:13:20'' \<noteq> []"
    by (simp_all add: str_def)
  have "WriteLog demo_log_os 3 ''a.c'' 12 (str ''hello'') demo_log
      = (0, snd (log_write demo_log_os (line_of (str ''2023-11-14 22:13:20.001234 | WARN  | 77:a.c:12 | '') (str ''hello''))
          (log_time demo_log_os demo_log)))"
    using log_line_correct [of demo_log_os demo_log 3 "''a.c''" 12 "str ''hello''"] len
    unfolding t demo_prefix by (simp add: demo_log_def)
  then show ?thesis by (simp add: line_of_def str_def)
qed

text \<open>The text of the time is computed only when the second changes; it is always that of the second.\<close>

lemma log_time_current:
  assumes "last_tv_sec st = 0 \<or> last_time_buf st = local_time os (last_tv_sec st)" "tv_sec os \<noteq> 0"
  shows "last_time_buf (log_time os st) = local_time os (tv_sec os) \<and> last_tv_sec (log_time os st) = tv_sec os"
  using assms by (auto simp: log_time_def)

subsection \<open>Dumps\<close>

text \<open>C32: The dump of up to 8160 bytes is right: for every such part of a buffer, \<open>WriteHexLogBaseV\<close>
  first writes the message's line and then, by one write, the text \<open>hex_dump\<close> describes: the
  header, and for each 16 bytes their offset, their hexadecimal digits and their printable
  characters, padded to full rows. No check of the remaining room ever cuts it.\<close>

theorem hex_dump_correct:
  assumes "n \<le> length buf" "n \<le> 8160"
  shows "WriteHexLogBaseV os lv f l (Some buf) (int n) m st
    = Some (log_write os (hex_dump (take n buf)) (snd (WriteLogBaseV os lv f l m st)))"
  using hex_log_correct [OF assms] assms(2)
  by (auto simp: WriteHexLogBaseV_def Let_def split: prod.splits)

definition demo_bytes :: "byte list" where
  "demo_bytes = str ''GET /index HTTP'' @ [13, 10]"

theorem hex_dump_correct_witness:
  "WriteHexLogBaseV demo_log_os 3 ''a.c'' 12 (Some demo_bytes) 17 (str ''in'') demo_log
    = Some (log_write demo_log_os (hex_dump demo_bytes) (snd (WriteLogBaseV demo_log_os 3 ''a.c'' 12 (str ''in'') demo_log)))
   \<and> length (hex_dump demo_bytes) = 240"
  using hex_dump_correct [of 17 demo_bytes demo_log_os 3 "''a.c''" 12 "str ''in''" demo_log]
    length_hex_lines [of 0 demo_bytes] length_hex_header
  by (simp add: demo_bytes_def str_def hex_dump_def NEWLINE_def)

text \<open>C33: The dump of any length stays in its buffer: whenever the length given is not longer than the
  buffer it describes, \<open>WriteHexLogBaseV\<close> reads only that buffer, its loops end, and either it
  writes no dump, for a length over 40960, or it writes between 80 and 40960 characters that end
  with a newline, however the rows are cut.\<close>

theorem hex_dump_bounded:
  assumes "0 \<le> n" "n \<le> int (length buf)"
  shows "\<exists>r out. WriteHexLogBaseV os lv f l (Some buf) n m st = Some r
    \<and> (if n > 40960 then r = (-1, st)
       else r = log_write os out (snd (WriteLogBaseV os lv f l m st))
         \<and> 80 \<le> length out \<and> length out \<le> 40960 \<and> last out = 10)"
proof (cases "n > 40960")
  case True
  then show ?thesis by (simp add: WriteHexLogBaseV_def)
next
  case False
  define b0 where "b0 = append_log NEWLINE (append_log hex_header (lbuf_init (4096 * 10 + 1)))"
  have b0: "fits 40960 b0" "buflen b0 = 80"
    using hex_start length_hex_header by (simp_all add: holds_def b0_def NEWLINE_def)
  obtain b where b: "hex_rows buf n 0 b0 = Some b" "fits 40960 b" "80 \<le> buflen b"
    using hex_rows_fits [OF assms(2) b0(1), of 0] b0(2) by auto
  have "buflen b \<le> 40960" "0 < buflen b" using b(2,3) by (auto simp: fits_def)
  moreover have "WriteHexLogBaseV os lv f l (Some buf) n m st = Some (log_write os
      (take (buflen (last_newline b)) (buffer (last_newline b))) (snd (WriteLogBaseV os lv f l m st)))"
    using b(1) False assms(1) by (simp add: WriteHexLogBaseV_def Let_def b0_def split: prod.splits)
  ultimately show ?thesis using last_newline_last [OF b(2)] b(3) False by auto
qed

theorem hex_dump_bounded_witness:
  "\<exists>r out. WriteHexLogBaseV demo_log_os 3 ''a.c'' 12 (Some (replicate 9000 65)) 9000 [] demo_log = Some r
    \<and> r = log_write demo_log_os out (snd (WriteLogBaseV demo_log_os 3 ''a.c'' 12 [] demo_log))
    \<and> 80 \<le> length out \<and> length out \<le> 40960 \<and> last out = 10"
  using hex_dump_bounded [of 9000 "replicate 9000 65" demo_log_os 3 "''a.c''" 12 "[]" demo_log] by simp

text \<open>A null buffer with a positive length is read from.\<close>

lemma hex_null_read: "0 < n \<Longrightarrow> n \<le> 40960 \<Longrightarrow> WriteHexLogBaseV os lv f l None n m st = None"
proof -
  assume n: "0 < n" "n \<le> 40960"
  define b0 where "b0 = append_log NEWLINE (append_log hex_header (lbuf_init (4096 * 10 + 1)))"
  have rem: "remain_len b0 > 0"
    using hex_start length_hex_header by (simp add: holds_def fits_def b0_def NEWLINE_def)
  define p where "p = str ''0x'' @ format_0X 8 (0 * 16) @ str ''   ''"
  have "length (format_0X 8 (0 * 16)) = 8" by (intro length_format_0X) simp_all
  then have "append_in_loop p b0 = (False, append_log p b0)"
    using holds_append [OF hex_start, of p] length_hex_header
    by (simp add: b0_def p_def str_def NEWLINE_def)
  moreover have "hex_cell [] n 0 0 = None" using n(1) by (simp add: hex_cell_def byte_at_def)
  ultimately have "hex_row [] n 0 b0 = None"
    by (simp add: hex_row_def p_def numeral_nat)
  then have "hex_rows [] n 0 b0 = None" using rem by (subst hex_rows.simps) simp
  then show ?thesis using n by (simp add: WriteHexLogBaseV_def Let_def b0_def split: prod.splits)
qed

end
