(* ===== verification/Entry.thy ===== *)
theory Entry
  imports DaemonIomp Ifork Logc
begin

text \<open>
  The entry of the library: \<open>CheckCommandParameter\<close>, \<open>_tcpdaemon\<close>, the conversion to a daemon, and the
  functions that give an application the members of the environment (\<open>tcpdaemon_lib.c\<close>).
\<close>

subsection \<open>Checking the parameters\<close>

definition CheckCommandParameter :: "entry_para \<Rightarrow> int" where
  "CheckCommandParameter p =
     (if server_model p = ''IF'' then 0
      else if server_model p = ''LF'' then (if process_count p \<le> 0 then -1 else 0)
      else if server_model p = ''IOMP'' then (if process_count p \<le> 0 then -1 else 0)
      else -2)"

subsection \<open>Running a model\<close>

text \<open>
  What the system answers to a whole run; \<open>expand\<close> is what \<open>vsnprintf\<close> makes of a format with a percent
  sign for which there are no arguments, \<open>None\<close> where that is undefined.
\<close>

record run_os =
  r_start :: start_os
  r_spawns :: "spawn_ans list"
  r_waits :: "wait_ans list"
  r_if :: "if_ans list"
  r_log :: log_os
  expand :: "string \<Rightarrow> string option"

text \<open>\<open>memset( & env , 0x00 , sizeof(...) )\<close>; the memory of sessions is outside of the structure.\<close>

definition zero_env :: "tdmem \<Rightarrow> env" where
  "zero_env m = \<lparr>so_handle = NULL, pfunc_tcpmain = NULL, param_tcpmain = NULL, listen_sock = 0, listen_addr = ([], 0),
     pids = None, alive_pipes = None, accept_mutex = 0, index = 0, requests_per_process = 0, epoll_array = None,
     env_mem = m\<lparr>timers := (timers m)\<lparr>rb_root := NULL\<rparr>\<rparr>, calls = []\<rparr>"

datatype daemon_run =
    Ended int env     \<comment> \<open>returned\<close>
  | Running env       \<comment> \<open>the answers are used up\<close>
  | Misfit            \<comment> \<open>an answer does not fit the calls\<close>
  | Undefined         \<comment> \<open>the log path is a format without a defined text\<close>

definition run_flow :: "env flow option \<Rightarrow> daemon_run" where
  "run_flow x = (case x of None \<Rightarrow> Misfit | Some (Stop n e) \<Rightarrow> Ended n e | Some (Waiting e) \<Rightarrow> Running e
     | Some (Cont e) \<Rightarrow> Running e)"

text \<open>The path of the log is given to \<open>SetLogFile\<close> as its format.\<close>

definition log_text :: "run_os \<Rightarrow> string \<Rightarrow> string option" where
  "log_text os path = (if CHR ''%'' \<in> set path then expand os path else Some path)"

definition tcpdaemon_0 :: "run_os \<Rightarrow> tdmem \<Rightarrow> entry_para \<Rightarrow> log_state \<Rightarrow> daemon_run \<times> log_state" where
  "tcpdaemon_0 os m p lg =
     (let e = zero_env m in
      case log_text os (log_pathfilename p) of
        None \<Rightarrow> (Undefined, lg)
      | Some path \<Rightarrow>
          (let lg = SetLogFile (r_log os) path lg;
               lg = SetLogLevel (log_level p) lg;
               nret = CheckCommandParameter p
           in if nret \<noteq> 0 then (Ended nret e, lg)
           else
             (let r = Ended nret e;
                  r = (if server_model p = ''IF''
                       then run_flow (map_option fst (tcpdaemon_IF p (r_start os) (r_if os) e)) else r);
                  r = (if server_model p = ''LF''
                       then run_flow (Some (tcpdaemon_LF p (r_start os) (r_spawns os) (r_waits os) e)) else r);
                  r = (if server_model p = ''IOMP''
                       then run_flow (tcpdaemon_IOMP p (r_start os) (r_spawns os) (r_waits os) e) else r)
              in (r, lg))))"

subsection \<open>Becoming a daemon\<close>

datatype bind_event = DSetsid | DIgnoreHup | DSetuid int | DUmask int

text \<open>
  The process that calls \<open>BindDaemonServer\<close> forks twice; \<open>f1\<close> and \<open>f2\<close> are what it sees, so that a run of
  it is the calling process, the first child, or the second child, which runs the daemon.
\<close>

datatype 'a bound = BindFails int | BindExits int | BindRuns 'a

definition BindDaemonServer :: "int \<Rightarrow> int \<Rightarrow> int \<Rightarrow> 'a \<Rightarrow> 'a bound \<times> bind_event list" where
  "BindDaemonServer f1 f2 mypid run =
     (if f1 = -1 then (BindFails (-1), [])
      else if f1 > 0 then (BindExits 0, [])
      else if f2 = -1 then (BindFails (-2), [DSetsid, DIgnoreHup])
      else if f2 > 0 then (BindExits 0, [DSetsid, DIgnoreHup])
      else (BindRuns run, [DSetsid, DIgnoreHup, DSetuid mypid, DUmask 0]))"

record bind_os =
  fork1 :: int
  fork2 :: int
  my_pid :: int

datatype 'a proc_end = Returns 'a | Exits int

text \<open>Both branches after \<open>BindDaemonServer\<close> return what it returned.\<close>

definition tcpdaemon ::
  "bind_os \<Rightarrow> run_os \<Rightarrow> tdmem \<Rightarrow> entry_para \<Rightarrow> log_state \<Rightarrow> (daemon_run \<times> log_state) proc_end \<times> bind_event list" where
  "tcpdaemon bos os m p lg =
     (if daemon_level p = 1 then
        (case BindDaemonServer (fork1 bos) (fork2 bos) (my_pid bos) (tcpdaemon_0 os m p lg) of
           (BindFails n, ev) \<Rightarrow> (Returns (Ended n (zero_env m), lg), ev)
         | (BindExits n, ev) \<Rightarrow> (Exits n, ev)
         | (BindRuns r, ev) \<Rightarrow> (Returns r, ev))
      else (Returns (tcpdaemon_0 os m p lg), []))"

subsection \<open>Members for the application\<close>

definition TDGetTcpmainParameter :: "env \<Rightarrow> addr" where "TDGetTcpmainParameter e = param_tcpmain e"
definition TDGetListenSocket :: "env \<Rightarrow> int" where "TDGetListenSocket e = listen_sock e"
definition TDGetListenAddress :: "env \<Rightarrow> string \<times> int" where "TDGetListenAddress e = listen_addr e"
definition TDGetProcessCount :: "entry_para \<Rightarrow> int" where "TDGetProcessCount p = process_count p"
definition TDGetEpollArrayBase :: "env \<Rightarrow> int list option" where "TDGetEpollArrayBase e = epoll_array e"

text \<open>\<open>None\<close>: no array, or an index outside of it.\<close>

definition TDGetThisEpoll :: "env \<Rightarrow> int option" where
  "TDGetThisEpoll e =
     (case epoll_array e of None \<Rightarrow> None | Some fds \<Rightarrow> if index e < length fds then Some (fds ! index e) else None)"

text \<open>
  A pointer to a member: the address of the environment, and which member it is. \<open>st\<close> is what
  environments the memory holds.
\<close>

datatype env_member = Member_listen_sock | Member_listen_addr

definition TDGetListenSocketPtr :: "addr \<Rightarrow> addr \<times> env_member" where
  "TDGetListenSocketPtr p_env = (p_env, Member_listen_sock)"

definition TDGetListenAddressPtr :: "addr \<Rightarrow> addr \<times> env_member" where
  "TDGetListenAddressPtr p_env = (p_env, Member_listen_addr)"

datatype member_value = Sock int | Address "string \<times> int"

definition load_member :: "(addr \<Rightarrow> env) \<Rightarrow> addr \<times> env_member \<Rightarrow> member_value" where
  "load_member st pm =
     (case snd pm of
        Member_listen_sock \<Rightarrow> Sock (listen_sock (st (fst pm)))
      | Member_listen_addr \<Rightarrow> Address (listen_addr (st (fst pm))))"

definition store_member :: "addr \<times> env_member \<Rightarrow> member_value \<Rightarrow> (addr \<Rightarrow> env) \<Rightarrow> (addr \<Rightarrow> env)" where
  "store_member pm v st =
     (case (snd pm, v) of
        (Member_listen_sock, Sock x) \<Rightarrow> st(fst pm := (st (fst pm))\<lparr>listen_sock := x\<rparr>)
      | (Member_listen_addr, Address x) \<Rightarrow> st(fst pm := (st (fst pm))\<lparr>listen_addr := x\<rparr>)
      | _ \<Rightarrow> st)"

text \<open>An application that writes through a pointer changes what the getter of the value gives.\<close>

lemma member_ptr_correct:
  "load_member st (TDGetListenSocketPtr a) = Sock (TDGetListenSocket (st a))"
  "load_member st (TDGetListenAddressPtr a) = Address (TDGetListenAddress (st a))"
  "TDGetListenSocket (store_member (TDGetListenSocketPtr a) (Sock x) st a) = x"
  "TDGetListenAddress (store_member (TDGetListenSocketPtr a) (Sock x) st a) = TDGetListenAddress (st a)"
  "TDGetListenAddress (store_member (TDGetListenAddressPtr a) (Address y) st a) = y"
  "b \<noteq> a \<Longrightarrow> store_member (TDGetListenSocketPtr a) v st b = st b"
  by (auto simp: load_member_def store_member_def TDGetListenSocketPtr_def TDGetListenAddressPtr_def TDGetListenSocket_def
      TDGetListenAddress_def split: member_value.splits)

end
