(* ===== verification/Cmdline.thy ===== *)
theory Cmdline
  imports Entry
begin

text \<open>
  The command line of \<open>tcpdaemon_main.c\<close>: \<open>ParseCommandParameter\<close> and \<open>main\<close>. The character arrays of the
  parameters are zeroed before parsing, so each is its C string. Numbers go through \<open>atoi\<close>;
  \<open>atol\<close> assigned to an \<open>int\<close> gives the same value.
\<close>

definition atoi_str :: "string \<Rightarrow> int" where
  "atoi_str s = atoi (str s)"

text \<open>
  \<open>strncpy\<close> of at most \<open>n\<close> characters: it pads with zeros up to \<open>n\<close>, and where it stops at \<open>n\<close>
  the rest of the array keeps its contents.
\<close>

definition strncpy_full :: "nat \<Rightarrow> string \<Rightarrow> string" where
  "strncpy_full n s = take n s"

definition strncpy_part :: "string \<Rightarrow> nat \<Rightarrow> string \<Rightarrow> string" where
  "strncpy_part s n old = overlay (take n s) old"

text \<open>What becomes of the process while its parameters are parsed.\<close>

datatype printed = PUsage | PVersion

datatype parse_end = Parsed entry_para | ParseReturns int | ParseExits int printed

text \<open>Option \<open>-l\<close>: the part of the argument before the first colon is the address.\<close>

definition set_listen :: "string \<Rightarrow> entry_para \<Rightarrow> int + entry_para" where
  "set_listen v p =
     (let i = length (takeWhile (\<lambda>c. c \<noteq> CHR '':'') v) in
      if i = length v then Inl 1
      else if i > 21 - 1 then Inl 1
      else Inr (p\<lparr>ip := strncpy_part v i (ip p), port := atoi_str (drop (i + 1) v)\<rparr>))"

text \<open>The options with a value, in the order of the code; \<open>None\<close>: \<open>a\<close> is none of them.\<close>

definition set_value :: "string \<Rightarrow> string \<Rightarrow> entry_para \<Rightarrow> (int + entry_para) option" where
  "set_value a v p =
     (if a = ''-m'' then Some (Inr (p\<lparr>server_model := strncpy_full (11 - 1) v\<rparr>))
      else if a = ''-c'' then Some (Inr (p\<lparr>process_count := atoi_str v\<rparr>))
      else if a = ''-n'' then Some (Inr (p\<lparr>max_requests_per_process := atoi_str v\<rparr>))
      else if a = ''-l'' then Some (set_listen v p)
      else if a = ''-s'' then Some (Inr (p\<lparr>so_pathfilename := strncpy_full (257 - 1) v\<rparr>))
      else if a = ''--work-path'' then Some (Inr (p\<lparr>work_path := strncpy_full (257 - 1) v\<rparr>))
      else if a = ''--work-user'' then Some (Inr (p\<lparr>work_user := strncpy_full (65 - 1) v\<rparr>))
      else if a = ''--logfile'' then Some (Inr (p\<lparr>log_pathfilename := strncpy_full (257 - 1) v\<rparr>))
      else if a = ''--tcp-linger'' then Some (Inr (p\<lparr>tcp_linger := atoi_str v\<rparr>))
      else if a = ''--timeout'' then Some (Inr (p\<lparr>timeout_seconds := atoi_str v\<rparr>))
      else if a = ''--cpu-affinity'' then Some (Inr (p\<lparr>cpu_affinity := atoi_str v\<rparr>))
      else None)"

text \<open>The options without a value.\<close>

definition set_flag :: "string \<Rightarrow> entry_para \<Rightarrow> entry_para option" where
  "set_flag a p =
     (if a = ''--loglevel-fatal'' then Some (p\<lparr>log_level := LOGLEVEL_FATAL\<rparr>)
      else if a = ''--loglevel-error'' then Some (p\<lparr>log_level := LOGLEVEL_ERROR\<rparr>)
      else if a = ''--loglevel-warn'' then Some (p\<lparr>log_level := LOGLEVEL_WARN\<rparr>)
      else if a = ''--loglevel-info'' then Some (p\<lparr>log_level := LOGLEVEL_INFO\<rparr>)
      else if a = ''--loglevel-debug'' then Some (p\<lparr>log_level := LOGLEVEL_DEBUG\<rparr>)
      else if a = ''--tcp-nodelay'' then Some (p\<lparr>tcp_nodelay := 1\<rparr>)
      else if a = ''--daemon-level'' then Some (p\<lparr>daemon_level := 1\<rparr>)
      else None)"

text \<open>
  The loop, on the arguments from \<open>argv[c]\<close> on. No option is in both groups, so the order of
  the two groups does not matter.
\<close>

fun ParseCommandParameter :: "string list \<Rightarrow> entry_para \<Rightarrow> parse_end" where
  "ParseCommandParameter [] p = Parsed p"
| "ParseCommandParameter [a] p =
     (if a = ''-v'' then ParseExits 0 PVersion
      else (case set_flag a p of
              Some p \<Rightarrow> Parsed p
            | None \<Rightarrow> ParseExits 1 PUsage))"
| "ParseCommandParameter (a # v # rest) p =
     (if a = ''-v'' then ParseExits 0 PVersion
      else (case set_value a v p of
              Some (Inl n) \<Rightarrow> ParseReturns n
            | Some (Inr p) \<Rightarrow> ParseCommandParameter rest p
            | None \<Rightarrow>
                (case set_flag a p of
                   Some p \<Rightarrow> ParseCommandParameter (v # rest) p
                 | None \<Rightarrow> ParseExits 1 PUsage)))"

definition zero_para :: entry_para where
  "zero_para = \<lparr>daemon_level = 0, log_pathfilename = [], log_level = 0, server_model = [], process_count = 0,
     max_requests_per_process = 0, ip = [], port = 0, so_pathfilename = [], work_user = [], work_path = [],
     p_pfunc_tcpmain = NULL, p_param_tcpmain = NULL, tcp_nodelay = 0, tcp_linger = 0, timeout_seconds = 0, cpu_affinity = 0\<rparr>"

text \<open>What is left of the process; in \<open>main\<close>, \<open>None\<close>: the answers do not fit.\<close>

datatype main_end = MainReturns int | MainExits int | MainRuns | MainUndefined

text \<open>\<open>args\<close> are \<open>argv[1]\<close> and on.\<close>

definition main ::
  "bind_os \<Rightarrow> run_os \<Rightarrow> tdmem \<Rightarrow> string list \<Rightarrow> log_state \<Rightarrow> main_end option" where
  "main bos os m args lg =
     (if args = [] then Some (MainExits 0)
      else
        (let para = zero_para\<lparr>log_level := LOGLEVEL_INFO\<rparr>
         in case ParseCommandParameter args para of
              ParseExits n out \<Rightarrow> Some (MainExits n)
            | ParseReturns n \<Rightarrow> Some (MainReturns n)
            | Parsed para \<Rightarrow>
                (case fst (tcpdaemon bos os m para lg) of
                   Exits n \<Rightarrow> Some (MainExits n)
                 | Returns (Ended n e, lg) \<Rightarrow> Some (MainReturns (- n))
                 | Returns (Running e, lg) \<Rightarrow> Some MainRuns
                 | Returns (Undefined, lg) \<Rightarrow> Some MainUndefined
                 | Returns (Misfit, lg) \<Rightarrow> None)))"

end
