(* ===== verification/Exits.thy ===== *)
theory Exits
  imports Cmdline
begin

text \<open>
  What decides the exit code of the program: the parameters and the answers of the system alone,
  without the environment that the code builds up. \<open>fate\<close> is the code with which a model ends, or
  \<open>None\<close> while it still runs when the answers are used up.
\<close>

subsection \<open>Whether the start succeeds\<close>

definition starts :: "entry_para \<Rightarrow> start_os \<Rightarrow> bool" where
  "starts p os \<longleftrightarrow>
     (so_pathfilename p = [] \<or> d_dlopen os \<noteq> NULL \<and> d_dlsym os \<noteq> NULL)
     \<and> d_socket os \<noteq> -1 \<and> d_bind os \<noteq> -1 \<and> d_listen os \<noteq> -1
     \<and> (server_model p = ''LF'' \<longrightarrow> d_malloc os Pids \<and> d_malloc os AlivePipes \<and> d_semget os \<noteq> -1 \<and> d_semctl os \<noteq> -1)
     \<and> (server_model p = ''IOMP'' \<longrightarrow> d_malloc os Pids \<and> d_malloc os AlivePipes \<and> d_malloc os EpollArray
         \<and> (\<forall>j < nat (process_count p). d_epoll_create os j \<noteq> -1 \<and> d_epoll_ctl os j \<noteq> -1) \<and> d_block os \<noteq> NULL)"

definition starts_common :: "entry_para \<Rightarrow> start_os \<Rightarrow> bool" where
  "starts_common p os \<longleftrightarrow> (so_pathfilename p = [] \<or> d_dlopen os \<noteq> NULL \<and> d_dlsym os \<noteq> NULL)
     \<and> d_socket os \<noteq> -1 \<and> d_bind os \<noteq> -1 \<and> d_listen os \<noteq> -1"

lemma switch_mem [simp]:
  "env_mem (switch_user p os e) = env_mem e" "env_mem (switch_path p e) = env_mem e"
  "listen_sock (switch_user p os e) = listen_sock e" "listen_sock (switch_path p e) = listen_sock e"
  by (simp_all add: switch_user_def switch_path_def split: option.splits)

lemma InitDaemonEnv_code:
  "\<exists>e'. InitDaemonEnv p os e = (if starts_common p os then 0 else -1, e') \<and> env_mem e' = env_mem e"
  by (auto simp: InitDaemonEnv_def load_tcpmain_def starts_common_def Let_def)

lemma InitDaemonEnv_LF_code:
  assumes "server_model p = ''LF''"
  shows "\<exists>e'. InitDaemonEnv_LF p os e = (if starts p os then 0 else -1, e')
    \<and> (starts p os \<longrightarrow> pids e' = Some (replicate (nat (process_count p)) 0))"
proof -
  obtain e1 where e1: "InitDaemonEnv p os e = (if starts_common p os then 0 else -1, e1)"
    using InitDaemonEnv_code by blast
  have st: "starts p os \<longleftrightarrow> starts_common p os \<and> d_malloc os Pids \<and> d_malloc os AlivePipes \<and> d_semget os \<noteq> -1 \<and> d_semctl os \<noteq> -1"
    using assms by (auto simp: starts_def starts_common_def)
  show ?thesis using e1 by (auto simp: InitDaemonEnv_LF_def malloc_pids_def malloc_pipes_def st Let_def)
qed

lemma create_epolls_code:
  "\<exists>e'. create_epolls os k i e = (if \<forall>j \<in> {i..<i + k}. d_epoll_create os j \<noteq> -1 then 0 else -1, e')
     \<and> pids e' = pids e \<and> env_mem e' = env_mem e"
proof (induction k arbitrary: i e)
  case (Suc k)
  let ?e = "call (CEpollCreate (d_epoll_create os i)) (e\<lparr>epoll_array := map_option (\<lambda>a. a[i := d_epoll_create os i]) (epoll_array e)\<rparr>)"
  have s: "{i..<i + Suc k} = insert i {Suc i..<Suc i + k}" by auto
  show ?case using Suc.IH [of "Suc i" ?e] unfolding s by (auto simp: Let_def)
qed simp

lemma add_listen_all_code:
  "\<exists>e'. add_listen_all os k i e = (if \<forall>j \<in> {i..<i + k}. d_epoll_ctl os j \<noteq> -1 then 0 else -1, e')
     \<and> pids e' = pids e \<and> env_mem e' = env_mem e"
proof (induction k arbitrary: i e)
  case (Suc k)
  let ?ev = "if i = 0 then EPOLLIN OR EPOLLERR OR EPOLLONESHOT else EPOLLERR"
  let ?e = "call (CEpollAdd (epoll_fd e i) (listen_sock e) ?ev (d_epoll_ctl os i)) e"
  have s: "{i..<i + Suc k} = insert i {Suc i..<Suc i + k}" by auto
  show ?case using Suc.IH [of "Suc i" ?e] unfolding s by (auto simp: Let_def)
qed simp

lemma add_listen_code:
  assumes "0 < process_count p"
  shows "\<exists>e'. add_listen p os e = (if \<forall>j < nat (process_count p). d_epoll_ctl os j \<noteq> -1 then 0 else -1, e')
     \<and> pids e' = pids e \<and> env_mem e' = env_mem e"
proof (cases "process_count p > 1")
  case True
  then show ?thesis using add_listen_all_code [of os "nat (process_count p)" 0 e] by (simp add: add_listen_def Ball_def)
next
  case False
  with assms have "process_count p = 1" by simp
  then show ?thesis by (simp add: add_listen_def Let_def)
qed

text \<open>The memory after the start, in any case: a pool without open sessions.\<close>

lemma prealloc_code:
  assumes "pool (env_mem e) [] [] []" "d_block os = NULL \<or> block_ok (env_mem e) (d_block os)"
  shows "\<exists>e'. prealloc_sessions os e = (if d_block os \<noteq> NULL then 0 else -1, e')
    \<and> pids e' = pids e \<and> (\<exists>bs fs. pool (env_mem e') bs fs [])"
proof (cases "d_block os = NULL")
  case True
  then show ?thesis using assms(1) by (auto simp: prealloc_sessions_def IncreaseTcpdaemonAcceptedSessions_def)
next
  case False
  then have "blocks_ok (env_mem e) ([] @ [d_block os])" using assms by (auto simp: blocks_ok_def pool_def)
  then obtain m where "IncreaseTcpdaemonAcceptedSessions (d_block os) (env_mem e) = (0, m)"
      "pool m [d_block os] (slots (d_block os)) []"
    using pool_Increase [OF assms(1)] by auto
  then show ?thesis using False by (auto simp: prealloc_sessions_def)
qed

lemma InitDaemonEnv_IOMP_code:
  assumes "server_model p = ''IOMP''" "0 < process_count p" "fresh_pool os (env_mem e)"
  shows "\<exists>e'. InitDaemonEnv_IOMP p os e = (if starts p os then 0 else -1, e')
    \<and> (starts p os \<longrightarrow> pids e' = Some (replicate (nat (process_count p)) 0))
    \<and> (\<exists>bs fs. pool (env_mem e') bs fs [])"
proof -
  let ?n = "nat (process_count p)" and ?m = "init_lists (env_mem e)"
  define e0 where "e0 = e\<lparr>env_mem := ?m\<rparr>"
  have pl: "pool ?m [] [] []" using assms(3) by (intro pool_init) (simp_all add: fresh_pool_def)
  have blk: "d_block os = NULL \<or> block_ok ?m (d_block os)"
    using assms(3) by (auto simp: fresh_pool_def block_ok_def init_lists_def Let_def)
  obtain e1 where e1: "InitDaemonEnv p os e0 = (if starts_common p os then 0 else -1, e1)" "env_mem e1 = ?m"
    using InitDaemonEnv_code [of p os e0] by (auto simp: e0_def)
  define e2 where "e2 = (let e = call (CNonblock (listen_sock e1)) e1
     in if tcp_nodelay p = 1 then call (CTcpNodelay (listen_sock e)) e else e)"
  have e2: "env_mem e2 = ?m" using e1(2) by (simp add: e2_def Let_def)
  obtain e3 where e3: "malloc_pids p os e2 = (if d_malloc os Pids then 0 else -1, e3)" "env_mem e3 = ?m"
      "d_malloc os Pids \<longrightarrow> pids e3 = Some (replicate ?n 0)"
    using e2 by (cases "d_malloc os Pids") (auto simp: malloc_pids_def Let_def)
  obtain e4 where e4: "malloc_pipes p os e3 = (if d_malloc os AlivePipes then 0 else -1, e4)" "env_mem e4 = ?m" "pids e4 = pids e3"
    using e3(2) by (cases "d_malloc os AlivePipes") (auto simp: malloc_pipes_def Let_def)
  obtain e5 where e5: "malloc_epolls p os e4 = (if d_malloc os EpollArray then 0 else -1, e5)" "env_mem e5 = ?m" "pids e5 = pids e3"
    using e4(2,3) by (cases "d_malloc os EpollArray") (auto simp: malloc_epolls_def Let_def)
  obtain e6 where e6: "create_epolls os ?n 0 e5 = (if \<forall>j < ?n. d_epoll_create os j \<noteq> -1 then 0 else -1, e6)"
      "env_mem e6 = ?m" "pids e6 = pids e3"
    using create_epolls_code [of os ?n 0 e5] e5(2,3) by (auto simp: Ball_def)
  obtain e7 where e7: "add_listen p os e6 = (if \<forall>j < ?n. d_epoll_ctl os j \<noteq> -1 then 0 else -1, e7)"
      "env_mem e7 = ?m" "pids e7 = pids e3"
    using add_listen_code [OF assms(2), of os e6] e6(2,3) by auto
  obtain e8 where e8: "prealloc_sessions os e7 = (if d_block os \<noteq> NULL then 0 else -1, e8)" "pids e8 = pids e3"
      "\<exists>bs fs. pool (env_mem e8) bs fs []"
    using prealloc_code [of e7 os] pl blk e7(2,3) by auto
  have seven: "InitDaemonEnv_IOMP p os e = (if n1 \<noteq> 0 then (n1, e1) else if n3 \<noteq> 0 then (n3, e3)
      else if n4 \<noteq> 0 then (n4, e4) else if n5 \<noteq> 0 then (n5, e5) else if n6 \<noteq> 0 then (n6, e6)
      else if n7 \<noteq> 0 then (n7, e7) else (n8, e8))"
    if "InitDaemonEnv p os e0 = (n1, e1)" "malloc_pids p os e2 = (n3, e3)" "malloc_pipes p os e3 = (n4, e4)"
      "malloc_epolls p os e4 = (n5, e5)" "create_epolls os ?n 0 e5 = (n6, e6)" "add_listen p os e6 = (n7, e7)"
      "prealloc_sessions os e7 = (n8, e8)" for n1 n3 n4 n5 n6 n7 n8
    unfolding InitDaemonEnv_IOMP_def
    by (simp only: Let_def e0_def [symmetric] e2_def [unfolded Let_def, symmetric] that prod.case)
  note i = seven [OF e1(1) e3(1) e4(1) e5(1) e6(1) e7(1) e8(1)]
  have st: "starts p os \<longleftrightarrow> starts_common p os \<and> d_malloc os Pids \<and> d_malloc os AlivePipes \<and> d_malloc os EpollArray
      \<and> (\<forall>j < ?n. d_epoll_create os j \<noteq> -1) \<and> (\<forall>j < ?n. d_epoll_ctl os j \<noteq> -1) \<and> d_block os \<noteq> NULL"
    using assms(1) by (auto simp: starts_def starts_common_def)
  have pl': "\<exists>bs fs. pool ?m bs fs []" using pl by blast
  have pools: "\<exists>bs fs. pool (env_mem x) bs fs []" if "x \<in> {e1, e3, e4, e5, e6, e7, e8}" for x
    using that e8(3) pl' by (elim insertE emptyE; simp only: e1(2) e3(2) e4(2) e5(2) e6(2) e7(2))
  consider "\<not> starts_common p os" | "starts_common p os" "\<not> d_malloc os Pids"
    | "starts_common p os" "d_malloc os Pids" "\<not> d_malloc os AlivePipes"
    | "starts_common p os" "d_malloc os Pids" "d_malloc os AlivePipes" "\<not> d_malloc os EpollArray"
    | "starts_common p os" "d_malloc os Pids" "d_malloc os AlivePipes" "d_malloc os EpollArray"
    by blast
  then show ?thesis
  proof cases
    case 5
    consider "\<not> (\<forall>j < ?n. d_epoll_create os j \<noteq> -1)"
      | "\<forall>j < ?n. d_epoll_create os j \<noteq> -1" "\<not> (\<forall>j < ?n. d_epoll_ctl os j \<noteq> -1)"
      | "\<forall>j < ?n. d_epoll_create os j \<noteq> -1" "\<forall>j < ?n. d_epoll_ctl os j \<noteq> -1" by blast
    then show ?thesis
    proof cases
      case 1
      then have "\<not> starts p os" "InitDaemonEnv_IOMP p os e = (-1, e6)" using 5 i st by (simp_all only: if_True if_False simp_thms) simp
      then show ?thesis using pools [of e6] by simp
    next
      case 2
      then have "\<not> starts p os" "InitDaemonEnv_IOMP p os e = (-1, e7)" using 5 i st by (simp_all only: if_True if_False simp_thms) simp
      then show ?thesis using pools [of e7] by simp
    next
      case 3
      have "InitDaemonEnv_IOMP p os e = (if d_block os \<noteq> NULL then 0 else -1, e8)"
        using 3 5 i by (simp_all only: if_True if_False simp_thms) simp
      moreover have "starts p os \<longleftrightarrow> d_block os \<noteq> NULL" using 3 5 st by blast
      ultimately show ?thesis using pools [of e8] e8(2) e3(3) 5(2) by simp
    qed
  qed (use i st pools in \<open>simp_all\<close>)
qed

subsection \<open>How long the pool is managed\<close>

definition refused :: "spawn_ans \<Rightarrow> bool" where
  "refused a \<longleftrightarrow> a_pipe a = None \<or> a_fork a = -1"

text \<open>
  The workers with the given pids are watched: \<open>waitpid\<close> fails, or a worker ends and is replaced, or
  another child ends.
\<close>

fun watch :: "int list \<Rightarrow> wait_ans list \<Rightarrow> int option" where
  "watch ps [] = None"
| "watch ps (WaitFails # ws) = Some 0"
| "watch ps (ChildEnds pid a # ws) =
     (if pid \<notin> set ps then watch ps ws
      else if refused a then Some 11
      else watch (ps[length (takeWhile (\<lambda>x. x \<noteq> pid) ps) := a_fork a]) ws)"

definition pool_fate :: "nat \<Rightarrow> spawn_ans list \<Rightarrow> wait_ans list \<Rightarrow> int option" where
  "pool_fate n as ws =
     (if \<exists>a \<in> set (take n as). refused a then Some 11
      else if length as < n then None
      else watch (map a_fork (take n as)) ws)"

lemma spawn_worker_code:
  assumes "pids e = Some ps"
  shows "if refused a then \<exists>e'. spawn_worker i a e = Stop (-11) e' \<and> env_mem e' = env_mem e
    else \<exists>e'. spawn_worker i a e = Cont e' \<and> pids e' = Some (ps[i := a_fork a]) \<and> env_mem e' = env_mem e"
  using assms by (cases "a_pipe a") (auto simp: spawn_worker_def refused_def Let_def)

lemma spawn_pool_code:
  assumes "pids e = Some ps" "length ps = n" "i \<le> n"
  shows "if \<exists>a \<in> set (take (n - i) as). refused a then \<exists>e'. spawn_pool i n as e = Stop (-11) e' \<and> env_mem e' = env_mem e
    else if length as < n - i then \<exists>e'. spawn_pool i n as e = Waiting e'
    else \<exists>e'. spawn_pool i n as e = Cont e' \<and> pids e' = Some (take i ps @ map a_fork (take (n - i) as)) \<and> env_mem e' = env_mem e"
  using assms
proof (induction as arbitrary: i e ps)
  case Nil
  then show ?case by (cases "i < n") simp_all
next
  case (Cons a as)
  show ?case
  proof (cases "i < n")
    case False
    then show ?thesis using Cons.prems by simp
  next
    case True
    then obtain k where k: "n - i = Suc k" "n - Suc i = k" by (metis Suc_diff_Suc)
    note W = spawn_worker_code [of "e\<lparr>index := i\<rparr>" ps a i]
    show ?thesis
    proof (cases "refused a")
      case True
      then show ?thesis using W Cons.prems(1) \<open>i < n\<close> k by (auto simp: Let_def)
    next
      case False
      then obtain e1 where e1: "spawn_worker i a (e\<lparr>index := i\<rparr>) = Cont e1" "pids e1 = Some (ps[i := a_fork a])" "env_mem e1 = env_mem e"
        using W Cons.prems(1) by auto
      have "take (Suc i) (ps[i := a_fork a]) = take i ps @ [a_fork a]"
        using True Cons.prems(2) by (simp add: take_Suc_conv_app_nth)
      then show ?thesis using Cons.IH [OF e1(2), of "Suc i"] e1(1,3) True False Cons.prems(2) k
        by (auto simp: Let_def split: if_splits)
    qed
  qed
qed

lemma find_pid_eq: "find_pid ps pid = (if pid \<in> set ps then Some (length (takeWhile (\<lambda>x. x \<noteq> pid) ps)) else None)"
  by (induction ps) auto

lemma monitor_pool_code:
  assumes "pids e = Some ps"
  shows "case watch ps ws of
      None \<Rightarrow> \<exists>e'. monitor_pool ws e = Waiting e'
    | Some k \<Rightarrow> \<exists>e'. monitor_pool ws e = (if k = 0 then Cont e' else Stop (-k) e') \<and> env_mem e' = env_mem e"
  using assms
proof (induction ps ws arbitrary: e rule: watch.induct)
  case (3 ps pid a ws)
  show ?case
  proof (cases "pid \<in> set ps")
    case False
    then have "monitor_pool (ChildEnds pid a # ws) e = monitor_pool ws (e\<lparr>index := length ps\<rparr>)"
      "watch ps (ChildEnds pid a # ws) = watch ps ws" "env_mem (e\<lparr>index := length ps\<rparr>) = env_mem e"
      using 3(3) by (simp_all add: find_pid_eq)
    then show ?thesis using 3(1) [OF False, of "e\<lparr>index := length ps\<rparr>"] 3(3) by (simp only:) simp
  next
    case True
    let ?i = "length (takeWhile (\<lambda>x. x \<noteq> pid) ps)"
    define e1 where "e1 = (call (CClose (snd (the (alive_pipes e) ! ?i))) (e\<lparr>index := ?i\<rparr>))\<lparr>requests_per_process := 0\<rparr>"
    have m: "monitor_pool (ChildEnds pid a # ws) e = (case spawn_worker ?i a e1 of Cont e \<Rightarrow> monitor_pool ws e | other \<Rightarrow> other)"
      using True 3(3) by (simp add: find_pid_eq e1_def Let_def)
    have e1: "pids e1 = Some ps" "env_mem e1 = env_mem e" using 3(3) by (simp_all add: e1_def)
    note W = spawn_worker_code [OF e1(1), of a ?i]
    show ?thesis
    proof (cases "refused a")
      case True
      then obtain e2 where "spawn_worker ?i a e1 = Stop (-11) e2" "env_mem e2 = env_mem e" using W e1(2) by auto
      then show ?thesis using m True \<open>pid \<in> set ps\<close> by (simp del: monitor_pool.simps)
    next
      case False
      then obtain e2 where "spawn_worker ?i a e1 = Cont e2" "pids e2 = Some (ps[?i := a_fork a])" "env_mem e2 = env_mem e"
        using W e1(2) by auto
      moreover from this have "monitor_pool (ChildEnds pid a # ws) e = monitor_pool ws e2" using m by (simp del: monitor_pool.simps)
      moreover have "watch ps (ChildEnds pid a # ws) = watch (ps[?i := a_fork a]) ws" using True False by simp
      ultimately show ?thesis using 3(2) [of e2] True False by (simp only: simp_thms)
    qed
  qed
qed simp_all

lemma pool_parent_code:
  assumes "pids e = Some (replicate (nat (process_count p)) 0)"
  shows "case pool_fate (nat (process_count p)) as ws of
      None \<Rightarrow> \<exists>e'. pool_parent p as ws e = Waiting e'
    | Some k \<Rightarrow> \<exists>e'. pool_parent p as ws e = Stop (-k) e' \<and> env_mem e' = env_mem e"
proof -
  have d: "env_mem (destroy_pool e) = env_mem e" for e
  proof -
    have f: "env_mem (fold (\<lambda>fds. call (CWrite (snd fds))) ps x) = env_mem x"
      "env_mem (fold (\<lambda>fds e. call (CClose (snd fds)) (call CWaitpid e)) ps x) = env_mem x" for ps and x :: env
      by (induction ps arbitrary: x) simp_all
    show ?thesis by (simp add: destroy_pool_def Let_def f)
  qed
  let ?n = "nat (process_count p)"
  note S = spawn_pool_code [OF assms, of ?n 0 as, simplified]
  show ?thesis
  proof (cases "(\<exists>a \<in> set (take ?n as). refused a) \<or> length as < ?n")
    case True
    then show ?thesis using S by (auto simp: pool_fate_def pool_parent_def split: if_splits)
  next
    case False
    then obtain e1 where e1: "spawn_pool 0 ?n as e = Cont e1" "pids e1 = Some (map a_fork (take ?n as))" "env_mem e1 = env_mem e"
      using S by auto
    have "pool_fate ?n as ws = watch (map a_fork (take ?n as)) ws" using False by (auto simp: pool_fate_def)
    then show ?thesis using monitor_pool_code [OF e1(2), of ws] e1(1,3) d
      by (auto simp: pool_parent_def split: option.splits if_splits)
  qed
qed

subsection \<open>The code a model ends with\<close>

definition main_of :: "daemon_run \<Rightarrow> main_end option" where
  "main_of r = (case r of Ended n e \<Rightarrow> Some (MainReturns (- n)) | Running e \<Rightarrow> Some MainRuns
     | Misfit \<Rightarrow> None | Undefined \<Rightarrow> Some MainUndefined)"

definition model_code :: "entry_para \<Rightarrow> run_os \<Rightarrow> main_end option" where
  "model_code p os =
     (if \<not> starts p (r_start os) then Some (MainReturns 1)
      else if server_model p = ''IF'' then
        map_option (\<lambda>s. if if_pc s = IfEnd then MainReturns 0 else MainRuns) (if_run (if_cfg_of p) (r_if os) if_start)
      else
        (case pool_fate (nat (process_count p)) (r_spawns os) (r_waits os) of
           None \<Rightarrow> Some MainRuns | Some k \<Rightarrow> Some (MainReturns k)))"

lemma IF_code:
  assumes "server_model p = ''IF''"
  shows "main_of (run_flow (map_option fst (tcpdaemon_IF p (r_start os) (r_if os) e))) = model_code p os"
proof -
  obtain e1 where e1: "InitDaemonEnv p (r_start os) e = (if starts_common p (r_start os) then 0 else -1, e1)"
    using InitDaemonEnv_code by blast
  have "starts p (r_start os) \<longleftrightarrow> starts_common p (r_start os)" using assms by (simp add: starts_def starts_common_def)
  then show ?thesis using e1 assms
    by (auto simp: tcpdaemon_IF_def InitDaemonEnv_IF_def model_code_def main_of_def run_flow_def split: option.splits)
qed

lemma LF_code:
  assumes "server_model p = ''LF''"
  shows "main_of (run_flow (Some (tcpdaemon_LF p (r_start os) (r_spawns os) (r_waits os) e))) = model_code p os"
proof -
  obtain e1 where e1: "InitDaemonEnv_LF p (r_start os) e = (if starts p (r_start os) then 0 else -1, e1)"
    "starts p (r_start os) \<longrightarrow> pids e1 = Some (replicate (nat (process_count p)) 0)"
    using InitDaemonEnv_LF_code [OF assms] by blast
  show ?thesis
  proof (cases "starts p (r_start os)")
    case False
    then show ?thesis using e1(1) by (simp add: tcpdaemon_LF_def model_code_def main_of_def run_flow_def)
  next
    case True
    then have "pids e1 = Some (replicate (nat (process_count p)) 0)" using e1(2) by blast
    from pool_parent_code [OF this, of "r_spawns os" "r_waits os"] True e1(1) assms show ?thesis
      by (auto simp: tcpdaemon_LF_def model_code_def main_of_def run_flow_def split: option.splits)
  qed
qed

lemma IOMP_code:
  assumes "server_model p = ''IOMP''" "0 < process_count p" "fresh_pool (r_start os) (env_mem e)"
  shows "main_of (run_flow (tcpdaemon_IOMP p (r_start os) (r_spawns os) (r_waits os) e)) = model_code p os"
proof -
  obtain e1 bs fs where e1: "InitDaemonEnv_IOMP p (r_start os) e = (if starts p (r_start os) then 0 else -1, e1)"
    "starts p (r_start os) \<longrightarrow> pids e1 = Some (replicate (nat (process_count p)) 0)" "pool (env_mem e1) bs fs []"
    using InitDaemonEnv_IOMP_code [OF assms] by blast
  have clean: "\<exists>x. CleanDaemonEnv_IOMP e' = Some x" if "env_mem e' = env_mem e1" for e'
    using CleanDaemonEnv_IOMP_eq [of e' bs fs "[]"] e1(3) that by auto
  show ?thesis
  proof (cases "starts p (r_start os)")
    case False
    then show ?thesis using e1(1) clean [OF refl] by (auto simp: tcpdaemon_IOMP_def model_code_def main_of_def run_flow_def)
  next
    case True
    then have "pids e1 = Some (replicate (nat (process_count p)) 0)" using e1(2) by blast
    note P = pool_parent_code [OF this, of "r_spawns os" "r_waits os"]
    show ?thesis
    proof (cases "pool_fate (nat (process_count p)) (r_spawns os) (r_waits os)")
      case None
      then show ?thesis using P True e1(1) assms(1)
        by (auto simp: tcpdaemon_IOMP_def model_code_def main_of_def run_flow_def)
    next
      case (Some k)
      then obtain e2 where e2: "pool_parent p (r_spawns os) (r_waits os) e1 = Stop (-k) e2" "env_mem e2 = env_mem e1"
        using P by auto
      from clean [OF e2(2)] e2(1) Some True e1(1) assms(1) show ?thesis
        by (auto simp: tcpdaemon_IOMP_def model_code_def main_of_def run_flow_def)
    qed
  qed
qed

definition daemon_code :: "entry_para \<Rightarrow> run_os \<Rightarrow> main_end option" where
  "daemon_code p os =
     (if log_text os (log_pathfilename p) = None then Some MainUndefined
      else if server_model p \<notin> {''IF'', ''LF'', ''IOMP''} then Some (MainReturns 2)
      else if server_model p \<noteq> ''IF'' \<and> process_count p \<le> 0 then Some (MainReturns 1)
      else model_code p os)"

lemma tcpdaemon_0_code:
  assumes "fresh_pool (r_start os) (env_mem (zero_env m))"
  shows "main_of (fst (tcpdaemon_0 os m p lg)) = daemon_code p os"
proof (cases "log_text os (log_pathfilename p)")
  case None
  then show ?thesis by (simp add: tcpdaemon_0_def daemon_code_def main_of_def)
next
  case (Some path)
  show ?thesis
  proof (cases "CheckCommandParameter p = 0")
    case False
    then show ?thesis using Some
      by (auto simp: tcpdaemon_0_def daemon_code_def main_of_def CheckCommandParameter_def split: if_splits)
  next
    case True
    then consider "server_model p = ''IF''" | "server_model p = ''LF''" "0 < process_count p"
      | "server_model p = ''IOMP''" "0 < process_count p"
      by (auto simp: CheckCommandParameter_def split: if_splits)
    then show ?thesis
      by cases (use True Some IF_code LF_code IOMP_code [OF _ _ assms] in \<open>simp_all add: tcpdaemon_0_def daemon_code_def\<close>)
  qed
qed

lemma parse_codes:
  "case ParseCommandParameter args p of Parsed q \<Rightarrow> True | ParseReturns n \<Rightarrow> n = 1
    | ParseExits n out \<Rightarrow> n = (if out = PVersion then 0 else 1)"
proof (induction args p rule: ParseCommandParameter.induct)
  case (3 a v rest p)
  have "set_value a v p = Some (Inl n) \<Longrightarrow> n = 1" for n
    by (auto simp: set_value_def set_listen_def Let_def split: if_splits)
  then show ?case
    using 3 by (auto split: option.splits sum.splits parse_end.splits)
qed (auto split: option.splits)

end
