(* ===== verification/Props_Cmd.thy ===== *)
theory Props_Cmd
  imports Exits TdhbInv
begin

text \<open>
  The properties of the command line and of the entry of the library, with their witnesses.
\<close>

subsection \<open>A command line for given parameters\<close>

definition digit_char :: "nat \<Rightarrow> char" where
  "digit_char d = ''0123456789'' ! d"

fun digits_str :: "nat \<Rightarrow> string" where
  "digits_str n = (if n < 10 then [digit_char n] else digits_str (n div 10) @ [digit_char (n mod 10)])"

declare digits_str.simps [simp del]

definition loglevel_option :: "int \<Rightarrow> string" where
  "loglevel_option l = (if l = LOGLEVEL_FATAL then ''--loglevel-fatal'' else if l = LOGLEVEL_ERROR then ''--loglevel-error''
     else if l = LOGLEVEL_WARN then ''--loglevel-warn'' else if l = LOGLEVEL_INFO then ''--loglevel-info''
     else ''--loglevel-debug'')"

definition int_str :: "int \<Rightarrow> string" where
  "int_str n = (if n < 0 then CHR ''-'' # digits_str (nat (- n)) else digits_str (nat n))"

definition command_line :: "entry_para \<Rightarrow> string list" where
  "command_line p =
     [''-m'', server_model p, ''-c'', int_str (process_count p), ''-n'', int_str (max_requests_per_process p),
      ''-l'', ip p @ CHR '':'' # int_str (port p), ''-s'', so_pathfilename p, ''--work-path'', work_path p,
      ''--work-user'', work_user p, ''--logfile'', log_pathfilename p, ''--tcp-linger'', int_str (tcp_linger p),
      ''--timeout'', int_str (timeout_seconds p), ''--cpu-affinity'', int_str (cpu_affinity p),
      loglevel_option (log_level p)]
     @ (if tcp_nodelay p = 1 then [''--tcp-nodelay''] else []) @ (if daemon_level p = 1 then [''--daemon-level''] else [])"

text \<open>What the arrays and the command line can carry.\<close>

definition c_int :: "int \<Rightarrow> bool" where
  "c_int n \<longleftrightarrow> - (2 ^ 31) \<le> n \<and> n < 2 ^ 31"

definition para_ok :: "entry_para \<Rightarrow> bool" where
  "para_ok p \<longleftrightarrow> length (server_model p) \<le> 10 \<and> length (ip p) \<le> 20 \<and> CHR '':'' \<notin> set (ip p)
     \<and> length (so_pathfilename p) \<le> 256 \<and> length (work_path p) \<le> 256 \<and> length (work_user p) \<le> 64
     \<and> length (log_pathfilename p) \<le> 256 \<and> c_int (process_count p) \<and> c_int (max_requests_per_process p)
     \<and> c_int (port p) \<and> c_int (tcp_linger p) \<and> c_int (timeout_seconds p) \<and> c_int (cpu_affinity p)
     \<and> log_level p \<in> {1..5} \<and> tcp_nodelay p \<in> {0, 1} \<and> daemon_level p \<in> {0, 1}
     \<and> p_pfunc_tcpmain p = NULL \<and> p_param_tcpmain p = NULL"

lemma ascii_char: "d < 10 \<Longrightarrow> of_char (digit_char d) = ascii d"
proof -
  assume "d < 10"
  then have "d \<in> {0, 1, 2, 3, 4, 5, 6, 7, 8, 9}" by auto
  then show ?thesis by (elim insertE emptyE; simp add: ascii_def digit_char_def)
qed

lemma str_digits: "str (digits_str n) = digits n"
proof (induction n rule: digits.induct)
  case (1 n)
  show ?case
    using 1 by (subst digits_str.simps, subst digits.simps) (auto simp: str_def ascii_char)
qed

lemma strtol10_minus:
  assumes "0 < n"
  shows "strtol10 (45 # digits n) = max (- (2 ^ 63)) (min (2 ^ 63 - 1) (- int n))"
  by (simp add: strtol10_def is_space_def digits_value_digits)

lemma atoi_int_str: "c_int n \<Longrightarrow> atoi_str (int_str n) = n"
proof (cases "n < 0")
  case True
  assume c: "c_int n"
  have "str (int_str n) = 45 # digits (nat (- n))" using True str_digits by (simp add: int_str_def str_def)
  then have "atoi_str (int_str n) = sint (word_of_int n :: 32 word)"
    using True c strtol10_minus [of "nat (- n)"] by (simp add: atoi_str_def atoi_def c_int_def)
  then show ?thesis using c by (simp add: c_int_def sint_sbintrunc' signed_take_bit_int_eq_self)
next
  case False
  assume "c_int n"
  then show ?thesis using False atoi_format_0d [of n 0]
    by (simp add: c_int_def atoi_str_def int_str_def str_digits format_0d_nonneg)
qed

lemma parse_values:
  "ParseCommandParameter (''-m'' # v # rest) p = ParseCommandParameter rest (p\<lparr>server_model := take 10 v\<rparr>)"
  "ParseCommandParameter (''-c'' # v # rest) p = ParseCommandParameter rest (p\<lparr>process_count := atoi_str v\<rparr>)"
  "ParseCommandParameter (''-n'' # v # rest) p = ParseCommandParameter rest (p\<lparr>max_requests_per_process := atoi_str v\<rparr>)"
  "ParseCommandParameter (''-s'' # v # rest) p = ParseCommandParameter rest (p\<lparr>so_pathfilename := take 256 v\<rparr>)"
  "ParseCommandParameter (''--work-path'' # v # rest) p = ParseCommandParameter rest (p\<lparr>work_path := take 256 v\<rparr>)"
  "ParseCommandParameter (''--work-user'' # v # rest) p = ParseCommandParameter rest (p\<lparr>work_user := take 64 v\<rparr>)"
  "ParseCommandParameter (''--logfile'' # v # rest) p = ParseCommandParameter rest (p\<lparr>log_pathfilename := take 256 v\<rparr>)"
  "ParseCommandParameter (''--tcp-linger'' # v # rest) p = ParseCommandParameter rest (p\<lparr>tcp_linger := atoi_str v\<rparr>)"
  "ParseCommandParameter (''--timeout'' # v # rest) p = ParseCommandParameter rest (p\<lparr>timeout_seconds := atoi_str v\<rparr>)"
  "ParseCommandParameter (''--cpu-affinity'' # v # rest) p = ParseCommandParameter rest (p\<lparr>cpu_affinity := atoi_str v\<rparr>)"
  by (simp_all add: set_value_def strncpy_full_def)

lemma parse_listen:
  assumes "CHR '':'' \<notin> set a" "length a \<le> 20" "ip p = []"
  shows "ParseCommandParameter (''-l'' # (a @ CHR '':'' # v) # rest) p
    = ParseCommandParameter rest (p\<lparr>ip := a, port := atoi_str v\<rparr>)"
proof -
  have "takeWhile (\<lambda>c. c \<noteq> CHR '':'') (a @ CHR '':'' # v) = a"
    using assms(1) by (induction a) auto
  then have "set_listen (a @ CHR '':'' # v) p = Inr (p\<lparr>ip := a, port := atoi_str v\<rparr>)"
    using assms(2,3) by (simp add: set_listen_def strncpy_part_def overlay_def)
  then show ?thesis by (simp add: set_value_def)
qed

lemma parse_flag:
  assumes "set_flag a p = Some q" "a \<noteq> ''-v''" "\<And>v. set_value a v p = None"
  shows "ParseCommandParameter (a # rest) p = ParseCommandParameter rest q"
  using assms by (cases rest) simp_all

lemma parse_loglevel:
  assumes "l \<in> {1..5}"
  shows "ParseCommandParameter (loglevel_option l # rest) p = ParseCommandParameter rest (p\<lparr>log_level := l\<rparr>)"
proof -
  have "l = 1 \<or> l = 2 \<or> l = 3 \<or> l = 4 \<or> l = 5" using assms by auto
  then have "set_flag (loglevel_option l) p = Some (p\<lparr>log_level := l\<rparr>)" "loglevel_option l \<noteq> ''-v''"
    "set_value (loglevel_option l) v p = None" for v
    by (auto simp: loglevel_option_def loglevels set_flag_def set_value_def)
  then show ?thesis by (rule parse_flag)
qed

lemma parse_flags:
  "ParseCommandParameter (''--tcp-nodelay'' # rest) p = ParseCommandParameter rest (p\<lparr>tcp_nodelay := 1\<rparr>)"
  "ParseCommandParameter (''--daemon-level'' # rest) p = ParseCommandParameter rest (p\<lparr>daemon_level := 1\<rparr>)"
  by (rule parse_flag; simp add: set_flag_def set_value_def)+

text \<open>C31: The command line says what the daemon does: the command line that writes each option once is
  parsed to exactly the setting it was written for, starting from the zeroed structure that
  \<open>main\<close> prepares. The settings are those that options can express: any \<open>int\<close>, negative ones
  included, for the six numbers (workers, requests, port, linger, timeout, affinity); texts as long
  as their arrays hold (10 characters of model, 256 of each path, 64 of user); an address of at
  most 20 characters without a colon; one of the five log levels; 0 or 1 for the two flags; and no
  callback and no argument for it, which only a program that calls the library can set.\<close>

theorem command_line_roundtrip:
  assumes "para_ok p"
  shows "ParseCommandParameter (command_line p) (zero_para\<lparr>log_level := LOGLEVEL_INFO\<rparr>) = Parsed p"
proof -
  have len: "length (server_model p) \<le> 10" "length (so_pathfilename p) \<le> 256" "length (work_path p) \<le> 256"
    "length (work_user p) \<le> 64" "length (log_pathfilename p) \<le> 256" "length (ip p) \<le> 20" "CHR '':'' \<notin> set (ip p)"
    using assms by (auto simp: para_ok_def)
  have num: "c_int (process_count p)" "c_int (max_requests_per_process p)" "c_int (port p)" "c_int (tcp_linger p)"
    "c_int (timeout_seconds p)" "c_int (cpu_affinity p)" "log_level p \<in> {1..5}"
    using assms by (auto simp: para_ok_def)
  have flags: "tcp_nodelay p = 0 \<or> tcp_nodelay p = 1" "daemon_level p = 0 \<or> daemon_level p = 1"
    "p_pfunc_tcpmain p = NULL" "p_param_tcpmain p = NULL"
    using assms by (auto simp: para_ok_def)
  note steps = parse_values parse_listen parse_loglevel parse_flags
  have "ParseCommandParameter (command_line p) (zero_para\<lparr>log_level := LOGLEVEL_INFO\<rparr>)
      = Parsed (zero_para\<lparr>server_model := server_model p, process_count := process_count p,
          max_requests_per_process := max_requests_per_process p, ip := ip p, port := port p,
          so_pathfilename := so_pathfilename p, work_path := work_path p, work_user := work_user p,
          log_pathfilename := log_pathfilename p, tcp_linger := tcp_linger p, timeout_seconds := timeout_seconds p,
          cpu_affinity := cpu_affinity p, log_level := log_level p, tcp_nodelay := tcp_nodelay p,
          daemon_level := daemon_level p\<rparr>)"
    using len num flags(1,2)
    by (auto simp: command_line_def steps atoi_int_str zero_para_def simp del: ParseCommandParameter.simps(2,3))
  also have "\<dots> = Parsed p" using flags(3,4) by (cases p) (simp add: zero_para_def)
  finally show ?thesis .
qed

definition demo_cmd :: entry_para where
  "demo_cmd = \<lparr>daemon_level = 1, log_pathfilename = ''td.log'', log_level = 3, server_model = ''IOMP'', process_count = 4,
     max_requests_per_process = 0, ip = ''127.0.0.1'', port = 9527, so_pathfilename = ''demo.so'', work_user = [],
     work_path = ''.'', p_pfunc_tcpmain = NULL, p_param_tcpmain = NULL, tcp_nodelay = 1, tcp_linger = -1,
     timeout_seconds = 60, cpu_affinity = 0\<rparr>"

theorem command_line_roundtrip_witness:
  "ParseCommandParameter (command_line demo_cmd) (zero_para\<lparr>log_level := LOGLEVEL_INFO\<rparr>) = Parsed demo_cmd"
  by (rule command_line_roundtrip) (simp add: para_ok_def demo_cmd_def c_int_def)

text \<open>A second \<open>-l\<close> with a shorter address keeps the end of the first.\<close>

lemma listen_residue:
  "\<exists>q. ParseCommandParameter [''-l'', ''10.0.0.100:1'', ''-l'', ''1.2:3''] zero_para = Parsed q \<and> ip q = ''1.20.0.100''"
  by (simp add: set_value_def set_listen_def strncpy_part_def overlay_def zero_para_def)

subsection \<open>The whole program\<close>

lemma tcpdaemon_IF_bal:
  assumes "fresh_env e"
  shows "tcpdaemon_IF p os as e = Some (Stop k e', s) \<Longrightarrow> (k = 0 \<or> k = -1) \<and> acquired e' = released e'"
    "tcpdaemon_IF p os as e \<noteq> Some (Cont e'', s)"
proof -
  have f: "so_handle e = NULL" "pids e = None" "alive_pipes e = None" "accept_mutex e = 0" "epoll_array e = None"
    using assms by (auto simp: fresh_env_def)
  obtain n e1 where i: "InitDaemonEnv p os e = (n, e1)" by fastforce
  note I = InitDaemonEnv_bal [OF i fresh_bal [OF assms] f(1)]
  have "acquired e1 = released e1 + (held_lib (so_handle e1) + held_fd (listen_sock e1) + {#})"
    using I f by (auto simp: env_bal_def same_handles_def)
  from CleanDaemonEnv_bal [OF this] have c: "acquired (CleanDaemonEnv e1) = released (CleanDaemonEnv e1)" by simp
  show "tcpdaemon_IF p os as e = Some (Stop k e', s) \<Longrightarrow> (k = 0 \<or> k = -1) \<and> acquired e' = released e'"
    using i I c by (auto simp: tcpdaemon_IF_def InitDaemonEnv_IF_def CleanDaemonEnv_IF_def split: option.splits if_splits)
  show "tcpdaemon_IF p os as e \<noteq> Some (Cont e'', s)"
    using i by (auto simp: tcpdaemon_IF_def InitDaemonEnv_IF_def split: option.splits if_splits)
qed

text \<open>C30: What the program tells its caller, exactly and by cause. \<open>main\<close> with arguments exits with 0
  for \<open>-v\<close>, with 1 for an argument it does not know, and returns 1 for a bad \<open>-l\<close>. With parameters that
  are parsed: when it is to become a daemon, it returns 1 or 2 if the first or the second \<open>fork\<close>
  fails, and the parents exit with 0. Where the daemon itself runs, and unless the log path is a
  format without a defined text, \<open>main\<close> returns 2 exactly for an unknown model; 1 for a pool without
  workers or when a call of the start fails; 11 when \<open>pipe\<close> or \<open>fork\<close> fails for one of the first
  workers or for the replacement of one that ended; 0 when \<open>waitpid\<close> fails in a pool before that,
  or when the instance-fork parent leaves its final loop; and otherwise it runs on. Only answers
  that do not fit the calls of the instance-fork parent give no result. The code depends on
  nothing else; for \<open>malloc\<close> of the session array, a block apart from the memory in use is assumed.\<close>

theorem main_exit_code:
  assumes "args \<noteq> []" "fresh_pool (r_start os) (env_mem (zero_env m))"
  shows "main bos os m args lg =
    (case ParseCommandParameter args (zero_para\<lparr>log_level := LOGLEVEL_INFO\<rparr>) of
       ParseExits n PVersion \<Rightarrow> Some (MainExits 0)
     | ParseExits n PUsage \<Rightarrow> Some (MainExits 1)
     | ParseReturns n \<Rightarrow> Some (MainReturns 1)
     | Parsed p \<Rightarrow>
         if daemon_level p = 1 \<and> fork1 bos = -1 then Some (MainReturns 1)
         else if daemon_level p = 1 \<and> fork1 bos > 0 then Some (MainExits 0)
         else if daemon_level p = 1 \<and> fork2 bos = -1 then Some (MainReturns 2)
         else if daemon_level p = 1 \<and> fork2 bos > 0 then Some (MainExits 0)
         else if log_text os (log_pathfilename p) = None then Some MainUndefined
         else if server_model p \<notin> {''IF'', ''LF'', ''IOMP''} then Some (MainReturns 2)
         else if server_model p \<noteq> ''IF'' \<and> process_count p \<le> 0 then Some (MainReturns 1)
         else if \<not> starts p (r_start os) then Some (MainReturns 1)
         else if server_model p = ''IF'' then
           map_option (\<lambda>s. if if_pc s = IfEnd then MainReturns 0 else MainRuns) (if_run (if_cfg_of p) (r_if os) if_start)
         else
           (case pool_fate (nat (process_count p)) (r_spawns os) (r_waits os) of
              None \<Rightarrow> Some MainRuns | Some k \<Rightarrow> Some (MainReturns k)))"
proof (cases "ParseCommandParameter args (zero_para\<lparr>log_level := LOGLEVEL_INFO\<rparr>)")
  case (Parsed p)
  obtain run lg' where run: "tcpdaemon_0 os m p lg = (run, lg')" by fastforce
  then have code: "main_of run = daemon_code p os" using tcpdaemon_0_code [OF assms(2), of p lg] by simp
  have "main bos os m args lg =
      (if daemon_level p = 1 \<and> fork1 bos = -1 then Some (MainReturns 1)
       else if daemon_level p = 1 \<and> fork1 bos > 0 then Some (MainExits 0)
       else if daemon_level p = 1 \<and> fork2 bos = -1 then Some (MainReturns 2)
       else if daemon_level p = 1 \<and> fork2 bos > 0 then Some (MainExits 0)
       else main_of run)"
    using Parsed assms(1) run by (cases run) (auto simp: main_def tcpdaemon_def BindDaemonServer_def main_of_def)
  then show ?thesis by (simp only: Parsed parse_end.case code daemon_code_def model_code_def)
next
  case (ParseExits n out)
  then show ?thesis using assms(1) parse_codes [of args "zero_para\<lparr>log_level := LOGLEVEL_INFO\<rparr>"]
    by (cases out) (simp_all add: main_def)
qed (use assms(1) parse_codes [of args "zero_para\<lparr>log_level := LOGLEVEL_INFO\<rparr>"] in \<open>simp add: main_def\<close>)

definition demo_run :: run_os where
  "demo_run = \<lparr>r_start = \<lparr>d_dlopen = 1, d_dlsym = 1, d_socket = 3, d_bind = 0, d_listen = 0, d_getpwnam = None,
       d_malloc = (\<lambda>_. True), d_semget = 77, d_semctl = 0, d_epoll_create = (\<lambda>i. 20 + int i),
       d_epoll_ctl = (\<lambda>_. 0), d_block = NULL\<rparr>,
     r_spawns = [\<lparr>a_pipe = Some (4, 5), a_fork = 100\<rparr>, \<lparr>a_pipe = Some (6, 7), a_fork = -1\<rparr>], r_waits = [], r_if = [],
     r_log = \<lparr>tv_sec = 1, tv_usec = 0, local_time = (\<lambda>_. []), l_open = 5, l_getpid = 77\<rparr>, expand = (\<lambda>_. None)\<rparr>"

definition demo_memory :: tdmem where
  "demo_memory = \<lparr>sess = (\<lambda>_. zero_session), lists = (\<lambda>_. \<lparr>lnext = NULL, lprev = NULL\<rparr>),
     timers = \<lparr>rbn = (\<lambda>_. \<lparr>rb_parent_color = 0, rb_right = NULL, rb_left = NULL\<rparr>), rb_root = NULL\<rparr>,
     unused_list = 8, array_list = 64\<rparr>"

definition demo_bind :: bind_os where
  "demo_bind = \<lparr>fork1 = 0, fork2 = 0, my_pid = 9\<rparr>"

definition demo_logs :: log_state where
  "demo_logs = \<lparr>g_log_pathfilename = [], g_log_level = 2, g_pid = 0, last_tv_sec = 0, last_time_buf = [], log_events = []\<rparr>"

text \<open>Two workers are asked for, and the second cannot be forked.\<close>

definition demo_args :: "string list" where
  "demo_args = [''-m'', ''LF'', ''-c'', ''2'']"

definition demo_parsed :: entry_para where
  "demo_parsed = zero_para\<lparr>log_level := LOGLEVEL_INFO, server_model := ''LF'', process_count := 2\<rparr>"

lemma demo_parse: "ParseCommandParameter demo_args (zero_para\<lparr>log_level := LOGLEVEL_INFO\<rparr>) = Parsed demo_parsed"
proof -
  have "atoi_str ''2'' = 2" by code_simp
  then show ?thesis
    by (simp add: demo_args_def demo_parsed_def parse_values zero_para_def del: ParseCommandParameter.simps(2,3))
qed

theorem main_exit_code_witness:
  "main demo_bind demo_run demo_memory demo_args demo_logs = Some (MainReturns 11)"
proof -
  have "demo_args \<noteq> []" "fresh_pool (r_start demo_run) (env_mem (zero_env demo_memory))"
    by (simp_all add: demo_args_def demo_run_def demo_memory_def zero_env_def fresh_pool_def)
  from main_exit_code [OF this, of demo_bind demo_logs, unfolded demo_parse parse_end.case] show ?thesis
    by (simp add: demo_parsed_def zero_para_def log_text_def starts_def demo_run_def pool_fate_def refused_def
        numeral_2_eq_2)
qed

end
