(* ===== verification/RbAugment.thy ===== *)
theory RbAugment
  imports RbIter
begin

text \<open>
  The augmentation functions of \<open>src/rbtree.c\<close>. The callback \<open>func\<close> is given a node and reads the
  tree; what it changes is its own data, of type \<open>'d\<close>. For a callback that recomputes a node's
  value from its children, \<open>rb_augment_path\<close> makes all values right again after a change at the
  bottom of the path, also those of the nodes beside the path, which a rotation may have moved.
\<close>

partial_function (option) rb_augment_path ::
  "(addr \<Rightarrow> rbst \<Rightarrow> 'd \<Rightarrow> 'd) \<Rightarrow> addr \<Rightarrow> rbst \<Rightarrow> 'd \<Rightarrow> 'd option" where
  "rb_augment_path func node s d =
     (let d = func node s d;
          parent = rb_parent node s
      in if parent = NULL then Some d
      else
        (let d = (if node = left_of parent s \<and> right_of parent s \<noteq> NULL then func (right_of parent s) s d
                  else if left_of parent s \<noteq> NULL then func (left_of parent s) s d
                  else d)
         in rb_augment_path func parent s d))"

definition rb_augment_insert ::
  "addr \<Rightarrow> (addr \<Rightarrow> rbst \<Rightarrow> 'd \<Rightarrow> 'd) \<Rightarrow> rbst \<Rightarrow> 'd \<Rightarrow> 'd option" where
  "rb_augment_insert node func s d =
     (let node = (if left_of node s \<noteq> NULL then left_of node s
                  else if right_of node s \<noteq> NULL then right_of node s else node)
      in rb_augment_path func node s d)"

definition rb_augment_erase_begin :: "addr \<Rightarrow> rbst \<Rightarrow> addr option" where
  "rb_augment_erase_begin node s =
     (if right_of node s = NULL \<and> left_of node s = NULL then Some (rb_parent node s)
      else if right_of node s = NULL then Some (left_of node s)
      else if left_of node s = NULL then Some (right_of node s)
      else (case rb_next node s of
              None \<Rightarrow> None
            | Some deepest \<Rightarrow>
                Some (if right_of deepest s \<noteq> NULL then right_of deepest s
                      else if rb_parent deepest s \<noteq> node then rb_parent deepest s
                      else deepest)))"

definition rb_augment_erase_end ::
  "addr \<Rightarrow> (addr \<Rightarrow> rbst \<Rightarrow> 'd \<Rightarrow> 'd) \<Rightarrow> rbst \<Rightarrow> 'd \<Rightarrow> 'd option" where
  "rb_augment_erase_end node func s d =
     (if node \<noteq> NULL then rb_augment_path func node s d else Some d)"

subsection \<open>Values computed from the children\<close>

definition val_of :: "addr \<Rightarrow> (addr \<Rightarrow> 'v) \<Rightarrow> 'v option" where
  "val_of p d = (if p = NULL then None else Some (d p))"

definition recompute ::
  "(addr \<Rightarrow> 'v option \<Rightarrow> 'v option \<Rightarrow> 'v) \<Rightarrow> addr \<Rightarrow> rbst \<Rightarrow> (addr \<Rightarrow> 'v) \<Rightarrow> addr \<Rightarrow> 'v" where
  "recompute g n s d = d(n := g n (val_of (left_of n s) d) (val_of (right_of n s) d))"

text \<open>All values of a tree are right; those below its root; those below the siblings of a path.\<close>

fun aug_ok :: "(addr \<Rightarrow> 'v option \<Rightarrow> 'v option \<Rightarrow> 'v) \<Rightarrow> (addr \<Rightarrow> 'v) \<Rightarrow> rtree \<Rightarrow> bool" where
  "aug_ok g d RLeaf = True"
| "aug_ok g d (RNode l a c r) \<longleftrightarrow>
     d a = g a (val_of (ptr l) d) (val_of (ptr r) d) \<and> aug_ok g d l \<and> aug_ok g d r"

fun aug_below :: "(addr \<Rightarrow> 'v option \<Rightarrow> 'v option \<Rightarrow> 'v) \<Rightarrow> (addr \<Rightarrow> 'v) \<Rightarrow> rtree \<Rightarrow> bool" where
  "aug_below g d RLeaf = True"
| "aug_below g d (RNode l a c r) \<longleftrightarrow> aug_ok g d l \<and> aug_ok g d r"

definition path_below :: "(addr \<Rightarrow> 'v option \<Rightarrow> 'v option \<Rightarrow> 'v) \<Rightarrow> (addr \<Rightarrow> 'v) \<Rightarrow> frame list \<Rightarrow> bool" where
  "path_below g d k \<longleftrightarrow> (\<forall>f \<in> set k. aug_below g d (fsib f))"

lemma aug_cong:
  "(\<And>a. a \<in> set (addrs t) \<Longrightarrow> d' a = d a) \<Longrightarrow> aug_ok g d' t = aug_ok g d t"
proof (induction t)
  case (RNode l a c r)
  have "val_of (ptr u) d' = val_of (ptr u) d" if "set (addrs u) \<subseteq> set (addrs (RNode l a c r))" for u
    using that RNode.prems ptr_mem [of u] by (cases u) (auto simp: val_of_def)
  then have "val_of (ptr l) d' = val_of (ptr l) d" "val_of (ptr r) d' = val_of (ptr r) d" by auto
  then show ?case using RNode by simp
qed simp

lemma below_cong:
  "(\<And>a. a \<in> set (addrs t) \<Longrightarrow> d' a = d a) \<Longrightarrow> aug_below g d' t = aug_below g d t"
  by (cases t) (auto simp: aug_cong [of _ d' d])

lemma recompute_other: "b \<noteq> n \<Longrightarrow> recompute g n s d b = d b"
  by (simp add: recompute_def)

lemma recompute_keeps:
  assumes "n \<notin> set (addrs t)"
  shows "aug_ok g (recompute g n s d) t \<longleftrightarrow> aug_ok g d t" "aug_below g (recompute g n s d) t \<longleftrightarrow> aug_below g d t"
  using assms by (auto intro!: aug_cong below_cong recompute_other)

text \<open>Recomputing the root of a subtree makes the subtree right.\<close>

lemma recompute_root:
  assumes "treerep s (plug k t)" "t \<noteq> RLeaf" "aug_below g d t"
  shows "aug_ok g (recompute g (ptr t) s d) t"
proof -
  obtain l a c r where t: "t = RNode l a c r" using assms(2) by (cases t) auto
  have T: "treerep s (plug k (RNode l a c r))" using assms(1) t by simp
  note n = treerep_node(3,4) [OF T]
  let ?d = "recompute g a s d"
  have a: "a \<notin> set (addrs l)" "a \<notin> set (addrs r)" using T by (auto simp: treerep_plug)
  then have ok: "aug_ok g ?d l" "aug_ok g ?d r"
    using assms(3) t by (simp_all add: recompute_keeps(1) [OF a(1)] recompute_keeps(1) [OF a(2)])
  have "val_of (ptr u) ?d = val_of (ptr u) d" if "a \<notin> set (addrs u)" for u
    using that ptr_mem [of u] by (cases u) (auto simp: val_of_def recompute_def)
  then have "?d a = g a (val_of (ptr l) ?d) (val_of (ptr r) ?d)"
    using a n by (simp add: recompute_def)
  then show ?thesis using ok t by simp
qed

text \<open>One level up.\<close>

lemma fill_below: "aug_ok g d t \<Longrightarrow> aug_ok g d (fsib f) \<Longrightarrow> aug_below g d (fill f t)"
  by (cases f) auto

lemma sibling_mem: "f \<in> set k \<Longrightarrow> set (addrs (fsib f)) \<subseteq> set (cleft k) \<union> set (cright k)"
proof (induction k)
  case (Cons h k)
  then show ?case by (cases h) auto
qed simp

lemma path_keeps:
  assumes "n \<notin> set (cleft k) \<union> set (cright k)"
  shows "path_below g (recompute g n s d) k \<longleftrightarrow> path_below g d k"
  using assms sibling_mem recompute_keeps(2) unfolding path_below_def by (metis subsetD)

theorem augment_path_correct:
  assumes "treerep s (plug k t)" "t \<noteq> RLeaf" "aug_below g d t" "path_below g d k"
  shows "\<exists>d'. rb_augment_path (recompute g) (ptr t) s d = Some d' \<and> aug_ok g d' (plug k t)"
  using assms
proof (induction k arbitrary: t d)
  case Nil
  obtain l a c r where t: "t = RNode l a c r" using Nil.prems(2) by (cases t) auto
  have "rb_parent a s = NULL" using treerep_node(1) [of s "[]" l a c r] Nil.prems(1) t by simp
  then show ?case
    using recompute_root [OF Nil.prems(1-3)] t by (subst rb_augment_path.simps) (simp add: Let_def)
next
  case (Cons f k)
  obtain l a c r where t: "t = RNode l a c r" using Cons.prems(2) by (cases t) auto
  have T: "treerep s (plug (f # k) (RNode l a c r))" using Cons.prems(1) t by simp
  let ?b = "faddr f" and ?d = "recompute g a s d"
  have par: "rb_parent a s = ?b" using treerep_node(1) [OF T] by simp
  have ok: "aug_ok g ?d t" using recompute_root [OF Cons.prems(1-3)] t by simp
  have dis: "distinct (cleft (f # k) @ addrs t @ cright (f # k))" using Cons.prems(1) by (simp only: treerep_plug)
  have a: "a \<in> set (addrs t)" "a \<notin> set (cleft (f # k)) \<union> set (cright (f # k))" using dis t by auto
  have pb: "path_below g ?d (f # k)" using Cons.prems(4) path_keeps [OF a(2)] by blast
  have F: "treerep s (plug k (fill f t))" using Cons.prems(1) by simp
  have nz: "?b \<noteq> NULL" using treerep_cptr [OF Cons.prems(1)] by simp
  define e where "e = (if a = left_of ?b s \<and> right_of ?b s \<noteq> NULL then recompute g (right_of ?b s) s ?d
     else if left_of ?b s \<noteq> NULL then recompute g (left_of ?b s) s ?d else ?d)"
  have step: "rb_augment_path (recompute g) (ptr t) s d = rb_augment_path (recompute g) ?b s e"
    using par nz t by (subst rb_augment_path.simps) (simp add: Let_def e_def)
  have E: "e = (if fsib f = RLeaf then (if left_of ?b s \<noteq> NULL then recompute g a s ?d else ?d)
      else recompute g (ptr (fsib f)) s ?d)"
  proof (cases f)
    case (FL b c' u)
    have B: "treerep s (plug k (RNode t b c' u))" using F FL by simp
    have U: "treerep s (plug (FR t b c' # k) u)" using B by simp
    show ?thesis
      using treerep_node(3,4) [OF B] treerep_null_iff [OF U] FL t by (auto simp: e_def)
  next
    case (FR u b c')
    have B: "treerep s (plug k (RNode u b c' t))" using F FR by simp
    have U: "treerep s (plug (FL b c' t # k) u)" using B by simp
    have "a \<noteq> ptr u" using treerep_side(2) [OF B] t by auto
    then show ?thesis
      using treerep_node(3,4) [OF B] treerep_null_iff [OF U] FR t by (auto simp: e_def)
  qed
  have goal: "aug_below g e (fill f t) \<and> path_below g e k"
  proof (cases "fsib f = RLeaf")
    case True
    have "aug_below g ?d t" using Cons.prems(3) ok by (cases t) auto
    then have "aug_ok g (recompute g a s ?d) t" using recompute_root [OF Cons.prems(1,2)] t by simp
    moreover have "path_below g (recompute g a s ?d) (f # k)" using pb path_keeps [OF a(2)] by blast
    ultimately have "aug_ok g e t" "path_below g e (f # k)" using ok pb E True by auto
    then show ?thesis using fill_below [of g e t f] True by (simp add: path_below_def)
  next
    case False
    let ?u = "fsib f"
    have e: "e = recompute g (ptr ?u) s ?d" using E False by simp
    have u: "aug_below g ?d ?u" using pb by (simp add: path_below_def)
    have um: "ptr ?u \<in> set (addrs ?u)" using ptr_mem [OF False] .
    have u1: "ptr ?u \<notin> set (addrs t)" using um dis by (cases f) auto
    have u2: "ptr ?u \<notin> set (cleft k) \<union> set (cright k)" using um dis by (cases f) auto
    have "path_below g ?d k" using pb by (simp add: path_below_def)
    then have "path_below g e k" unfolding e by (simp only: path_keeps [OF u2])
    moreover have "aug_ok g e t" unfolding e using ok by (simp only: recompute_keeps(1) [OF u1])
    moreover have "aug_ok g e ?u"
    proof (cases f)
      case (FL b c' w)
      have "treerep s (plug (FR t b c' # k) w)" using F FL by simp
      from recompute_root [OF this] False u show ?thesis unfolding e by (simp add: FL)
    next
      case (FR w b c')
      have "treerep s (plug (FL b c' t # k) w)" using F FR by simp
      from recompute_root [OF this] False u show ?thesis unfolding e by (simp add: FR)
    qed
    ultimately show ?thesis using fill_below by blast
  qed
  have "fill f t \<noteq> RLeaf" "ptr (fill f t) = ?b" by (cases f; simp)+
  then show ?case using Cons.IH [OF F _ conjunct1 [OF goal] conjunct2 [OF goal]] step by simp
qed

text \<open>The entry points for insertion and deletion.\<close>

theorem augment_insert_correct:
  assumes "treerep s (plug k (RNode l a c r))" "aug_below g d l" "aug_below g d r" "path_below g d k"
  shows "\<exists>d'. rb_augment_insert a (recompute g) s d = Some d' \<and> aug_ok g d' (plug k (RNode l a c r))"
proof -
  note n = treerep_node(3,4) [OF assms(1)]
  have L: "treerep s (plug (FL a c r # k) l)" and R: "treerep s (plug (FR l a c # k) r)" using assms(1) by simp_all
  consider "l \<noteq> RLeaf" | "l = RLeaf" "r \<noteq> RLeaf" | "l = RLeaf" "r = RLeaf" by blast
  then show ?thesis
  proof cases
    case 1
    then show ?thesis
      using augment_path_correct [OF L 1 assms(2)] assms(3,4) n treerep_null_iff [OF L]
      by (simp add: rb_augment_insert_def path_below_def)
  next
    case 2
    then show ?thesis
      using augment_path_correct [OF R 2(2) assms(3)] assms(4) n treerep_null_iff [OF R]
      by (simp add: rb_augment_insert_def path_below_def)
  next
    case 3
    then show ?thesis
      using augment_path_correct [OF assms(1) _ _ assms(4)] n by (simp add: rb_augment_insert_def)
  qed
qed

theorem augment_erase_correct:
  assumes "treerep s (plug k t)" "aug_below g d t" "path_below g d k" "t = RLeaf \<longrightarrow> k = []"
  shows "\<exists>d'. rb_augment_erase_end (ptr t) (recompute g) s d = Some d' \<and> aug_ok g d' (plug k t)"
  using augment_path_correct [OF assms(1) _ assms(2,3)] assms(4) treerep_null_iff [OF assms(1)]
  by (cases "t = RLeaf") (auto simp: rb_augment_erase_end_def)

lemma augment_erase_begin_ends:
  assumes "treerep s t" "a \<in> set (addrs t)"
  shows "rb_augment_erase_begin a s \<noteq> None"
proof -
  obtain xs ys where "addrs t = xs @ a # ys" using assms(2) by (auto simp: in_set_conv_decomp)
  then show ?thesis using rb_next_refines [OF assms(1)] by (simp add: rb_augment_erase_begin_def)
qed

end
