(* ===== verification/RbAugInv.thy ===== *)
theory RbAugInv
  imports RbAugment RbTpl
begin

text \<open>
  Augmented trees over whole insertions and deletions: which values a rotation may have made wrong,
  and that the walk of \<open>rb_augment_path\<close> makes them right again.
\<close>

subsection \<open>Values that may be wrong\<close>

text \<open>
  \<open>near P Q a t\<close>: the node \<open>a\<close> is in \<open>t\<close>, its two subtrees satisfy \<open>P\<close>, and every subtree beside the
  path from the root to \<open>a\<close> satisfies \<open>Q\<close>.
\<close>

fun near :: "(rtree \<Rightarrow> bool) \<Rightarrow> (rtree \<Rightarrow> bool) \<Rightarrow> addr \<Rightarrow> rtree \<Rightarrow> bool" where
  "near P Q a RLeaf = False"
| "near P Q a (RNode l b c r) \<longleftrightarrow> b = a \<and> P l \<and> P r \<or> near P Q a l \<and> Q r \<or> near P Q a r \<and> Q l"

lemma near_mono: "near P Q a t \<Longrightarrow> (\<And>u. P u \<Longrightarrow> P' u) \<Longrightarrow> (\<And>u. Q u \<Longrightarrow> Q' u) \<Longrightarrow> near P' Q' a t"
  by (induction t) auto

lemma near_paint [simp]: "near P Q a (paint c t) = near P Q a t"
  by (cases t) auto

lemma near_fill: "near P Q a t \<Longrightarrow> Q (fsib f) \<Longrightarrow> near P Q a (fill f t)"
  by (cases f) auto

lemma near_plug: "near P Q a t \<Longrightarrow> \<forall>f \<in> set k. Q (fsib f) \<Longrightarrow> near P Q a (plug k t)"
  by (induction k arbitrary: t) (auto intro: near_fill)

lemma near_path:
  "near P Q a t \<Longrightarrow> \<exists>k l c r. t = plug k (RNode l a c r) \<and> P l \<and> P r \<and> (\<forall>f \<in> set k. Q (fsib f))"
proof (induction t)
  case (RNode l b c r)
  consider "b = a" "P l" "P r" | "near P Q a l" "Q r" | "near P Q a r" "Q l" using RNode.prems by auto
  then show ?case
  proof cases
    case 1
    then show ?thesis by (intro exI [of _ "[]"]) auto
  next
    case 2
    with RNode.IH(1) obtain k l' c' r' where k: "l = plug k (RNode l' a c' r')" "P l'" "P r'" "\<forall>f \<in> set k. Q (fsib f)"
      by blast
    then have "RNode l b c r = plug (k @ [FL b c r]) (RNode l' a c' r')" by simp
    moreover have "\<forall>f \<in> set (k @ [FL b c r]). Q (fsib f)" using k(4) 2(2) by simp
    ultimately show ?thesis using k(2,3) by blast
  next
    case 3
    with RNode.IH(2) obtain k l' c' r' where k: "r = plug k (RNode l' a c' r')" "P l'" "P r'" "\<forall>f \<in> set k. Q (fsib f)"
      by blast
    then have "RNode l b c r = plug (k @ [FR l b c]) (RNode l' a c' r')" by simp
    moreover have "\<forall>f \<in> set (k @ [FR l b c]). Q (fsib f)" using k(4) 3(2) by simp
    ultimately show ?thesis using k(2,3) by blast
  qed
qed simp

lemma near_mirror: "near P Q a (mirror t) = near (\<lambda>u. P (mirror u)) (\<lambda>u. Q (mirror u)) a t"
  by (induction t) auto

lemma aug_ok_paint [simp]: "aug_ok g d (paint c t) = aug_ok g d t"
  by (cases t) auto

lemma aug_below_ok: "aug_ok g d t \<Longrightarrow> aug_below g d t"
  by (cases t) auto

lemma aug_ok_plug: "aug_ok g d (plug k t) \<Longrightarrow> aug_ok g d t \<and> (\<forall>f \<in> set k. aug_ok g d (fsib f))"
proof (induction k arbitrary: t)
  case (Cons f k)
  then have "aug_ok g d (fill f t)" "\<forall>f \<in> set k. aug_ok g d (fsib f)" by fastforce+
  then show ?case by (cases f) auto
qed simp

lemma ptr_mirror: "ptr (mirror t) = ptr t"
  by (cases t) auto

lemma aug_mirror:
  "aug_ok (\<lambda>a x y. g a y x) d (mirror t) = aug_ok g d t"
  "aug_below (\<lambda>a x y. g a y x) d (mirror t) = aug_below g d t"
proof -
  show ok: "aug_ok (\<lambda>a x y. g a y x) d (mirror t) = aug_ok g d t" for t
    by (induction t) (auto simp: ptr_mirror)
  show "aug_below (\<lambda>a x y. g a y x) d (mirror t) = aug_below g d t"
    by (cases t) (auto simp: ok)
qed

subsection \<open>Rebalancing after an insertion\<close>

lemma near_weak:
  "near (aug_ok g d) (aug_ok g d) a t \<Longrightarrow> near (aug_below g d) (aug_below g d) a t"
  "near (aug_ok g d) (aug_ok g d) a t \<Longrightarrow> near (aug_ok g d) (aug_below g d) a t"
  by (auto elim: near_mono simp: aug_below_ok)

lemma near_ins_rot:
  assumes "near (aug_ok g d) (aug_ok g d) a t" "aug_ok g d (fsib f)" "aug_ok g d (fsib h)"
  shows "near (aug_below g d) (aug_below g d) a (ins_rot f h t)"
  using assms near_weak(1)
  by (cases "(f, h, t)" rule: ins_rot.cases) (auto simp: aug_below_ok)

lemma ok_below: "\<forall>f \<in> set k. aug_ok g d (fsib f) \<Longrightarrow> \<forall>f \<in> set k. aug_below g d (fsib f)"
  by (auto simp: aug_below_ok)

lemma near_recolour: "near P Q a t \<Longrightarrow> (\<And>c u. Q (paint c u) = Q u) \<Longrightarrow> Q (fsib f) \<Longrightarrow> near P Q a (fill (recolour_frame f) t)"
  by (cases f) auto

lemma near_ins_fix:
  assumes "near (aug_ok g d) (aug_ok g d) a t" "\<forall>f \<in> set k. aug_ok g d (fsib f)"
  shows "near (aug_below g d) (aug_below g d) a (ins_fix k t)"
  using assms
proof (induction k t rule: ins_fix.induct)
  case (1 t)
  then show ?case by (simp add: near_weak)
next
  case (2 f t)
  then show ?case by (simp add: near_fill near_weak aug_below_ok)
next
  case (3 f h k t)
  have F: "near (aug_ok g d) (aug_ok g d) a (fill f t)" using "3.prems" by (simp add: near_fill)
  then have W: "near (aug_below g d) (aug_below g d) a (fill h (fill f t))"
    using "3.prems" by (intro near_weak(1) near_fill) auto
  show ?case
  proof (cases "fcol f = Red \<and> colour (fsib h) = Red")
    case True
    have "near (aug_ok g d) (aug_ok g d) a (fill (recolour_frame h) (paint Black (fill f t)))"
      using F "3.prems" by (intro near_recolour) auto
    then show ?thesis using "3.IH" True "3.prems" by simp
  next
    case False
    have "near (aug_below g d) (aug_below g d) a (plug k (ins_rot f h t))"
      "near (aug_below g d) (aug_below g d) a (plug k (fill h (fill f t)))"
      using near_ins_rot [OF "3.prems"(1), of f h] W "3.prems"(2) by (auto intro!: near_plug simp: aug_below_ok)
    then show ?thesis using False by auto
  qed
qed

text \<open>Linking a node, rebalancing and the walk together.\<close>

theorem augmented_insert:
  assumes T: "treerep s (plug k RLeaf)" and inv: "rbtree (plug k RLeaf)"
    and x: "x \<noteq> NULL" "aligned x" "x \<notin> set (addrs (plug k RLeaf))"
    and ok: "aug_ok g d (plug k RLeaf)"
  shows "\<exists>s' t' d'. rb_insert_color x (rb_link_node x (cptr k) (hole_link k) s) = Some s' \<and>
    treerep s' t' \<and> rbtree t' \<and> addrs t' = cleft k @ x # cright k \<and>
    rb_augment_insert x (recompute g) s' d = Some d' \<and> aug_ok g d' t'"
proof -
  let ?x = "RNode RLeaf x Red RLeaf"
  obtain s' where s': "rb_insert_color x (rb_link_node x (cptr k) (hole_link k) s) = Some s'"
    "treerep s' (ins_fix k ?x)" "rbtree (ins_fix k ?x)" "addrs (ins_fix k ?x) = cleft k @ x # cright k"
    using rb_insert_shape [OF T inv x] by blast
  have "near (aug_below g d) (aug_below g d) x (ins_fix k ?x)"
    using aug_ok_plug [OF ok] by (intro near_ins_fix) auto
  then obtain k' l c r where k': "ins_fix k ?x = plug k' (RNode l x c r)" "aug_below g d l" "aug_below g d r"
    "path_below g d k'" using near_path unfolding path_below_def by blast
  from augment_insert_correct [OF s'(2) [unfolded k'(1)] k'(2-4)]
  have "\<exists>d'. rb_augment_insert x (recompute g) s' d = Some d' \<and> aug_ok g d' (ins_fix k ?x)"
    unfolding k'(1) .
  then show ?thesis using s' by blast
qed

subsection \<open>Repair after a removal\<close>

text \<open>
  Where the walk starts: at the root of the subtree in the hole, or, when the hole is empty, at its
  parent.
\<close>

definition starts :: "(addr \<Rightarrow> 'v option \<Rightarrow> 'v option \<Rightarrow> 'v) \<Rightarrow> (addr \<Rightarrow> 'v) \<Rightarrow> addr \<Rightarrow> addr \<Rightarrow> rtree \<Rightarrow> bool" where
  "starts g d q p t \<longleftrightarrow> near (aug_ok g d) (aug_ok g d) q t \<or> t = RLeaf \<and> q = p"

lemma near_fin_left:
  assumes "starts g d q p t" "aug_ok g d w"
  shows "near (aug_ok g d) (aug_below g d) q (fin_left p pc t w)"
proof -
  have t: "near (aug_ok g d) (aug_below g d) q t \<or> t = RLeaf \<and> q = p"
    using assms(1) near_weak(2) unfolding starts_def by blast
  show ?thesis
  proof (cases w)
    case RLeaf
    then show ?thesis using t by auto
  next
    case (RNode wl x xc wr)
    show ?thesis
    proof (cases wl)
      case wl: RLeaf
      then show ?thesis using t assms(2) by (cases "colour wr = Black") (auto simp: RNode aug_below_ok)
    next
      case wl: (RNode a y yc b)
      then show ?thesis using t assms(2) by (cases "colour wr = Black") (auto simp: RNode aug_below_ok)
    qed
  qed
qed

lemma near_mirror_aug:
  "near (aug_ok (\<lambda>a x y. g a y x) d) (aug_ok (\<lambda>a x y. g a y x) d) q (mirror u) = near (aug_ok g d) (aug_ok g d) q u"
  "near (aug_ok g d) (aug_below g d) q (mirror u) = near (aug_ok (\<lambda>a x y. g a y x) d) (aug_below (\<lambda>a x y. g a y x) d) q u"
proof -
  show "near (aug_ok (\<lambda>a x y. g a y x) d) (aug_ok (\<lambda>a x y. g a y x) d) q (mirror u) = near (aug_ok g d) (aug_ok g d) q u"
    unfolding near_mirror aug_mirror ..
  have "aug_ok g d (mirror t) = aug_ok (\<lambda>a x y. g a y x) d t" "aug_below g d (mirror t) = aug_below (\<lambda>a x y. g a y x) d t" for t
    using aug_mirror [of "\<lambda>a x y. g a y x" d t] by simp_all
  then show "near (aug_ok g d) (aug_below g d) q (mirror u) = near (aug_ok (\<lambda>a x y. g a y x) d) (aug_below (\<lambda>a x y. g a y x) d) q u"
    unfolding near_mirror by (simp only:)
qed

lemma near_fin_right:
  assumes "starts g d q p t" "aug_ok g d w"
  shows "near (aug_ok g d) (aug_below g d) q (fin_right p pc t w)"
proof -
  have "starts (\<lambda>a x y. g a y x) d q p (mirror t)" "aug_ok (\<lambda>a x y. g a y x) d (mirror w)"
    using assms by (auto simp: starts_def aug_mirror near_mirror_aug(1))
  from near_fin_left [OF this, of pc] show ?thesis
    unfolding fin_right_def near_mirror_aug(2) .
qed

lemma near_step:
  assumes "starts g d q p t" "aug_ok g d w"
  shows "near (aug_ok g d) (aug_ok g d) q (RNode t p c w)" "near (aug_ok g d) (aug_ok g d) q (RNode w p c t)"
  using assms by (auto simp: starts_def)

lemma near_del_fix_left:
  assumes IH: "\<And>t. near (aug_ok g d) (aug_ok g d) q t \<Longrightarrow> near (aug_ok g d) (aug_below g d) q (del_fix k t)"
    and prems: "near (aug_ok g d) (aug_ok g d) q t \<or> t = RLeaf \<and> q = p" "\<forall>f \<in> set (FL p pc w # k). aug_ok g d (fsib f)"
  shows "near (aug_ok g d) (aug_below g d) q (del_fix (FL p pc w # k) t)"
proof -
  have st: "starts g d q p t" and w: "aug_ok g d w" and k: "\<forall>f \<in> set k. aug_ok g d (fsib f)"
    using prems by (auto simp: starts_def)
  note plugs = near_plug [of "aug_ok g d" "aug_below g d" q, OF _ ok_below]
  show ?thesis
  proof (cases "colour t = Red")
    case True
    then have "near (aug_ok g d) (aug_ok g d) q (RNode (paint Black t) p pc w)" using st w by (auto simp: starts_def)
    from plugs [OF near_weak(2) [OF this] k] True show ?thesis by simp
  next
    case c: False
    show ?thesis
    proof (cases "\<exists>wl x wr. w = RNode wl x Red wr")
      case True
      then obtain wl x wr where W: "w = RNode wl x Red wr" by blast
      have k': "\<forall>f \<in> set (FL x Black wr # k). aug_ok g d (fsib f)" using k w by (simp add: W)
      have "near (aug_ok g d) (aug_below g d) q (RNode t p Black (paint Red wl))"
        by (intro near_weak(2) near_step(1) [OF st]) (use w in \<open>simp add: W\<close>)
      moreover have "near (aug_ok g d) (aug_below g d) q (fin_left p Red t wl)"
        using near_fin_left [OF st] w by (simp add: W)
      ultimately show ?thesis using c W plugs [OF _ k'] by simp
    next
      case False
      then have d: "del_fix (FL p pc w # k) t =
          (if kids_black w then del_fix k (RNode t p pc (paint Red w)) else paint Black (plug k (fin_left p pc t w)))"
        using c by (auto split: rtree.split rbcolor.split)
      have "near (aug_ok g d) (aug_below g d) q (del_fix k (RNode t p pc (paint Red w)))" if "kids_black w"
      proof -
        have "near (aug_ok g d) (aug_ok g d) q (RNode t p pc (paint Red w))" using near_step(1) [OF st] w by simp
        then show ?thesis using IH that c False k by (cases w; cases "colour w") auto
      qed
      then show ?thesis unfolding d using near_fin_left [OF st w] plugs [OF _ k] by simp
    qed
  qed
qed

lemma near_del_fix_right:
  assumes IH: "\<And>t. near (aug_ok g d) (aug_ok g d) q t \<Longrightarrow> near (aug_ok g d) (aug_below g d) q (del_fix k t)"
    and prems: "near (aug_ok g d) (aug_ok g d) q t \<or> t = RLeaf \<and> q = p" "\<forall>f \<in> set (FR w p pc # k). aug_ok g d (fsib f)"
  shows "near (aug_ok g d) (aug_below g d) q (del_fix (FR w p pc # k) t)"
proof -
  have st: "starts g d q p t" and w: "aug_ok g d w" and k: "\<forall>f \<in> set k. aug_ok g d (fsib f)"
    using prems by (auto simp: starts_def)
  note plugs = near_plug [of "aug_ok g d" "aug_below g d" q, OF _ ok_below]
  show ?thesis
  proof (cases "colour t = Red")
    case True
    then have "near (aug_ok g d) (aug_ok g d) q (RNode w p pc (paint Black t))" using st w by (auto simp: starts_def)
    from plugs [OF near_weak(2) [OF this] k] True show ?thesis by simp
  next
    case c: False
    show ?thesis
    proof (cases "\<exists>wl x wr. w = RNode wl x Red wr")
      case True
      then obtain wl x wr where W: "w = RNode wl x Red wr" by blast
      have k': "\<forall>f \<in> set (FR wl x Black # k). aug_ok g d (fsib f)" using k w by (simp add: W)
      have "near (aug_ok g d) (aug_below g d) q (RNode (paint Red wr) p Black t)"
        by (intro near_weak(2) near_step(2) [OF st]) (use w in \<open>simp add: W\<close>)
      moreover have "near (aug_ok g d) (aug_below g d) q (fin_right p Red t wr)"
        using near_fin_right [OF st] w by (simp add: W)
      ultimately show ?thesis using c W plugs [OF _ k'] by simp
    next
      case False
      then have d: "del_fix (FR w p pc # k) t =
          (if kids_black w then del_fix k (RNode (paint Red w) p pc t) else paint Black (plug k (fin_right p pc t w)))"
        using c by (auto split: rtree.split rbcolor.split)
      have "near (aug_ok g d) (aug_below g d) q (del_fix k (RNode (paint Red w) p pc t))" if "kids_black w"
      proof -
        have "near (aug_ok g d) (aug_ok g d) q (RNode (paint Red w) p pc t)" using near_step(2) [OF st] w by simp
        then show ?thesis using IH that c False k by (cases w; cases "colour w") auto
      qed
      then show ?thesis unfolding d using near_fin_right [OF st w] plugs [OF _ k] by simp
    qed
  qed
qed

lemma near_del_fix:
  assumes "near (aug_ok g d) (aug_ok g d) q t \<or> t = RLeaf \<and> k \<noteq> [] \<and> q = cptr k" "\<forall>f \<in> set k. aug_ok g d (fsib f)"
  shows "near (aug_ok g d) (aug_below g d) q (del_fix k t)"
  using assms
proof (induction k arbitrary: t)
  case Nil
  then show ?case by (simp add: near_weak)
next
  case (Cons f k)
  have IH: "near (aug_ok g d) (aug_ok g d) q u \<Longrightarrow> near (aug_ok g d) (aug_below g d) q (del_fix k u)" for u
    using Cons.IH [of u] Cons.prems(2) by simp
  show ?case
  proof (cases f)
    case (FL p pc w)
    then show ?thesis using near_del_fix_left [OF IH, of t p pc w] Cons.prems by simp
  next
    case (FR w p pc)
    then show ?thesis using near_del_fix_right [OF IH, of t p w pc] Cons.prems by simp
  qed
qed

subsection \<open>A removal with its walk\<close>

definition walk_start :: "frame list \<Rightarrow> rtree \<Rightarrow> addr" where
  "walk_start k u = (if u = RLeaf then cptr k else ptr u)"

lemma hole_aug:
  assumes "hole_of a t k c u" "aug_ok g d t"
  shows "aug_ok g d u" "\<forall>f \<in> set k. aug_ok g d (fsib f)"
proof -
  have "aug_ok g d u \<and> (\<forall>f \<in> set k. aug_ok g d (fsib f))"
    using assms
  proof (cases rule: hole_of.cases)
    case (hole_one l r)
    then show ?thesis using aug_ok_plug [of g d k "RNode l a c r"] assms(2) by auto
  next
    case (hole_two l j k0 c0 m)
    then have "t = plug (j @ FR l a c0 # k0) (RNode RLeaf m c u)" by simp
    from aug_ok_plug [OF assms(2) [unfolded this]] hole_two show ?thesis by auto
  qed
  then show "aug_ok g d u" "\<forall>f \<in> set k. aug_ok g d (fsib f)" by auto
qed

lemma near_erase_hole:
  assumes "aug_ok g d u" "\<forall>f \<in> set k. aug_ok g d (fsib f)" "u \<noteq> RLeaf \<or> k \<noteq> []"
  shows "near (aug_ok g d) (aug_below g d) (walk_start k u) (erase_hole k c u)"
proof -
  have st: "near (aug_ok g d) (aug_ok g d) (walk_start k u) u \<or> u = RLeaf \<and> k \<noteq> [] \<and> walk_start k u = cptr k"
    using assms(1,3) by (cases u) (auto simp: walk_start_def)
  have "near (aug_ok g d) (aug_ok g d) (walk_start k u) (plug k u)"
  proof (cases "u = RLeaf")
    case True
    then obtain f k' where k: "k = f # k'" using assms(3) by (cases k) auto
    have "near (aug_ok g d) (aug_ok g d) (walk_start k u) (fill f RLeaf)"
      using assms(2) True k by (cases f) (auto simp: walk_start_def)
    then show ?thesis using near_plug [of _ _ _ "fill f RLeaf" k'] assms(2) k True by simp
  next
    case False
    then show ?thesis using st assms(2) near_plug by blast
  qed
  from near_weak(2) [OF this] show ?thesis using near_del_fix [OF st assms(2)] by (simp add: erase_hole_def)
qed

lemma erase_begin_start:
  assumes T: "treerep s t" and h: "hole_of a t k c u"
  shows "rb_augment_erase_begin a s = Some (walk_start k u)"
  using h
proof (cases rule: hole_of.cases)
  case (hole_one l r)
  have T': "treerep s (plug k (RNode l a c r))" using T hole_one by simp
  note n = treerep_node [OF T']
  have L: "treerep s (plug (FL a c r # k) l)" and R: "treerep s (plug (FR l a c # k) r)" using T' by simp_all
  show ?thesis
    using hole_one n treerep_null_iff [OF L] treerep_null_iff [OF R]
    by (auto simp: rb_augment_erase_begin_def walk_start_def)
next
  case (hole_two l j k0 c0 m)
  let ?r = "plug j (RNode RLeaf m c u)"
  have T': "treerep s (plug k0 (RNode l a c0 ?r))" using T hole_two by simp
  note n = treerep_node [OF T']
  have L: "treerep s (plug (FL a c0 ?r # k0) l)" and R: "treerep s (plug (FR l a c0 # k0) ?r)"
    using T' by simp_all
  have M: "treerep s (plug (j @ FR l a c0 # k0) (RNode RLeaf m c u))" using T' by simp
  note nm = treerep_node [OF M]
  have U: "treerep s (plug (FR RLeaf m c # j @ FR l a c0 # k0) u)" using M by simp
  have "addrs t = (cleft k0 @ addrs l) @ a # m # addrs u @ cright j @ cright k0"
    using hole_two cleft_FL [OF hole_two(4)] by (simp add: addrs_plug)
  from rb_next_refines [OF T this] have nx: "rb_next a s = Some m" by (simp add: first_or_null_def)
  have p: "rb_parent m s = cptr (j @ FR l a c0 # k0)" using nm by simp
  have "cptr (j @ FR l a c0 # k0) = a \<longleftrightarrow> j = []"
  proof (cases j)
    case (Cons f j')
    have "faddr f \<in> set (cright j)" using cptr_mem [of j] cleft_FL [OF hole_two(4)] Cons by simp
    moreover have "a \<notin> set (cright j)" using T' by (simp add: treerep_plug addrs_plug)
    ultimately show ?thesis using Cons by auto
  qed simp
  moreover have "cptr k = (if j = [] then m else cptr (j @ FR l a c0 # k0))" using hole_two by (cases j) auto
  ultimately show ?thesis
    using nx p n nm hole_two(3) treerep_null_iff [OF L] treerep_null_iff [OF R] treerep_null_iff [OF U]
    by (auto simp: rb_augment_erase_begin_def walk_start_def)
qed

theorem augmented_erase:
  assumes "treerep s t" "rbtree t" "a \<in> set (addrs t)" "aug_ok g d t"
  shows "\<exists>q s' t' d'. rb_augment_erase_begin a s = Some q \<and> rb_erase a s = Some s' \<and>
    treerep s' t' \<and> rbtree t' \<and> addrs t' = remove1 a (addrs t) \<and>
    rb_augment_erase_end q (recompute g) s' d = Some d' \<and> aug_ok g d' t'"
proof -
  obtain s' k c u where e: "rb_erase a s = Some s'" "hole_of a t k c u" "erased a s t s' (erase_hole k c u)"
    using rb_erase_hole [OF assms(1-3)] by blast
  note ok = hole_aug [OF e(2) assms(4)]
  have T': "treerep s' (erase_hole k c u)" using e(3) by (simp add: erased_def)
  have "\<exists>d'. rb_augment_erase_end (walk_start k u) (recompute g) s' d = Some d' \<and> aug_ok g d' (erase_hole k c u)"
  proof (cases "u = RLeaf \<and> k = []")
    case True
    then show ?thesis by (simp add: rb_augment_erase_end_def walk_start_def erase_hole_def)
  next
    case False
    then have "near (aug_ok g d) (aug_below g d) (walk_start k u) (erase_hole k c u)"
      by (intro near_erase_hole [OF ok]) blast
    then obtain k' l c' r where k': "erase_hole k c u = plug k' (RNode l (walk_start k u) c' r)"
      "aug_ok g d l" "aug_ok g d r" "path_below g d k'"
      using near_path unfolding path_below_def by blast
    then show ?thesis
      using augment_erase_correct [of s' k' "RNode l (walk_start k u) c' r" g d] T' by simp
  qed
  then show ?thesis using e(1,3) erase_begin_start [OF assms(1) e(2)] by (auto simp: erased_def)
qed

end
