(* ===== verification/Props_Aug.thy ===== *)
theory Props_Aug
  imports RbAugInv Props_Tree
begin

text \<open>
  The property of augmented trees, with a witness in which each node keeps the size of its subtree.
\<close>

definition count_below :: "addr \<Rightarrow> nat option \<Rightarrow> nat option \<Rightarrow> nat" where
  "count_below a l r = 1 + (case l of None \<Rightarrow> 0 | Some n \<Rightarrow> n) + (case r of None \<Rightarrow> 0 | Some n \<Rightarrow> n)"

lemma counted:
  assumes "aug_ok count_below d t" "NULL \<notin> set (addrs t)" "t \<noteq> RLeaf"
  shows "d (ptr t) = length (addrs t)"
  using assms
proof (induction t)
  case (RNode l a c r)
  have "(case val_of (ptr u) d of None \<Rightarrow> 0 | Some n \<Rightarrow> n) = length (addrs u)"
    if "u = RLeaf \<or> d (ptr u) = length (addrs u)" "NULL \<notin> set (addrs u)" for u
    using that ptr_mem [of u] by (cases u) (auto simp: val_of_def)
  from this [of l] this [of r]
  have "(case val_of (ptr l) d of None \<Rightarrow> 0 | Some n \<Rightarrow> n) = length (addrs l)"
    "(case val_of (ptr r) d of None \<Rightarrow> 0 | Some n \<Rightarrow> n) = length (addrs r)" using RNode by auto
  then show ?case using RNode by (auto simp: count_below_def)
qed simp

text \<open>C5: A tree whose nodes keep a value computed from the values of their children, by any function,
  stays right: after \<open>rb_link_node\<close>, \<open>rb_insert_color\<close> and \<open>rb_augment_insert\<close>, and after
  \<open>rb_augment_erase_begin\<close>, \<open>rb_erase\<close> and \<open>rb_augment_erase_end\<close> with the node the first one
  found, every value of the new tree is again the function of the children's values, wherever the
  rotations moved the nodes; all calls end.\<close>

theorem rb_augmented_correct:
  assumes "treerep s t" "rbtree t" "aug_ok g d t"
  shows "(t = plug k RLeaf \<and> x \<noteq> NULL \<and> aligned x \<and> x \<notin> set (addrs t) \<longrightarrow>
      (\<exists>s' t' d'. rb_insert_color x (rb_link_node x (cptr k) (hole_link k) s) = Some s' \<and>
        rb_augment_insert x (recompute g) s' d = Some d' \<and>
        treerep s' t' \<and> rbtree t' \<and> addrs t' = cleft k @ x # cright k \<and> aug_ok g d' t'))
    \<and> (a \<in> set (addrs t) \<longrightarrow>
      (\<exists>q s' t' d'. rb_augment_erase_begin a s = Some q \<and> rb_erase a s = Some s' \<and>
        rb_augment_erase_end q (recompute g) s' d = Some d' \<and>
        treerep s' t' \<and> rbtree t' \<and> addrs t' = remove1 a (addrs t) \<and> aug_ok g d' t'))"
  using augmented_insert [of s k x g d] augmented_erase [OF assms(1,2) _ assms(3), of a] assms by blast

definition demo_sizes :: "addr \<Rightarrow> nat" where
  "demo_sizes a = (if a = 16 then 3 else 1)"

lemma rb_augmented_correct_witness:
  "\<exists>q s' t' d'. rb_augment_erase_begin 16 demo_rb = Some q \<and> rb_erase 16 demo_rb = Some s' \<and>
    rb_augment_erase_end q (recompute count_below) s' demo_sizes = Some d' \<and>
    treerep s' t' \<and> addrs t' = [8, 24] \<and> d' (ptr t') = 2"
proof -
  have "aug_ok count_below demo_sizes demo_tree"
    by (simp add: demo_tree_def demo_sizes_def count_below_def val_of_def)
  from rb_augmented_correct [OF demo_treerep demo_rbtree this, of "[]" 0 16]
  obtain q s' t' d' where r: "rb_augment_erase_begin 16 demo_rb = Some q" "rb_erase 16 demo_rb = Some s'"
    "rb_augment_erase_end q (recompute count_below) s' demo_sizes = Some d'"
    "treerep s' t'" "addrs t' = [8, 24]" "aug_ok count_below d' t'"
    unfolding demo_addrs by auto
  moreover have "d' (ptr t') = 2" using counted [OF r(6)] r(5) by (cases "t' = RLeaf") auto
  ultimately show ?thesis by blast
qed

end
