(* ===== verification/Dsc.thy ===== *)
theory Dsc
  imports Tdhb
begin

text \<open>
  The message code of \<open>src/test2/IDL_hello_world.dsc.h\<close> and \<open>.dsc.c\<close>: integers as a flag byte and
  their significant bytes, most significant first, and the one message of the sample server, a
  string. The macros work on a buffer, a pointer into it and a count of bytes; a read or write
  outside the buffer, or in front of the variable that is decoded, is \<open>None\<close>. The machine is
  little-endian. Negation wraps, also at the smallest integer.
\<close>

subsection \<open>Words as bytes\<close>

text \<open>What is in memory for a word, lowest address first, and the word that bytes in memory are.\<close>

definition le_bytes :: "'a::len word \<Rightarrow> byte list" where
  "le_bytes w = map (\<lambda>i. ucast (drop_bit (8 * i) w)) [0..<LENGTH('a) div 8]"

fun le_word :: "byte list \<Rightarrow> 'a::len word" where
  "le_word [] = 0"
| "le_word (b # bs) = ucast b OR push_bit 8 (le_word bs)"

text \<open>\<open>htonl\<close>, which is also \<open>ntohl\<close>, and the macros built on it.\<close>

definition htonl :: "32 word \<Rightarrow> 32 word" where
  "htonl w = le_word (rev (le_bytes w))"

definition HTONLL :: "64 word \<Rightarrow> 64 word" where
  "HTONLL w = push_bit 32 (ucast (htonl (ucast (drop_bit 32 (push_bit 32 w))))) OR ucast (htonl (ucast (drop_bit 32 w)))"

definition NTOHLL :: "64 word \<Rightarrow> 64 word" where
  "NTOHLL w = push_bit 32 (ucast (htonl (ucast (drop_bit 32 (push_bit 32 w))))) OR ucast (htonl (ucast (drop_bit 32 w)))"

subsection \<open>Integers\<close>

text \<open>A buffer, the pointer into it and the running count.\<close>

type_synonym cursor = "byte list \<times> int \<times> int"

text \<open>A flag byte and the bytes behind it; the pointer and the count move over them.\<close>

definition put_int :: "byte \<Rightarrow> byte list \<Rightarrow> cursor \<Rightarrow> cursor option" where
  "put_int flag bs = (\<lambda>(buf, ptr, off).
     case write_at buf ptr [flag] of
       None \<Rightarrow> None
     | Some buf \<Rightarrow>
         map_option (\<lambda>buf. (buf, ptr + (1 + int (length bs)), off + (1 + int (length bs))))
           (write_at buf (ptr + 1) bs))"

text \<open>\<open>memcpy\<close> from the \<open>i\<close>th byte of a variable, to its end.\<close>

definition from_byte :: "nat \<Rightarrow> 'a::len word \<Rightarrow> byte list" where
  "from_byte i w = drop i (le_bytes w)"

text \<open>
  The value is negated as a word: the smallest integer stays what it is. In C that negation is
  undefined; the model has the wrap-around that two's complement machines give.
\<close>

definition COMPRESS_INT4 :: "32 word \<Rightarrow> cursor \<Rightarrow> cursor option" where
  "COMPRESS_INT4 x c =
     (let (h, n, flag) = (if sint x < 0 then (- x, htonl (- x), 0x10) else (x, htonl x, 0)) in
      if h AND 0xFF000000 \<noteq> 0 then put_int (flag OR 4) (from_byte 0 n) c
      else if h AND 0x00FF0000 \<noteq> 0 then put_int (flag OR 3) (from_byte 1 n) c
      else if h AND 0x0000FF00 \<noteq> 0 then put_int (flag OR 2) (from_byte 2 n) c
      else put_int (flag OR 1) (from_byte 3 n) c)"

definition COMPRESS_UINT4 :: "32 word \<Rightarrow> cursor \<Rightarrow> cursor option" where
  "COMPRESS_UINT4 x c =
     (let h = x; n = htonl h in
      if h AND 0xFF000000 \<noteq> 0 then put_int 4 (from_byte 0 n) c
      else if h AND 0x00FF0000 \<noteq> 0 then put_int 3 (from_byte 1 n) c
      else if h AND 0x0000FF00 \<noteq> 0 then put_int 2 (from_byte 2 n) c
      else put_int 1 (from_byte 3 n) c)"

definition COMPRESS_INT8 :: "64 word \<Rightarrow> cursor \<Rightarrow> cursor option" where
  "COMPRESS_INT8 x c =
     (let (h, n, flag) = (if sint x < 0 then (- x, HTONLL (- x), 0x10) else (x, HTONLL x, 0)) in
      if h AND 0xFF00000000000000 \<noteq> 0 then put_int (flag OR 8) (from_byte 0 n) c
      else if h AND 0x00FF000000000000 \<noteq> 0 then put_int (flag OR 7) (from_byte 1 n) c
      else if h AND 0x0000FF0000000000 \<noteq> 0 then put_int (flag OR 6) (from_byte 2 n) c
      else if h AND 0x000000FF00000000 \<noteq> 0 then put_int (flag OR 5) (from_byte 3 n) c
      else if h AND 0x00000000FF000000 \<noteq> 0 then put_int (flag OR 4) (from_byte 4 n) c
      else if h AND 0x0000000000FF0000 \<noteq> 0 then put_int (flag OR 3) (from_byte 5 n) c
      else if h AND 0x000000000000FF00 \<noteq> 0 then put_int (flag OR 2) (from_byte 6 n) c
      else put_int (flag OR 1) (from_byte 7 n) c)"

definition COMPRESS_UINT8 :: "64 word \<Rightarrow> cursor \<Rightarrow> cursor option" where
  "COMPRESS_UINT8 x c =
     (let h = x; n = HTONLL h in
      if h AND 0xFF00000000000000 \<noteq> 0 then put_int 8 (from_byte 0 n) c
      else if h AND 0x00FF000000000000 \<noteq> 0 then put_int 7 (from_byte 1 n) c
      else if h AND 0x0000FF0000000000 \<noteq> 0 then put_int 6 (from_byte 2 n) c
      else if h AND 0x000000FF00000000 \<noteq> 0 then put_int 5 (from_byte 3 n) c
      else if h AND 0x00000000FF000000 \<noteq> 0 then put_int 4 (from_byte 4 n) c
      else if h AND 0x0000000000FF0000 \<noteq> 0 then put_int 3 (from_byte 5 n) c
      else if h AND 0x000000000000FF00 \<noteq> 0 then put_int 2 (from_byte 6 n) c
      else put_int 1 (from_byte 7 n) c)"

text \<open>
  Decoding: the flag byte is cut to its low half in the buffer itself, and its value is the
  number of bytes copied to the end of a variable of \<open>width\<close> bytes that was set to 0. What is
  returned: the flag byte as it was, the variable's bytes, and the cursor behind.
\<close>

definition get_int :: "int \<Rightarrow> cursor \<Rightarrow> (byte \<times> byte list \<times> cursor) option" where
  "get_int width = (\<lambda>(buf, ptr, off).
     case read_at buf ptr 1 of
       Some [flag] \<Rightarrow>
         (case write_at buf ptr [flag AND 0x0F] of
            None \<Rightarrow> None
          | Some buf \<Rightarrow>
              let k = uint (flag AND 0x0F) in
              if k > width then None
              else (case read_at buf (ptr + 1) k of
                      None \<Rightarrow> None
                    | Some bs \<Rightarrow>
                        Some (flag, replicate (nat (width - k)) 0 @ bs, buf, ptr + (1 + k), off + (1 + k))))
     | _ \<Rightarrow> None)"

definition UNCOMPRESS_INT4 :: "cursor \<Rightarrow> (32 word \<times> cursor) option" where
  "UNCOMPRESS_INT4 c =
     (case get_int 4 c of
        None \<Rightarrow> None
      | Some (flag, bs, c) \<Rightarrow>
          let x = htonl (le_word bs) in Some (if flag AND 0xF0 AND 0x10 \<noteq> 0 then - x else x, c))"

definition UNCOMPRESS_UINT4 :: "cursor \<Rightarrow> (32 word \<times> cursor) option" where
  "UNCOMPRESS_UINT4 c = map_option (\<lambda>(flag, bs, c). (htonl (le_word bs), c)) (get_int 4 c)"

definition UNCOMPRESS_INT8 :: "cursor \<Rightarrow> (64 word \<times> cursor) option" where
  "UNCOMPRESS_INT8 c =
     (case get_int 8 c of
        None \<Rightarrow> None
      | Some (flag, bs, c) \<Rightarrow>
          let x = NTOHLL (le_word bs) in Some (if flag AND 0xF0 AND 0x10 \<noteq> 0 then - x else x, c))"

definition UNCOMPRESS_UINT8 :: "cursor \<Rightarrow> (64 word \<times> cursor) option" where
  "UNCOMPRESS_UINT8 c = map_option (\<lambda>(flag, bs, c). (NTOHLL (le_word bs), c)) (get_int 8 c)"

subsection \<open>The message\<close>

record hello_world =
  hw_message :: "byte list"

definition MESSAGE_SIZE :: nat where "MESSAGE_SIZE = 257"
definition DSCSERIALIZE_COMPRESS_BUFSIZE_hello_world :: int where
  "DSCSERIALIZE_COMPRESS_BUFSIZE_hello_world = 257"

definition DSCINIT_hello_world :: "hello_world \<Rightarrow> int \<times> hello_world" where
  "DSCINIT_hello_world st = (0, st\<lparr>hw_message := replicate MESSAGE_SIZE 0\<rparr>)"

definition DSCNETORDER_hello_world :: "hello_world \<Rightarrow> int \<times> hello_world" where
  "DSCNETORDER_hello_world st = (0, st)"

definition DSCHOSTORDER_hello_world :: "hello_world \<Rightarrow> int \<times> hello_world" where
  "DSCHOSTORDER_hello_world st = (0, st)"

text \<open>\<open>strlen\<close> of an array; without a zero byte it reads past the end.\<close>

fun strlen :: "byte list \<Rightarrow> nat option" where
  "strlen [] = None"
| "strlen (b # bs) = (if b = 0 then Some 0 else map_option Suc (strlen bs))"

text \<open>The result is the return value, the buffer and the count stored in \<open>*p_len\<close>.\<close>

definition DSCSERIALIZE_COMPRESS_hello_world :: "hello_world \<Rightarrow> byte list \<Rightarrow> (int \<times> byte list \<times> int) option" where
  "DSCSERIALIZE_COMPRESS_hello_world st buf =
     (case strlen (hw_message st) of
        None \<Rightarrow> None
      | Some sz \<Rightarrow>
          (case COMPRESS_UINT4 (of_nat sz) (buf, 0, 0) of
             None \<Rightarrow> None
           | Some (buf, ptr, len) \<Rightarrow>
               map_option (\<lambda>buf. (0, buf, len + int sz)) (write_at buf ptr (take sz (hw_message st)))))"

definition DSCDESERIALIZE_COMPRESS_hello_world ::
  "byte list \<Rightarrow> hello_world \<Rightarrow> (int \<times> byte list \<times> int \<times> hello_world) option" where
  "DSCDESERIALIZE_COMPRESS_hello_world buf st =
     (case UNCOMPRESS_UINT4 (buf, 0, 0) of
        None \<Rightarrow> None
      | Some (sz, buf, ptr, len) \<Rightarrow>
          (case read_at buf ptr (uint sz) of
             None \<Rightarrow> None
           | Some bs \<Rightarrow>
               map_option (\<lambda>m. (0, buf, len + uint sz, st\<lparr>hw_message := m\<rparr>)) (write_at (hw_message st) 0 bs)))"

definition DSCGetErrorLine_hello_world :: int where
  "DSCGetErrorLine_hello_world = 0"

end
