(* ===== verification/DscInv.thy ===== *)
theory DscInv
  imports Dsc
begin

text \<open>
  The round trip of the message code: bytes and words, the integers at their four widths, and the
  message; and where a buffer of the announced size, or an unchecked length, is not enough.
\<close>

subsection \<open>Bytes of a word\<close>

lemma length_le_bytes [simp]: "length (le_bytes (w :: 'a::len word)) = LENGTH('a) div 8"
  by (simp add: le_bytes_def)

lemma bit_le_word:
  "bit (le_word bs :: 'a::len word) n \<longleftrightarrow> n < LENGTH('a) \<and> n div 8 < length bs \<and> bit (bs ! (n div 8)) (n mod 8)"
proof (induction bs arbitrary: n)
  case (Cons b bs)
  show ?case
  proof (cases "n < 8")
    case True
    then show ?thesis by (auto simp: bit_simps)
  next
    case False
    then have n: "n div 8 = Suc ((n - 8) div 8)" "n mod 8 = (n - 8) mod 8"
      by (simp_all add: div_if [of n] mod_if [of n])
    have "\<not> bit b n" using False by (simp add: bit_word.rep_eq not_less)
    then show ?thesis using False Cons.IH [of "n - 8"] n by (auto simp: bit_simps)
  qed
qed simp

lemma le_word_bytes:
  assumes "LENGTH('a) = 8 * (LENGTH('a) div 8)"
  shows "le_word (le_bytes (w :: 'a::len word)) = w"
proof (rule bit_word_eqI)
  fix n
  assume n: "n < LENGTH('a)"
  then have "n div 8 < LENGTH('a) div 8" using assms by (metis less_mult_imp_div_less mult.commute)
  then show "bit (le_word (le_bytes w) :: 'a word) n = bit w n"
    using n by (simp add: bit_le_word le_bytes_def bit_simps)
qed

lemma le_bytes_word:
  assumes "8 * length bs = LENGTH('a)"
  shows "le_bytes (le_word bs :: 'a::len word) = bs"
proof (rule nth_equalityI)
  show len: "length (le_bytes (le_word bs :: 'a word)) = length bs" using assms by auto
  fix i
  assume i: "i < length (le_bytes (le_word bs :: 'a word))"
  then have il: "i < length bs" using len by simp
  show "le_bytes (le_word bs :: 'a word) ! i = bs ! i"
  proof (rule bit_word_eqI)
    fix n
    assume n: "n < LENGTH(8)"
    then have "8 * i + n < LENGTH('a)" using il assms by auto
    then show "bit (le_bytes (le_word bs :: 'a word) ! i) n = bit (bs ! i) n"
      using n i il by (simp add: le_bytes_def bit_simps bit_le_word)
  qed
qed

lemma le_bytes_32 [simp]: "le_word (le_bytes (w :: 32 word)) = w"
  and le_bytes_64 [simp]: "le_word (le_bytes (v :: 64 word)) = v"
  by (simp_all add: le_word_bytes)

lemma le_bytes_htonl: "le_bytes (htonl w) = rev (le_bytes w)"
  by (simp add: htonl_def le_bytes_word)

lemma htonl_le_word: "length bs = 4 \<Longrightarrow> htonl (le_word bs) = le_word (rev bs)"
  by (simp add: htonl_def le_bytes_word)

text \<open>\<open>HTONLL\<close> turns the bytes around by halves.\<close>

lemma le_bytes_halves:
  "le_bytes (push_bit 32 (ucast (hi :: 32 word)) OR ucast (lo :: 32 word) :: 64 word) = le_bytes lo @ le_bytes hi"
proof (rule nth_equalityI)
  fix i
  assume "i < length (le_bytes (push_bit 32 (ucast hi) OR ucast lo :: 64 word))"
  then have i: "i < 8" by simp
  show "le_bytes (push_bit 32 (ucast hi) OR ucast lo :: 64 word) ! i = (le_bytes lo @ le_bytes hi) ! i"
  proof (rule bit_word_eqI)
    fix n
    assume n: "n < LENGTH(8)"
    have "\<not> bit lo (8 * i + n)" if "\<not> i < 4" using that by (intro impI notI) (auto dest: bit_imp_le_length)
    moreover have "8 * (i - 4) + n = 8 * i + n - 32" if "\<not> i < 4" using that by simp
    ultimately show "bit (le_bytes (push_bit 32 (ucast hi) OR ucast lo :: 64 word) ! i) n = bit ((le_bytes lo @ le_bytes hi) ! i) n"
      using i n by (auto simp: le_bytes_def bit_simps nth_append)
  qed
qed simp

lemma halves: "(w :: 64 word) = push_bit 32 (ucast (ucast (drop_bit 32 w) :: 32 word)) OR ucast (ucast (drop_bit 32 (push_bit 32 w)) :: 32 word)"
  by (rule bit_word_eqI) (auto simp: bit_simps)

lemma le_bytes_HTONLL: "le_bytes (HTONLL w) = rev (le_bytes w)"
  by (subst (2) halves) (simp add: HTONLL_def le_bytes_halves le_bytes_htonl)

lemma NTOHLL_le_word: "length bs = 8 \<Longrightarrow> NTOHLL (le_word bs) = le_word (rev bs)"
proof -
  assume "length bs = 8"
  then have "le_bytes (NTOHLL (le_word bs)) = rev bs"
    using le_bytes_HTONLL [of "le_word bs"] by (simp add: NTOHLL_def HTONLL_def le_bytes_word)
  then have "le_word (le_bytes (NTOHLL (le_word bs))) = (le_word (rev bs) :: 64 word)" by (rule arg_cong)
  then show ?thesis by simp
qed

subsection \<open>The significant bytes\<close>

lemma mask_byte:
  assumes "m + 8 \<le> LENGTH('a)"
  shows "(h :: 'a::len word) AND push_bit m 0xFF = 0 \<longleftrightarrow> (ucast (drop_bit m h) :: byte) = 0"
proof -
  have F: "bit (0xFF :: 'a word) n \<longleftrightarrow> n < 8" for n
  proof -
    have e: "(0xFF :: 'a word) = mask 8" by (simp add: mask_eq_exp_minus_1)
    show ?thesis unfolding e using assms by (auto simp: bit_simps)
  qed
  have "h AND push_bit m 0xFF = 0 \<longleftrightarrow> (\<forall>n < 8. \<not> bit h (m + n))"
  proof
    assume e: "h AND push_bit m 0xFF = 0"
    show "\<forall>n < 8. \<not> bit h (m + n)"
    proof (intro allI impI)
      fix n :: nat
      assume "n < 8"
      moreover have "\<not> bit (h AND push_bit m 0xFF) (m + n)" using e by simp
      ultimately show "\<not> bit h (m + n)" using assms F [of n] by (simp add: bit_simps)
    qed
  next
    assume z: "\<forall>n < 8. \<not> bit h (m + n)"
    show "h AND push_bit m 0xFF = 0"
    proof (rule bit_word_eqI)
      fix n
      show "bit (h AND push_bit m 0xFF) n = bit 0 n"
        using z [rule_format, of "n - m"] F [of "n - m"] by (auto simp: bit_simps)
    qed
  qed
  also have "\<dots> \<longleftrightarrow> (ucast (drop_bit m h) :: byte) = 0"
    by (auto simp: bit_eq_iff bit_simps)
  finally show ?thesis .
qed

lemma byte_masks_32:
  fixes h :: "32 word"
  shows "h AND 0xFF000000 = 0 \<longleftrightarrow> (ucast (drop_bit 24 h) :: byte) = 0"
    "h AND 0x00FF0000 = 0 \<longleftrightarrow> (ucast (drop_bit 16 h) :: byte) = 0"
    "h AND 0x0000FF00 = 0 \<longleftrightarrow> (ucast (drop_bit 8 h) :: byte) = 0"
  using mask_byte [of 24 h] mask_byte [of 16 h] mask_byte [of 8 h] by simp_all

lemma byte_masks_64:
  fixes h :: "64 word"
  shows "h AND 0xFF00000000000000 = 0 \<longleftrightarrow> (ucast (drop_bit 56 h) :: byte) = 0"
    "h AND 0x00FF000000000000 = 0 \<longleftrightarrow> (ucast (drop_bit 48 h) :: byte) = 0"
    "h AND 0x0000FF0000000000 = 0 \<longleftrightarrow> (ucast (drop_bit 40 h) :: byte) = 0"
    "h AND 0x000000FF00000000 = 0 \<longleftrightarrow> (ucast (drop_bit 32 h) :: byte) = 0"
    "h AND 0x00000000FF000000 = 0 \<longleftrightarrow> (ucast (drop_bit 24 h) :: byte) = 0"
    "h AND 0x0000000000FF0000 = 0 \<longleftrightarrow> (ucast (drop_bit 16 h) :: byte) = 0"
    "h AND 0x000000000000FF00 = 0 \<longleftrightarrow> (ucast (drop_bit 8 h) :: byte) = 0"
  using mask_byte [of 56 h] mask_byte [of 48 h] mask_byte [of 40 h] mask_byte [of 32 h] mask_byte [of 24 h]
    mask_byte [of 16 h] mask_byte [of 8 h] by simp_all

text \<open>How many bytes a word needs: all above are 0; at least one is kept.\<close>

definition sig :: "'a::len word \<Rightarrow> nat" where
  "sig w = max 1 (length (dropWhile (\<lambda>b. b = 0) (rev (le_bytes w))))"

lemma le_bytes_32_list:
  "le_bytes (h :: 32 word) = [ucast h, ucast (drop_bit 8 h), ucast (drop_bit 16 h), ucast (drop_bit 24 h)]"
  by (simp add: le_bytes_def upt_rec)

lemma le_bytes_64_list:
  "le_bytes (h :: 64 word) = [ucast h, ucast (drop_bit 8 h), ucast (drop_bit 16 h), ucast (drop_bit 24 h),
     ucast (drop_bit 32 h), ucast (drop_bit 40 h), ucast (drop_bit 48 h), ucast (drop_bit 56 h)]"
  by (simp add: le_bytes_def upt_rec)

lemma sig_bounds: "1 \<le> sig w" "8 \<le> LENGTH('a) \<Longrightarrow> sig (w :: 'a::len word) \<le> LENGTH('a) div 8"
  using length_dropWhile_le [of "\<lambda>b. b = 0" "rev (le_bytes w)"] by (simp_all add: sig_def)

lemma dropWhile_zeros: "replicate (length xs - length (dropWhile (\<lambda>b. b = z) xs)) z @ dropWhile (\<lambda>b. b = z) xs = xs"
  by (induction xs) (auto simp: Suc_diff_le length_dropWhile_le)

lemma sig_bytes:
  assumes "8 \<le> LENGTH('a)"
  shows "replicate (LENGTH('a) div 8 - sig w) 0 @ drop (LENGTH('a) div 8 - sig w) (rev (le_bytes w))
    = rev (le_bytes (w :: 'a::len word))"
proof -
  let ?bs = "rev (le_bytes w)"
  let ?d = "dropWhile (\<lambda>b. b = 0) ?bs"
  let ?k = "length ?bs - length ?d"
  have z: "replicate ?k 0 @ ?d = ?bs" by (rule dropWhile_zeros)
  have "LENGTH('a) div 8 - sig w \<le> ?k" by (auto simp: sig_def)
  then have "take (LENGTH('a) div 8 - sig w) ?bs = take (LENGTH('a) div 8 - sig w) (replicate ?k 0 @ ?d)"
    "LENGTH('a) div 8 - sig w \<le> ?k" by (simp_all only: z)
  then have "take (LENGTH('a) div 8 - sig w) ?bs = replicate (LENGTH('a) div 8 - sig w) 0"
    by (simp add: min_def)
  then show ?thesis by (metis append_take_drop_id)
qed

text \<open>All four macros write the flag, the number of significant bytes, and these bytes.\<close>

definition put_sig :: "byte \<Rightarrow> 'a::len word \<Rightarrow> cursor \<Rightarrow> cursor option" where
  "put_sig flag h = put_int (flag OR of_nat (sig h)) (drop (LENGTH('a) div 8 - sig h) (rev (le_bytes h)))"

lemma sig_32:
  "sig (h :: 32 word) = (if h AND 0xFF000000 \<noteq> 0 then 4 else if h AND 0x00FF0000 \<noteq> 0 then 3
     else if h AND 0x0000FF00 \<noteq> 0 then 2 else 1)"
  unfolding sig_def le_bytes_32_list byte_masks_32 by simp

lemma sig_64:
  "sig (h :: 64 word) = (if h AND 0xFF00000000000000 \<noteq> 0 then 8 else if h AND 0x00FF000000000000 \<noteq> 0 then 7
     else if h AND 0x0000FF0000000000 \<noteq> 0 then 6 else if h AND 0x000000FF00000000 \<noteq> 0 then 5
     else if h AND 0x00000000FF000000 \<noteq> 0 then 4 else if h AND 0x0000000000FF0000 \<noteq> 0 then 3
     else if h AND 0x000000000000FF00 \<noteq> 0 then 2 else 1)"
  unfolding sig_def le_bytes_64_list byte_masks_64 by simp

lemma compress_32:
  "(if h AND 0xFF000000 \<noteq> 0 then put_int (flag OR 4) (from_byte 0 (htonl h)) c
    else if h AND 0x00FF0000 \<noteq> 0 then put_int (flag OR 3) (from_byte 1 (htonl h)) c
    else if h AND 0x0000FF00 \<noteq> 0 then put_int (flag OR 2) (from_byte 2 (htonl h)) c
    else put_int (flag OR 1) (from_byte 3 (htonl h)) c) = put_sig flag h c"
  unfolding put_sig_def from_byte_def le_bytes_htonl sig_32 by simp

lemma compress_64:
  "(if h AND 0xFF00000000000000 \<noteq> 0 then put_int (flag OR 8) (from_byte 0 (HTONLL h)) c
    else if h AND 0x00FF000000000000 \<noteq> 0 then put_int (flag OR 7) (from_byte 1 (HTONLL h)) c
    else if h AND 0x0000FF0000000000 \<noteq> 0 then put_int (flag OR 6) (from_byte 2 (HTONLL h)) c
    else if h AND 0x000000FF00000000 \<noteq> 0 then put_int (flag OR 5) (from_byte 3 (HTONLL h)) c
    else if h AND 0x00000000FF000000 \<noteq> 0 then put_int (flag OR 4) (from_byte 4 (HTONLL h)) c
    else if h AND 0x0000000000FF0000 \<noteq> 0 then put_int (flag OR 3) (from_byte 5 (HTONLL h)) c
    else if h AND 0x000000000000FF00 \<noteq> 0 then put_int (flag OR 2) (from_byte 6 (HTONLL h)) c
    else put_int (flag OR 1) (from_byte 7 (HTONLL h)) c) = put_sig flag h c"
  unfolding put_sig_def from_byte_def le_bytes_HTONLL sig_64 by simp

subsection \<open>Writing and reading back\<close>

definition encoded :: "byte \<Rightarrow> 'a::len word \<Rightarrow> byte list" where
  "encoded flag h = (flag OR of_nat (sig h)) # drop (LENGTH('a) div 8 - sig h) (rev (le_bytes h))"

lemma length_encoded: "8 \<le> LENGTH('a) \<Longrightarrow> length (encoded flag (h :: 'a::len word)) = 1 + sig h"
  using sig_bounds(2) [of h] by (simp add: encoded_def)

lemma write_at_split:
  "write_at (pre @ mid @ post) (int (length pre)) bs =
    (if length bs \<le> length mid + length post then Some (pre @ bs @ drop (length bs) (mid @ post)) else None)"
  by (simp add: write_at_def)

lemma write_at_here:
  "length bs = length mid \<Longrightarrow> write_at (pre @ mid @ post) (int (length pre)) bs = Some (pre @ bs @ post)"
  by (simp add: write_at_split)

lemma read_at_here: "k = length mid \<Longrightarrow> read_at (pre @ mid @ post) (int (length pre)) (int k) = Some mid"
  by (simp add: read_at_def)

lemma put_int_here:
  assumes "length mid = 1 + length bs"
  shows "put_int flag bs (pre @ mid @ post, int (length pre), off)
    = Some (pre @ (flag # bs) @ post, int (length pre) + (1 + int (length bs)), off + (1 + int (length bs)))"
proof -
  obtain x ms where m: "mid = x # ms" "length ms = length bs" using assms by (cases mid) auto
  have "write_at ((pre @ [flag]) @ ms @ post) (int (length (pre @ [flag]))) bs = Some ((pre @ [flag]) @ bs @ post)"
    by (rule write_at_here) (simp add: m)
  then show ?thesis
    using write_at_here [of "[flag]" "[x]" pre "ms @ post"] m by (simp add: put_int_def add.commute)
qed

lemma put_int_no_room:
  assumes "int (length buf) < ptr + (1 + int (length bs))"
  shows "put_int flag bs (buf, ptr, off) = None"
proof (cases "write_at buf ptr [flag]")
  case (Some b)
  then have "length b = length buf" by (auto simp: write_at_def split: if_splits)
  then show ?thesis using Some assms by (simp add: put_int_def write_at_def)
qed (simp add: put_int_def)

lemma get_int_here:
  assumes "uint (flag AND 0x0F) = int (length bs)" "length bs \<le> width"
  shows "get_int (int width) (pre @ (flag # bs) @ post, int (length pre), off)
    = Some (flag, replicate (width - length bs) 0 @ bs, pre @ ((flag AND 0x0F) # bs) @ post,
        int (length pre) + (1 + int (length bs)), off + (1 + int (length bs)))"
proof -
  have 1: "read_at (pre @ (flag # bs) @ post) (int (length pre)) 1 = Some [flag]"
    using read_at_here [of 1 "[flag]" pre "bs @ post"] by simp
  have 2: "write_at (pre @ (flag # bs) @ post) (int (length pre)) [flag AND 0x0F] = Some (pre @ ((flag AND 0x0F) # bs) @ post)"
    using write_at_here [of "[flag AND 0x0F]" "[flag]" pre "bs @ post"] by simp
  have 3: "read_at (pre @ ((flag AND 0x0F) # bs) @ post) (int (length pre) + 1) (int (length bs)) = Some bs"
    using read_at_here [of "length bs" bs "pre @ [flag AND 0x0F]" post] by (simp add: add.commute)
  have "nat (int width - int (length bs)) = width - length bs" by simp
  then show ?thesis unfolding get_int_def prod.case 1 2 3 option.case list.case Let_def
    using assms 1 2 3 by (simp del: append.simps)
qed

text \<open>The flag byte: 16 for a negative number, and the count of bytes in the low half.\<close>

lemma flag_count:
  assumes "flag = 0 \<or> flag = 0x10" "1 \<le> k" "k \<le> 8"
  shows "uint ((flag OR of_nat k) AND 0x0F :: byte) = int k" "(flag OR of_nat k) AND 0x0F = (of_nat k :: byte)"
    "(flag OR of_nat k) AND 0xF0 AND 0x10 = (flag :: byte)"
proof -
  have "k \<in> {1, 2, 3, 4, 5, 6, 7, 8}" using assms(2,3) by auto
  then show "uint ((flag OR of_nat k) AND 0x0F :: byte) = int k" "(flag OR of_nat k) AND 0x0F = (of_nat k :: byte)"
    "(flag OR of_nat k) AND 0xF0 AND 0x10 = (flag :: byte)"
    using assms(1) by (elim insertE disjE; simp)+
qed

lemma get_encoded:
  fixes h :: "'a::len word"
  assumes "LENGTH('a) = 32 \<or> LENGTH('a) = 64" "flag = 0 \<or> flag = 0x10"
  shows "get_int (int (LENGTH('a) div 8)) (pre @ encoded flag h @ post, int (length pre), off)
    = Some (flag OR of_nat (sig h), rev (le_bytes h), pre @ encoded 0 h @ post,
        int (length pre) + (1 + int (sig h)), off + (1 + int (sig h)))"
proof -
  let ?bs = "drop (LENGTH('a) div 8 - sig h) (rev (le_bytes h))"
  have b: "1 \<le> sig h" "sig h \<le> 8" "sig h \<le> LENGTH('a) div 8"
    using sig_bounds [of h] assms(1) by auto
  then have len: "length ?bs = sig h" by simp
  have "replicate (LENGTH('a) div 8 - length ?bs) 0 @ ?bs = rev (le_bytes h)"
    unfolding len using assms(1) by (intro sig_bytes) auto
  then show ?thesis
    using get_int_here [of "flag OR of_nat (sig h)" ?bs "LENGTH('a) div 8" pre post off] b len
      flag_count [OF assms(2) b(1,2)]
    by (simp add: encoded_def)
qed

lemma put_encoded:
  fixes h :: "'a::len word"
  assumes "8 \<le> LENGTH('a)" "length mid = 1 + sig h"
  shows "put_sig flag h (pre @ mid @ post, int (length pre), off)
    = Some (pre @ encoded flag h @ post, int (length pre) + (1 + int (sig h)), off + (1 + int (sig h)))"
proof -
  have "length (drop (LENGTH('a) div 8 - sig h) (rev (le_bytes h))) = sig h" using sig_bounds(2) [OF assms(1), of h] by simp
  then show ?thesis using put_int_here [of mid "drop (LENGTH('a) div 8 - sig h) (rev (le_bytes h))"] assms(2)
    by (simp add: put_sig_def encoded_def)
qed

text \<open>What a pair of macros is for: in a buffer with room, the code of \<open>x\<close> replaces exactly \<open>n\<close> bytes,
  and decoding it, whatever is around, gives \<open>x\<close> and moves over the same bytes; without room the
  code would leave the buffer.\<close>

definition codec :: "('a \<Rightarrow> cursor \<Rightarrow> cursor option) \<Rightarrow> (cursor \<Rightarrow> ('a \<times> cursor) option) \<Rightarrow> 'a \<Rightarrow> byte list \<Rightarrow> bool" where
  "codec enc dec x code \<longleftrightarrow>
     (\<forall>pre mid post off. length mid = length code \<longrightarrow>
        enc x (pre @ mid @ post, int (length pre), off)
          = Some (pre @ code @ post, int (length pre + length code), off + int (length code)))
     \<and> (\<forall>buf ptr off. int (length buf) < ptr + int (length code) \<longrightarrow> enc x (buf, ptr, off) = None)
     \<and> (\<forall>pre post off. \<exists>buf. length buf = length (pre @ code @ post) \<and>
          dec (pre @ code @ post, int (length pre), off)
            = Some (x, buf, int (length pre + length code), off + int (length code)))"

lemma codecD:
  "codec enc dec x code \<Longrightarrow> length mid = length code \<Longrightarrow>
    enc x (pre @ mid @ post, int (length pre), off)
      = Some (pre @ code @ post, int (length pre + length code), off + int (length code))"
  by (simp add: codec_def)

lemma codecI:
  fixes h :: "'a::len word"
  assumes "LENGTH('a) = 32 \<or> LENGTH('a) = 64" "flag = 0 \<or> flag = 0x10"
    "\<And>c. enc x c = put_sig flag h c"
    "\<And>c c'. get_int (int (LENGTH('a) div 8)) c = Some (flag OR of_nat (sig h), rev (le_bytes h), c') \<Longrightarrow> dec c = Some (x, c')"
  shows "codec enc dec x (encoded flag h)"
proof -
  have 8: "8 \<le> LENGTH('a)" using assms(1) by auto
  note len = length_encoded [OF 8, of flag h] length_encoded [OF 8, of 0 h]
  have "put_sig flag h (buf, ptr, off) = None" if "int (length buf) < ptr + int (length (encoded flag h))" for buf ptr off
    unfolding put_sig_def by (rule put_int_no_room) (use that len(1) in \<open>simp add: encoded_def\<close>)
  moreover have "dec (pre @ encoded flag h @ post, int (length pre), off)
      = Some (x, pre @ encoded 0 h @ post, int (length pre) + (1 + int (sig h)), off + (1 + int (sig h)))" for pre post off
    by (rule assms(4)) (rule get_encoded [OF assms(1,2)])
  ultimately show ?thesis
    using put_encoded [OF 8] len by (auto simp: codec_def assms(3))
qed

lemma COMPRESS_UINT4_sig: "COMPRESS_UINT4 x c = put_sig 0 x c"
  using compress_32 [of x 0 c] by (simp only: COMPRESS_UINT4_def Let_def or.left_neutral)

lemma COMPRESS_UINT8_sig: "COMPRESS_UINT8 x c = put_sig 0 x c"
  using compress_64 [of x 0 c] by (simp only: COMPRESS_UINT8_def Let_def or.left_neutral)

lemma COMPRESS_INT4_sig: "COMPRESS_INT4 x c = (if sint x < 0 then put_sig 0x10 (- x) c else put_sig 0 x c)"
  using compress_32 [of "- x" "0x10" c] compress_32 [of x 0 c]
  by (cases "sint x < 0") (simp_all only: COMPRESS_INT4_def Let_def if_True if_False prod.case)

lemma COMPRESS_INT8_sig: "COMPRESS_INT8 x c = (if sint x < 0 then put_sig 0x10 (- x) c else put_sig 0 x c)"
  using compress_64 [of "- x" "0x10" c] compress_64 [of x 0 c]
  by (cases "sint x < 0") (simp_all only: COMPRESS_INT8_def Let_def if_True if_False prod.case)

lemmas COMPRESS_sig = COMPRESS_UINT4_sig COMPRESS_UINT8_sig COMPRESS_INT4_sig COMPRESS_INT8_sig

lemma flag_negative:
  fixes h :: "'a::len word"
  assumes "LENGTH('a) = 32 \<or> LENGTH('a) = 64" "flag = 0 \<or> flag = 0x10"
  shows "(flag OR of_nat (sig h)) AND 0xF0 AND 0x10 = (flag :: byte)"
  using flag_count(3) [OF assms(2), of "sig h"] sig_bounds [of h] assms(1) by auto

lemma codec_UINT4: "codec COMPRESS_UINT4 UNCOMPRESS_UINT4 x (encoded 0 x)"
  by (rule codecI) (simp_all add: COMPRESS_sig UNCOMPRESS_UINT4_def htonl_le_word)

lemma codec_UINT8: "codec COMPRESS_UINT8 UNCOMPRESS_UINT8 x (encoded 0 x)"
  by (rule codecI) (simp_all add: COMPRESS_sig UNCOMPRESS_UINT8_def NTOHLL_le_word)

lemma codec_INT4:
  "codec COMPRESS_INT4 UNCOMPRESS_INT4 x (if sint x < 0 then encoded 0x10 (- x) else encoded 0 x)"
proof (cases "sint x < 0")
  case True
  have "codec COMPRESS_INT4 UNCOMPRESS_INT4 x (encoded 0x10 (- x))"
    using True flag_negative [of "0x10" "- x"]
    by (intro codecI) (simp_all add: COMPRESS_sig UNCOMPRESS_INT4_def htonl_le_word Let_def)
  with True show ?thesis by simp
next
  case False
  have "codec COMPRESS_INT4 UNCOMPRESS_INT4 x (encoded 0 x)"
    using False flag_negative [of 0 x]
    by (intro codecI) (simp_all add: COMPRESS_sig UNCOMPRESS_INT4_def htonl_le_word Let_def)
  with False show ?thesis by simp
qed

lemma codec_INT8:
  "codec COMPRESS_INT8 UNCOMPRESS_INT8 x (if sint x < 0 then encoded 0x10 (- x) else encoded 0 x)"
proof (cases "sint x < 0")
  case True
  have "codec COMPRESS_INT8 UNCOMPRESS_INT8 x (encoded 0x10 (- x))"
    using True flag_negative [of "0x10" "- x"]
    by (intro codecI) (simp_all add: COMPRESS_sig UNCOMPRESS_INT8_def NTOHLL_le_word Let_def)
  with True show ?thesis by simp
next
  case False
  have "codec COMPRESS_INT8 UNCOMPRESS_INT8 x (encoded 0 x)"
    using False flag_negative [of 0 x]
    by (intro codecI) (simp_all add: COMPRESS_sig UNCOMPRESS_INT8_def NTOHLL_le_word Let_def)
  with False show ?thesis by simp
qed

subsection \<open>The message\<close>

text \<open>An array that holds a text: its characters, a zero byte, anything.\<close>

lemma strlen_Some: "strlen bs = Some n \<longleftrightarrow> n < length bs \<and> bs ! n = 0 \<and> 0 \<notin> set (take n bs)"
proof (induction bs arbitrary: n)
  case (Cons b bs)
  then show ?case by (cases n) (auto split: if_splits)
qed simp

lemma strlen_text: "0 \<notin> set text \<Longrightarrow> strlen (text @ 0 # rest) = Some (length text)"
  by (simp add: strlen_Some)

definition msg_code :: "byte list \<Rightarrow> byte list" where
  "msg_code text = encoded 0 (of_nat (length text) :: 32 word) @ text"

lemma high_bytes_0: "uint w < 2 ^ m \<Longrightarrow> drop_bit m (w :: 32 word) = 0"
proof -
  assume w: "uint w < 2 ^ m"
  have "take_bit 32 (uint w) = uint w" using uint_lt2p [of w] by (simp add: take_bit_int_eq_self)
  then have "uint (drop_bit m w) = 0"
    using w by (simp add: unsigned_drop_bit_eq drop_bit_eq_div [of m "uint w"])
  then show ?thesis by (simp add: uint_0_iff)
qed

lemma sig_length:
  assumes "n \<le> 256"
  shows "sig (of_nat n :: 32 word) = (if n < 256 then 1 else 2)"
proof (cases "n = 256")
  case True
  then show ?thesis by (simp add: sig_32)
next
  case False
  then have "uint (of_nat n :: 32 word) < 2 ^ 8" using assms by (simp add: unsigned_of_nat take_bit_eq_mod)
  then have "uint (of_nat n :: 32 word) < 2 ^ 8" "uint (of_nat n :: 32 word) < 2 ^ 16" "uint (of_nat n :: 32 word) < 2 ^ 24"
    by simp_all
  from this [THEN high_bytes_0] False assms show ?thesis
    unfolding sig_32 byte_masks_32 by simp
qed

lemma length_msg_code: "length text \<le> 256 \<Longrightarrow> length (msg_code text) = length text + (if length text < 256 then 2 else 3)"
  by (simp add: msg_code_def length_encoded sig_length)

lemma uint_length: "n < 2 ^ 32 \<Longrightarrow> uint (of_nat n :: 32 word) = int n"
  by (simp add: unsigned_of_nat take_bit_eq_mod)

lemma UNCOMPRESS_UINT4_here:
  "UNCOMPRESS_UINT4 (encoded 0 x @ post, 0, 0) = Some (x, encoded 0 x @ post, 1 + int (sig x), 1 + int (sig x))"
  using get_encoded [of 0 "[]" x post 0] by (simp add: UNCOMPRESS_UINT4_def htonl_le_word)

text \<open>Serialising and deserialising.\<close>

lemma serialize_fits:
  assumes "strlen (hw_message st) = Some n" "n < 2 ^ 32" "length mid = length (msg_code (take n (hw_message st)))"
  shows "DSCSERIALIZE_COMPRESS_hello_world st (mid @ post)
    = Some (0, msg_code (take n (hw_message st)) @ post, int (length mid))"
proof -
  let ?t = "take n (hw_message st)" and ?c = "encoded 0 (of_nat n :: 32 word)"
  have n: "length ?t = n" "min (length (hw_message st)) n = n" using assms(1) by (simp_all add: strlen_Some)
  have len: "length ?c = 1 + sig (of_nat n :: 32 word)" by (rule length_encoded) simp
  define m1 m2 where "m1 = take (length ?c) mid" and "m2 = drop (length ?c) mid"
  have m: "mid = m1 @ m2" "length m1 = length ?c" "length m2 = n"
    using assms(3) n by (simp_all add: m1_def m2_def msg_code_def)
  have "COMPRESS_UINT4 (of_nat n) (mid @ post, 0, 0) = Some (?c @ m2 @ post, int (length ?c), int (length ?c))"
    using put_encoded [of m1 "of_nat n :: 32 word" 0 "[]" "m2 @ post" 0] m len by (simp add: COMPRESS_sig)
  moreover have "write_at (?c @ m2 @ post) (int (length ?c)) ?t = Some (?c @ ?t @ post)"
    by (rule write_at_here) (simp add: m n)
  ultimately show ?thesis
    using assms(1) n m by (simp add: DSCSERIALIZE_COMPRESS_hello_world_def msg_code_def del: length_take)
qed

lemma serialize_overflows:
  assumes "strlen (hw_message st) = Some n" "n < 2 ^ 32" "length buf < length (msg_code (take n (hw_message st)))"
  shows "DSCSERIALIZE_COMPRESS_hello_world st buf = None"
proof -
  let ?t = "take n (hw_message st)" and ?c = "encoded 0 (of_nat n :: 32 word)"
  have n: "length ?t = n" using assms(1) by (simp add: strlen_Some)
  show ?thesis
  proof (cases "length ?c \<le> length buf")
    case False
    have "codec COMPRESS_UINT4 UNCOMPRESS_UINT4 (of_nat n) ?c" by (rule codec_UINT4)
    then have "COMPRESS_UINT4 (of_nat n) (buf, 0, 0) = None" using False by (simp add: codec_def)
    then show ?thesis using assms(1) by (simp add: DSCSERIALIZE_COMPRESS_hello_world_def)
  next
    case True
    have "COMPRESS_UINT4 (of_nat n) (buf, 0, 0) = Some (?c @ drop (length ?c) buf, int (length ?c), int (length ?c))"
      using codecD [OF codec_UINT4, of "take (length ?c) buf" "of_nat n" "[]" "drop (length ?c) buf" 0] True by simp
    moreover have "write_at (?c @ drop (length ?c) buf) (int (length ?c)) ?t = None"
      using assms(3) n True by (simp add: write_at_def msg_code_def)
    ultimately show ?thesis using assms(1) by (simp add: DSCSERIALIZE_COMPRESS_hello_world_def)
  qed
qed

lemma deserialize_fits:
  assumes "length text < 2 ^ 32" "length text \<le> length (hw_message st)"
  shows "DSCDESERIALIZE_COMPRESS_hello_world (msg_code text @ post) st
    = Some (0, msg_code text @ post, int (length (msg_code text)), st\<lparr>hw_message := text @ drop (length text) (hw_message st)\<rparr>)"
proof -
  let ?c = "encoded 0 (of_nat (length text) :: 32 word)"
  have len: "length ?c = 1 + sig (of_nat (length text) :: 32 word)" by (rule length_encoded) simp
  have "read_at (?c @ text @ post) (int (length ?c)) (int (length text)) = Some text" by (rule read_at_here) simp
  moreover have "write_at (hw_message st) 0 text = Some (text @ drop (length text) (hw_message st))"
    using assms(2) by (simp add: write_at_def)
  ultimately show ?thesis
    using UNCOMPRESS_UINT4_here [of "of_nat (length text)" "text @ post"] uint_length [OF assms(1)] len
    by (simp add: DSCDESERIALIZE_COMPRESS_hello_world_def msg_code_def)
qed

text \<open>The length that is received is not compared with the size of the array.\<close>

lemma deserialize_overflows:
  assumes "length text < 2 ^ 32" "length (hw_message st) < length text"
  shows "DSCDESERIALIZE_COMPRESS_hello_world (msg_code text @ post) st = None"
proof -
  let ?c = "encoded 0 (of_nat (length text) :: 32 word)"
  have len: "length ?c = 1 + sig (of_nat (length text) :: 32 word)" by (rule length_encoded) simp
  have "read_at (?c @ text @ post) (int (length ?c)) (int (length text)) = Some text" by (rule read_at_here) simp
  moreover have "write_at (hw_message st) 0 text = None" using assms(2) by (simp add: write_at_def)
  ultimately show ?thesis
    using UNCOMPRESS_UINT4_here [of "of_nat (length text)" "text @ post"] uint_length [OF assms(1)] len
    by (simp add: DSCDESERIALIZE_COMPRESS_hello_world_def msg_code_def)
qed

lemma deserialize_bad_flag:
  assumes "flag AND 0x0F > 4"
  shows "DSCDESERIALIZE_COMPRESS_hello_world (flag # post) st = None"
proof -
  have "uint (flag AND 0x0F) > 4" using assms by (simp add: word_less_def)
  then show ?thesis
    by (simp add: DSCDESERIALIZE_COMPRESS_hello_world_def UNCOMPRESS_UINT4_def get_int_def read_at_def write_at_def Let_def)
qed

end
