(* ===== verification/Hello.thy ===== *)
theory Hello
  imports DscInv TdhbInv
begin

text \<open>
  The sample server \<open>src/test2/test_callback_tdhb_hello_nonblock.c\<close>: an application callback for the
  IO-multiplexing worker that composes the non-blocking TDHB functions with the message code. It
  answers each message with the same message.
\<close>

subsection \<open>The callback\<close>

definition PREHEAD_LEN :: int where "PREHEAD_LEN = 4"
definition TDHB_BUFFER_SIZE :: nat where "TDHB_BUFFER_SIZE = 10000"

record hello_session =
  hs_sock :: int
  hs_buffer :: "byte list"
  hs_len :: int
  hs_context :: TDHBContext

text \<open>
  The application's memory by address, what it has freed, the pointer it has given to
  \<open>TDSetIoMultiplexDataPtr\<close> and the bytes it has sent, by socket.
\<close>

record hello_app =
  hs :: "addr \<Rightarrow> hello_session"
  hs_freed :: "addr list"
  hs_data_ptr :: addr
  hs_sent :: "(int \<times> byte list) list"

text \<open>What the world answers to one call: \<open>malloc\<close>, the reads and the writes.\<close>

record hello_world_ans =
  h_malloc :: addr
  h_reads :: "(int + byte list) list"
  h_writes :: "(int \<times> int) list"

definition hello_accepting :: "addr \<Rightarrow> int \<Rightarrow> hello_app \<Rightarrow> int \<times> hello_app" where
  "hello_accepting block s app =
     (if block = NULL then (TCPMAIN_RETURN_ERROR, app)
      else (TCPMAIN_RETURN_WAITINGFOR_RECEIVING,
        app\<lparr>hs := (hs app)(block := \<lparr>hs_sock = s, hs_buffer = replicate TDHB_BUFFER_SIZE 0, hs_len = 0,
                                     hs_context = zero_context\<rparr>),
            hs_data_ptr := block\<rparr>))"

definition hello_closing :: "addr \<Rightarrow> hello_app \<Rightarrow> int \<times> hello_app" where
  "hello_closing p app = (TCPMAIN_RETURN_WAITINGFOR_NEXT, app\<lparr>hs_freed := hs_freed app @ [p]\<rparr>)"

text \<open>After the whole body is there: unpack it into a cleared struct and pack that again.\<close>

definition hello_answer :: "hello_session \<Rightarrow> io_out \<times> hello_session" where
  "hello_answer s =
     (case DSCDESERIALIZE_COMPRESS_hello_world (hs_buffer s) \<lparr>hw_message = replicate MESSAGE_SIZE 0\<rparr> of
        None \<Rightarrow> (Fault, s)
      | Some (nret, buf, unpack_len, st) \<Rightarrow>
          if nret \<noteq> 0 then (Ret TCPMAIN_RETURN_ERROR, s\<lparr>hs_buffer := buf\<rparr>)
          else
            (case DSCSERIALIZE_COMPRESS_hello_world st (replicate TDHB_BUFFER_SIZE 0) of
               None \<Rightarrow> (Fault, s)
             | Some (nret, buf, len) \<Rightarrow>
                 (let s = s\<lparr>hs_buffer := buf, hs_len := len\<rparr> in
                  if nret \<noteq> 0 then (Ret TCPMAIN_RETURN_ERROR, s)
                  else (Ret TCPMAIN_RETURN_WAITINGFOR_SENDING, s\<lparr>hs_context := zero_context\<rparr>))))"

definition hello_receiving :: "(int + byte list) list \<Rightarrow> hello_session \<Rightarrow> io_out \<times> hello_session" where
  "hello_receiving reads s =
     (let s = s\<lparr>hs_len := int TDHB_BUFFER_SIZE\<rparr>;
          (nret, r) = TDHBReceiveDataWithNonblock PREHEAD_LEN reads
            \<lparr>rctx = hs_context s, rbuf = hs_buffer s, p_body_bufsize = hs_len s, rtimeout = (0, 0)\<rparr>;
          s = s\<lparr>hs_context := rctx r, hs_buffer := rbuf r, hs_len := p_body_bufsize r\<rparr>
      in case nret of
           Ret nret \<Rightarrow>
             if nret = TDHB_ERROR_SOCKET_CLOSED then
               (if hs_len s = 0 then (Ret TCPMAIN_RETURN_CLOSE, s) else (Ret TCPMAIN_RETURN_ERROR, s))
             else if nret = TCPMAIN_RETURN_WAITINGFOR_NEXT then (Ret TCPMAIN_RETURN_WAITINGFOR_NEXT, s)
             else if nret = TCPMAIN_RETURN_WAITINGFOR_SENDING then hello_answer s
             else if nret \<noteq> 0 then (Ret TCPMAIN_RETURN_ERROR, s)
             else hello_answer s
         | other \<Rightarrow> (other, s))"

definition hello_sending :: "(int \<times> int) list \<Rightarrow> hello_session \<Rightarrow> io_out \<times> hello_session \<times> byte list" where
  "hello_sending writes s =
     (let (nret, r) = TDHBSendDataWithNonblock PREHEAD_LEN (hs_buffer s) writes
            \<lparr>nctx = hs_context s, nsent = [], np_body_len = hs_len s\<rparr>;
          s = s\<lparr>hs_context := nctx r, hs_len := np_body_len r\<rparr>
      in case nret of
           Ret nret \<Rightarrow>
             if nret = TCPMAIN_RETURN_WAITINGFOR_NEXT then (Ret TCPMAIN_RETURN_WAITINGFOR_NEXT, s, nsent r)
             else if nret = TCPMAIN_RETURN_WAITINGFOR_RECEIVING
             then (Ret TCPMAIN_RETURN_WAITINGFOR_RECEIVING, s, nsent r)
             else (Ret TCPMAIN_RETURN_ERROR, s, nsent r)
         | other \<Rightarrow> (other, s, nsent r))"

text \<open>\<open>tcpmain\<close>: \<open>p\<close> is the address of the peer when accepting, else the session.\<close>

definition hello_tcpmain :: "int \<Rightarrow> hello_world_ans \<Rightarrow> int \<Rightarrow> addr \<Rightarrow> hello_app \<Rightarrow> io_out \<times> hello_app" where
  "hello_tcpmain event w s p app =
     (if event = IOMP_ON_ACCEPTING_SOCKET then
        (let (nret, app) = hello_accepting (h_malloc w) s app in (Ret nret, app))
      else if event = IOMP_ON_CLOSING_SOCKET then
        (let (nret, app) = hello_closing p app in (Ret nret, app))
      else if event = IOMP_ON_RECEIVING_SOCKET then
        (let (nret, t) = hello_receiving (h_reads w) (hs app p) in (nret, app\<lparr>hs := (hs app)(p := t)\<rparr>))
      else if event = IOMP_ON_SENDING_SOCKET then
        (let (nret, t, bs) = hello_sending (h_writes w) (hs app p)
         in (nret, app\<lparr>hs := (hs app)(p := t), hs_sent := hs_sent app @ [(hs_sock t, bs)]\<rparr>))
      else (Ret TCPMAIN_RETURN_ERROR, app))"

subsection \<open>A session over many calls\<close>

text \<open>The worker calls again on each event as long as the answer is to wait for the next one.\<close>

fun hello_calls :: "int \<Rightarrow> addr \<Rightarrow> hello_world_ans list \<Rightarrow> hello_app \<Rightarrow> io_out \<times> hello_app" where
  "hello_calls event p [] app = (Blocked, app)"
| "hello_calls event p (w # ws) app =
     (case hello_tcpmain event w 0 p app of
        (Ret r, app) \<Rightarrow>
          if r = TCPMAIN_RETURN_WAITINGFOR_NEXT then hello_calls event p ws app else (Ret r, app)
      | other \<Rightarrow> other)"

definition sent_on :: "int \<Rightarrow> hello_app \<Rightarrow> byte list" where
  "sent_on s app = concat (map snd (filter (\<lambda>x. fst x = s) (hs_sent app)))"

text \<open>Receiving: the calls of the callback are the calls of the TDHB function, and then the answer.\<close>

lemma read_keeps_size:
  "read_head w bs st = Some st' \<Longrightarrow> p_body_bufsize st' = p_body_bufsize st \<and> rtimeout st' = rtimeout st"
  "read_body bs st = Some st' \<Longrightarrow> p_body_bufsize st' = p_body_bufsize st \<and> rtimeout st' = rtimeout st"
  "head_complete w l st = Inr st' \<Longrightarrow> p_body_bufsize st' = p_body_bufsize st \<and> rtimeout st' = rtimeout st"
  "head_complete w l st \<noteq> Inl (Ret TCPMAIN_RETURN_WAITINGFOR_NEXT, st')"
  by (auto simp: read_head_def read_body_def head_complete_def Let_def tdhb_errors TCPMAIN_RETURN_WAITINGFOR_NEXT_def
      split: option.splits if_splits)

lemma next_is_no_error:
  "TDHB_ERROR_RECV_FAILED \<noteq> TCPMAIN_RETURN_WAITINGFOR_NEXT" "TDHB_ERROR_SOCKET_CLOSED \<noteq> TCPMAIN_RETURN_WAITINGFOR_NEXT"
  "TCPMAIN_RETURN_WAITINGFOR_SENDING \<noteq> TCPMAIN_RETURN_WAITINGFOR_NEXT"
  by (simp_all add: tdhb_errors TCPMAIN_RETURN_WAITINGFOR_NEXT_def TCPMAIN_RETURN_WAITINGFOR_SENDING_def)

lemma recv_next_keeps_size:
  "nb_recv_loop w ts st = (Ret TCPMAIN_RETURN_WAITINGFOR_NEXT, st') \<Longrightarrow>
    p_body_bufsize st' = p_body_bufsize st \<and> rtimeout st' = rtimeout st"
proof (induction ts arbitrary: st)
  case (Cons t ts)
  show ?case
  proof (cases "head_remain_len (rctx st) = 0")
    case True
    show ?thesis
    proof (cases t)
      case (Inl e)
      then show ?thesis using Cons.prems True next_is_no_error by (auto simp: Let_def split: if_splits)
    next
      case (Inr bs)
      show ?thesis
      proof (cases "read_body bs st")
        case None
        then show ?thesis using Cons.prems True Inr next_is_no_error by (auto simp: Let_def split: if_splits)
      next
        case (Some st1)
        then show ?thesis using Cons.prems True Inr next_is_no_error read_keeps_size(2) [OF Some] Cons.IH
          by (fastforce simp: Let_def split: if_splits)
      qed
    qed
  next
    case False
    show ?thesis
    proof (cases t)
      case (Inl e)
      then show ?thesis using Cons.prems False next_is_no_error by (auto simp: Let_def split: if_splits)
    next
      case (Inr bs)
      show ?thesis
      proof (cases "read_head w bs st")
        case None
        then show ?thesis using Cons.prems False Inr next_is_no_error by (auto simp: Let_def split: if_splits)
      next
        case (Some st1)
        note k1 = read_keeps_size(1) [OF Some]
        show ?thesis
        proof (cases "head_complete w (int (length bs)) st1")
          case (Inl x)
          then show ?thesis
            using Cons.prems False Inr Some next_is_no_error k1 Cons.IH read_keeps_size(4) [of w "int (length bs)" st1 st']
            by (fastforce simp: Let_def split: if_splits prod.splits)
        next
          case h: (Inr st2)
          then show ?thesis
            using Cons.prems False Inr Some next_is_no_error k1 read_keeps_size(3) [OF h] Cons.IH
            by (fastforce simp: Let_def split: if_splits)
        qed
      qed
    qed
  qed
qed simp

text \<open>The answer is never to wait for the next event.\<close>

lemma hello_answer_final: "fst (hello_answer s) \<noteq> Ret TCPMAIN_RETURN_WAITINGFOR_NEXT"
  by (auto simp: hello_answer_def Let_def TCPMAIN_RETURN_ERROR_def TCPMAIN_RETURN_WAITINGFOR_NEXT_def
      TCPMAIN_RETURN_WAITINGFOR_SENDING_def split: option.splits)

definition recv_of :: "hello_session \<Rightarrow> recv_st" where
  "recv_of s = \<lparr>rctx = hs_context s, rbuf = hs_buffer s, p_body_bufsize = int TDHB_BUFFER_SIZE, rtimeout = (0, 0)\<rparr>"

definition received :: "recv_st \<Rightarrow> hello_session \<Rightarrow> hello_session" where
  "received r s = s\<lparr>hs_context := rctx r, hs_buffer := rbuf r, hs_len := p_body_bufsize r\<rparr>"

lemma received_received [simp]: "received r (received r' s) = received r s"
  by (simp add: received_def)

lemma hello_receive_calls:
  assumes "recv_calls PREHEAD_LEN (map h_reads ws) (recv_of (hs app p)) = (Ret TCPMAIN_RETURN_WAITINGFOR_SENDING, r)"
  shows "hello_calls IOMP_ON_RECEIVING_SOCKET p ws app
    = (fst (hello_answer (received r (hs app p))), app\<lparr>hs := (hs app)(p := snd (hello_answer (received r (hs app p))))\<rparr>)"
  using assms
proof (induction ws arbitrary: app)
  case (Cons w ws)
  obtain o1 r1 where r1: "TDHBReceiveDataWithNonblock PREHEAD_LEN (h_reads w) (recv_of (hs app p)) = (o1, r1)" by fastforce
  then have step: "hello_receiving (h_reads w) (hs app p) =
      (case o1 of
           Ret nret \<Rightarrow>
             if nret = TDHB_ERROR_SOCKET_CLOSED then
               (if p_body_bufsize r1 = 0 then (Ret TCPMAIN_RETURN_CLOSE, received r1 (hs app p))
                else (Ret TCPMAIN_RETURN_ERROR, received r1 (hs app p)))
             else if nret = TCPMAIN_RETURN_WAITINGFOR_NEXT then (Ret TCPMAIN_RETURN_WAITINGFOR_NEXT, received r1 (hs app p))
             else if nret = TCPMAIN_RETURN_WAITINGFOR_SENDING then hello_answer (received r1 (hs app p))
             else if nret \<noteq> 0 then (Ret TCPMAIN_RETURN_ERROR, received r1 (hs app p))
             else hello_answer (received r1 (hs app p))
         | other \<Rightarrow> (other, received r1 (hs app p)))"
    by (cases o1) (simp_all add: hello_receiving_def recv_of_def received_def Let_def)
  have ev: "IOMP_ON_RECEIVING_SOCKET \<noteq> IOMP_ON_ACCEPTING_SOCKET" "IOMP_ON_RECEIVING_SOCKET \<noteq> IOMP_ON_CLOSING_SOCKET"
    by (simp_all add: IOMP_ON_RECEIVING_SOCKET_def IOMP_ON_ACCEPTING_SOCKET_def IOMP_ON_CLOSING_SOCKET_def)
  show ?case
  proof (cases "o1 = Ret TCPMAIN_RETURN_WAITINGFOR_NEXT")
    case True
    define app1 where "app1 = app\<lparr>hs := (hs app)(p := received r1 (hs app p))\<rparr>"
    have "p_body_bufsize r1 = int TDHB_BUFFER_SIZE \<and> rtimeout r1 = (0, 0)"
      using recv_next_keeps_size [of PREHEAD_LEN "h_reads w" _ r1] r1 True
      by (auto simp: TDHBReceiveDataWithNonblock_def recv_of_def Let_def split: if_splits)
    then have "recv_of (hs app1 p) = r1" by (simp add: app1_def recv_of_def received_def)
    then have "recv_calls PREHEAD_LEN (map h_reads ws) (recv_of (hs app1 p)) = (Ret TCPMAIN_RETURN_WAITINGFOR_SENDING, r)"
      using Cons.prems r1 True by simp
    note IH = Cons.IH [OF this]
    have p: "received r (hs app1 p) = received r (hs app p)" "app1\<lparr>hs := (hs app1)(p := t)\<rparr> = app\<lparr>hs := (hs app)(p := t)\<rparr>" for t
      by (auto simp: app1_def fun_eq_iff intro!: hello_app.equality)
    have "hello_tcpmain IOMP_ON_RECEIVING_SOCKET w 0 p app = (Ret TCPMAIN_RETURN_WAITINGFOR_NEXT, app1)"
      using True step ev next_is_no_error(2) by (simp add: hello_tcpmain_def app1_def)
    then show ?thesis using IH unfolding p by (simp add: fun_upd_def)
  next
    case False
    then have o1: "o1 = Ret TCPMAIN_RETURN_WAITINGFOR_SENDING" "r1 = r"
      using Cons.prems r1 by (auto split: io_out.splits if_splits)
    have "TCPMAIN_RETURN_WAITINGFOR_SENDING \<noteq> TDHB_ERROR_SOCKET_CLOSED"
      by (simp add: tdhb_errors TCPMAIN_RETURN_WAITINGFOR_SENDING_def)
    then have "hello_tcpmain IOMP_ON_RECEIVING_SOCKET w 0 p app
        = (fst (hello_answer (received r (hs app p))), app\<lparr>hs := (hs app)(p := snd (hello_answer (received r (hs app p))))\<rparr>)"
      using step ev o1 next_is_no_error(3) by (simp add: hello_tcpmain_def split_beta)
    then show ?thesis using hello_answer_final by (cases "fst (hello_answer (received r (hs app p)))") (auto simp: fun_upd_def)
  qed
qed simp

text \<open>Sending: each call sends its part, whatever the calls before have sent.\<close>

lemma nb_send_loop_prefix:
  "nb_send_loop w body ts (st\<lparr>nsent := x @ nsent st\<rparr>) =
    (fst (nb_send_loop w body ts st), (snd (nb_send_loop w body ts st))\<lparr>nsent := x @ nsent (snd (nb_send_loop w body ts st))\<rparr>)"
proof (induction ts arbitrary: st)
  case (Cons t ts)
  obtain l e where t: "t = (l, e)" by (cases t)
  have IH: "nb_send_loop w body ts (st\<lparr>nctx := c, nsent := x @ nsent st @ bs\<rparr>) =
      (fst (nb_send_loop w body ts (st\<lparr>nctx := c, nsent := nsent st @ bs\<rparr>)),
       (snd (nb_send_loop w body ts (st\<lparr>nctx := c, nsent := nsent st @ bs\<rparr>)))
         \<lparr>nsent := x @ nsent (snd (nb_send_loop w body ts (st\<lparr>nctx := c, nsent := nsent st @ bs\<rparr>)))\<rparr>)" for c bs
    using Cons.IH [of "st\<lparr>nctx := c, nsent := nsent st @ bs\<rparr>"] by simp
  show ?case unfolding t
    by (simp add: Let_def IH split: option.split)
qed simp

definition send_start :: "int \<Rightarrow> nb_send_st \<Rightarrow> nb_send_st" where
  "send_start w st = (if head_remain_len (nctx st) = 0 \<and> body_remain_len (nctx st) = 0
     then st\<lparr>nctx := init_send w (np_body_len st) (nctx st)\<rparr> else st)"

lemma send_start:
  "TDHBSendDataWithNonblock w body ts st =
    (if head_too_long w then (Ret TDHB_ERROR_HEAD_TOO_LONG, st) else nb_send_loop w body ts (send_start w st))"
  by (simp add: TDHBSendDataWithNonblock_def send_start_def)

lemma send_appends:
  "TDHBSendDataWithNonblock w body ts (st\<lparr>nsent := x @ nsent st\<rparr>) =
    (fst (TDHBSendDataWithNonblock w body ts st),
     (snd (TDHBSendDataWithNonblock w body ts st))\<lparr>nsent := x @ nsent (snd (TDHBSendDataWithNonblock w body ts st))\<rparr>)"
proof -
  have "send_start w (st\<lparr>nsent := x @ nsent st\<rparr>) = (send_start w st)\<lparr>nsent := x @ nsent (send_start w st)\<rparr>"
    by (simp add: send_start_def)
  then show ?thesis by (simp add: send_start nb_send_loop_prefix)
qed

definition send_of :: "byte list \<Rightarrow> hello_session \<Rightarrow> nb_send_st" where
  "send_of x s = \<lparr>nctx = hs_context s, nsent = x, np_body_len = hs_len s\<rparr>"

lemma sent_on_snoc [simp]:
  "sent_on s (app\<lparr>hs := h, hs_sent := hs_sent app @ [(s, bs)]\<rparr>) = sent_on s app @ bs"
  by (simp add: sent_on_def)

lemma hello_send_calls:
  assumes "send_calls PREHEAD_LEN (hs_buffer (hs app p)) (map h_writes ws) (send_of x (hs app p))
    = (Ret TCPMAIN_RETURN_WAITINGFOR_RECEIVING, st')"
  shows "\<exists>app' bs. hello_calls IOMP_ON_SENDING_SOCKET p ws app = (Ret TCPMAIN_RETURN_WAITINGFOR_RECEIVING, app')
    \<and> nsent st' = x @ bs \<and> sent_on (hs_sock (hs app p)) app' = sent_on (hs_sock (hs app p)) app @ bs"
  using assms
proof (induction ws arbitrary: app x)
  case (Cons w ws)
  let ?s = "hs app p"
  obtain o1 r1 where r1: "TDHBSendDataWithNonblock PREHEAD_LEN (hs_buffer ?s) (h_writes w) (send_of [] ?s) = (o1, r1)"
    by fastforce
  then have rx: "TDHBSendDataWithNonblock PREHEAD_LEN (hs_buffer ?s) (h_writes w) (send_of x ?s)
      = (o1, r1\<lparr>nsent := x @ nsent r1\<rparr>)"
    using send_appends [where st = "send_of [] ?s" and x = x] by (simp add: send_of_def)
  define t where "t = ?s\<lparr>hs_context := nctx r1, hs_len := np_body_len r1\<rparr>"
  define app1 where "app1 = app\<lparr>hs := (hs app)(p := t), hs_sent := hs_sent app @ [(hs_sock ?s, nsent r1)]\<rparr>"
  have sock: "hs_sock t = hs_sock ?s" "hs_buffer t = hs_buffer ?s" "hs app1 p = t" by (simp_all add: t_def app1_def)
  have sent: "sent_on (hs_sock ?s) app1 = sent_on (hs_sock ?s) app @ nsent r1" by (simp add: app1_def)
  have ev: "IOMP_ON_SENDING_SOCKET \<noteq> IOMP_ON_ACCEPTING_SOCKET" "IOMP_ON_SENDING_SOCKET \<noteq> IOMP_ON_CLOSING_SOCKET"
    "IOMP_ON_SENDING_SOCKET \<noteq> IOMP_ON_RECEIVING_SOCKET"
    by (simp_all add: IOMP_ON_RECEIVING_SOCKET_def IOMP_ON_ACCEPTING_SOCKET_def IOMP_ON_CLOSING_SOCKET_def IOMP_ON_SENDING_SOCKET_def)
  have nr: "TCPMAIN_RETURN_WAITINGFOR_RECEIVING \<noteq> TCPMAIN_RETURN_WAITINGFOR_NEXT"
    by (simp add: TCPMAIN_RETURN_WAITINGFOR_RECEIVING_def TCPMAIN_RETURN_WAITINGFOR_NEXT_def)
  show ?case
  proof (cases "o1 = Ret TCPMAIN_RETURN_WAITINGFOR_NEXT")
    case True
    then have step: "hello_tcpmain IOMP_ON_SENDING_SOCKET w 0 p app = (Ret TCPMAIN_RETURN_WAITINGFOR_NEXT, app1)"
      using r1 ev sock(1) by (simp add: hello_tcpmain_def hello_sending_def send_of_def t_def app1_def)
    have "send_of (x @ nsent r1) (hs app1 p) = r1\<lparr>nsent := x @ nsent r1\<rparr>" by (simp add: send_of_def sock t_def)
    then have "send_calls PREHEAD_LEN (hs_buffer (hs app1 p)) (map h_writes ws) (send_of (x @ nsent r1) (hs app1 p))
        = (Ret TCPMAIN_RETURN_WAITINGFOR_RECEIVING, st')"
      using Cons.prems rx True sock by simp
    from Cons.IH [OF this] sent step sock show ?thesis by auto
  next
    case False
    then have o1: "o1 = Ret TCPMAIN_RETURN_WAITINGFOR_RECEIVING" "st' = r1\<lparr>nsent := x @ nsent r1\<rparr>"
      using Cons.prems rx by (auto split: io_out.splits if_splits)
    then have "hello_tcpmain IOMP_ON_SENDING_SOCKET w 0 p app = (Ret TCPMAIN_RETURN_WAITINGFOR_RECEIVING, app1)"
      using r1 ev sock(1) nr by (simp add: hello_tcpmain_def hello_sending_def send_of_def t_def app1_def)
    then show ?thesis using sent o1(2) nr by simp
  qed
qed simp

subsection \<open>The echo\<close>

text \<open>A message whose text fits the struct is answered with its own bytes.\<close>

lemma hello_answer_echo:
  assumes "0 \<notin> set text" "length text \<le> 256" "hs_buffer s = msg_code text @ post"
  shows "hello_answer s = (Ret TCPMAIN_RETURN_WAITINGFOR_SENDING,
    s\<lparr>hs_buffer := msg_code text @ replicate (TDHB_BUFFER_SIZE - length (msg_code text)) 0,
      hs_len := int (length (msg_code text)), hs_context := zero_context\<rparr>)"
proof -
  let ?st = "\<lparr>hw_message = text @ replicate (MESSAGE_SIZE - length text) 0\<rparr>"
  have d: "DSCDESERIALIZE_COMPRESS_hello_world (hs_buffer s) \<lparr>hw_message = replicate MESSAGE_SIZE 0\<rparr>
      = Some (0, msg_code text @ post, int (length (msg_code text)), ?st)"
    using deserialize_fits [of "text" "\<lparr>hw_message = replicate MESSAGE_SIZE 0\<rparr>" post] assms
    by (simp add: MESSAGE_SIZE_def)
  have "replicate (MESSAGE_SIZE - length text) (0 :: byte) = 0 # replicate (256 - length text) 0"
    using assms(2) by (simp add: MESSAGE_SIZE_def Suc_diff_le flip: replicate_Suc)
  then have n: "strlen (hw_message ?st) = Some (length text)" using assms(1) by (simp add: strlen_text)
  have len: "length (msg_code text) \<le> TDHB_BUFFER_SIZE"
    using assms(2) by (simp add: length_msg_code TDHB_BUFFER_SIZE_def)
  then have b: "replicate TDHB_BUFFER_SIZE (0 :: byte)
      = replicate (length (msg_code text)) 0 @ replicate (TDHB_BUFFER_SIZE - length (msg_code text)) 0"
    by (simp flip: replicate_add)
  have "DSCSERIALIZE_COMPRESS_hello_world ?st (replicate TDHB_BUFFER_SIZE 0)
      = Some (0, msg_code text @ replicate (TDHB_BUFFER_SIZE - length (msg_code text)) 0, int (length (msg_code text)))"
    unfolding b using assms(2) serialize_fits [OF n] by simp
  then show ?thesis using d by (simp add: hello_answer_def)
qed

end
