(* ===== verification/Props_Dsc.thy ===== *)
theory Props_Dsc
  imports Hello
begin

text \<open>
  The properties of the message code and of the sample server that uses it over TDHB, with their
  witnesses on the message "hi".
\<close>

subsection \<open>Integers\<close>

text \<open>C18: The integers of the message code, at all four widths and for every value, the smallest
  integer included (whose negation wraps in the model, and is undefined in C): with room in the buffer the encoder writes exactly the flag byte and the
  significant bytes, at least one, and nothing else; without room it would leave the buffer; and
  the decoder, whatever is around the code, gives the value back and moves over the same bytes.\<close>

theorem int_codec_roundtrip:
  "codec COMPRESS_UINT4 UNCOMPRESS_UINT4 u4 (encoded 0 u4)
   \<and> codec COMPRESS_INT4 UNCOMPRESS_INT4 i4 (if sint i4 < 0 then encoded 0x10 (- i4) else encoded 0 i4)
   \<and> codec COMPRESS_UINT8 UNCOMPRESS_UINT8 u8 (encoded 0 u8)
   \<and> codec COMPRESS_INT8 UNCOMPRESS_INT8 i8 (if sint i8 < 0 then encoded 0x10 (- i8) else encoded 0 i8)
   \<and> length (encoded f u4) = 1 + sig u4 \<and> 1 \<le> sig u4 \<and> sig u4 \<le> 4
   \<and> length (encoded f u8) = 1 + sig u8 \<and> 1 \<le> sig u8 \<and> sig u8 \<le> 8"
  using codec_UINT4 codec_INT4 codec_UINT8 codec_INT8 sig_bounds [of u4] sig_bounds [of u8]
  by (simp add: length_encoded)

text \<open>What the decoder does to its input: it cuts the flag byte in the buffer, so that decoding a
  negative integer a second time from the same buffer gives its absolute value.\<close>

theorem int_decode_destroys_sign:
  assumes "sint i4 < 0"
  shows "\<exists>buf. UNCOMPRESS_INT4 (pre @ encoded 0x10 (- i4) @ post, int (length pre), off)
      = Some (i4, buf, int (length pre) + (1 + int (sig (- i4))), off + (1 + int (sig (- i4))))
    \<and> UNCOMPRESS_INT4 (buf, int (length pre), off)
      = Some (- i4, buf, int (length pre) + (1 + int (sig (- i4))), off + (1 + int (sig (- i4))))"
  using get_encoded [of "0x10" pre "- i4" post off] get_encoded [of 0 pre "- i4" post off]
    flag_negative [of "0x10" "- i4"] flag_negative [of 0 "- i4"]
  by (simp add: UNCOMPRESS_INT4_def htonl_le_word Let_def)

theorem int_decode_destroys_sign_witness:
  "\<exists>buf. UNCOMPRESS_INT4 ([9] @ encoded 0x10 (- (- 5) :: 32 word) @ [8], int (length [9 :: byte]), 0) = Some (- 5, buf, 3, 2)
    \<and> UNCOMPRESS_INT4 (buf, int (length [9 :: byte]), 0) = Some (5, buf, 3, 2)"
  using int_decode_destroys_sign [of "- 5" "[9]" "[8]" 0] by (simp add: sig_32)

subsection \<open>The message\<close>

text \<open>C19: The message code is lossless and its size is exact: a struct whose array holds a text is
  serialised without a fault exactly when the buffer has room for the text and its length (two
  bytes, three from a length of 256), and deserialising what was written, with anything behind
  it, into a cleared struct gives the text, terminated, and the same count of bytes. A buffer of
  the announced size 257 is too small for the longest text.\<close>

theorem message_roundtrip:
  assumes "strlen (hw_message st) = Some n" "length (hw_message st) = MESSAGE_SIZE"
    "sz = n + (if n < 256 then 2 else 3)"
  shows "(DSCSERIALIZE_COMPRESS_hello_world st buf \<noteq> None \<longleftrightarrow> sz \<le> length buf)
    \<and> (sz \<le> length buf \<longrightarrow> (\<exists>code. DSCSERIALIZE_COMPRESS_hello_world st buf = Some (0, code @ drop sz buf, int sz)
         \<and> DSCDESERIALIZE_COMPRESS_hello_world (code @ rest) (snd (DSCINIT_hello_world st'))
           = Some (0, code @ rest, int sz, \<lparr>hw_message = take n (hw_message st) @ replicate (MESSAGE_SIZE - n) 0\<rparr>)))
    \<and> (int sz \<le> DSCSERIALIZE_COMPRESS_BUFSIZE_hello_world \<longleftrightarrow> n < 256)"
proof -
  let ?t = "take n (hw_message st)"
  have n: "length ?t = n" "n \<le> 256" using assms(1,2) by (simp_all add: strlen_Some MESSAGE_SIZE_def)
  then have len: "length (msg_code ?t) = sz" using length_msg_code [of ?t] by (simp add: assms(3))
  have fits: "DSCSERIALIZE_COMPRESS_hello_world st buf = Some (0, msg_code ?t @ drop sz buf, int sz)"
    if "sz \<le> length buf"
    using serialize_fits [OF assms(1), of "take sz buf" "drop sz buf"] that n(2) len by simp
  have over: "DSCSERIALIZE_COMPRESS_hello_world st buf = None" if "\<not> sz \<le> length buf"
    using serialize_overflows [OF assms(1), of buf] that n(2) len by simp
  have rt: "DSCDESERIALIZE_COMPRESS_hello_world (msg_code ?t @ rest) (snd (DSCINIT_hello_world st'))
      = Some (0, msg_code ?t @ rest, int sz, \<lparr>hw_message = ?t @ replicate (MESSAGE_SIZE - n) 0\<rparr>)"
    using deserialize_fits [of ?t "snd (DSCINIT_hello_world st')" rest] n len
    by (simp add: DSCINIT_hello_world_def MESSAGE_SIZE_def)
  show ?thesis
  proof (cases "sz \<le> length buf")
    case True
    then show ?thesis
      using fits [OF True] rt n(2) assms(3) by (simp add: DSCSERIALIZE_COMPRESS_BUFSIZE_hello_world_def)
  next
    case False
    then show ?thesis
      using over n(2) assms(3) by (simp add: DSCSERIALIZE_COMPRESS_BUFSIZE_hello_world_def)
  qed
qed

definition demo_text :: "byte list" where "demo_text = [104, 105]"

definition demo_hello :: hello_world where
  "demo_hello = \<lparr>hw_message = demo_text @ 0 # replicate 254 7\<rparr>"

theorem message_roundtrip_witness:
  "\<exists>code. DSCSERIALIZE_COMPRESS_hello_world demo_hello [9, 9, 9, 9, 9] = Some (0, code @ [9], 4)
    \<and> DSCDESERIALIZE_COMPRESS_hello_world (code @ []) (snd (DSCINIT_hello_world demo_hello))
      = Some (0, code @ [], 4, \<lparr>hw_message = demo_text @ replicate (MESSAGE_SIZE - 2) 0\<rparr>)"
proof -
  have "strlen (hw_message demo_hello) = Some 2" "take 2 (hw_message demo_hello) = demo_text"
    using strlen_text [of demo_text "replicate 254 7"] by (simp_all add: demo_hello_def demo_text_def)
  moreover have "length (hw_message demo_hello) = MESSAGE_SIZE"
    by (simp add: demo_hello_def demo_text_def MESSAGE_SIZE_def)
  ultimately show ?thesis
    using message_roundtrip [of demo_hello 2 4 "[9, 9, 9, 9, 9]" "[]" demo_hello] by simp
qed

subsection \<open>The sample server\<close>

lemma request_lengths: "length text \<le> 256 \<Longrightarrow> lengths_ok 4 (msg_code text @ post) (int (length (msg_code text)))"
  by (simp add: lengths_ok_def length_msg_code)

definition reads_of :: "byte list list \<Rightarrow> hello_world_ans" where
  "reads_of cs = \<lparr>h_malloc = NULL, h_reads = read_script cs, h_writes = []\<rparr>"

definition writes_of :: "int list \<Rightarrow> hello_world_ans" where
  "writes_of ls = \<lparr>h_malloc = NULL, h_reads = [], h_writes = call_script ls\<rparr>"

definition accepted :: "addr \<Rightarrow> int \<Rightarrow> hello_app \<Rightarrow> hello_app" where
  "accepted block s app = snd (hello_accepting block s app)"

lemma accepted_session: "block \<noteq> NULL \<Longrightarrow> hs (accepted block s app) block =
    \<lparr>hs_sock = s, hs_buffer = replicate TDHB_BUFFER_SIZE 0, hs_len = 0, hs_context = zero_context\<rparr>"
  by (simp add: accepted_def hello_accepting_def)

lemma received_message:
  assumes "block \<noteq> NULL" "0 < length body" "length body \<le> 9999"
    "\<forall>c \<in> set (concat (cs # css)). c \<noteq> []" "concat (concat (cs # css)) = body"
  shows "\<exists>r. recv_calls PREHEAD_LEN (map h_reads (map reads_of ((format_0d 4 (int (length body)) # cs) # css)))
      (recv_of (hs (accepted block s app) block)) = (Ret TCPMAIN_RETURN_WAITINGFOR_SENDING, r)
    \<and> rbuf r = body @ replicate (TDHB_BUFFER_SIZE - length body) 0"
proof -
  have ok: "lengths_ok 4 body (int (length body))" using assms(3) by (simp add: lengths_ok_def)
  have m: "map h_reads (map reads_of xs) = map read_script xs" for xs by (simp add: reads_of_def)
  show ?thesis
    unfolding m
    using recv_calls_complete [OF ok, of "int TDHB_BUFFER_SIZE" "replicate TDHB_BUFFER_SIZE 0" cs css "(0, 0)"] assms
    by (auto simp: PREHEAD_LEN_def recv_of_def accepted_session TDHB_BUFFER_SIZE_def)
qed

text \<open>C20: The sample server echoes, end to end: it accepts a connection, and a client sends a
  message with any text of up to 256 characters, the header in one piece and the rest in any
  nonempty pieces over any number of events. Then the callback answers in the end that it waits for
  sending; and when the first \<open>writev\<close> that takes anything takes at least the four bytes of the
  header, then however the kernel splits the rest into nonempty pieces and spreads them over events, the bytes it sends on
  that socket are the bytes of the request, header and body, once each and in order. (When \<open>writev\<close>
  splits the header, a part of the body is sent twice, as in \<open>split_header_repeats_body\<close>.)\<close>

theorem hello_echo:
  assumes "0 \<notin> set txt" "length txt \<le> 256" "block \<noteq> NULL"
    "\<forall>c \<in> set (concat (cs # css)). c \<noteq> []" "concat (concat (cs # css)) = msg_code txt"
    "n = int (length (msg_code txt))" "lss \<noteq> []" "writes_ok 4 (4 + n) (concat lss)" "sum_list (concat lss) = 4 + n"
  shows "\<exists>app2 app3. hello_calls IOMP_ON_RECEIVING_SOCKET block (map reads_of ((format_0d 4 n # cs) # css)) (accepted block s app)
      = (Ret TCPMAIN_RETURN_WAITINGFOR_SENDING, app2)
    \<and> hello_calls IOMP_ON_SENDING_SOCKET block (map writes_of lss) app2 = (Ret TCPMAIN_RETURN_WAITINGFOR_RECEIVING, app3)
    \<and> sent_on s app3 = sent_on s app @ format_0d 4 n @ msg_code txt"
proof -
  let ?app = "accepted block s app"
  have "0 < length (msg_code txt)" "length (msg_code txt) \<le> 9999" using assms(2) by (simp_all add: length_msg_code)
  from received_message [OF assms(3) this assms(4,5)] obtain r where r:
    "recv_calls PREHEAD_LEN (map h_reads (map reads_of ((format_0d 4 n # cs) # css))) (recv_of (hs ?app block))
      = (Ret TCPMAIN_RETURN_WAITINGFOR_SENDING, r)"
    "rbuf r = msg_code txt @ replicate (TDHB_BUFFER_SIZE - length (msg_code txt)) 0"
    unfolding assms(6) by blast
  define t where "t = snd (hello_answer (received r (hs ?app block)))"
  have a: "hello_answer (received r (hs ?app block)) = (Ret TCPMAIN_RETURN_WAITINGFOR_SENDING, t)"
    "hs_buffer t = msg_code txt @ replicate (TDHB_BUFFER_SIZE - length (msg_code txt)) 0"
    "hs_len t = n" "hs_context t = zero_context" "hs_sock t = s"
    using hello_answer_echo [OF assms(1,2), of "received r (hs ?app block)"] r(2) accepted_session [OF assms(3)]
    by (simp_all add: t_def received_def assms(6))
  define app2 where "app2 = ?app\<lparr>hs := (hs ?app)(block := t)\<rparr>"
  have rec: "hello_calls IOMP_ON_RECEIVING_SOCKET block (map reads_of ((format_0d 4 n # cs) # css)) ?app
      = (Ret TCPMAIN_RETURN_WAITINGFOR_SENDING, app2)"
    using hello_receive_calls [OF r(1)] a(1) by (simp only: app2_def fst_conv snd_conv)
  have m: "map h_writes (map writes_of lss) = map call_script lss" by (simp add: writes_of_def)
  have t: "hs app2 block = t" "sent_on s app2 = sent_on s app"
    using assms(3) by (simp_all add: app2_def accepted_def hello_accepting_def sent_on_def)
  obtain st' where st': "send_calls PREHEAD_LEN (hs_buffer t) (map call_script lss) (send_of [] t)
      = (Ret TCPMAIN_RETURN_WAITINGFOR_RECEIVING, st')" "nsent st' = message 4 (hs_buffer t) n"
    using send_calls_complete [OF request_lengths [OF assms(2)], of "send_of [] t" lss] assms(6-9) a
    by (auto simp: PREHEAD_LEN_def send_of_def assms(6) zero_context_def)
  then have "\<exists>app3 bs. hello_calls IOMP_ON_SENDING_SOCKET block (map writes_of lss) app2
        = (Ret TCPMAIN_RETURN_WAITINGFOR_RECEIVING, app3)
      \<and> nsent st' = [] @ bs \<and> sent_on s app3 = sent_on s app2 @ bs"
    using hello_send_calls [of app2 block "map writes_of lss" "[]" st'] unfolding m t a(5) by blast
  moreover have "message 4 (hs_buffer t) n = format_0d 4 n @ msg_code txt" by (simp add: message_def a(2) assms(6))
  ultimately show ?thesis using rec st'(2) t(2) by auto
qed

definition demo_app :: hello_app where
  "demo_app = \<lparr>hs = (\<lambda>_. \<lparr>hs_sock = 0, hs_buffer = [], hs_len = 0, hs_context = zero_context\<rparr>),
     hs_freed = [], hs_data_ptr = NULL, hs_sent = []\<rparr>"

lemma demo_code: "msg_code demo_text = [1, 2, 104, 105]"
  by (simp add: msg_code_def encoded_def demo_text_def sig_32 le_bytes_32_list)

theorem hello_echo_witness:
  "\<exists>app2 app3. hello_calls IOMP_ON_RECEIVING_SOCKET 0x9000
      (map reads_of ((format_0d 4 4 # [[1, 2]]) # [[], [[104], [105]]])) (accepted 0x9000 7 demo_app)
      = (Ret TCPMAIN_RETURN_WAITINGFOR_SENDING, app2)
    \<and> hello_calls IOMP_ON_SENDING_SOCKET 0x9000 (map writes_of [[5], [], [3]]) app2 = (Ret TCPMAIN_RETURN_WAITINGFOR_RECEIVING, app3)
    \<and> sent_on 7 app3 = sent_on 7 demo_app @ format_0d 4 4 @ [1, 2, 104, 105]"
  using hello_echo [of demo_text "0x9000" "[[1, 2]]" "[[], [[104], [105]]]" 4 "[[5], [], [3]]" 7 demo_app]
  unfolding demo_code by (simp add: demo_text_def writes_ok_def)

text \<open>C21: What the sample server does with a longer text: the message's length is checked against the
  TDHB buffer only, and the length inside it against nothing. For every text of 258 to 9990
  bytes the callback, when the body is complete, copies it over the end of the struct on its
  stack.\<close>

theorem hello_overflow:
  assumes "257 < length txt" "length txt \<le> 9990" "block \<noteq> NULL"
    "\<forall>c \<in> set (concat (cs # css)). c \<noteq> []" "concat (concat (cs # css)) = msg_code txt"
  shows "fst (hello_calls IOMP_ON_RECEIVING_SOCKET block
    (map reads_of ((format_0d 4 (int (length (msg_code txt))) # cs) # css)) (accepted block s app)) = Fault"
proof -
  have "length (msg_code txt) \<le> length txt + 5" "0 < length (msg_code txt)"
    using sig_bounds(2) [of "of_nat (length txt) :: 32 word"] by (simp_all add: msg_code_def length_encoded)
  then have "0 < length (msg_code txt)" "length (msg_code txt) \<le> 9999" using assms(2) by simp_all
  from received_message [OF assms(3) this assms(4,5)] obtain r where r:
    "recv_calls PREHEAD_LEN (map h_reads (map reads_of ((format_0d 4 (int (length (msg_code txt))) # cs) # css)))
      (recv_of (hs (accepted block s app) block)) = (Ret TCPMAIN_RETURN_WAITINGFOR_SENDING, r)"
    "rbuf r = msg_code txt @ replicate (TDHB_BUFFER_SIZE - length (msg_code txt)) 0" by blast
  have "hello_answer (received r t) = (Fault, received r t)" for t
    using deserialize_overflows [of "txt" "\<lparr>hw_message = replicate MESSAGE_SIZE 0\<rparr>"] assms(1,2) r(2)
    by (simp add: hello_answer_def received_def MESSAGE_SIZE_def)
  then show ?thesis using hello_receive_calls [OF r(1)] by simp
qed

theorem hello_overflow_witness:
  "fst (hello_calls IOMP_ON_RECEIVING_SOCKET 0x9000
    (map reads_of ((format_0d 4 (int (length (msg_code (replicate 300 65)))) # [msg_code (replicate 300 65)]) # []))
    (accepted 0x9000 7 demo_app)) = Fault"
  by (rule hello_overflow) (simp_all add: msg_code_def encoded_def)

end
