(* ===== verification/IompPool.thy ===== *)
theory IompPool
  imports IompInv DaemonIomp
begin

text \<open>
  The pool of IO-multiplexing workers: the processes that \<open>tcpdaemon_IOMP\<close> forks, each running
  \<open>tcpdaemon_IOMP_worker\<close> on its own copy of the memory, and the one thing they share, the epoll
  sets that were created before the forks. Of these the pool needs to know with which events the
  listening socket is armed in each.
\<close>

subsection \<open>One worker in steps\<close>

text \<open>
  A worker waits in \<open>epoll_wait\<close>, works through the events it got, or is not there: not yet
  forked, or ended.
\<close>

datatype iomp_pc = Sleeping | Busy "(32 word \<times> addr) list" bool | Absent

text \<open>From the return of \<open>epoll_wait\<close> to the loop over the events.\<close>

definition iomp_wake :: "iomp_cfg \<Rightarrow> iomp_os \<Rightarrow> round \<Rightarrow> iomp \<Rightarrow> (iomp_pc \<times> iomp) option" where
  "iomp_wake cfg os r st =
     (let st = st\<lparr>pending := r_accepts r\<rparr> in
      if r_nfds r = -1 then Some (if r_errno r = EINTR then Sleeping else Absent, st)
      else map_option (Pair (Busy (take (nat (r_nfds r)) (r_events r)) False))
             (if sint (w_timeout_seconds cfg) > 0
              then close_timeouts cfg os (os_time os (clk st)) (tick st) else Some st))"

text \<open>One pass of that loop, and its end.\<close>

fun iomp_handle ::
  "iomp_cfg \<Rightarrow> iomp_os \<Rightarrow> (32 word \<times> addr) list \<Rightarrow> bool \<Rightarrow> iomp \<Rightarrow> (iomp_pc \<times> iomp) option" where
  "iomp_handle cfg os [] quit_flag st = Some (if quit_flag then Absent else Sleeping, st)"
| "iomp_handle cfg os ((events, p) # evs) quit_flag st =
     (if p = w_pipe_ptr cfg \<and> p \<noteq> w_listen_ptr cfg then Some (Busy evs True, st)
      else
        (case (if p = w_listen_ptr cfg then listen_event cfg os events st
               else session_event cfg os events p st) of
           None \<Rightarrow> None
         | Some (Return n, st) \<Rightarrow> Some (Absent, st)
         | Some (Go, st) \<Rightarrow> Some (Busy evs quit_flag, st)))"

text \<open>The steps of a worker alone are the rounds of its loop.\<close>

fun iomp_drain :: "iomp_cfg \<Rightarrow> iomp_os \<Rightarrow> nat \<Rightarrow> iomp_pc \<times> iomp \<Rightarrow> (iomp_pc \<times> iomp) option" where
  "iomp_drain cfg os (Suc k) (Busy evs q, st) =
     (case iomp_handle cfg os evs q st of None \<Rightarrow> None | Some s \<Rightarrow> iomp_drain cfg os k s)"
| "iomp_drain cfg os k s = Some s"

definition pc_after :: "Iomp.flow \<Rightarrow> bool \<Rightarrow> iomp_pc" where
  "pc_after fl quit_flag = (if fl = Go \<and> \<not> quit_flag then Sleeping else Absent)"

lemma drain_events:
  "iomp_drain cfg os (Suc (length evs)) (Busy evs q, st) =
     map_option (\<lambda>(fl, q, st). (pc_after fl q, st)) (process_events cfg os evs q st)"
proof (induction evs arbitrary: q st)
  case Nil
  then show ?case by (simp add: pc_after_def)
next
  case (Cons e evs)
  obtain events p where e: "e = (events, p)" by (cases e)
  show ?case
    using Cons.IH unfolding e
    by (auto simp: pc_after_def split: option.splits prod.splits Iomp.flow.splits)
qed

text \<open>One worker alone, step by step, is the loop of \<open>tcpdaemon_IOMP_worker\<close>: the return of
  \<open>epoll_wait\<close> followed by the handling of one event after the other gives the same state and the
  same end, on every branch, as one whole round of the loop.\<close>

theorem worker_steps_are_rounds:
  "\<exists>k. map_option (\<lambda>(fl, q, st). (pc_after fl q, st)) (iomp_round cfg os r st) =
    (case iomp_wake cfg os r st of None \<Rightarrow> None | Some s \<Rightarrow> iomp_drain cfg os k s)"
proof (cases "r_nfds r = -1")
  case True
  then show ?thesis by (auto simp: iomp_round_def iomp_wake_def pc_after_def Let_def)
next
  case False
  let ?evs = "take (nat (r_nfds r)) (r_events r)" and ?st = "st\<lparr>pending := r_accepts r\<rparr>"
  define swept where "swept = (if sint (w_timeout_seconds cfg) > 0
    then close_timeouts cfg os (os_time os (clk ?st)) (tick ?st) else Some ?st)"
  have "iomp_round cfg os r st = (case swept of None \<Rightarrow> None | Some st \<Rightarrow> process_events cfg os ?evs False st)"
    "iomp_wake cfg os r st = map_option (Pair (Busy ?evs False)) swept"
    using False by (simp_all add: iomp_round_def iomp_wake_def Let_def swept_def)
  then have "map_option (\<lambda>(fl, q, st). (pc_after fl q, st)) (iomp_round cfg os r st) =
    (case iomp_wake cfg os r st of None \<Rightarrow> None | Some s \<Rightarrow> iomp_drain cfg os (Suc (length ?evs)) s)"
    using drain_events [of cfg os ?evs False] by (cases swept) (simp_all del: iomp_drain.simps)
  then show ?thesis ..
qed

subsection \<open>The shared epoll sets\<close>

text \<open>
  What the kernel reports of a socket that is armed with \<open>a\<close> (0: disarmed): nothing when it is
  disarmed, and input only when it is armed for input. A report disarms a one-shot socket. One
  \<open>epoll_wait\<close> reports a socket at most once.
\<close>

definition can_report :: "32 word \<Rightarrow> 32 word \<Rightarrow> bool" where
  "can_report a events \<longleftrightarrow> a \<noteq> 0 \<and> (has events EPOLLIN \<longrightarrow> has a EPOLLIN)"

definition deliver :: "addr \<Rightarrow> (32 word \<times> addr) list \<Rightarrow> 32 word \<Rightarrow> 32 word option" where
  "deliver listen_ptr evs a =
     (case filter (\<lambda>e. snd e = listen_ptr) evs of
        [] \<Rightarrow> Some a
      | [e] \<Rightarrow> if can_report a (fst e) then Some (if has a EPOLLONESHOT then 0 else a) else None
      | _ \<Rightarrow> None)"

text \<open>
  After a listen event the worker's last call may have armed the listening socket in a set; it
  succeeded when the worker goes on.
\<close>

definition rearm :: "iomp_cfg \<Rightarrow> (32 word \<times> addr) list \<Rightarrow> iomp_pc \<Rightarrow> iomp_ev list \<Rightarrow> (int \<Rightarrow> 32 word) \<Rightarrow> int \<Rightarrow> 32 word" where
  "rearm cfg evs pc es a =
     (if evs \<noteq> [] \<and> snd (hd evs) = w_listen_ptr cfg \<and> pc \<noteq> Absent then
        (case last es of
           EvCtl epfd EPOLL_CTL_MOD fd events p \<Rightarrow> if fd = w_listen_sock cfg then a(epfd := events) else a
         | _ \<Rightarrow> a)
      else a)"

subsection \<open>The pool\<close>

record iomp_proc =
  p_pc :: iomp_pc
  p_os :: iomp_os
  p_st :: iomp

text \<open>\<open>accepts\<close> are the sockets that the pool's workers have accepted so far.\<close>

record iomp_sys =
  armed :: "int \<Rightarrow> 32 word"
  procs :: "iomp_proc list"
  accepts :: "int multiset"

text \<open>
  What worker \<open>i\<close> sees of the environment: its index, and the address of the read end of its entry
  of \<open>alive_pipes\<close>, an array of two ints per worker.
\<close>

definition view :: "iomp_cfg \<Rightarrow> nat \<Rightarrow> iomp_cfg" where
  "view cfg i = cfg\<lparr>w_index := i, w_pipe_ptr := w_pipe_ptr cfg + of_nat (8 * i)\<rparr>"

lemma view_simps [simp]:
  "w_index (view cfg i) = i" "w_pipe_ptr (view cfg i) = w_pipe_ptr cfg + of_nat (8 * i)"
  "w_process_count (view cfg i) = w_process_count cfg" "w_timeout_seconds (view cfg i) = w_timeout_seconds cfg"
  "w_listen_sock (view cfg i) = w_listen_sock cfg" "w_epoll_array (view cfg i) = w_epoll_array cfg"
  "w_listen_ptr (view cfg i) = w_listen_ptr cfg" "w_cpu_affinity (view cfg i) = w_cpu_affinity cfg"
  by (simp_all add: view_def)

datatype pool_move = Forks iomp_os int | Wakes round | Handles | Ends

definition batch :: "round \<Rightarrow> (32 word \<times> addr) list" where
  "batch r = (if r_nfds r = -1 then [] else take (nat (r_nfds r)) (r_events r))"

text \<open>
  A step of worker \<open>i\<close>. The managing process forks it when it is absent, with a new command pipe;
  it starts on the memory \<open>st0\<close> of the managing process. It may end at any time.
\<close>

definition pool_step :: "iomp_cfg \<Rightarrow> iomp \<Rightarrow> nat \<Rightarrow> pool_move \<Rightarrow> iomp_sys \<Rightarrow> iomp_sys option" where
  "pool_step cfg st0 i mv s =
     (if i \<ge> length (procs s) then None
      else
        (let p = procs s ! i; c = view cfg i; ep = this_epoll_fd c in
         case mv of
           Forks os fd \<Rightarrow>
             (if p_pc p \<noteq> Absent then None
              else let (nret, st) = worker_start (c\<lparr>w_alive_pipe := fd\<rparr>) os st0 in
                Some (s\<lparr>procs := (procs s)[i :=
                  \<lparr>p_pc = (if nret = -1 then Absent else Sleeping), p_os = os, p_st = st\<rparr>]\<rparr>))
         | Wakes r \<Rightarrow>
             (case (p_pc p, deliver (w_listen_ptr cfg) (batch r) (armed s ep)) of
                (Sleeping, Some a) \<Rightarrow>
                  map_option (\<lambda>(pc, st). s\<lparr>armed := (armed s)(ep := a),
                      procs := (procs s)[i := p\<lparr>p_pc := pc, p_st := st\<rparr>]\<rparr>)
                    (iomp_wake c (p_os p) r (p_st p))
              | _ \<Rightarrow> None)
         | Handles \<Rightarrow>
             (case p_pc p of
                Busy evs q \<Rightarrow>
                  map_option (\<lambda>(pc, st). s\<lparr>armed := rearm c evs pc (trace st) (armed s),
                      procs := (procs s)[i := p\<lparr>p_pc := pc, p_st := st\<rparr>],
                      accepts := accepts s + (accepted_of (trace st) - accepted_of (trace (p_st p)))\<rparr>)
                    (iomp_handle c (p_os p) evs q (p_st p))
              | _ \<Rightarrow> None)
         | Ends \<Rightarrow>
             (if p_pc p = Absent then None else Some (s\<lparr>procs := (procs s)[i := p\<lparr>p_pc := Absent\<rparr>]\<rparr>))))"

fun pool_run :: "iomp_cfg \<Rightarrow> iomp \<Rightarrow> (nat \<times> pool_move) list \<Rightarrow> iomp_sys \<Rightarrow> iomp_sys option" where
  "pool_run cfg st0 [] s = Some s"
| "pool_run cfg st0 ((i, mv) # ms) s =
     (case pool_step cfg st0 i mv s of None \<Rightarrow> None | Some s \<Rightarrow> pool_run cfg st0 ms s)"

text \<open>At the start no worker is forked, and the sets are armed as the calls of the start say.\<close>

definition no_os :: iomp_os where
  "no_os = \<lparr>os_tcpmain = (\<lambda>_. (0, None)), os_epoll_ctl = (\<lambda>_. 0), os_time = (\<lambda>_. 0), os_malloc = (\<lambda>_. NULL)\<rparr>"

fun arm1 :: "int \<Rightarrow> sys_call \<Rightarrow> (int \<Rightarrow> 32 word) \<Rightarrow> int \<Rightarrow> 32 word" where
  "arm1 fd (CEpollAdd epfd s events r) a = (if s = fd \<and> r \<noteq> -1 then a(epfd := events) else a)"
| "arm1 fd _ a = a"

definition armed_by :: "int \<Rightarrow> sys_call list \<Rightarrow> int \<Rightarrow> 32 word" where
  "armed_by fd cs = fold (arm1 fd) cs (\<lambda>_. 0)"

definition pool_start :: "env \<Rightarrow> iomp \<Rightarrow> iomp_sys" where
  "pool_start e st0 =
     \<lparr>armed = armed_by (listen_sock e) (calls e),
      procs = replicate (length (the (epoll_array e))) \<lparr>p_pc = Absent, p_os = no_os, p_st = st0\<rparr>,
      accepts = {#}\<rparr>"

text \<open>
  What the workers share of the environment, with the addresses of \<open>listen_sock\<close>, of the array
  \<open>alive_pipes\<close> and of \<open>accepted_addr\<close>, and their memory at the fork.
\<close>

definition worker_cfg :: "entry_para \<Rightarrow> env \<Rightarrow> addr \<Rightarrow> addr \<Rightarrow> addr \<Rightarrow> iomp_cfg" where
  "worker_cfg p e listen_ptr pipes_ptr addr_ptr =
     \<lparr>w_index = 0, w_process_count = process_count p, w_tcp_nodelay = tcp_nodelay p, w_tcp_linger = tcp_linger p,
      w_timeout_seconds = word_of_int (timeout_seconds p), w_cpu_affinity = cpu_affinity p,
      w_listen_sock = listen_sock e, w_alive_pipe = 0, w_epoll_array = the (epoll_array e),
      w_listen_ptr = listen_ptr, w_pipe_ptr = pipes_ptr, w_addr_ptr = addr_ptr\<rparr>"

definition worker_mem :: "env \<Rightarrow> iomp" where
  "worker_mem e = \<lparr>mem = env_mem e, io_multiplex_event = 0, io_multiplex_data_ptr = NULL, pending = [],
     clk = 1, trace = []\<rparr>"

end
