(* ===== verification/IompPoolInv.thy ===== *)
theory IompPoolInv
  imports IompPool
begin

text \<open>
  The right to accept as a token: it is in an epoll set while the listening socket is armed for
  input there, and with a worker while the event waits in its batch. No step makes a second
  token, and the steps that lose it are those of a worker that ends while it has it.
\<close>

subsection \<open>What the worker does on the shared sets\<close>

lemma accepted_close:
  "CloseTcpdaemonAcceptedSession cfg os p st = Some st' \<Longrightarrow> accepted_of (trace st') = accepted_of (trace st)"
  by (auto simp: close_state split: option.splits)

lemma accepted_session_event:
  "session_event cfg os ev p st = Some (fl, st') \<Longrightarrow> accepted_of (trace st') = accepted_of (trace st)"
  by (auto simp: session_event_def session_answer_def Let_def split_beta dest!: accepted_close
      split: if_splits)

lemma listen_event_no_input:
  "\<not> has ev EPOLLIN \<Longrightarrow> listen_event cfg os ev st = Some (Return 1, st)"
  by (simp add: listen_event_def)

abbreviation LISTEN_ARMED :: "32 word" where
  "LISTEN_ARMED \<equiv> EPOLLIN OR EPOLLERR OR EPOLLONESHOT"

definition next_epoll_fd :: "iomp_cfg \<Rightarrow> nat \<Rightarrow> int" where
  "next_epoll_fd cfg i = w_epoll_array cfg ! (Suc i mod length (w_epoll_array cfg))"

text \<open>A pool of more than one worker on sets of their own.\<close>

definition cfg_ok :: "iomp_cfg \<Rightarrow> bool" where
  "cfg_ok cfg \<longleftrightarrow> w_process_count cfg = int (length (w_epoll_array cfg)) \<and> 1 < length (w_epoll_array cfg)
     \<and> distinct (w_epoll_array cfg)"

lemma listen_event_passes:
  assumes "listen_event (view cfg i) os ev st = Some (Go, st')" "cfg_ok cfg" "i < length (w_epoll_array cfg)"
  shows "last (trace st') = EvCtl (next_epoll_fd cfg i) EPOLL_CTL_MOD (w_listen_sock cfg) LISTEN_ARMED (w_listen_ptr cfg)"
proof -
  let ?c = "view cfg i"
  let ?n = "length (w_epoll_array cfg)"
  let ?j = "if int ?n \<le> int i + 1 then 0 else int i + 1"
  obtain st1 where "pass_listen ?c os st1 = (Go, st')"
    using assms(1) by (auto simp: listen_event_def split: if_splits option.splits prod.splits Iomp.flow.splits)
  then have "st' = snd (epoll_ctl os (w_epoll_array cfg ! nat ?j) EPOLL_CTL_MOD (w_listen_sock cfg)
      LISTEN_ARMED (w_listen_ptr cfg) st1)"
    using assms(2) by (auto simp: pass_listen_def cfg_ok_def Let_def split_beta split: if_splits)
  moreover have "nat ?j = Suc i mod ?n"
  proof (cases "Suc i = ?n")
    case False
    with assms(3) have "Suc i < ?n" by simp
    then show ?thesis by (simp add: nat_add_distrib)
  qed simp
  ultimately show ?thesis by (simp add: next_epoll_fd_def)
qed

lemma has_LISTEN_ARMED: "has LISTEN_ARMED EPOLLIN" "has LISTEN_ARMED EPOLLONESHOT" "\<not> has 0 ev"
  "\<not> has EPOLLERR EPOLLIN" "\<not> has EPOLLERR EPOLLONESHOT"
  by (simp_all add: has_def EPOLLIN_def EPOLLERR_def EPOLLONESHOT_def)

subsection \<open>Counting the tokens\<close>

definition claims :: "addr \<Rightarrow> (32 word \<times> addr) list \<Rightarrow> nat" where
  "claims lp evs = length (filter (\<lambda>(ev, p). p = lp \<and> has ev EPOLLIN) evs)"

fun proc_claims :: "addr \<Rightarrow> iomp_pc \<Rightarrow> nat" where
  "proc_claims lp (Busy evs q) = claims lp evs"
| "proc_claims lp pc = 0"

definition holds_token :: "iomp_cfg \<Rightarrow> iomp_proc \<Rightarrow> bool" where
  "holds_token cfg p \<longleftrightarrow> 0 < proc_claims (w_listen_ptr cfg) (p_pc p)"

definition armed_sets :: "iomp_cfg \<Rightarrow> (int \<Rightarrow> 32 word) \<Rightarrow> int set" where
  "armed_sets cfg a = {e \<in> set (w_epoll_array cfg). has (a e) EPOLLIN}"

definition held_tokens :: "iomp_cfg \<Rightarrow> iomp_proc list \<Rightarrow> nat" where
  "held_tokens cfg ps = sum_list (map (\<lambda>p. proc_claims (w_listen_ptr cfg) (p_pc p)) ps)"

definition tokens :: "iomp_cfg \<Rightarrow> iomp_sys \<Rightarrow> nat" where
  "tokens cfg s = card (armed_sets cfg (armed s)) + held_tokens cfg (procs s)"

definition armings_ok :: "iomp_cfg \<Rightarrow> (int \<Rightarrow> 32 word) \<Rightarrow> bool" where
  "armings_ok cfg a \<longleftrightarrow> (\<forall>e \<in> set (w_epoll_array cfg). a e \<in> {0, EPOLLERR, LISTEN_ARMED})"

lemma claims_simps [simp]:
  "claims lp [] = 0"
  "claims lp ((ev, p) # evs) = (if p = lp \<and> has ev EPOLLIN then 1 else 0) + claims lp evs"
  by (simp_all add: claims_def)

lemma held_update:
  "i < length ps \<Longrightarrow> held_tokens cfg (ps[i := p]) + proc_claims (w_listen_ptr cfg) (p_pc (ps ! i))
     = held_tokens cfg ps + proc_claims (w_listen_ptr cfg) (p_pc p)"
  by (induction ps arbitrary: i) (auto simp: held_tokens_def nth_Cons split: nat.splits)

lemma held_at: "i < length ps \<Longrightarrow> proc_claims (w_listen_ptr cfg) (p_pc (ps ! i)) \<le> held_tokens cfg ps"
  unfolding held_tokens_def by (rule member_le_sum_list) auto

lemma armed_update:
  assumes "e \<in> set (w_epoll_array cfg)"
  shows "card (armed_sets cfg (a(e := v))) + (if has (a e) EPOLLIN then 1 else 0)
    = card (armed_sets cfg a) + (if has v EPOLLIN then 1 else 0)"
proof -
  have fin: "finite (armed_sets cfg a)" for a by (simp add: armed_sets_def)
  have "armed_sets cfg (a(e := v)) - {e} = armed_sets cfg a - {e}" by (auto simp: armed_sets_def)
  moreover have "card (armed_sets cfg b) = card (armed_sets cfg b - {e}) + (if has (b e) EPOLLIN then 1 else 0)" for b
  proof (cases "e \<in> armed_sets cfg b")
    case True
    then have "card (armed_sets cfg b) = Suc (card (armed_sets cfg b - {e}))"
      using fin by (metis card_Suc_Diff1)
    then show ?thesis using True by (simp add: armed_sets_def)
  next
    case False
    then show ?thesis using assms by (simp add: armed_sets_def)
  qed
  ultimately show ?thesis by simp
qed

subsection \<open>One step\<close>

definition sys_ok :: "iomp_cfg \<Rightarrow> iomp_sys \<Rightarrow> bool" where
  "sys_ok cfg s \<longleftrightarrow> length (procs s) = length (w_epoll_array cfg) \<and> armings_ok cfg (armed s) \<and> tokens cfg s \<le> 1"

text \<open>
  The steps that lose the token: a worker that has it is absent afterwards, or the kernel reports
  an error, without input, on the one-shot socket.
\<close>

definition reports_error :: "iomp_cfg \<Rightarrow> pool_move \<Rightarrow> bool" where
  "reports_error cfg mv \<longleftrightarrow>
     (case mv of Wakes r \<Rightarrow> (\<exists>e \<in> set (batch r). snd e = w_listen_ptr cfg \<and> \<not> has (fst e) EPOLLIN) | _ \<Rightarrow> False)"

definition loses_token :: "iomp_cfg \<Rightarrow> nat \<Rightarrow> pool_move \<Rightarrow> iomp_sys \<Rightarrow> iomp_sys \<Rightarrow> bool" where
  "loses_token cfg i mv s t \<longleftrightarrow> reports_error cfg mv \<or>
     holds_token cfg (procs s ! i) \<and> p_pc (procs t ! i) = Absent"

lemma this_epoll_fd_mem: "i < length (w_epoll_array cfg) \<Longrightarrow> this_epoll_fd (view cfg i) \<in> set (w_epoll_array cfg)"
  by (simp add: this_epoll_fd_def)

lemma next_epoll_fd_mem: "cfg_ok cfg \<Longrightarrow> next_epoll_fd cfg i \<in> set (w_epoll_array cfg)"
  unfolding next_epoll_fd_def cfg_ok_def by (intro nth_mem mod_less_divisor) linarith

text \<open>Delivery: the token leaves the set exactly when the batch claims it.\<close>

lemma filter_pair: "filter (\<lambda>(ev, p). p = lp \<and> P ev) es = filter (\<lambda>e. P (fst e)) (filter (\<lambda>e. snd e = lp) es)"
  by (induction es) auto

lemma deliver_claims:
  assumes "deliver lp es a = Some a'" "a \<in> {0, EPOLLERR, LISTEN_ARMED}"
  shows "a' \<in> {0, EPOLLERR, LISTEN_ARMED}"
    and "(if has a' EPOLLIN then 1 else 0) + claims lp es \<le> (if has a EPOLLIN then 1 else (0 :: nat))"
    and "\<forall>e \<in> set es. snd e = lp \<longrightarrow> has (fst e) EPOLLIN \<Longrightarrow>
      (if has a' EPOLLIN then 1 else 0) + claims lp es = (if has a EPOLLIN then 1 else (0 :: nat))"
proof -
  let ?f = "filter (\<lambda>e. snd e = lp) es"
  have c: "claims lp es = length (filter (\<lambda>e. has (fst e) EPOLLIN) ?f)"
    unfolding claims_def by (simp only: filter_pair)
  consider "?f = []" "a' = a" | e where "?f = [e]" "can_report a (fst e)" "a' = (if has a EPOLLONESHOT then 0 else a)"
    using assms(1) by (auto simp: deliver_def split: list.splits if_splits)
  note cases = this
  show "a' \<in> {0, EPOLLERR, LISTEN_ARMED}"
    by (rule cases) (use assms(2) in auto)
  show "(if has a' EPOLLIN then 1 else 0) + claims lp es \<le> (if has a EPOLLIN then 1 else (0 :: nat))"
    by (rule cases) (use assms(2) c in \<open>auto simp: can_report_def has_LISTEN_ARMED\<close>)
  assume all: "\<forall>e \<in> set es. snd e = lp \<longrightarrow> has (fst e) EPOLLIN"
  show "(if has a' EPOLLIN then 1 else 0) + claims lp es = (if has a EPOLLIN then 1 else (0 :: nat))"
  proof (rule cases)
    fix e assume e: "?f = [e]" "can_report a (fst e)" "a' = (if has a EPOLLONESHOT then 0 else a)"
    then have "e \<in> set ?f" by simp
    then have "has (fst e) EPOLLIN" using all by simp
    moreover from this have "has a EPOLLIN" using e(2) by (simp add: can_report_def)
    moreover from this have "\<not> has a' EPOLLIN" using assms(2) e(3) has_LISTEN_ARMED by auto
    ultimately show ?thesis using e(1) c by simp
  qed (simp add: c)
qed

text \<open>Handling: the token of a listen event goes to the next set.\<close>

lemma rearm_other: "evs = [] \<or> snd (hd evs) \<noteq> w_listen_ptr cfg \<or> pc = Absent \<Longrightarrow> rearm cfg evs pc es a = a"
  by (auto simp: rearm_def)

lemma handle_input: "listen_event cfg os ev st = Some (Go, st') \<Longrightarrow> has ev EPOLLIN"
  by (rule ccontr) (simp add: listen_event_no_input)

lemma handle_listen:
  fixes evs q
  assumes "listen_event (view cfg i) os ev st = Some (Go, st')" "cfg_ok cfg" "i < length (w_epoll_array cfg)"
    "armings_ok cfg a" "card (armed_sets cfg a) = 0"
  defines "a' \<equiv> rearm (view cfg i) ((ev, w_listen_ptr cfg) # evs) (Busy evs q) (trace st') a"
  shows "armings_ok cfg a'" "card (armed_sets cfg a') = 1"
proof -
  let ?e = "next_epoll_fd cfg i"
  have e: "?e \<in> set (w_epoll_array cfg)" by (rule next_epoll_fd_mem [OF assms(2)])
  have "\<not> has (a ?e) EPOLLIN" using assms(5) e by (auto simp: armed_sets_def)
  moreover have a': "a' = a(?e := LISTEN_ARMED)"
    unfolding a'_def by (simp add: rearm_def listen_event_passes [OF assms(1-3)])
  ultimately show "card (armed_sets cfg a') = 1"
    using armed_update [OF e, of a LISTEN_ARMED] assms(5) by (simp add: has_LISTEN_ARMED)
  show "armings_ok cfg a'" using assms(4) by (simp add: armings_ok_def a')
qed

lemma handle_tokens:
  assumes H: "iomp_handle (view cfg i) os evs q st = Some (pc, st')"
    and cfg: "cfg_ok cfg" "i < length (w_epoll_array cfg)"
    and a: "armings_ok cfg a" "card (armed_sets cfg a) + claims (w_listen_ptr cfg) evs \<le> 1"
  defines "a' \<equiv> rearm (view cfg i) evs pc (trace st') a"
    and "before \<equiv> card (armed_sets cfg a) + claims (w_listen_ptr cfg) evs"
  defines "after \<equiv> card (armed_sets cfg a') + proc_claims (w_listen_ptr cfg) pc"
  shows "armings_ok cfg a' \<and> after \<le> before \<and> (claims (w_listen_ptr cfg) evs = 0 \<or> pc \<noteq> Absent \<longrightarrow> after = before)
    \<and> (claims (w_listen_ptr cfg) evs = 0 \<longrightarrow> accepted_of (trace st') = accepted_of (trace st))"
proof (cases evs)
  case Nil
  then have "a' = a" by (simp add: a'_def rearm_other)
  then show ?thesis using H a Nil by (auto simp: before_def after_def split: if_splits)
next
  case (Cons e es)
  obtain ev p where e: "e = (ev, p)" by (cases e)
  let ?lp = "w_listen_ptr cfg"
  consider (pipe) "p \<noteq> ?lp" "p = w_pipe_ptr (view cfg i)" | (listen) "p = ?lp"
    | (session) "p \<noteq> ?lp" "p \<noteq> w_pipe_ptr (view cfg i)"
    by blast
  then show ?thesis
  proof cases
    case pipe
    then have "a' = a" by (simp add: a'_def rearm_other Cons e)
    moreover have "pc = Busy es True" "st' = st" using H pipe by (simp_all add: Cons e)
    ultimately show ?thesis using a pipe by (simp add: Cons e before_def after_def)
  next
    case listen
    then have L: "case listen_event (view cfg i) os ev st of None \<Rightarrow> False
      | Some (Return n, st1) \<Rightarrow> pc = Absent \<and> st' = st1 | Some (Go, st1) \<Rightarrow> pc = Busy es q \<and> st' = st1"
      using H by (simp add: Cons e split: option.splits prod.splits Iomp.flow.splits)
    obtain fl where fl: "listen_event (view cfg i) os ev st = Some (fl, st')"
      using L by (auto split: option.splits prod.splits Iomp.flow.splits)
    show ?thesis
    proof (cases fl)
      case Go
      then have pc: "pc = Busy es q" using L fl by simp
      have "has ev EPOLLIN" using handle_input fl Go by blast
      then have c: "claims ?lp evs = Suc (claims ?lp es)" using listen by (simp add: Cons e)
      then have "card (armed_sets cfg a) = 0" using a(2) by simp
      from handle_listen [OF fl [unfolded Go] cfg a(1) this, of es q] show ?thesis
        using c a(2) pc listen by (simp add: a'_def before_def after_def Cons e)
    next
      case (Return n)
      then have pc: "pc = Absent" using L fl by simp
      then have "a' = a" by (simp add: a'_def rearm_other)
      moreover have "st' = st" if "\<not> has ev EPOLLIN" using listen_event_no_input [OF that] fl by simp
      ultimately show ?thesis using a pc listen by (auto simp: Cons e before_def after_def)
    qed
  next
    case session
    then have "a' = a" by (simp add: a'_def rearm_other Cons e)
    moreover obtain fl where "session_event (view cfg i) os ev p st = Some (fl, st')" "pc = Absent \<or> pc = Busy es q"
      using H session by (auto simp: Cons e split: option.splits prod.splits Iomp.flow.splits)
    moreover from this have "accepted_of (trace st') = accepted_of (trace st)" using accepted_session_event by blast
    ultimately show ?thesis using a session by (auto simp: Cons e before_def after_def)
  qed
qed

text \<open>Every step.\<close>

lemma tokens_update:
  assumes "i < length (procs s)" "procs t = (procs s)[i := p]"
    "card (armed_sets cfg (armed t)) + proc_claims (w_listen_ptr cfg) (p_pc p) + k
       = card (armed_sets cfg (armed s)) + proc_claims (w_listen_ptr cfg) (p_pc (procs s ! i))"
  shows "tokens cfg t + k = tokens cfg s"
  using held_update [OF assms(1), of cfg p] assms(2,3) by (simp add: tokens_def)

lemma iomp_wake_pc:
  "iomp_wake cfg os r st = Some (pc, st') \<Longrightarrow> r_nfds r = -1 \<and> proc_claims lp pc = 0 \<or> pc = Busy (batch r) False"
  by (auto simp: iomp_wake_def batch_def Let_def split: if_splits)

definition step_keeps_token :: "iomp_cfg \<Rightarrow> nat \<Rightarrow> pool_move \<Rightarrow> iomp_sys \<Rightarrow> iomp_sys \<Rightarrow> bool" where
  "step_keeps_token cfg i mv s t \<longleftrightarrow> sys_ok cfg t \<and> tokens cfg t \<le> tokens cfg s \<and>
     (\<not> loses_token cfg i mv s t \<longrightarrow> tokens cfg t = tokens cfg s) \<and>
     (\<not> holds_token cfg (procs s ! i) \<longrightarrow> accepts t = accepts s)"

lemma token_silent:
  assumes "sys_ok cfg s" "i < length (procs s)" "t = s\<lparr>procs := (procs s)[i := p]\<rparr>"
    "proc_claims (w_listen_ptr cfg) (p_pc p) = 0" "holds_token cfg (procs s ! i) \<longrightarrow> p_pc p = Absent"
  shows "step_keeps_token cfg i mv s t"
proof -
  have "tokens cfg t + proc_claims (w_listen_ptr cfg) (p_pc (procs s ! i)) = tokens cfg s"
    by (rule tokens_update [where p = p]) (use assms in simp_all)
  then show ?thesis using assms by (auto simp: step_keeps_token_def sys_ok_def loses_token_def holds_token_def)
qed

lemma token_wakes:
  assumes "sys_ok cfg s" "i < length (procs s)" "cfg_ok cfg" "p_pc (procs s ! i) = Sleeping"
    "deliver (w_listen_ptr cfg) (batch r) (armed s ep) = Some a" "ep = this_epoll_fd (view cfg i)"
    "iomp_wake c os r st = Some (pc, st')" "p_pc p = pc"
    "t = s\<lparr>armed := (armed s)(ep := a), procs := (procs s)[i := p]\<rparr>"
  shows "step_keeps_token cfg i (Wakes r) s t"
proof -
  let ?lp = "w_listen_ptr cfg"
  have i: "i < length (w_epoll_array cfg)" using assms(1,2) by (simp add: sys_ok_def)
  have ep: "ep \<in> set (w_epoll_array cfg)" using this_epoll_fd_mem [OF i] assms(6) by simp
  have old: "armed s ep \<in> {0, EPOLLERR, LISTEN_ARMED}"
    using assms(1) ep unfolding sys_ok_def armings_ok_def by blast
  note d = deliver_claims [OF assms(5) old]
  have pc: "proc_claims ?lp pc = claims ?lp (batch r)"
    using iomp_wake_pc [OF assms(7), of ?lp] by (auto simp: batch_def)
  note u = armed_update [OF ep, of "armed s" a]
  have le: "card (armed_sets cfg (armed t)) + proc_claims ?lp pc \<le> card (armed_sets cfg (armed s))"
    using u d(2) assms(9) pc by (simp split: if_splits)
  define k where "k = card (armed_sets cfg (armed s)) - (card (armed_sets cfg (armed t)) + proc_claims ?lp pc)"
  have T: "tokens cfg t + k = tokens cfg s"
    by (rule tokens_update [where p = p and i = i]) (use assms(2,4,8,9) le in \<open>simp_all add: k_def\<close>)
  have "k = 0" if "\<not> reports_error cfg (Wakes r)"
  proof -
    have "\<forall>e \<in> set (batch r). snd e = ?lp \<longrightarrow> has (fst e) EPOLLIN" using that by (simp add: reports_error_def)
    from d(3) [OF this] show ?thesis using u assms(9) pc by (simp add: k_def split: if_splits)
  qed
  moreover have "armings_ok cfg (armed t)" using assms(1,9) d(1) by (simp add: sys_ok_def armings_ok_def)
  ultimately show ?thesis
    using T assms(1,9) by (auto simp: step_keeps_token_def sys_ok_def loses_token_def)
qed

lemma token_handles:
  assumes "sys_ok cfg s" "i < length (procs s)" "cfg_ok cfg" "p_pc (procs s ! i) = Busy evs q"
    "iomp_handle (view cfg i) os evs q (p_st (procs s ! i)) = Some (pc, st')" "p_pc p = pc"
    "t = s\<lparr>armed := rearm (view cfg i) evs pc (trace st') (armed s), procs := (procs s)[i := p],
        accepts := accepts s + (accepted_of (trace st') - accepted_of (trace (p_st (procs s ! i))))\<rparr>"
  shows "step_keeps_token cfg i Handles s t"
proof -
  let ?lp = "w_listen_ptr cfg"
  have i: "i < length (w_epoll_array cfg)" using assms(1,2) by (simp add: sys_ok_def)
  have a: "armings_ok cfg (armed s)" using assms(1) by (simp add: sys_ok_def)
  have "claims ?lp evs \<le> held_tokens cfg (procs s)" using held_at [OF assms(2), of cfg] assms(4) by simp
  then have c: "card (armed_sets cfg (armed s)) + claims ?lp evs \<le> 1" using assms(1) by (simp add: sys_ok_def tokens_def)
  have armed_t: "armed t = rearm (view cfg i) evs pc (trace st') (armed s)" using assms(7) by simp
  note H = handle_tokens [OF assms(5,3) i a c, folded armed_t]
  define k where "k = card (armed_sets cfg (armed s)) + claims ?lp evs
    - (card (armed_sets cfg (armed t)) + proc_claims ?lp pc)"
  have T: "tokens cfg t + k = tokens cfg s"
    by (rule tokens_update [where p = p and i = i]) (use assms(2,4,6,7) H in \<open>simp_all add: k_def\<close>)
  have "k = 0" if "claims ?lp evs = 0 \<or> pc \<noteq> Absent" using H that by (simp add: k_def)
  then show ?thesis
    using T H assms(1,2,4,6,7) by (auto simp: step_keeps_token_def sys_ok_def loses_token_def holds_token_def)
qed

theorem pool_step_token:
  assumes "pool_step cfg st0 i mv s = Some t" "cfg_ok cfg" "sys_ok cfg s"
  shows "step_keeps_token cfg i mv s t"
proof -
  have i: "i < length (procs s)" using assms(1) by (simp add: pool_step_def split: if_splits)
  show ?thesis
  proof (cases mv)
    case (Forks os fd)
    then show ?thesis
      using assms(1) i by (auto intro!: token_silent [OF assms(3) i] simp: pool_step_def Let_def holds_token_def
          split: if_splits prod.splits)
  next
    case (Wakes r)
    then show ?thesis
      using assms(1) i by (auto intro!: token_wakes [OF assms(3) i assms(2)] simp: pool_step_def Let_def
          split: if_splits iomp_pc.splits option.splits)
  next
    case Handles
    then show ?thesis
      using assms(1) i by (auto intro!: token_handles [OF assms(3) i assms(2)] simp: pool_step_def Let_def
          split: if_splits iomp_pc.splits)
  next
    case Ends
    then show ?thesis
      using assms(1) i by (auto intro!: token_silent [OF assms(3) i] simp: pool_step_def Let_def
          split: if_splits)
  qed
qed

subsection \<open>Runs\<close>

lemma token_lost:
  assumes "pool_step cfg st0 i mv s = Some t" "sys_ok cfg s" "holds_token cfg (procs s ! i)" "p_pc (procs t ! i) = Absent"
  shows "tokens cfg t = 0"
proof -
  have i: "i < length (procs s)" using assms(1) by (simp add: pool_step_def split: if_splits)
  obtain evs q where b: "p_pc (procs s ! i) = Busy evs q" using assms(3) by (cases "p_pc (procs s ! i)") (auto simp: holds_token_def)
  have "\<exists>p. procs t = (procs s)[i := p] \<and> p_pc p = Absent \<and> armed t = armed s"
  proof (cases mv)
    case Handles
    then show ?thesis
      using assms(1,4) i b by (auto simp: pool_step_def Let_def rearm_other split: if_splits)
  next
    case Ends
    then show ?thesis using assms(1) i b by (auto simp: pool_step_def Let_def split: if_splits)
  qed (use assms(1) i b in \<open>auto simp: pool_step_def Let_def split: if_splits\<close>)
  then obtain p where p: "procs t = (procs s)[i := p]" "p_pc p = Absent" "armed t = armed s" by blast
  have "tokens cfg t + proc_claims (w_listen_ptr cfg) (p_pc (procs s ! i)) = tokens cfg s"
    by (rule tokens_update [OF i p(1)]) (use p in simp)
  then show ?thesis using assms(2,3) by (simp add: sys_ok_def holds_token_def)
qed

fun run_loses :: "iomp_cfg \<Rightarrow> iomp \<Rightarrow> (nat \<times> pool_move) list \<Rightarrow> iomp_sys \<Rightarrow> bool" where
  "run_loses cfg st0 [] s \<longleftrightarrow> False"
| "run_loses cfg st0 ((i, mv) # ms) s \<longleftrightarrow>
     (case pool_step cfg st0 i mv s of
        None \<Rightarrow> False
      | Some t \<Rightarrow> loses_token cfg i mv s t \<or> run_loses cfg st0 ms t)"

lemma no_token_no_holder: "tokens cfg s = 0 \<Longrightarrow> i < length (procs s) \<Longrightarrow> \<not> holds_token cfg (procs s ! i)"
  using held_at [of i "procs s" cfg] by (simp add: tokens_def holds_token_def)

lemma pool_run_token:
  assumes "pool_run cfg st0 ms s = Some t" "cfg_ok cfg" "sys_ok cfg s"
  shows "sys_ok cfg t \<and> tokens cfg t \<le> tokens cfg s \<and> (\<not> run_loses cfg st0 ms s \<longrightarrow> tokens cfg t = tokens cfg s)
    \<and> (tokens cfg s = 0 \<longrightarrow> accepts t = accepts s)"
  using assms(1,3)
proof (induction ms arbitrary: s)
  case (Cons m ms)
  obtain i mv where m: "m = (i, mv)" by (cases m)
  obtain u where u: "pool_step cfg st0 i mv s = Some u" "pool_run cfg st0 ms u = Some t"
    using Cons.prems(1) m by (auto split: option.splits)
  have i: "i < length (procs s)" using u(1) by (simp add: pool_step_def split: if_splits)
  note S = pool_step_token [OF u(1) assms(2) Cons.prems(2), unfolded step_keeps_token_def]
  note IH = Cons.IH [OF u(2) conjunct1 [OF S]]
  show ?case using S IH u(1) m no_token_no_holder [OF _ i] by auto
qed simp

text \<open>What one token means.\<close>

lemma two_holders:
  assumes "i < length ps" "j < length ps" "i \<noteq> j" "holds_token cfg (ps ! i)" "holds_token cfg (ps ! j)"
  shows "2 \<le> held_tokens cfg ps"
proof -
  let ?absent = "(ps ! i)\<lparr>p_pc := Absent\<rparr>"
  have "held_tokens cfg (ps[i := ?absent]) + proc_claims (w_listen_ptr cfg) (p_pc (ps ! i)) = held_tokens cfg ps"
    using held_update [OF assms(1), of cfg ?absent] by simp
  moreover have "proc_claims (w_listen_ptr cfg) (p_pc (ps ! j)) \<le> held_tokens cfg (ps[i := ?absent])"
    using held_at [of j "ps[i := ?absent]" cfg] assms(2,3) by simp
  ultimately show ?thesis using assms(4,5) by (simp add: holds_token_def)
qed

lemma held_exists: "0 < held_tokens cfg ps \<Longrightarrow> \<exists>i < length ps. holds_token cfg (ps ! i)"
proof (induction ps)
  case (Cons p ps)
  show ?case
  proof (cases "holds_token cfg p")
    case True
    then show ?thesis by (intro exI [of _ 0]) simp
  next
    case False
    then have "0 < held_tokens cfg ps" using Cons.prems by (simp add: held_tokens_def holds_token_def)
    then obtain i where "i < length ps" "holds_token cfg (ps ! i)" using Cons.IH by blast
    then show ?thesis by (intro exI [of _ "Suc i"]) simp
  qed
qed (simp add: held_tokens_def)

lemma finite_armed: "finite (armed_sets cfg a)"
  by (simp add: armed_sets_def)

lemma at_most_one_token:
  assumes "sys_ok cfg s"
  shows "i < length (procs s) \<Longrightarrow> j < length (procs s) \<Longrightarrow> holds_token cfg (procs s ! i) \<Longrightarrow>
      holds_token cfg (procs s ! j) \<Longrightarrow> i = j"
    and "i < length (procs s) \<Longrightarrow> holds_token cfg (procs s ! i) \<Longrightarrow> armed_sets cfg (armed s) = {}"
    and "e \<in> armed_sets cfg (armed s) \<Longrightarrow> e' \<in> armed_sets cfg (armed s) \<Longrightarrow> e = e'"
proof -
  have t: "card (armed_sets cfg (armed s)) + held_tokens cfg (procs s) \<le> 1" using assms by (simp add: sys_ok_def tokens_def)
  show "i = j" if "i < length (procs s)" "j < length (procs s)" "holds_token cfg (procs s ! i)" "holds_token cfg (procs s ! j)"
  proof (rule ccontr)
    assume "i \<noteq> j"
    from two_holders [OF that(1,2) this that(3,4)] t show False by simp
  qed
  show "armed_sets cfg (armed s) = {}" if "i < length (procs s)" "holds_token cfg (procs s ! i)"
  proof -
    have "card (armed_sets cfg (armed s)) = 0"
      using held_at [OF that(1), of cfg] that(2) t by (simp add: holds_token_def)
    then show ?thesis using finite_armed [of cfg "armed s"] by simp
  qed
  show "e = e'" if "e \<in> armed_sets cfg (armed s)" "e' \<in> armed_sets cfg (armed s)"
  proof -
    have "card (armed_sets cfg (armed s)) \<le> Suc 0" using t by simp
    then show ?thesis using that card_le_Suc0_iff_eq [OF finite_armed] by blast
  qed
qed

lemma one_token:
  assumes "sys_ok cfg s" "tokens cfg s = 1"
  shows "(\<exists>e. armed_sets cfg (armed s) = {e}) \<and> (\<forall>i < length (procs s). \<not> holds_token cfg (procs s ! i))
    \<or> armed_sets cfg (armed s) = {} \<and> (\<exists>!i. i < length (procs s) \<and> holds_token cfg (procs s ! i))"
proof (cases "held_tokens cfg (procs s) = 0")
  case True
  then have "card (armed_sets cfg (armed s)) = 1" using assms(2) by (simp add: tokens_def)
  then show ?thesis using True held_at [of _ "procs s" cfg] by (auto simp: card_1_singleton_iff holds_token_def)
next
  case False
  then obtain i where i: "i < length (procs s)" "holds_token cfg (procs s ! i)" using held_exists by blast
  then show ?thesis using at_most_one_token [OF assms(1)] by blast
qed

subsection \<open>The sessions of every worker\<close>

definition proc_ok :: "iomp_cfg \<Rightarrow> iomp_proc \<Rightarrow> bool" where
  "proc_ok c p \<longleftrightarrow> p_pc p = Absent \<or> (\<exists>bs fs ls. iomp_inv (p_os p) (p_st p) bs fs ls {#} \<and>
     (\<forall>evs q. p_pc p = Busy evs q \<longrightarrow> events_ok c ls evs))"

lemma proc_okI:
  "iomp_inv (p_os p) (p_st p) bs fs ls {#} \<Longrightarrow> \<forall>evs q. p_pc p = Busy evs q \<longrightarrow> events_ok c ls evs \<Longrightarrow> proc_ok c p"
  unfolding proc_ok_def by blast

definition procs_ok :: "iomp_cfg \<Rightarrow> iomp_sys \<Rightarrow> bool" where
  "procs_ok cfg s \<longleftrightarrow> (\<forall>i < length (procs s). proc_ok (view cfg i) (procs s ! i))"

text \<open>
  What is relied on of the outside in a step: a forked worker's \<open>malloc\<close>, which gave the block \<open>b\<close>
  first, at the start, gives blocks apart from each other and from the memory the worker starts
  with, and \<open>epoll_wait\<close> reports open sessions.
\<close>

definition move_ok :: "iomp_cfg \<Rightarrow> addr \<Rightarrow> iomp \<Rightarrow> nat \<Rightarrow> pool_move \<Rightarrow> iomp_sys \<Rightarrow> bool" where
  "move_ok cfg b st0 i mv s \<longleftrightarrow>
     (case mv of
        Forks os fd \<Rightarrow> malloc_law os (mem st0) \<and> os_malloc os 0 = b
      | Wakes r \<Rightarrow> \<forall>bs fs ls. iomp_inv (p_os (procs s ! i)) (p_st (procs s ! i)) bs fs ls {#} \<longrightarrow>
          epoll_reports (view cfg i) ls r
      | _ \<Rightarrow> True)"

text \<open>The memory a worker starts with is sound for every such \<open>malloc\<close>.\<close>

definition start_sound :: "addr \<Rightarrow> iomp \<Rightarrow> bool" where
  "start_sound b st0 \<longleftrightarrow>
     (\<forall>os. malloc_law os (mem st0) \<and> os_malloc os 0 = b \<longrightarrow> (\<exists>bs fs ls. iomp_inv os st0 bs fs ls {#}))"

text \<open>The case in which the sweep of a worker closes no session that it is about to serve.\<close>

definition wake_spares :: "iomp_cfg \<Rightarrow> nat \<Rightarrow> pool_move \<Rightarrow> iomp_sys \<Rightarrow> bool" where
  "wake_spares cfg i mv s \<longleftrightarrow>
     (case mv of Wakes r \<Rightarrow> sweep_spares (view cfg i) (p_os (procs s ! i)) (p_st (procs s ! i)) r | _ \<Rightarrow> True)"

lemma wake_inv:
  assumes "iomp_inv os st bs fs ls {#}" "epoll_reports c ls r" "sweep_spares c os st r"
  shows "\<exists>pc st' bs' fs' ls'. iomp_wake c os r st = Some (pc, st') \<and> iomp_inv os st' bs' fs' ls' {#} \<and>
    (\<forall>evs q. pc = Busy evs q \<longrightarrow> events_ok c ls' evs)"
proof (cases "r_nfds r = -1")
  case True
  have "iomp_inv os (st\<lparr>pending := r_accepts r\<rparr>) bs fs ls {#}" by (rule iomp_inv_silent [OF assms(1)]) simp_all
  then show ?thesis using True by (auto simp: iomp_wake_def Let_def)
next
  case False
  obtain st2 bs2 fs2 ls2 where st2: "(if sint (w_timeout_seconds c) > 0
      then close_timeouts c os (os_time os (clk st)) (tick (st\<lparr>pending := r_accepts r\<rparr>))
      else Some (st\<lparr>pending := r_accepts r\<rparr>)) = Some st2"
    "iomp_inv os st2 bs2 fs2 ls2 {#}" "events_ok c ls2 (take (nat (r_nfds r)) (r_events r))"
    using iomp_sweep [OF assms False] by blast
  have "iomp_wake c os r st = Some (Busy (take (nat (r_nfds r)) (r_events r)) False, st2)"
    using st2(1) False by (simp add: iomp_wake_def Let_def split: if_splits)
  then show ?thesis using st2(2,3) by blast
qed

lemma handle_inv:
  assumes "iomp_inv os st bs fs ls {#}" "events_ok c ls evs"
  shows "\<exists>pc st' bs' fs' ls'. iomp_handle c os evs q st = Some (pc, st') \<and> iomp_inv os st' bs' fs' ls' {#} \<and>
    (\<forall>evs q. pc = Busy evs q \<longrightarrow> events_ok c ls' evs)"
proof (cases evs)
  case Nil
  then show ?thesis using assms(1) by auto
next
  case (Cons e es)
  obtain ev p where e: "e = (ev, p)" by (cases e)
  show ?thesis
  proof (cases "p = w_pipe_ptr c \<and> p \<noteq> w_listen_ptr c")
    case True
    then have "events_ok c ls es" using assms(2) Cons e events_ok_pipe by blast
    then show ?thesis using assms(1) Cons e True by auto
  next
    case False
    obtain fl st1 bs1 fs1 ls1 where st1:
      "(if p = w_listen_ptr c then listen_event c os ev st else session_event c os ev p st) = Some (fl, st1)"
      "iomp_inv os st1 bs1 fs1 ls1 {#}" "events_ok c ls1 es"
      using iomp_event [OF assms(1) assms(2) [unfolded Cons e] False] by blast
    then show ?thesis using Cons e False by (cases fl) auto
  qed
qed

lemma start_inv:
  assumes "iomp_inv os st bs fs ls {#}"
  shows "iomp_inv os (snd (worker_start c os st)) bs fs ls {#}"
  by (rule iomp_inv_silent [OF assms]) (simp_all add: worker_start_def Let_def)

lemma procs_ok_update:
  "procs_ok cfg s \<Longrightarrow> procs t = (procs s)[i := p] \<Longrightarrow> proc_ok (view cfg i) p \<Longrightarrow> procs_ok cfg t"
  unfolding procs_ok_def by (metis length_list_update nth_list_update_eq nth_list_update_neq)

text \<open>A worker that works through its events can always go on: it reads and writes inside its memory and ends.\<close>

theorem pool_step_handles:
  assumes "procs_ok cfg s" "i < length (procs s)" "p_pc (procs s ! i) = Busy evs q"
  shows "\<exists>t. pool_step cfg st0 i Handles s = Some t"
proof -
  have "proc_ok (view cfg i) (procs s ! i)" using assms(1,2) by (simp add: procs_ok_def)
  then obtain bs fs ls where "iomp_inv (p_os (procs s ! i)) (p_st (procs s ! i)) bs fs ls {#}" "events_ok (view cfg i) ls evs"
    using assms(3) by (auto simp: proc_ok_def)
  from handle_inv [OF this, of q] obtain pc st' where
    "iomp_handle (view cfg i) (p_os (procs s ! i)) evs q (p_st (procs s ! i)) = Some (pc, st')" by blast
  then show ?thesis using assms(2,3) by (simp add: pool_step_def Let_def)
qed

theorem pool_step_wakes:
  assumes "procs_ok cfg s" "i < length (procs s)" "p_pc (procs s ! i) = Sleeping" "move_ok cfg b st0 i (Wakes r) s"
    "wake_spares cfg i (Wakes r) s" "deliver (w_listen_ptr cfg) (batch r) (armed s (this_epoll_fd (view cfg i))) \<noteq> None"
  shows "\<exists>t. pool_step cfg st0 i (Wakes r) s = Some t"
proof -
  have "proc_ok (view cfg i) (procs s ! i)" using assms(1,2) by (simp add: procs_ok_def)
  then obtain bs fs ls where I: "iomp_inv (p_os (procs s ! i)) (p_st (procs s ! i)) bs fs ls {#}"
    using assms(3) by (auto simp: proc_ok_def)
  then have "epoll_reports (view cfg i) ls r" "sweep_spares (view cfg i) (p_os (procs s ! i)) (p_st (procs s ! i)) r"
    using assms(4,5) by (auto simp: move_ok_def wake_spares_def)
  from wake_inv [OF I this] obtain pc st' where
    "iomp_wake (view cfg i) (p_os (procs s ! i)) r (p_st (procs s ! i)) = Some (pc, st')" by blast
  then show ?thesis using assms(2,3,6) by (auto simp: pool_step_def Let_def)
qed

theorem pool_step_procs:
  assumes "pool_step cfg st0 i mv s = Some t" "procs_ok cfg s" "start_sound b st0" "move_ok cfg b st0 i mv s" "wake_spares cfg i mv s"
  shows "procs_ok cfg t"
proof -
  let ?p = "procs s ! i"
  have i: "i < length (procs s)" using assms(1) by (simp add: pool_step_def split: if_splits)
  have ok: "proc_ok (view cfg i) ?p" using assms(2) i by (simp add: procs_ok_def)
  note upd = procs_ok_update [OF assms(2), of t i]
  show ?thesis
  proof (cases mv)
    case (Forks os fd)
    obtain bs fs ls where "iomp_inv os st0 bs fs ls {#}" using assms(3,4) Forks by (auto simp: move_ok_def start_sound_def)
    note I = start_inv [OF this, of "(view cfg i)\<lparr>w_alive_pipe := fd\<rparr>"]
    obtain pc where "procs t = (procs s)[i := \<lparr>p_pc = pc, p_os = os, p_st = snd (worker_start ((view cfg i)\<lparr>w_alive_pipe := fd\<rparr>) os st0)\<rparr>]"
      "pc = Absent \<or> pc = Sleeping"
      using assms(1) i Forks by (auto simp: pool_step_def Let_def split_beta split: if_splits)
    then show ?thesis using I by (intro upd) (auto simp: proc_ok_def)
  next
    case (Wakes r)
    then obtain pc st' where t: "p_pc ?p = Sleeping" "iomp_wake (view cfg i) (p_os ?p) r (p_st ?p) = Some (pc, st')"
      "procs t = (procs s)[i := ?p\<lparr>p_pc := pc, p_st := st'\<rparr>]"
      using assms(1) i by (auto simp: pool_step_def Let_def split: if_splits iomp_pc.splits option.splits)
    obtain bs fs ls where I: "iomp_inv (p_os ?p) (p_st ?p) bs fs ls {#}" using ok t(1) by (auto simp: proc_ok_def)
    then have "epoll_reports (view cfg i) ls r" "sweep_spares (view cfg i) (p_os ?p) (p_st ?p) r"
      using assms(4,5) Wakes by (auto simp: move_ok_def wake_spares_def)
    from wake_inv [OF I this] t(2) obtain bs fs ls where "iomp_inv (p_os ?p) st' bs fs ls {#}"
      "\<forall>evs q. pc = Busy evs q \<longrightarrow> events_ok (view cfg i) ls evs" by auto
    then have "proc_ok (view cfg i) (?p\<lparr>p_pc := pc, p_st := st'\<rparr>)" by (intro proc_okI [of _ bs fs ls]) simp_all
    with t(3) show ?thesis by (rule upd)
  next
    case Handles
    then obtain evs q pc st' where t: "p_pc ?p = Busy evs q" "iomp_handle (view cfg i) (p_os ?p) evs q (p_st ?p) = Some (pc, st')"
      "procs t = (procs s)[i := ?p\<lparr>p_pc := pc, p_st := st'\<rparr>]"
      using assms(1) i by (auto simp: pool_step_def Let_def split: if_splits iomp_pc.splits)
    obtain bs fs ls where "iomp_inv (p_os ?p) (p_st ?p) bs fs ls {#}" "events_ok (view cfg i) ls evs"
      using ok t(1) by (auto simp: proc_ok_def)
    from handle_inv [OF this, of q] t(2) obtain bs fs ls where "iomp_inv (p_os ?p) st' bs fs ls {#}"
      "\<forall>evs q. pc = Busy evs q \<longrightarrow> events_ok (view cfg i) ls evs" by auto
    then have "proc_ok (view cfg i) (?p\<lparr>p_pc := pc, p_st := st'\<rparr>)" by (intro proc_okI [of _ bs fs ls]) simp_all
    with t(3) show ?thesis by (rule upd)
  next
    case Ends
    then have "procs t = (procs s)[i := ?p\<lparr>p_pc := Absent\<rparr>]"
      using assms(1) i by (auto simp: pool_step_def Let_def split: if_splits)
    then show ?thesis by (intro upd) (auto simp: proc_ok_def)
  qed
qed

inductive pool_reachable :: "iomp_cfg \<Rightarrow> addr \<Rightarrow> iomp \<Rightarrow> iomp_sys \<Rightarrow> iomp_sys \<Rightarrow> bool" for cfg b st0 s0 where
  pool_begins: "pool_reachable cfg b st0 s0 s0"
| pool_moves: "pool_reachable cfg b st0 s0 s \<Longrightarrow> move_ok cfg b st0 i mv s \<Longrightarrow> wake_spares cfg i mv s \<Longrightarrow>
    pool_step cfg st0 i mv s = Some t \<Longrightarrow> pool_reachable cfg b st0 s0 t"

lemma pool_reachable_procs:
  "pool_reachable cfg b st0 s0 s \<Longrightarrow> start_sound b st0 \<Longrightarrow> procs_ok cfg s0 \<Longrightarrow> procs_ok cfg s"
  by (induction rule: pool_reachable.induct) (auto intro: pool_step_procs)

end
