(* ===== verification/IompStart.thy ===== *)
theory IompStart
  imports IompPoolInv
begin

text \<open>
  What \<open>InitDaemonEnv_IOMP\<close> leaves when it succeeds: the fields of the environment, the session
  pool, and how the listening socket is armed.
\<close>

subsection \<open>The calls that arm a socket\<close>

fun is_add :: "sys_call \<Rightarrow> bool" where
  "is_add (CEpollAdd _ _ _ _) = True"
| "is_add _ = False"

definition adds :: "env \<Rightarrow> sys_call list" where
  "adds e = filter is_add (calls e)"

lemma adds_simps [simp]:
  "adds (call c e) = adds e @ (if is_add c then [c] else [])"
  "adds (e\<lparr>so_handle := a\<rparr>) = adds e" "adds (e\<lparr>pfunc_tcpmain := a\<rparr>) = adds e" "adds (e\<lparr>param_tcpmain := a\<rparr>) = adds e"
  "adds (e\<lparr>listen_sock := b\<rparr>) = adds e" "adds (e\<lparr>listen_addr := l\<rparr>) = adds e" "adds (e\<lparr>pids := is\<rparr>) = adds e"
  "adds (e\<lparr>alive_pipes := ps\<rparr>) = adds e" "adds (e\<lparr>epoll_array := is\<rparr>) = adds e" "adds (e\<lparr>env_mem := m\<rparr>) = adds e"
  by (simp_all add: adds_def call_def)

lemma call_param [simp]: "param_tcpmain (call c e) = param_tcpmain e"
  by (simp add: call_def)

lemma arm1_other: "\<not> is_add c \<Longrightarrow> arm1 fd c a = a"
  by (cases c) auto

lemma armed_by_adds: "armed_by (listen_sock e) (calls e) = fold (arm1 (listen_sock e)) (adds e) (\<lambda>_. 0)"
proof -
  have "fold (arm1 fd) cs a = fold (arm1 fd) (filter is_add cs) a" for fd cs a
    by (induction cs arbitrary: a) (simp_all add: arm1_other)
  then show ?thesis by (simp add: armed_by_def adds_def)
qed

lemma fold_arm_outside:
  "x \<notin> f ` set js \<Longrightarrow> fold (arm1 fd) (map (\<lambda>j. CEpollAdd (f j) fd (ev j) (r j)) js) a x = a x"
  by (induction js arbitrary: a) auto

lemma fold_arm_adds:
  "j \<in> set js \<Longrightarrow> inj_on f (set js) \<Longrightarrow> distinct js \<Longrightarrow> \<forall>j \<in> set js. r j \<noteq> -1 \<Longrightarrow>
   fold (arm1 fd) (map (\<lambda>j. CEpollAdd (f j) fd (ev j) (r j)) js) a (f j) = ev j"
proof (induction js arbitrary: a)
  case (Cons k js)
  show ?case
  proof (cases "j = k")
    case True
    then have "f j \<notin> f ` set js" using Cons.prems(2,3) by (auto simp: inj_on_def)
    then show ?thesis using True Cons.prems(4) by (simp add: fold_arm_outside)
  next
    case False
    then show ?thesis using Cons by (simp add: inj_on_def)
  qed
qed simp

subsection \<open>Each stage of the start, when it succeeds\<close>

definition kept_by_init :: "env \<Rightarrow> env \<Rightarrow> bool" where
  "kept_by_init e e' \<longleftrightarrow> pids e' = pids e \<and> alive_pipes e' = alive_pipes e \<and> epoll_array e' = epoll_array e
     \<and> env_mem e' = env_mem e \<and> adds e' = adds e"

lemma InitDaemonEnv_success:
  assumes "InitDaemonEnv p os e = (0, e')"
  shows "kept_by_init e e' \<and> listen_sock e' = d_socket os \<and> d_socket os \<noteq> -1
    \<and> listen_addr e' = (ip p, port p mod 65536) \<and> param_tcpmain e' = p_param_tcpmain p
    \<and> pfunc_tcpmain e' = (if so_pathfilename p = [] then p_pfunc_tcpmain p else d_dlsym os)
    \<and> (so_pathfilename p = [] \<or> d_dlsym os \<noteq> NULL \<and> so_handle e' = d_dlopen os \<and> d_dlopen os \<noteq> NULL)"
  using assms
  by (auto simp: InitDaemonEnv_def load_tcpmain_def switch_path_def switch_user_def kept_by_init_def Let_def
      split: if_splits prod.splits option.splits)

definition same_but_sets :: "env \<Rightarrow> env \<Rightarrow> bool" where
  "same_but_sets e e' \<longleftrightarrow> pids e' = pids e \<and> alive_pipes e' = alive_pipes e \<and> env_mem e' = env_mem e
     \<and> listen_sock e' = listen_sock e \<and> listen_addr e' = listen_addr e"

lemma create_epolls_success:
  assumes "create_epolls os k i e = (0, e')" "epoll_array e = Some fds" "length fds = i + k"
  shows "epoll_array e' = Some (take i fds @ map (d_epoll_create os) [i..<i + k])
    \<and> (\<forall>j \<in> {i..<i + k}. d_epoll_create os j \<noteq> -1) \<and> same_but_sets e e' \<and> adds e' = adds e"
  using assms
proof (induction k arbitrary: i e fds)
  case (Suc k)
  define e1 where "e1 = call (CEpollCreate (d_epoll_create os i))
    (e\<lparr>epoll_array := map_option (\<lambda>a. a[i := d_epoll_create os i]) (epoll_array e)\<rparr>)"
  have f: "epoll_array e1 = Some (fds[i := d_epoll_create os i])" "adds e1 = adds e"
    using Suc.prems(2) by (simp_all add: e1_def)
  have s: "d_epoll_create os i \<noteq> -1" "create_epolls os k (Suc i) e1 = (0, e')"
    using Suc.prems(1) unfolding create_epolls.simps Let_def e1_def by (auto split: if_splits)
  have e: "same_but_sets e x \<longleftrightarrow> same_but_sets e1 x" for x by (simp add: e1_def same_but_sets_def)
  have t: "take (Suc i) (fds[i := d_epoll_create os i]) = take i fds @ [d_epoll_create os i]"
    using Suc.prems(3) by (simp add: take_Suc_conv_app_nth)
  have "length (fds[i := d_epoll_create os i]) = Suc i + k" using Suc.prems(3) by simp
  note IH = Suc.IH [OF s(2) f(1) this]
  have "same_but_sets e e'" using IH e by blast
  moreover have "d_epoll_create os j \<noteq> -1" if "j \<in> {i..<i + Suc k}" for j
    using IH s(1) that by (cases "j = i") (simp_all del: upt_Suc)
  ultimately show ?case
    using IH f(2) t unfolding upt_step by simp
qed (simp add: same_but_sets_def)

lemma add_listen_all_success:
  assumes "add_listen_all os k i e = (0, e')"
  shows "(\<forall>j \<in> set [i..<i + k]. d_epoll_ctl os j \<noteq> -1) \<and>
    e' = e\<lparr>calls := calls e @ map (\<lambda>j. CEpollAdd (epoll_fd e j) (listen_sock e)
      (if j = 0 then EPOLLIN OR EPOLLERR OR EPOLLONESHOT else EPOLLERR) (d_epoll_ctl os j)) [i..<i + k]\<rparr>"
  using assms
proof (induction k arbitrary: i e)
  case (Suc k)
  define ev where "ev = (if i = 0 then EPOLLIN OR EPOLLERR OR EPOLLONESHOT else EPOLLERR)"
  define e1 where "e1 = call (CEpollAdd (epoll_fd e i) (listen_sock e) ev (d_epoll_ctl os i)) e"
  have s: "d_epoll_ctl os i \<noteq> -1" "add_listen_all os k (Suc i) e1 = (0, e')"
    using Suc.prems by (simp_all add: e1_def ev_def Let_def split: if_splits)
  note IH = Suc.IH [OF s(2)]
  have f: "epoll_fd e1 = epoll_fd e" "listen_sock e1 = listen_sock e" by (auto simp: e1_def epoll_fd_def)
  have c: "e1\<lparr>calls := X\<rparr> = e\<lparr>calls := X\<rparr>" "calls e1 = calls e @ [CEpollAdd (epoll_fd e i) (listen_sock e) ev (d_epoll_ctl os i)]" for X
    by (simp_all add: e1_def call_def)
  have "e' = e1\<lparr>calls := calls e1 @ map (\<lambda>j. CEpollAdd (epoll_fd e j) (listen_sock e)
      (if j = 0 then EPOLLIN OR EPOLLERR OR EPOLLONESHOT else EPOLLERR) (d_epoll_ctl os j)) [Suc i..<Suc i + k]\<rparr>"
    using IH unfolding f by blast
  then have "e' = e\<lparr>calls := calls e @ map (\<lambda>j. CEpollAdd (epoll_fd e j) (listen_sock e)
      (if j = 0 then EPOLLIN OR EPOLLERR OR EPOLLONESHOT else EPOLLERR) (d_epoll_ctl os j)) [i..<i + Suc k]\<rparr>"
    unfolding c upt_step by (simp add: ev_def)
  moreover have "\<forall>j \<in> set [i..<i + Suc k]. d_epoll_ctl os j \<noteq> -1"
    using IH s(1) unfolding upt_step by simp
  ultimately show ?case by blast
qed simp

lemma prealloc_success:
  assumes "prealloc_sessions os e = (0, e')" "pool (env_mem e) [] [] []"
    "d_block os = NULL \<or> block_ok (env_mem e) (d_block os)"
  shows "d_block os \<noteq> NULL \<and> pool (env_mem e') [d_block os] (slots (d_block os)) [] \<and> adds e' = adds e
    \<and> listen_sock e' = listen_sock e \<and> listen_addr e' = listen_addr e \<and> pids e' = pids e
    \<and> alive_pipes e' = alive_pipes e \<and> epoll_array e' = epoll_array e"
proof (cases "d_block os = NULL")
  case True
  then show ?thesis using assms(1) by (simp add: prealloc_sessions_def IncreaseTcpdaemonAcceptedSessions_def)
next
  case False
  then have "blocks_ok (env_mem e) ([] @ [d_block os])"
    using assms(2,3) by (auto simp: blocks_ok_def pool_def)
  then obtain m' where m': "IncreaseTcpdaemonAcceptedSessions (d_block os) (env_mem e) = (0, m')"
      "pool m' [d_block os] (slots (d_block os)) []"
    using pool_Increase [OF assms(2)] by auto
  then have "e' = call (CMallocBlock (d_block os)) (e\<lparr>env_mem := m'\<rparr>)"
    using assms(1) by (auto simp: prealloc_sessions_def)
  then show ?thesis using m'(2) False by (simp add: call_def adds_def)
qed

subsection \<open>The environment after the start\<close>

definition iomp_env_ok :: "entry_para \<Rightarrow> start_os \<Rightarrow> env \<Rightarrow> bool" where
  "iomp_env_ok p os e \<longleftrightarrow>
     listen_sock e \<noteq> -1 \<and> listen_addr e = (ip p, port p mod 65536)
     \<and> pids e = Some (replicate (nat (process_count p)) 0)
     \<and> alive_pipes e = Some (replicate (nat (process_count p)) (0, 0))
     \<and> epoll_array e = Some (map (d_epoll_create os) [0..<nat (process_count p)])
     \<and> (\<forall>i < nat (process_count p). epoll_fd e i \<noteq> -1)
     \<and> d_block os \<noteq> NULL \<and> pool (env_mem e) [d_block os] (slots (d_block os)) []
     \<and> unused_list (env_mem e) \<noteq> array_list (env_mem e)"

lemma start_succeeds:
  assumes "InitDaemonEnv_IOMP p os e = (0, e')" "fresh_pool os (env_mem e)"
  shows "iomp_env_ok p os e' \<and> (process_count p > 1 \<longrightarrow>
    adds e' = adds e @ map (\<lambda>j. CEpollAdd (d_epoll_create os j) (listen_sock e')
      (if j = 0 then LISTEN_ARMED else EPOLLERR) (d_epoll_ctl os j)) [0..<nat (process_count p)]
    \<and> (\<forall>j < nat (process_count p). d_epoll_ctl os j \<noteq> -1))"
proof -
  let ?n = "nat (process_count p)"
  define e0 where "e0 = e\<lparr>env_mem := init_lists (env_mem e)\<rparr>"
  have pl: "pool (init_lists (env_mem e)) [] [] []" using assms(2) by (intro pool_init) (simp_all add: fresh_pool_def)
  have blk: "d_block os = NULL \<or> block_ok (init_lists (env_mem e)) (d_block os)"
    using assms(2) by (auto simp: fresh_pool_def block_ok_def init_lists_def Let_def)
  obtain e1 where s1: "InitDaemonEnv p os e0 = (0, e1)"
    using assms(1) by (auto simp: InitDaemonEnv_IOMP_def e0_def Let_def split: prod.splits if_splits)
  note I = InitDaemonEnv_success [OF s1]
  define e2 where "e2 = (let e = call (CNonblock (listen_sock e1)) e1
     in if tcp_nodelay p = 1 then call (CTcpNodelay (listen_sock e)) e else e)"
  obtain n3 e3 where s3: "malloc_pids p os e2 = (n3, e3)" by fastforce
  obtain n4 e4 where s4: "malloc_pipes p os e3 = (n4, e4)" by fastforce
  obtain n5 e5 where s5: "malloc_epolls p os e4 = (n5, e5)" by fastforce
  obtain n6 e6 where s6: "create_epolls os ?n 0 e5 = (n6, e6)" by fastforce
  obtain n7 e7 where s7: "add_listen p os e6 = (n7, e7)" by fastforce
  have "(0, e') = (if n3 \<noteq> 0 then (n3, e3) else if n4 \<noteq> 0 then (n4, e4)
      else if n5 \<noteq> 0 then (n5, e5) else if n6 \<noteq> 0 then (n6, e6) else if n7 \<noteq> 0 then (n7, e7)
      else prealloc_sessions os e7)"
    unfolding assms(1) [symmetric] InitDaemonEnv_IOMP_def
    by (simp only: Let_def e0_def [symmetric] s1 e2_def [unfolded Let_def, symmetric] s3 s4 s5 s6 s7 prod.case simp_thms if_False)
  then have z: "n3 = 0" "n4 = 0" "n5 = 0" "n6 = 0" "n7 = 0" "prealloc_sessions os e7 = (0, e')"
    by (auto split: if_splits)
  have e5: "pids e5 = Some (replicate ?n 0)" "alive_pipes e5 = Some (replicate ?n (0, 0))" "epoll_array e5 = Some (replicate ?n 0)"
    "env_mem e5 = init_lists (env_mem e)" "adds e5 = adds e" "listen_sock e5 = listen_sock e1" "listen_addr e5 = listen_addr e1"
    using s3 s4 s5 z(1-3) I
    by (auto simp: malloc_pids_def malloc_pipes_def malloc_epolls_def e2_def e0_def kept_by_init_def Let_def split: if_splits)
  have c6: "epoll_array e6 = Some (map (d_epoll_create os) [0..<?n]) \<and> (\<forall>j \<in> {0..<?n}. d_epoll_create os j \<noteq> -1)
    \<and> same_but_sets e5 e6 \<and> adds e6 = adds e5"
    using create_epolls_success [OF s6 [unfolded z(4)] e5(3)] by simp
  then have f6: "same_but_sets e5 e6" "epoll_array e6 = Some (map (d_epoll_create os) [0..<?n])" "adds e6 = adds e"
    "\<forall>j < ?n. d_epoll_create os j \<noteq> -1" using e5(5) by auto
  have all: "(\<forall>j < ?n. d_epoll_ctl os j \<noteq> -1) \<and> e7 = e6\<lparr>calls := calls e6 @ map (\<lambda>j. CEpollAdd (epoll_fd e6 j) (listen_sock e6)
      (if j = 0 then EPOLLIN OR EPOLLERR OR EPOLLONESHOT else EPOLLERR) (d_epoll_ctl os j)) [0..<?n]\<rparr>" if "process_count p > 1"
    using add_listen_all_success [of os ?n 0 e6 e7] s7 z(5) that by (simp add: add_listen_def)
  have a7: "same_but_sets e6 e7" "epoll_array e7 = epoll_array e6"
  proof -
    have "same_but_sets e6 e7 \<and> epoll_array e7 = epoll_array e6"
    proof (cases "process_count p > 1")
      case True
      then obtain X where "e7 = e6\<lparr>calls := X\<rparr>" using all by blast
      then show ?thesis by (simp add: same_but_sets_def)
    next
      case False
      then show ?thesis using s7 by (auto simp: add_listen_def Let_def same_but_sets_def split: if_splits)
    qed
    then show "same_but_sets e6 e7" "epoll_array e7 = epoll_array e6" by blast+
  qed
  have "pool (env_mem e7) [] [] []" "d_block os = NULL \<or> block_ok (env_mem e7) (d_block os)"
    using a7(1) f6(1) e5(4) pl blk by (simp_all add: same_but_sets_def)
  note pre = prealloc_success [OF z(6) this]
  have "adds e7 = adds e6 @ map (\<lambda>j. CEpollAdd (epoll_fd e6 j) (listen_sock e6)
      (if j = 0 then LISTEN_ARMED else EPOLLERR) (d_epoll_ctl os j)) [0..<?n]" if "process_count p > 1"
    using all [OF that] by (simp add: adds_def filter_map comp_def)
  moreover have "epoll_fd e6 j = d_epoll_create os j" if "j < ?n" for j using f6(2) that by (simp add: epoll_fd_def)
  ultimately have "adds e' = adds e @ map (\<lambda>j. CEpollAdd (d_epoll_create os j) (listen_sock e')
      (if j = 0 then LISTEN_ARMED else EPOLLERR) (d_epoll_ctl os j)) [0..<?n]" if "process_count p > 1"
    using that pre f6(3) a7(1) by (simp add: same_but_sets_def)
  moreover have "iomp_env_ok p os e'"
    using pre a7 f6 e5 I by (simp add: iomp_env_ok_def same_but_sets_def epoll_fd_def pool_def blocks_ok_def)
  ultimately show ?thesis using all by blast
qed

subsection \<open>The pool at its start\<close>

lemma start_armed:
  assumes "InitDaemonEnv_IOMP p os e = (0, e')" "fresh_env e" "fresh_pool os (env_mem e)"
    "process_count p > 1" "inj_on (d_epoll_create os) {..<nat (process_count p)}" "j < nat (process_count p)"
  shows "armed_by (listen_sock e') (calls e') (d_epoll_create os j) = (if j = 0 then LISTEN_ARMED else EPOLLERR)"
proof -
  note S = start_succeeds [OF assms(1,3)]
  have "adds e = []" using assms(2) by (simp add: adds_def fresh_env_def)
  then have a: "adds e' = map (\<lambda>j. CEpollAdd (d_epoll_create os j) (listen_sock e')
      (if j = 0 then LISTEN_ARMED else EPOLLERR) (d_epoll_ctl os j)) [0..<nat (process_count p)]"
    using S assms(4) by simp
  have "\<forall>j \<in> set [0..<nat (process_count p)]. d_epoll_ctl os j \<noteq> -1" using S assms(4) by simp
  with assms(5,6) show ?thesis
    unfolding armed_by_adds a by (intro fold_arm_adds) (simp_all add: lessThan_atLeast0)
qed

theorem start_has_token:
  assumes "InitDaemonEnv_IOMP p os e = (0, e')" "fresh_env e" "fresh_pool os (env_mem e)"
    "process_count p > 1" "inj_on (d_epoll_create os) {..<nat (process_count p)}"
    and cfg_def: "cfg = worker_cfg p e' lp pp ap"
  shows "cfg_ok cfg \<and> sys_ok cfg (pool_start e' st0) \<and> tokens cfg (pool_start e' st0) = 1
    \<and> armed_sets cfg (armed (pool_start e' st0)) = {d_epoll_create os 0}"
proof -
  let ?n = "nat (process_count p)"
  have ok: "iomp_env_ok p os e'" using start_succeeds [OF assms(1,3)] by blast
  then have ea: "the (epoll_array e') = map (d_epoll_create os) [0..<?n]" by (simp add: iomp_env_ok_def)
  have c: "cfg_ok cfg"
    using assms(4,5) by (simp add: cfg_ok_def cfg_def worker_cfg_def ea distinct_map lessThan_atLeast0)
  note ar = start_armed [OF assms(1-5)]
  have sets: "w_epoll_array cfg = map (d_epoll_create os) [0..<?n]" by (simp add: cfg_def worker_cfg_def ea)
  have a0: "armed (pool_start e' st0) = armed_by (listen_sock e') (calls e')" by (simp add: pool_start_def)
  have "armings_ok cfg (armed (pool_start e' st0))" using ar by (auto simp: armings_ok_def sets a0)
  moreover have one: "armed_sets cfg (armed (pool_start e' st0)) = {d_epoll_create os 0}"
  proof -
    have "has (armed_by (listen_sock e') (calls e') (d_epoll_create os j)) EPOLLIN \<longleftrightarrow> j = 0" if "j < ?n" for j
      using ar [OF that] has_LISTEN_ARMED by simp
    then show ?thesis using assms(4) by (auto simp: armed_sets_def sets a0)
  qed
  moreover have "held_tokens cfg (procs (pool_start e' st0)) = 0" by (simp add: held_tokens_def pool_start_def)
  ultimately show ?thesis using c by (simp add: sys_ok_def tokens_def pool_start_def cfg_def worker_cfg_def)
qed

text \<open>What a forked worker starts with.\<close>

lemma worker_mem_inv:
  assumes "iomp_env_ok p os e" "malloc_law wos (env_mem e)" "os_malloc wos 0 = d_block os"
  shows "iomp_inv wos (worker_mem e) [d_block os] (slots (d_block os)) [] {#}"
  using assms by (auto simp: iomp_inv_def worker_mem_def socks_ok_def live_socks_def blocks_from_def iomp_env_ok_def)

lemma started_sound: "iomp_env_ok p os e \<Longrightarrow> start_sound (d_block os) (worker_mem e)"
  using worker_mem_inv [of p os e] unfolding start_sound_def by (metis iomp.select_convs(1) worker_mem_def)

lemma start_procs_ok: "procs_ok cfg (pool_start e st0)"
  by (simp add: procs_ok_def proc_ok_def pool_start_def)

end
