(* ===== verification/Props_Pool.thy ===== *)
theory Props_Pool
  imports IompStart Props_Daemon
begin

text \<open>
  The properties of the pool of IO-multiplexing workers, from the start of the daemon on, with
  their witnesses on a pool of two workers.
\<close>

subsection \<open>A pool of two\<close>

text \<open>The start succeeds, on memory and an environment not used before, and each epoll set has a
  descriptor of its own.\<close>

definition started :: "entry_para \<Rightarrow> start_os \<Rightarrow> env \<Rightarrow> env \<Rightarrow> bool" where
  "started p os e e' \<longleftrightarrow> InitDaemonEnv_IOMP p os e = (0, e') \<and> fresh_env e \<and> fresh_pool os (env_mem e)
     \<and> inj_on (d_epoll_create os) {..<nat (process_count p)}"

definition pool_para :: entry_para where
  "pool_para = demo_para\<lparr>timeout_seconds := 0\<rparr>"

definition pool_os :: start_os where
  "pool_os = (demo_os 21)\<lparr>d_block := 0x10000\<rparr>"

lemma demo_started: "\<exists>e'. started pool_para pool_os demo_env e'"
proof -
  have f: "fresh_env demo_env" "fresh_pool pool_os (env_mem demo_env)"
    using demo_fresh(1) by (simp_all add: fresh_pool_def pool_os_def demo_daemon block_ok_def sizeof_array_def in_block_def)
  have "pool (init_lists demo_tdmem) [] [] []" by (rule pool_init) (simp_all add: demo_tdmem_def)
  moreover have "blocks_ok (init_lists demo_tdmem) ([] @ [0x10000])"
    by (simp add: blocks_ok_def block_ok_def init_lists_def Let_def demo_tdmem_def sizeof_array_def in_block_def)
  ultimately obtain m where m: "IncreaseTcpdaemonAcceptedSessions 0x10000 (init_lists demo_tdmem) = (0, m)"
    using pool_Increase by fastforce
  have "\<exists>e'. InitDaemonEnv_IOMP pool_para pool_os demo_env = (0, e')"
    using m by (simp add: InitDaemonEnv_IOMP_def InitDaemonEnv_def load_tcpmain_def switch_path_def switch_user_def
        malloc_pids_def malloc_pipes_def malloc_epolls_def add_listen_def prealloc_sessions_def epoll_fd_def
        numeral_2_eq_2 pool_para_def pool_os_def demo_para_def demo_env_def demo_os_def Let_def)
  then show ?thesis
    using f by (auto simp: started_def pool_para_def pool_os_def demo_para_def demo_os_def inj_on_def)
qed

definition worker_os :: iomp_os where
  "worker_os = \<lparr>os_tcpmain = (\<lambda>_. (1, Some 0x9000)), os_epoll_ctl = (\<lambda>_. 0), os_time = (\<lambda>_. 100),
     os_malloc = (\<lambda>i. if i = 0 then 0x10000 else 0)\<rparr>"

text \<open>The listening socket is readable; \<open>accept\<close> answers \<open>as\<close>.\<close>

definition listen_round :: "accept_result list \<Rightarrow> round" where
  "listen_round as = \<lparr>r_nfds = 1, r_errno = 0, r_events = [(EPOLLIN, 0x3000)], r_accepts = as\<rparr>"

abbreviation demo_pool_cfg :: "env \<Rightarrow> iomp_cfg" where
  "demo_pool_cfg e \<equiv> worker_cfg pool_para e 0x3000 0x3008 0x3010"

abbreviation demo_pool_start :: "env \<Rightarrow> iomp_sys" where
  "demo_pool_start e \<equiv> pool_start e (worker_mem e)"

text \<open>Worker 0 is forked and told of the listening socket.\<close>

definition demo_moves :: "accept_result list \<Rightarrow> (nat \<times> pool_move) list" where
  "demo_moves as = [(0, Forks worker_os 4), (0, Wakes (listen_round as))]"

lemma demo_run:
  assumes "started pool_para pool_os demo_env e'"
  shows "\<exists>s. pool_run (demo_pool_cfg e') (worker_mem e') (demo_moves as) (demo_pool_start e') = Some s
    \<and> length (procs s) = 2 \<and> accepts s = {#}
    \<and> \<not> run_loses (demo_pool_cfg e') (worker_mem e') (demo_moves as) (demo_pool_start e')
    \<and> procs s ! 0 = \<lparr>p_pc = Busy [(EPOLLIN, 0x3000)] False, p_os = worker_os,
        p_st = (snd (worker_start ((view (demo_pool_cfg e') 0)\<lparr>w_alive_pipe := 4\<rparr>) worker_os (worker_mem e')))\<lparr>pending := as\<rparr>\<rparr>"
proof -
  have S: "InitDaemonEnv_IOMP pool_para pool_os demo_env = (0, e')" "fresh_pool pool_os (env_mem demo_env)"
    "fresh_env demo_env" "process_count pool_para > 1" "inj_on (d_epoll_create pool_os) {..<nat (process_count pool_para)}"
    using assms by (simp_all add: started_def pool_para_def demo_para_def)
  have ok: "iomp_env_ok pool_para pool_os e'" using start_succeeds [OF S(1,2)] by blast
  have n: "nat (process_count pool_para) = 2" by (simp add: pool_para_def demo_para_def)
  have ea: "epoll_array e' = Some [20, 21]"
    using ok by (simp add: iomp_env_ok_def n pool_os_def demo_os_def numeral_2_eq_2)
  have "armed_by (listen_sock e') (calls e') (d_epoll_create pool_os 0) = LISTEN_ARMED"
    using start_armed [OF S(1,3,2,4,5), of 0] n by simp
  then have a: "armed_by (listen_sock e') (calls e') 20 = LISTEN_ARMED" by (simp add: pool_os_def demo_os_def)
  have "deliver 0x3000 [(EPOLLIN, 0x3000)] LISTEN_ARMED = Some 0"
    by (simp add: deliver_def can_report_def has_LISTEN_ARMED, simp add: EPOLLIN_def EPOLLERR_def EPOLLONESHOT_def)
  moreover have "has EPOLLIN EPOLLIN" by (simp add: has_def EPOLLIN_def)
  ultimately show ?thesis using a ea
    by (simp add: demo_moves_def pool_step_def loses_token_def reports_error_def holds_token_def pool_start_def
        worker_cfg_def this_epoll_fd_def batch_def listen_round_def
        iomp_wake_def worker_start_def pool_para_def demo_para_def epoll_ctl_def worker_os_def Let_def split_beta)
qed

lemma pool_para_workers: "1 < process_count pool_para"
  by (simp add: pool_para_def demo_para_def)

lemma started_token:
  assumes "started p os e e'" "1 < process_count p" "cfg = worker_cfg p e' lp pp ap"
  shows "cfg_ok cfg" "sys_ok cfg (pool_start e' st0)" "tokens cfg (pool_start e' st0) = 1"
    "armed_sets cfg (armed (pool_start e' st0)) = {d_epoll_create os 0}"
  using start_has_token [of p os e e' cfg lp pp ap st0] assms by (simp_all add: started_def)

subsection \<open>The start\<close>

text \<open>C14: What the start of the IO-multiplexing daemon promises: whenever it returns 0, the environment
  is well-formed. The listening socket and every epoll set are descriptors, the arrays have one
  entry per worker, the session pool is one array of idle sessions in memory apart from its list
  heads, and among several workers the listening socket is armed for input in the first set
  alone, one-shot, and for errors in the others.\<close>

theorem iomp_start_wellformed:
  assumes "InitDaemonEnv_IOMP p os e = (0, e')" "fresh_env e" "fresh_pool os (env_mem e)"
  shows "listen_sock e' \<noteq> -1 \<and> listen_addr e' = (ip p, port p mod 65536)
    \<and> pids e' = Some (replicate (nat (process_count p)) 0)
    \<and> alive_pipes e' = Some (replicate (nat (process_count p)) (0, 0))
    \<and> epoll_array e' = Some (map (d_epoll_create os) [0..<nat (process_count p)])
    \<and> (\<forall>i < nat (process_count p). epoll_fd e' i \<noteq> -1)
    \<and> pool (env_mem e') [d_block os] (slots (d_block os)) []
    \<and> (process_count p > 1 \<and> inj_on (d_epoll_create os) {..<nat (process_count p)} \<longrightarrow>
        (\<forall>i < nat (process_count p). armed_by (listen_sock e') (calls e') (epoll_fd e' i) =
          (if i = 0 then EPOLLIN OR EPOLLERR OR EPOLLONESHOT else EPOLLERR)))"
  using start_succeeds [OF assms(1,3)] start_armed [OF assms] by (auto simp: iomp_env_ok_def epoll_fd_def)

lemma iomp_start_wellformed_witness:
  "\<exists>e'. InitDaemonEnv_IOMP pool_para pool_os demo_env = (0, e') \<and> epoll_array e' = Some [20, 21]
    \<and> alive_pipes e' = Some [(0, 0), (0, 0)] \<and> pool (env_mem e') [0x10000] (slots 0x10000) []"
proof -
  obtain e' where e': "started pool_para pool_os demo_env e'" using demo_started ..
  have "nat (process_count pool_para) = 2" by (simp add: pool_para_def demo_para_def)
  with iomp_start_wellformed [of pool_para pool_os demo_env e'] e' show ?thesis
    by (intro exI [of _ e']) (simp add: started_def pool_os_def demo_os_def numeral_2_eq_2)
qed

subsection \<open>The right to accept\<close>

text \<open>C10: The right to accept is held at most once in a pool of more than one worker. From a start of
  the daemon that gave each epoll set a descriptor of its own, whatever the workers do, in whatever order, with whatever the kernel delivers, and
  however often workers end and are replaced: at most one epoll set is armed for input of the
  listening socket, at most one worker has an unhandled input event of it, and not both at a time;
  and a step that accepts a connection is a step of the worker that has the event, so while none
  has it none accepts.\<close>

theorem accept_right_unique:
  assumes "started p os e e'" "1 < process_count p" "cfg = worker_cfg p e' lp pp ap"
    "pool_run cfg st0 ms (pool_start e' st0) = Some s"
  shows "(\<forall>x y. x \<in> armed_sets cfg (armed s) \<and> y \<in> armed_sets cfg (armed s) \<longrightarrow> x = y)
    \<and> (\<forall>i < length (procs s). holds_token cfg (procs s ! i) \<longrightarrow> armed_sets cfg (armed s) = {}
        \<and> (\<forall>j < length (procs s). holds_token cfg (procs s ! j) \<longrightarrow> i = j))
    \<and> (\<forall>j mv t. pool_step cfg st0 j mv s = Some t \<and> accepts t \<noteq> accepts s \<longrightarrow> holds_token cfg (procs s ! j))"
proof -
  note T = started_token [OF assms(1-3)]
  have ok: "sys_ok cfg s" using pool_run_token [OF assms(4) T(1,2)] by blast
  have "holds_token cfg (procs s ! j)" if "pool_step cfg st0 j mv s = Some t" "accepts t \<noteq> accepts s" for j mv t
    using pool_step_token [OF that(1) T(1) ok] that(2) by (auto simp: step_keeps_token_def)
  then show ?thesis using at_most_one_token [OF ok] by blast
qed

lemma accept_right_unique_witness:
  "\<exists>e' s. pool_run (demo_pool_cfg e') (worker_mem e') (demo_moves [Conn 9]) (demo_pool_start e') = Some s
    \<and> holds_token (demo_pool_cfg e') (procs s ! 0) \<and> armed_sets (demo_pool_cfg e') (armed s) = {}"
proof -
  obtain e' where e': "started pool_para pool_os demo_env e'" using demo_started ..
  obtain s where s: "pool_run (demo_pool_cfg e') (worker_mem e') (demo_moves [Conn 9]) (demo_pool_start e') = Some s"
    "length (procs s) = 2" "p_pc (procs s ! 0) = Busy [(EPOLLIN, 0x3000)] False"
    using demo_run [OF e', of "[Conn 9]"] by auto
  then have h: "holds_token (demo_pool_cfg e') (procs s ! 0)" by (simp add: holds_token_def worker_cfg_def has_def EPOLLIN_def)
  with accept_right_unique [OF e' pool_para_workers refl s(1)] s(2) have "armed_sets (demo_pool_cfg e') (armed s) = {}"
    by (metis zero_less_numeral)
  with h show ?thesis using s(1) by blast
qed

text \<open>C11: In a pool of more than one worker the right to accept is not lost while every worker that has it goes on: as long as no worker
  ends between the delivery of the event and the re-arming, and the kernel reports no error on
  the listening socket, there is at every moment either exactly one epoll set armed for input,
  so that the next connection is reported, or exactly one worker about to accept.\<close>

theorem accept_right_kept:
  assumes "started p os e e'" "1 < process_count p" "cfg = worker_cfg p e' lp pp ap"
    "pool_run cfg st0 ms (pool_start e' st0) = Some s"
    "\<not> run_loses cfg st0 ms (pool_start e' st0)"
  shows "(\<exists>x. armed_sets cfg (armed s) = {x}) \<and> (\<forall>i < length (procs s). \<not> holds_token cfg (procs s ! i))
    \<or> armed_sets cfg (armed s) = {} \<and> (\<exists>!i. i < length (procs s) \<and> holds_token cfg (procs s ! i))"
proof -
  note T = started_token [OF assms(1-3)]
  have "sys_ok cfg s" "tokens cfg s = 1" using pool_run_token [OF assms(4) T(1,2)] assms(5) T(3) by auto
  then show ?thesis by (rule one_token)
qed

lemma accept_right_kept_witness:
  "\<exists>e' s. pool_run (demo_pool_cfg e') (worker_mem e') (demo_moves []) (demo_pool_start e') = Some s
    \<and> (\<exists>!i. i < length (procs s) \<and> holds_token (demo_pool_cfg e') (procs s ! i))"
proof -
  obtain e' where e': "started pool_para pool_os demo_env e'" using demo_started ..
  obtain s where s: "pool_run (demo_pool_cfg e') (worker_mem e') (demo_moves []) (demo_pool_start e') = Some s"
    "length (procs s) = 2" "p_pc (procs s ! 0) = Busy [(EPOLLIN, 0x3000)] False"
    "\<not> run_loses (demo_pool_cfg e') (worker_mem e') (demo_moves []) (demo_pool_start e')"
    using demo_run [OF e', of "[]"] by auto
  then have "holds_token (demo_pool_cfg e') (procs s ! 0)" by (simp add: holds_token_def worker_cfg_def has_def EPOLLIN_def)
  then have "\<exists>!i. i < length (procs s) \<and> holds_token (demo_pool_cfg e') (procs s ! i)"
    using accept_right_kept [OF e' pool_para_workers refl s(1,4)] s(2) by (metis zero_less_numeral)
  with s(1) show ?thesis by blast
qed

text \<open>C12: What the code does in a pool of more than one worker when a worker ends while it has the event:
  the right to accept is gone for good (a single worker's set is armed without EPOLLONESHOT, and is
  not concerned). No worker, no matter how many are forked again, ever accepts a connection, and no set is
  ever armed for input. A worker ends so when \<open>accept\<close> fails with an error like EMFILE.\<close>

theorem accept_right_lost:
  assumes "started p os e e'" "1 < process_count p" "cfg = worker_cfg p e' lp pp ap"
    "pool_run cfg st0 ms (pool_start e' st0) = Some s"
    "holds_token cfg (procs s ! i)" "pool_step cfg st0 i mv s = Some t" "p_pc (procs t ! i) = Absent"
    "pool_run cfg st0 ms' t = Some u"
  shows "accepts u = accepts t \<and> armed_sets cfg (armed u) = {} \<and> (\<forall>j < length (procs u). \<not> holds_token cfg (procs u ! j))"
proof -
  note T = started_token [OF assms(1-3)]
  have s: "sys_ok cfg s" using pool_run_token [OF assms(4) T(1,2)] by blast
  have t: "sys_ok cfg t" "tokens cfg t = 0"
    using pool_step_token [OF assms(6) T(1) s] token_lost [OF assms(6) s assms(5,7)] by (simp_all add: step_keeps_token_def)
  note R = pool_run_token [OF assms(8) T(1) t(1)]
  have "tokens cfg u = 0" "accepts u = accepts t" using R t(2) by auto
  then show ?thesis using no_token_no_holder finite_armed [of cfg "armed u"] by (auto simp: tokens_def)
qed

definition EMFILE :: int where "EMFILE = 24"

lemma accept_right_lost_witness:
  "\<exists>e' s t u. pool_run (demo_pool_cfg e') (worker_mem e') (demo_moves [AcceptErr EMFILE]) (demo_pool_start e') = Some s
    \<and> pool_step (demo_pool_cfg e') (worker_mem e') 0 Handles s = Some t
    \<and> pool_run (demo_pool_cfg e') (worker_mem e') [(0, Forks worker_os 4)] t = Some u
    \<and> p_pc (procs u ! 0) = Sleeping \<and> armed_sets (demo_pool_cfg e') (armed u) = {}"
proof -
  obtain e' where e': "started pool_para pool_os demo_env e'" using demo_started ..
  let ?cfg = "demo_pool_cfg e'" and ?st0 = "worker_mem e'"
  obtain s where s: "pool_run ?cfg ?st0 (demo_moves [AcceptErr EMFILE]) (demo_pool_start e') = Some s"
    "length (procs s) = 2" "p_pc (procs s ! 0) = Busy [(EPOLLIN, 0x3000)] False"
    "pending (p_st (procs s ! 0)) = [AcceptErr EMFILE]"
    using demo_run [OF e', of "[AcceptErr EMFILE]"] by auto
  have in_: "has EPOLLIN EPOLLIN" by (simp add: has_def EPOLLIN_def)
  have h: "holds_token ?cfg (procs s ! 0)" using s(3) in_ by (simp add: holds_token_def worker_cfg_def)
  have "\<exists>t. pool_step ?cfg ?st0 0 Handles s = Some t \<and> p_pc (procs t ! 0) = Absent \<and> length (procs t) = 2"
    using s in_ by (simp add: pool_step_def worker_cfg_def listen_event_def EMFILE_def EAGAIN_def Let_def)
  then obtain t where t: "pool_step ?cfg ?st0 0 Handles s = Some t" "p_pc (procs t ! 0) = Absent" "length (procs t) = 2" by blast
  have "\<exists>u. pool_run ?cfg ?st0 [(0, Forks worker_os 4)] t = Some u \<and> p_pc (procs u ! 0) = Sleeping"
    using t by (simp add: pool_step_def worker_start_def epoll_ctl_def worker_os_def Let_def split_beta)
  then obtain u where u: "pool_run ?cfg ?st0 [(0, Forks worker_os 4)] t = Some u" "p_pc (procs u ! 0) = Sleeping" by blast
  from accept_right_lost [OF e' pool_para_workers refl s(1) h t(1,2) u(1)] show ?thesis using s(1) t(1) u by blast
qed

subsection \<open>Every worker of the pool\<close>

text \<open>C13: Every worker of the pool is sound, from the start of the daemon on, however the steps of the
  workers interleave and however often they are replaced, as long as \<open>malloc\<close> gives separate blocks in each process,
  different epoll sets have different descriptors,
  \<open>epoll_wait\<close> reports each open descriptor at most once, and no worker's timeout sweep closes a session
  whose event that worker has just been given and is about to serve (the code has no guard against
  that; what it does then is the subject of a property of its own): its session pool is well-formed, each socket it accepted
  is held by one open session or was closed once, and while it works through its events it can
  always go on, with no access outside its memory and no endless loop.\<close>

theorem pool_workers_sound:
  assumes "started p os e e'" "pool_reachable cfg (d_block os) (worker_mem e') (pool_start e' (worker_mem e')) s"
    "i < length (procs s)" "p_pc (procs s ! i) \<noteq> Absent"
  shows "(\<exists>bs fs ls. pool (mem (p_st (procs s ! i))) bs fs ls
      \<and> accepted_of (trace (p_st (procs s ! i))) = closed_of (trace (p_st (procs s ! i)))
        + mset (map (\<lambda>x. sock (sess (mem (p_st (procs s ! i))) x)) ls))
    \<and> (\<forall>evs q. p_pc (procs s ! i) = Busy evs q \<longrightarrow> (\<exists>t. pool_step cfg (worker_mem e') i Handles s = Some t))"
proof -
  have "start_sound (d_block os) (worker_mem e')"
    using assms(1) start_succeeds started_sound unfolding started_def by blast
  from pool_reachable_procs [OF assms(2) this start_procs_ok] have P: "procs_ok cfg s" .
  then have "proc_ok (view cfg i) (procs s ! i)" using assms(3) by (simp add: procs_ok_def)
  then show ?thesis
    using assms(4) pool_step_handles [OF P assms(3)]
    by (auto simp: proc_ok_def iomp_inv_def socks_ok_def live_socks_def)
qed

lemma pool_workers_sound_witness:
  "\<exists>e' s bs fs ls. p_pc (procs s ! 0) = Sleeping \<and> pool (mem (p_st (procs s ! 0))) bs fs ls
    \<and> pool_run (demo_pool_cfg e') (worker_mem e') [(0, Forks worker_os 4)] (demo_pool_start e') = Some s"
proof -
  obtain e' where e': "started pool_para pool_os demo_env e'" using demo_started ..
  have ok: "iomp_env_ok pool_para pool_os e'" using start_succeeds e' by (auto simp: started_def)
  then have "pool (env_mem e') [0x10000] (slots 0x10000) []" by (simp add: iomp_env_ok_def pool_os_def)
  then have "malloc_law worker_os (env_mem e')"
    by (auto simp: malloc_law_def worker_os_def pool_def blocks_ok_def)
  then have "move_ok (demo_pool_cfg e') (d_block pool_os) (worker_mem e') 0 (Forks worker_os 4) (demo_pool_start e')"
    by (simp add: move_ok_def worker_os_def pool_os_def worker_mem_def)
  note M = this
  have n: "length (the (epoll_array e')) = 2"
    using ok by (simp add: iomp_env_ok_def pool_para_def demo_para_def)
  have "\<exists>s. pool_step (demo_pool_cfg e') (worker_mem e') 0 (Forks worker_os 4) (demo_pool_start e') = Some s
      \<and> p_pc (procs s ! 0) = Sleeping \<and> length (procs s) = 2"
    by (simp add: pool_step_def worker_start_def epoll_ctl_def worker_os_def Let_def split_beta pool_start_def n)
  then obtain s where s: "pool_step (demo_pool_cfg e') (worker_mem e') 0 (Forks worker_os 4) (demo_pool_start e') = Some s"
    "p_pc (procs s ! 0) = Sleeping" "length (procs s) = 2" by blast
  have "wake_spares (demo_pool_cfg e') 0 (Forks worker_os 4) (demo_pool_start e')" by (simp add: wake_spares_def)
  from pool_moves [OF pool_begins M this s(1)]
  have "pool_reachable (demo_pool_cfg e') (d_block pool_os) (worker_mem e') (demo_pool_start e') s" .
  from pool_workers_sound [OF e' this, of 0] s(2,3)
  obtain bs fs ls where "pool (mem (p_st (procs s ! 0))) bs fs ls" by auto
  moreover have "pool_run (demo_pool_cfg e') (worker_mem e') [(0, Forks worker_os 4)] (demo_pool_start e') = Some s"
    using s(1) by simp
  ultimately show ?thesis using s(2) by blast
qed

end
