(* ===== verification/WinTlf.thy ===== *)
theory WinTlf
  imports DaemonInv "HOL-Library.Sublist"
begin

text \<open>
  The thread pool for Windows: \<open>InitDaemonEnv_WIN_TLF\<close>, \<open>CleanDaemonEnv_WIN_TLF\<close>, \<open>DuplicateServerEnv\<close> and
  \<open>tcpdaemon_WIN_TLF\<close> of \<open>tcpdaemon_lib.c\<close>. The answers of the Windows API are parameters; every call
  is an entry of \<open>wcalls\<close>. The part that the start shares with Linux is \<open>InitDaemonEnv\<close>, which for
  Windows switches no user.
\<close>

subsection \<open>The environment\<close>

datatype win_array = Thandles | Tids

text \<open>The answer of \<open>WaitForMultipleObjects\<close>: \<open>WAIT_FAILED\<close>, or the number of an object that is signalled.\<close>

datatype wait_result = WaitFailed | WaitObject nat

datatype win_call =
    WInitializeCriticalSection | WDeleteCriticalSection
  | WMalloc win_array bool | WFree win_array
  | WCopyEnv bool
  | WBeginThread nat addr
  | WWait "addr list" bool wait_result
  | WCloseHandle addr

record win_env =
  w_env :: env
  thandles :: "addr list option"
  tids :: "int list option"
  wcalls :: "win_call list"

definition wcall :: "win_call \<Rightarrow> win_env \<Rightarrow> win_env" where
  "wcall c e = e\<lparr>wcalls := wcalls e @ [c]\<rparr>"

definition set_index :: "nat \<Rightarrow> win_env \<Rightarrow> win_env" where
  "set_index i e = e\<lparr>w_env := (w_env e)\<lparr>index := i\<rparr>\<rparr>"

subsection \<open>Start and end\<close>

definition malloc_thandles :: "entry_para \<Rightarrow> (win_array \<Rightarrow> bool) \<Rightarrow> win_env \<Rightarrow> int \<times> win_env" where
  "malloc_thandles p ok e =
     (let e = wcall (WMalloc Thandles (ok Thandles)) e in
      if \<not> ok Thandles then (-1, e)
      else (0, e\<lparr>thandles := Some (replicate (nat (process_count p + 1)) NULL)\<rparr>))"

definition malloc_tids :: "entry_para \<Rightarrow> (win_array \<Rightarrow> bool) \<Rightarrow> win_env \<Rightarrow> int \<times> win_env" where
  "malloc_tids p ok e =
     (let e = wcall (WMalloc Tids (ok Tids)) e in
      if \<not> ok Tids then (-1, e)
      else (0, e\<lparr>tids := Some (replicate (nat (process_count p + 1)) 0)\<rparr>))"

definition InitDaemonEnv_WIN_TLF ::
  "entry_para \<Rightarrow> start_os \<Rightarrow> (win_array \<Rightarrow> bool) \<Rightarrow> win_env \<Rightarrow> int \<times> win_env" where
  "InitDaemonEnv_WIN_TLF p os ok e =
     (let (nret, env) = InitDaemonEnv p (os\<lparr>d_getpwnam := None\<rparr>) (w_env e);
          e = e\<lparr>w_env := env\<rparr>
      in if nret \<noteq> 0 then (nret, e)
      else let e = wcall WInitializeCriticalSection e;
               (nret, e) = malloc_thandles p ok e in
      if nret \<noteq> 0 then (nret, e)
      else malloc_tids p ok e)"

definition CleanDaemonEnv_WIN_TLF :: "win_env \<Rightarrow> win_env" where
  "CleanDaemonEnv_WIN_TLF e =
     (let e = wcall WDeleteCriticalSection e;
          e = (if thandles e \<noteq> None then wcall (WFree Thandles) e else e);
          e = (if tids e \<noteq> None then wcall (WFree Tids) e else e)
      in e\<lparr>w_env := CleanDaemonEnv (w_env e)\<rparr>)"

subsection \<open>Threads\<close>

text \<open>The copy that a new thread works on: the value of the environment at that moment.\<close>

definition DuplicateServerEnv :: "bool \<Rightarrow> win_env \<Rightarrow> env option \<times> win_env" where
  "DuplicateServerEnv ok e = (if ok then Some (w_env e) else None, wcall (WCopyEnv ok) e)"

record thread_ans =
  t_copy :: bool
  t_handle :: addr
  t_tid :: int

definition begin_thread :: "nat \<Rightarrow> thread_ans \<Rightarrow> win_env \<Rightarrow> win_env flow" where
  "begin_thread k a e =
     (case DuplicateServerEnv (t_copy a) e of
        (None, e) \<Rightarrow> Stop (-11) (CleanDaemonEnv_WIN_TLF e)
      | (Some pse_new, e) \<Rightarrow>
          (let e = wcall (WBeginThread (index pse_new) (t_handle a)) e;
               e = (if t_handle a \<noteq> NULL then e\<lparr>tids := map_option (\<lambda>ts. ts[k := t_tid a]) (tids e)\<rparr> else e);
               e = e\<lparr>thandles := map_option (\<lambda>hs. hs[k := t_handle a]) (thandles e)\<rparr>
           in if t_handle a = NULL then Stop (-12) (CleanDaemonEnv_WIN_TLF e) else Cont e))"

fun begin_threads :: "nat \<Rightarrow> nat \<Rightarrow> thread_ans list \<Rightarrow> win_env \<Rightarrow> win_env flow" where
  "begin_threads i n [] e = (let e = set_index i e in if i \<le> n then Waiting e else Cont e)"
| "begin_threads i n (a # as) e =
     (let e = set_index i e in
      if i \<le> n then
        (case begin_thread i a e of
           Cont e \<Rightarrow> begin_threads (Suc i) n as e
         | other \<Rightarrow> other)
      else Cont e)"

text \<open>
  \<open>WaitForMultipleObjects\<close> gets the first \<open>n\<close> entries of the array. The object it names is the
  entry of that number.
\<close>

fun monitor_threads :: "nat \<Rightarrow> (wait_result \<times> thread_ans) list \<Rightarrow> win_env \<Rightarrow> win_env flow" where
  "monitor_threads n [] e = Waiting e"
| "monitor_threads n ((r, a) # ws) e =
     (let e = wcall (WWait (take n (the (thandles e))) False r) e in
      case r of
        WaitFailed \<Rightarrow> Cont e
      | WaitObject k \<Rightarrow>
          (let e = wcall (WCloseHandle (the (thandles e) ! k)) e;
               e = e\<lparr>w_env := (w_env e)\<lparr>requests_per_process := 0\<rparr>\<rparr>
           in case begin_thread k a e of
                Cont e \<Rightarrow> monitor_threads n ws e
              | other \<Rightarrow> other))"

fun destroy_threads :: "nat \<Rightarrow> nat \<Rightarrow> wait_result list \<Rightarrow> win_env \<Rightarrow> win_env flow" where
  "destroy_threads i n [] e = (let e = set_index i e in if i \<le> n then Waiting e else Cont e)"
| "destroy_threads i n (r # rs) e =
     (let e = set_index i e in
      if i \<le> n then
        (let e = wcall (WWait (take n (the (thandles e))) True r) e
         in if r = WaitFailed then Cont e else destroy_threads (Suc i) n rs e)
      else Cont e)"

definition tcpdaemon_WIN_TLF ::
  "entry_para \<Rightarrow> start_os \<Rightarrow> (win_array \<Rightarrow> bool) \<Rightarrow> thread_ans list \<Rightarrow> (wait_result \<times> thread_ans) list \<Rightarrow>
   wait_result list \<Rightarrow> win_env \<Rightarrow> win_env flow" where
  "tcpdaemon_WIN_TLF p os ok as ws rs e =
     (let (nret, e) = InitDaemonEnv_WIN_TLF p os ok e; n = nat (process_count p) in
      if nret \<noteq> 0 then Stop nret (CleanDaemonEnv_WIN_TLF e)
      else
        (case begin_threads 1 n as e of
           Cont e \<Rightarrow>
             (case monitor_threads n ws e of
                Cont e \<Rightarrow>
                  (case destroy_threads 1 n rs e of
                     Cont e \<Rightarrow> Stop 0 (CleanDaemonEnv_WIN_TLF e)
                   | other \<Rightarrow> other)
              | other \<Rightarrow> other)
         | other \<Rightarrow> other))"

text \<open>The check of the parameters and the choice of the model in the Windows build.\<close>

definition CheckCommandParameter_WIN :: "entry_para \<Rightarrow> int" where
  "CheckCommandParameter_WIN p =
     (if server_model p = ''WIN-TLF'' then (if process_count p \<le> 0 then -1 else 0) else -2)"

subsection \<open>Accounting\<close>

lemma wcall_simps [simp]:
  "w_env (wcall c e) = w_env e" "thandles (wcall c e) = thandles e" "tids (wcall c e) = tids e"
  "wcalls (wcall c e) = wcalls e @ [c]"
  by (simp_all add: wcall_def)

lemma set_index_simps [simp]:
  "thandles (set_index i e) = thandles e" "tids (set_index i e) = tids e" "wcalls (set_index i e) = wcalls e"
  "index (w_env (set_index i e)) = i"
  by (simp_all add: set_index_def)

definition mallocs :: "win_array \<Rightarrow> win_env \<Rightarrow> nat" where
  "mallocs a e = count_list (wcalls e) (WMalloc a True)"

definition frees :: "win_array \<Rightarrow> win_env \<Rightarrow> nat" where
  "frees a e = count_list (wcalls e) (WFree a)"

text \<open>What the environment still has to give back; nothing of the other models is in it.\<close>

definition win_bal :: "win_env \<Rightarrow> bool" where
  "win_bal e \<longleftrightarrow> acquired (w_env e) = released (w_env e) + (held_lib (so_handle (w_env e)) + held_fd (listen_sock (w_env e)))
     \<and> mallocs Thandles e = frees Thandles e + (if thandles e = None then 0 else 1)
     \<and> mallocs Tids e = frees Tids e + (if tids e = None then 0 else 1)"

definition win_clean :: "win_env \<Rightarrow> bool" where
  "win_clean e \<longleftrightarrow> acquired (w_env e) = released (w_env e) \<and> mallocs Thandles e = frees Thandles e
     \<and> mallocs Tids e = frees Tids e"

lemma counts_wcall [simp]:
  "mallocs a (wcall c e) = mallocs a e + (if c = WMalloc a True then 1 else 0)"
  "frees a (wcall c e) = frees a e + (if c = WFree a then 1 else 0)"
  by (simp_all add: mallocs_def frees_def)

lemma counts_update [simp]:
  "mallocs a (e\<lparr>w_env := x\<rparr>) = mallocs a e" "mallocs a (e\<lparr>thandles := hs\<rparr>) = mallocs a e" "mallocs a (e\<lparr>tids := ts\<rparr>) = mallocs a e"
  "frees a (e\<lparr>w_env := x\<rparr>) = frees a e" "frees a (e\<lparr>thandles := hs\<rparr>) = frees a e" "frees a (e\<lparr>tids := ts\<rparr>) = frees a e"
  by (simp_all add: mallocs_def frees_def)

lemma acquired_fields [simp]:
  "acquired (e\<lparr>index := i\<rparr>) = acquired e" "released (e\<lparr>index := i\<rparr>) = released e"
  "acquired (e\<lparr>requests_per_process := k\<rparr>) = acquired e" "released (e\<lparr>requests_per_process := k\<rparr>) = released e"
  by (simp_all add: acquired_def released_def)

lemma win_bal_wcall: "(\<And>a. c \<noteq> WMalloc a True) \<Longrightarrow> (\<And>a. c \<noteq> WFree a) \<Longrightarrow> win_bal (wcall c e) \<longleftrightarrow> win_bal e"
  by (simp add: win_bal_def)

lemma win_bal_update [simp]:
  "win_bal (set_index i e) \<longleftrightarrow> win_bal e"
  "win_bal (e\<lparr>w_env := (w_env e)\<lparr>requests_per_process := k\<rparr>\<rparr>) \<longleftrightarrow> win_bal e"
  "win_bal (e\<lparr>thandles := map_option f (thandles e)\<rparr>) \<longleftrightarrow> win_bal e"
  "win_bal (e\<lparr>tids := map_option g (tids e)\<rparr>) \<longleftrightarrow> win_bal e"
  by (simp_all add: win_bal_def set_index_def)

lemma Clean_WIN_bal: "win_bal e \<Longrightarrow> win_clean (CleanDaemonEnv_WIN_TLF e)"
  using CleanDaemonEnv_bal [of "w_env e" "{#}"]
  by (simp add: win_bal_def win_clean_def CleanDaemonEnv_WIN_TLF_def Let_def)

definition fresh_win :: "win_env \<Rightarrow> bool" where
  "fresh_win e \<longleftrightarrow> fresh_env (w_env e) \<and> thandles e = None \<and> tids e = None \<and> wcalls e = []"

lemma Init_WIN_bal:
  assumes "InitDaemonEnv_WIN_TLF p os ok e = (nret, e')" "fresh_win e"
  shows "win_bal e'"
proof -
  have f: "fresh_env (w_env e)" "thandles e = None" "tids e = None" "wcalls e = []" using assms(2) by (auto simp: fresh_win_def)
  obtain n1 e1 where i: "InitDaemonEnv p (os\<lparr>d_getpwnam := None\<rparr>) (w_env e) = (n1, e1)" by fastforce
  have "so_handle (w_env e) = NULL" using f(1) by (simp add: fresh_env_def)
  note I = InitDaemonEnv_bal [OF i fresh_bal [OF f(1)] this]
  have "acquired e1 = released e1 + (held_lib (so_handle e1) + held_fd (listen_sock e1))"
    using I f(1) by (simp add: env_bal_def same_handles_def fresh_env_def held_arr_def held_sem_def held_epolls_def)
  then have b: "win_bal (e\<lparr>w_env := e1\<rparr>)" using f(2-4) by (simp add: win_bal_def mallocs_def frees_def)
  then show ?thesis
    using assms(1) i f(2-4)
    by (auto simp: InitDaemonEnv_WIN_TLF_def malloc_thandles_def malloc_tids_def Let_def win_bal_def split: if_splits)
qed

lemma begin_thread_bal:
  assumes "win_bal e"
  shows "case begin_thread k a e of Cont e' \<Rightarrow> win_bal e' | Stop n e' \<Rightarrow> win_clean e' | Waiting e' \<Rightarrow> True"
  using assms
  by (auto simp: begin_thread_def DuplicateServerEnv_def Let_def win_bal_def intro!: Clean_WIN_bal split: option.splits)

lemma begin_threads_bal:
  "win_bal e \<Longrightarrow> (case begin_threads i n as e of Cont e' \<Rightarrow> win_bal e' | Stop n e' \<Rightarrow> win_clean e' | Waiting e' \<Rightarrow> True)"
proof (induction as arbitrary: i e)
  case (Cons a as)
  have "win_bal (set_index i e)" using Cons.prems by simp
  note b = begin_thread_bal [OF this, of i a]
  show ?case
    using b Cons.IH Cons.prems by (cases "begin_thread i a (set_index i e)") (auto simp: Let_def)
qed (simp add: Let_def)

lemma monitor_threads_bal:
  "win_bal e \<Longrightarrow> (case monitor_threads n ws e of Cont e' \<Rightarrow> win_bal e' | Stop n e' \<Rightarrow> win_clean e' | Waiting e' \<Rightarrow> True)"
proof (induction ws arbitrary: e)
  case (Cons w ws)
  obtain r a where w: "w = (r, a)" by (cases w)
  let ?e = "wcall (WWait (take n (the (thandles e))) False r) e"
  show ?case
  proof (cases r)
    case WaitFailed
    then show ?thesis using Cons.prems w by (simp add: Let_def win_bal_wcall)
  next
    case (WaitObject k)
    define e1 where "e1 = wcall (WCloseHandle (the (thandles ?e) ! k)) ?e"
    define e2 where "e2 = e1\<lparr>w_env := (w_env e1)\<lparr>requests_per_process := 0\<rparr>\<rparr>"
    have "win_bal e2" using Cons.prems by (simp add: e2_def e1_def win_bal_def)
    note b = begin_thread_bal [OF this, of k a]
    have "monitor_threads n (w # ws) e = (case begin_thread k a e2 of Cont e \<Rightarrow> monitor_threads n ws e | other \<Rightarrow> other)"
      using WaitObject w by (simp add: Let_def e1_def e2_def)
    then show ?thesis using b Cons.IH by (cases "begin_thread k a e2") auto
  qed
qed simp

lemma destroy_threads_bal:
  "win_bal e \<Longrightarrow> (case destroy_threads i n rs e of Cont e' \<Rightarrow> win_bal e' | Stop n e' \<Rightarrow> False | Waiting e' \<Rightarrow> True)"
  by (induction rs arbitrary: i e) (auto simp: Let_def win_bal_wcall)

theorem WIN_TLF_bal:
  assumes "tcpdaemon_WIN_TLF p os ok as ws rs e = Stop n e'" "fresh_win e"
  shows "win_clean e'"
proof -
  obtain n1 e1 where i: "InitDaemonEnv_WIN_TLF p os ok e = (n1, e1)" by fastforce
  note b = Init_WIN_bal [OF i assms(2)]
  let ?n = "nat (process_count p)"
  show ?thesis
  proof (cases "n1 = 0")
    case False
    then show ?thesis using assms(1) i Clean_WIN_bal [OF b] by (simp add: tcpdaemon_WIN_TLF_def Let_def)
  next
    case True
    note B = begin_threads_bal [OF b, of 1 ?n as]
    show ?thesis
    proof (cases "begin_threads 1 ?n as e1")
      case (Cont e2)
      note M = monitor_threads_bal [of e2 ?n ws]
      show ?thesis
      proof (cases "monitor_threads ?n ws e2")
        case c3: (Cont e3)
        then have "win_bal e3" using M B Cont by simp
        then show ?thesis using destroy_threads_bal [of e3 1 ?n rs] assms(1) i True Cont c3
          by (auto simp: tcpdaemon_WIN_TLF_def Let_def intro!: Clean_WIN_bal split: flow.splits)
      qed (use assms(1) i True Cont M B in \<open>simp_all add: tcpdaemon_WIN_TLF_def Let_def\<close>)
    qed (use assms(1) i True B in \<open>simp_all add: tcpdaemon_WIN_TLF_def Let_def\<close>)
  qed
qed

subsection \<open>The copies of the environment\<close>

text \<open>A thread that has begun owns the copy made for it; the others are lost.\<close>

definition copies :: "win_env \<Rightarrow> nat" where
  "copies e = count_list (wcalls e) (WCopyEnv True)"

fun begins :: "win_call \<Rightarrow> bool" where
  "begins (WBeginThread j h) \<longleftrightarrow> h \<noteq> NULL"
| "begins _ \<longleftrightarrow> False"

definition begun :: "win_env \<Rightarrow> nat" where
  "begun e = length (filter begins (wcalls e))"

lemma copies_simps [simp]:
  "copies (wcall c e) = copies e + (if c = WCopyEnv True then 1 else 0)" "begun (wcall c e) = begun e + (if begins c then 1 else 0)"
  "copies (set_index i e) = copies e" "begun (set_index i e) = begun e"
  "copies (e\<lparr>w_env := x\<rparr>) = copies e" "begun (e\<lparr>w_env := x\<rparr>) = begun e"
  "copies (e\<lparr>thandles := hs\<rparr>) = copies e" "begun (e\<lparr>thandles := hs\<rparr>) = begun e"
  "copies (e\<lparr>tids := ts\<rparr>) = copies e" "begun (e\<lparr>tids := ts\<rparr>) = begun e"
  by (simp_all add: copies_def begun_def set_index_def)

lemma copies_Clean [simp]:
  "copies (CleanDaemonEnv_WIN_TLF e) = copies e" "begun (CleanDaemonEnv_WIN_TLF e) = begun e"
  by (simp_all add: CleanDaemonEnv_WIN_TLF_def Let_def)

definition copies_owned :: "win_env flow \<Rightarrow> bool" where
  "copies_owned f \<longleftrightarrow>
     (case f of Cont e \<Rightarrow> copies e = begun e | Waiting e \<Rightarrow> True
      | Stop n e \<Rightarrow> (n = -11 \<or> n = -12) \<and> copies e = begun e + (if n = -12 then 1 else 0))"

lemma begin_thread_copies: "copies e = begun e \<Longrightarrow> copies_owned (begin_thread k a e)"
  by (simp add: copies_owned_def begin_thread_def DuplicateServerEnv_def Let_def)

lemma begin_threads_copies: "copies e = begun e \<Longrightarrow> copies_owned (begin_threads i n as e)"
proof (induction as arbitrary: i e)
  case (Cons a as)
  have "copies_owned (begin_thread i a (set_index i e))" using Cons.prems by (intro begin_thread_copies) simp
  then show ?case using Cons by (cases "begin_thread i a (set_index i e)") (auto simp: copies_owned_def Let_def)
qed (simp add: copies_owned_def Let_def)

lemma monitor_threads_copies: "copies e = begun e \<Longrightarrow> copies_owned (monitor_threads n ws e)"
proof (induction ws arbitrary: e)
  case (Cons w ws)
  obtain r a where w: "w = (r, a)" by (cases w)
  show ?case
  proof (cases r)
    case WaitFailed
    then show ?thesis using Cons.prems w by (simp add: copies_owned_def Let_def)
  next
    case (WaitObject k)
    define e1 where "e1 = wcall (WWait (take n (the (thandles e))) False r) e"
    define e2 where "e2 = (wcall (WCloseHandle (the (thandles e1) ! k)) e1)\<lparr>w_env := (w_env e1)\<lparr>requests_per_process := 0\<rparr>\<rparr>"
    have "copies_owned (begin_thread k a e2)" using Cons.prems by (intro begin_thread_copies) (simp add: e2_def e1_def)
    moreover have "monitor_threads n (w # ws) e = (case begin_thread k a e2 of Cont e \<Rightarrow> monitor_threads n ws e | other \<Rightarrow> other)"
      using WaitObject w by (simp add: Let_def e1_def e2_def)
    ultimately show ?thesis using Cons.IH by (cases "begin_thread k a e2") (auto simp: copies_owned_def)
  qed
qed (simp add: copies_owned_def)

lemma destroy_threads_copies: "copies e = begun e \<Longrightarrow> copies_owned (destroy_threads i n rs e)"
  by (induction rs arbitrary: i e) (auto simp: Let_def copies_owned_def)

lemma WIN_TLF_copies:
  assumes "tcpdaemon_WIN_TLF p os ok as ws rs e = Stop n e'" "fresh_win e"
  shows "n \<in> {0, -1, -11, -12} \<and> copies e' = begun e' + (if n = -12 then 1 else 0)"
proof -
  obtain n0 env where s: "InitDaemonEnv p (os\<lparr>d_getpwnam := None\<rparr>) (w_env e) = (n0, env)" by fastforce
  have n0: "n0 = 0 \<or> n0 = -1" using s by (auto simp: InitDaemonEnv_def load_tcpmain_def Let_def split: if_splits prod.splits)
  obtain n1 e1 where i: "InitDaemonEnv_WIN_TLF p os ok e = (n1, e1)" by fastforce
  have e1: "copies e1 = begun e1" "n1 = 0 \<or> n1 = -1"
    using i s n0 assms(2) by (auto simp: InitDaemonEnv_WIN_TLF_def malloc_thandles_def malloc_tids_def fresh_win_def copies_def begun_def Let_def
        split: if_splits)
  let ?n = "nat (process_count p)"
  show ?thesis
  proof (cases "n1 = 0")
    case False
    then show ?thesis using assms(1) i e1 by (auto simp: tcpdaemon_WIN_TLF_def Let_def)
  next
    case True
    note B = begin_threads_copies [OF e1(1), of 1 ?n as]
    show ?thesis
    proof (cases "begin_threads 1 ?n as e1")
      case (Cont e2)
      then have "copies e2 = begun e2" using B by (simp add: copies_owned_def)
      note M = monitor_threads_copies [OF this, of ?n ws]
      show ?thesis
      proof (cases "monitor_threads ?n ws e2")
        case c3: (Cont e3)
        then have "copies e3 = begun e3" using M by (simp add: copies_owned_def)
        from destroy_threads_copies [OF this, of 1 ?n rs] show ?thesis
          using assms(1) i True Cont c3
          by (auto simp: tcpdaemon_WIN_TLF_def copies_owned_def Let_def split: flow.splits)
      qed (use assms(1) i True Cont M in \<open>simp_all add: tcpdaemon_WIN_TLF_def copies_owned_def Let_def\<close>)
    qed (use assms(1) i True B in \<open>simp_all add: tcpdaemon_WIN_TLF_def copies_owned_def Let_def\<close>)
  qed
qed

subsection \<open>The calls of a run\<close>

text \<open>The entry 0 of the array of handles stays NULL: the threads are entered from 1 on.\<close>

fun flow_env :: "'e flow \<Rightarrow> 'e" where
  "flow_env (Cont e) = e" | "flow_env (Stop n e) = e" | "flow_env (Waiting e) = e"

lemma Clean_WIN_calls: "wcalls (CleanDaemonEnv_WIN_TLF e) = wcalls e @ WDeleteCriticalSection
    # (if thandles e = None then [] else [WFree Thandles]) @ (if tids e = None then [] else [WFree Tids])"
  by (simp add: CleanDaemonEnv_WIN_TLF_def Let_def)

lemma begin_thread_grows: "prefix (wcalls e) (wcalls (flow_env (begin_thread k a e)))"
  by (simp add: begin_thread_def DuplicateServerEnv_def Let_def Clean_WIN_calls)

lemma monitor_threads_grows: "prefix (wcalls e) (wcalls (flow_env (monitor_threads n ws e)))"
proof (induction ws arbitrary: e)
  case (Cons w ws)
  obtain r a where w: "w = (r, a)" by (cases w)
  show ?case
  proof (cases r)
    case (WaitObject k)
    define e1 where "e1 = wcall (WWait (take n (the (thandles e))) False r) e"
    define e2 where "e2 = (wcall (WCloseHandle (the (thandles e1) ! k)) e1)
      \<lparr>w_env := (w_env e1)\<lparr>requests_per_process := 0\<rparr>\<rparr>"
    have eq: "monitor_threads n (w # ws) e = (case begin_thread k a e2 of Cont e \<Rightarrow> monitor_threads n ws e | other \<Rightarrow> other)"
      using WaitObject w by (simp add: Let_def e1_def e2_def)
    have "prefix (wcalls e) (wcalls e2)" by (simp add: e2_def e1_def)
    then have "prefix (wcalls e) (wcalls (flow_env (begin_thread k a e2)))" using begin_thread_grows prefix_order.trans by blast
    then show ?thesis using eq Cons.IH prefix_order.trans by (cases "begin_thread k a e2") fastforce+
  qed (simp add: w Let_def)
qed simp

lemma destroy_threads_grows: "prefix (wcalls e) (wcalls (flow_env (destroy_threads i n rs e)))"
proof (induction rs arbitrary: i e)
  case (Cons r rs)
  let ?e = "wcall (WWait (take n (the (thandles (set_index i e)))) True r) (set_index i e)"
  have "prefix (wcalls e) (wcalls ?e)" by simp
  then have "prefix (wcalls e) (wcalls (flow_env (destroy_threads (Suc i) n rs ?e)))"
    using Cons.IH [of ?e "Suc i"] by (rule prefix_order.trans)
  then show ?case by (simp add: Let_def)
qed (simp add: Let_def)

lemma begin_thread_ok:
  assumes "begin_thread k a e = Cont e'"
  shows "wcalls e' = wcalls e @ [WCopyEnv True, WBeginThread (index (w_env e)) (t_handle a)]
    \<and> thandles e' = map_option (\<lambda>hs. hs[k := t_handle a]) (thandles e) \<and> (tids e' = None \<longleftrightarrow> tids e = None)"
  using assms by (auto simp: begin_thread_def DuplicateServerEnv_def Let_def split: if_splits)

definition begin_calls :: "nat \<Rightarrow> nat \<Rightarrow> thread_ans list \<Rightarrow> win_call list" where
  "begin_calls i n as = concat (map (\<lambda>(j, a). [WCopyEnv True, WBeginThread j (t_handle a)]) (zip [i..<Suc n] as))"

lemma begin_threads_ok:
  "begin_threads i n as e = Cont e' \<Longrightarrow> 0 < i \<Longrightarrow> i \<le> Suc n \<Longrightarrow> thandles e = Some hs \<Longrightarrow>
   wcalls e' = wcalls e @ begin_calls i n as \<and> Suc n - i \<le> length as
   \<and> (\<exists>hs'. thandles e' = Some hs' \<and> hs' ! 0 = hs ! 0 \<and> length hs' = length hs) \<and> (tids e' = None \<longleftrightarrow> tids e = None)"
proof (induction as arbitrary: i e hs)
  case Nil
  then have "i = Suc n" by (simp add: Let_def split: if_splits)
  then show ?case using Nil by (auto simp: Let_def begin_calls_def)
next
  case (Cons a as)
  show ?case
  proof (cases "i \<le> n")
    case False
    then have "i = Suc n" using Cons.prems(3) by simp
    then show ?thesis using Cons.prems by (auto simp: Let_def begin_calls_def)
  next
    case True
    obtain e1 where e1: "begin_thread i a (set_index i e) = Cont e1" "begin_threads (Suc i) n as e1 = Cont e'"
      using Cons.prems(1) True by (auto simp: Let_def split: flow.splits)
    note b = begin_thread_ok [OF e1(1)]
    have "thandles e1 = Some (hs[i := t_handle a])" using b Cons.prems(4) by simp
    note IH = Cons.IH [OF e1(2) _ _ this]
    have "begin_calls i n (a # as) = [WCopyEnv True, WBeginThread i (t_handle a)] @ begin_calls (Suc i) n as"
      using True by (simp add: begin_calls_def upt_conv_Cons del: upt_Suc)
    moreover have "wcalls e1 = wcalls e @ [WCopyEnv True, WBeginThread i (t_handle a)]" "tids e1 = None \<longleftrightarrow> tids e = None"
      using b by simp_all
    moreover have "hs[i := t_handle a] ! 0 = hs ! 0" using Cons.prems(2) by simp
    ultimately show ?thesis using IH True by auto
  qed
qed

lemma begin_threads_stop: "begin_threads i n as e = Stop r e' \<Longrightarrow> r \<noteq> 0"
  by (induction as arbitrary: i e)
     (auto simp: Let_def begin_thread_def DuplicateServerEnv_def split: if_splits flow.splits)

lemma monitor_threads_stop: "monitor_threads n ws e = Stop r e' \<Longrightarrow> r \<noteq> 0"
proof (induction ws arbitrary: e)
  case (Cons w ws)
  then show ?case
    by (cases w) (auto simp: Let_def begin_thread_def DuplicateServerEnv_def split: if_splits flow.splits wait_result.splits)
qed simp

lemma destroy_threads_stop: "destroy_threads i n rs e \<noteq> Stop r e'"
  by (induction rs arbitrary: i e) (auto simp: Let_def)

text \<open>
  What Windows documents of \<open>WaitForMultipleObjects\<close>: it fails when a handle is invalid.
\<close>

definition waits_lawful :: "win_env \<Rightarrow> bool" where
  "waits_lawful e \<longleftrightarrow> (\<forall>hs b r. WWait hs b r \<in> set (wcalls e) \<and> NULL \<in> set hs \<longrightarrow> r = WaitFailed)"

lemma lawful_prefix: "waits_lawful e \<Longrightarrow> prefix (cs @ [WWait hs b r]) (wcalls e) \<Longrightarrow> NULL \<in> set hs \<Longrightarrow> r = WaitFailed"
  unfolding waits_lawful_def prefix_def by (metis Un_iff append.assoc append_Cons list.set_intros(1) set_append)

lemma monitor_threads_fails:
  assumes "monitor_threads n ws e = Cont e'" "NULL \<in> set (take n (the (thandles e)))" "prefix (wcalls e') (wcalls e'')"
    "waits_lawful e''"
  shows "wcalls e' = wcalls e @ [WWait (take n (the (thandles e))) False WaitFailed] \<and> thandles e' = thandles e \<and> tids e' = tids e"
proof (cases ws)
  case (Cons w ws')
  obtain r a where w: "w = (r, a)" by (cases w)
  let ?hs = "take n (the (thandles e))"
  have "prefix (wcalls e @ [WWait ?hs False r]) (wcalls (flow_env (monitor_threads n ws e)))"
  proof (cases r)
    case (WaitObject k)
    define e1 where "e1 = wcall (WWait ?hs False r) e"
    define e2 where "e2 = (wcall (WCloseHandle (the (thandles e1) ! k)) e1)
      \<lparr>w_env := (w_env e1)\<lparr>requests_per_process := 0\<rparr>\<rparr>"
    have eq: "monitor_threads n ws e = (case begin_thread k a e2 of Cont e \<Rightarrow> monitor_threads n ws' e | other \<Rightarrow> other)"
      using WaitObject w Cons by (simp add: Let_def e1_def e2_def)
    have "prefix (wcalls e1) (wcalls e2)" by (simp add: e2_def)
    then have p: "prefix (wcalls e1) (wcalls (flow_env (begin_thread k a e2)))"
      using begin_thread_grows prefix_order.trans by blast
    show ?thesis
    proof (cases "begin_thread k a e2")
      case c: (Cont x)
      have "prefix (wcalls x) (wcalls (flow_env (monitor_threads n ws' x)))" by (rule monitor_threads_grows)
      then have "prefix (wcalls e1) (wcalls (flow_env (monitor_threads n ws' x)))"
        using p c prefix_order.trans by fastforce
      then show ?thesis using eq c by (simp add: e1_def)
    qed (use p eq in \<open>simp_all add: e1_def\<close>)
  qed (simp add: Cons w Let_def)
  then have "prefix (wcalls e @ [WWait ?hs False r]) (wcalls e'')" using assms(1,3) prefix_order.trans by fastforce
  then have "r = WaitFailed" using lawful_prefix assms(2,4) by blast
  then show ?thesis using assms(1) Cons w by (auto simp: Let_def)
qed (use assms(1) in simp)

lemma destroy_threads_fails:
  assumes "destroy_threads 1 n rs e = Cont e'" "0 < n" "NULL \<in> set (take n (the (thandles e)))"
    "prefix (wcalls e') (wcalls e'')" "waits_lawful e''"
  shows "wcalls e' = wcalls e @ [WWait (take n (the (thandles e))) True WaitFailed] \<and> thandles e' = thandles e \<and> tids e' = tids e"
proof (cases rs)
  case (Cons r rs')
  let ?hs = "take n (the (thandles e))"
  let ?e = "wcall (WWait ?hs True r) (set_index 1 e)"
  have d: "destroy_threads 1 n rs e = (if r = WaitFailed then Cont ?e else destroy_threads 2 n rs' ?e)"
    using assms(2) Cons by (simp add: Let_def numeral_2_eq_2)
  then have "prefix (wcalls ?e) (wcalls (flow_env (destroy_threads 1 n rs e)))"
    using destroy_threads_grows [of ?e 2 n rs'] by (cases "r = WaitFailed") simp_all
  then have "prefix (wcalls e @ [WWait ?hs True r]) (wcalls e'')" using assms(1,4) prefix_order.trans by fastforce
  then have "r = WaitFailed" using lawful_prefix assms(3,5) by blast
  then show ?thesis using assms(1) d by auto
qed (use assms(1,2) in \<open>simp add: Let_def\<close>)

theorem WIN_TLF_calls:
  assumes T: "tcpdaemon_WIN_TLF p os ok as ws rs e = Stop 0 e'" and f: "fresh_win e" and n: "0 < process_count p"
    and law: "waits_lawful e'"
  shows "\<exists>hs. NULL \<in> set hs \<and> wcalls e' = [WInitializeCriticalSection, WMalloc Thandles True, WMalloc Tids True]
    @ begin_calls 1 (nat (process_count p)) as
    @ [WWait hs False WaitFailed, WWait hs True WaitFailed, WDeleteCriticalSection, WFree Thandles, WFree Tids]"
proof -
  let ?n = "nat (process_count p)"
  obtain n1 e1 where i: "InitDaemonEnv_WIN_TLF p os ok e = (n1, e1)" by fastforce
  have n1: "n1 = 0" using T i by (auto simp: tcpdaemon_WIN_TLF_def Let_def split: if_splits)
  have I: "wcalls e1 = [WInitializeCriticalSection, WMalloc Thandles True, WMalloc Tids True]"
    "thandles e1 = Some (replicate (Suc ?n) NULL)" "tids e1 \<noteq> None"
    using i f n unfolding n1 by (auto simp: InitDaemonEnv_WIN_TLF_def malloc_thandles_def malloc_tids_def fresh_win_def Let_def
        nat_add_distrib split: if_splits prod.splits)
  obtain e2 where e2: "begin_threads 1 ?n as e1 = Cont e2"
    using T i n1 begin_threads_stop [of 1 ?n as e1] by (auto simp: tcpdaemon_WIN_TLF_def Let_def split: flow.splits)
  obtain e3 where e3: "monitor_threads ?n ws e2 = Cont e3"
    using T i n1 e2 monitor_threads_stop [of ?n ws e2] by (auto simp: tcpdaemon_WIN_TLF_def Let_def split: flow.splits)
  obtain e4 where e4: "destroy_threads 1 ?n rs e3 = Cont e4" "e' = CleanDaemonEnv_WIN_TLF e4"
    using T i n1 e2 e3 destroy_threads_stop [of 1 ?n rs e3] by (auto simp: tcpdaemon_WIN_TLF_def Let_def split: flow.splits)
  obtain hs where B: "wcalls e2 = wcalls e1 @ begin_calls 1 ?n as" "thandles e2 = Some hs" "hs ! 0 = NULL" "length hs = Suc ?n" "tids e2 \<noteq> None"
    using begin_threads_ok [OF e2 _ _ I(2)] I(3) by auto
  have nul: "NULL \<in> set (take ?n hs)"
    using B(3,4) n by (cases hs) (auto simp: take_Cons')
  have p4: "prefix (wcalls e4) (wcalls e')" by (simp add: e4(2) Clean_WIN_calls)
  have "prefix (wcalls e3) (wcalls e4)" using destroy_threads_grows [of e3 1 ?n rs] e4(1) by simp
  then have p3: "prefix (wcalls e3) (wcalls e')" using p4 prefix_order.trans by blast
  note M = monitor_threads_fails [OF e3 _ p3 law]
  have M: "wcalls e3 = wcalls e2 @ [WWait (take ?n hs) False WaitFailed]" "thandles e3 = Some hs" "tids e3 \<noteq> None"
    using M nul B(2,5) by auto
  have "wcalls e4 = wcalls e3 @ [WWait (take ?n hs) True WaitFailed]" "thandles e4 = Some hs" "tids e4 \<noteq> None"
    using destroy_threads_fails [OF e4(1) _ _ p4 law] M nul n by auto
  then show ?thesis using M(1) B(1) I(1) nul by (intro exI [of _ "take ?n hs"]) (auto simp: e4(2) Clean_WIN_calls)
qed

end
