(* ===== verification/WinLf.thy ===== *)
theory WinLf
  imports Lf
begin

text \<open>
  \<open>tcpdaemon_LF_worker\<close> of \<open>tcpdaemon_lib.c\<close> as it is compiled for Windows: a thread of the pool, with
  the critical section \<open>accept_critical_section\<close> where Linux has the semaphore and without an alive
  pipe. A worker, the options of its sockets and its answers are those of \<open>Lf\<close>.
\<close>

subsection \<open>The critical section\<close>

text \<open>
  The critical section is an object of Windows, and its operations are parameters: a thread enters
  it, which may block (\<open>None\<close>), and leaves it.
\<close>

record 'c section_ops =
  InitializeCriticalSection :: 'c
  EnterCriticalSection :: "nat \<Rightarrow> 'c \<Rightarrow> 'c option"
  LeaveCriticalSection :: "nat \<Rightarrow> 'c \<Rightarrow> 'c"

text \<open>
  What Windows documents of them. \<open>view\<close> is what is known of a section: nobody owns it, or thread \<open>i\<close>
  owns it and has entered it \<open>k\<close> times, or (\<open>None\<close>) nothing. A section that nobody owns can be entered,
  by its owner again and by others not; its owner gives it up when he has left it as often as he
  entered it. Of a section that a thread leaves without owning it nothing is known afterwards.
\<close>

definition section_lawful :: "'c section_ops \<Rightarrow> ('c \<Rightarrow> (nat \<times> nat) option option) \<Rightarrow> bool" where
  "section_lawful cs view \<longleftrightarrow>
     view (InitializeCriticalSection cs) = Some None
     \<and> (\<forall>i c. view c = Some None \<longrightarrow>
          (\<exists>c'. EnterCriticalSection cs i c = Some c' \<and> view c' = Some (Some (i, 1))))
     \<and> (\<forall>i c k. view c = Some (Some (i, k)) \<longrightarrow>
          (\<exists>c'. EnterCriticalSection cs i c = Some c' \<and> view c' = Some (Some (i, k + 1))))
     \<and> (\<forall>i j c k. view c = Some (Some (j, k)) \<and> i \<noteq> j \<longrightarrow> EnterCriticalSection cs i c = None)
     \<and> (\<forall>i c k. view c = Some (Some (i, k)) \<longrightarrow>
          view (LeaveCriticalSection cs i c) = Some (if k = 1 then None else Some (i, k - 1)))"

lemma section_lawfulD:
  assumes "section_lawful cs view"
  shows "view c = Some (Some (j, k)) \<Longrightarrow> i \<noteq> j \<Longrightarrow> EnterCriticalSection cs i c = None"
    and "view c = Some None \<Longrightarrow> \<exists>c'. EnterCriticalSection cs i c = Some c' \<and> view c' = Some (Some (i, 1))"
    and "view c = Some (Some (i, 1)) \<Longrightarrow> view (LeaveCriticalSection cs i c) = Some None"
  using assms unfolding section_lawful_def by (blast, blast, simp)

subsection \<open>A worker thread\<close>

text \<open>The end after the loop: the section is left, the copy of the environment freed.\<close>

definition win_lf_finally :: "'c section_ops \<Rightarrow> nat \<Rightarrow> 'c \<times> lf_worker \<Rightarrow> 'c \<times> lf_worker \<times> bool" where
  "win_lf_finally cs i cw = (LeaveCriticalSection cs i (fst cw), (snd cw)\<lparr>pc := Returned 0\<rparr>, True)"

text \<open>A step of thread \<open>i\<close>; the last component says whether it has freed its copy of the environment.\<close>

definition win_lf_step ::
  "'c section_ops \<Rightarrow> lf_cfg \<Rightarrow> nat \<Rightarrow> lf_ans \<Rightarrow> 'c \<times> lf_worker \<Rightarrow> ('c \<times> lf_worker \<times> bool) option" where
  "win_lf_step cs cfg i ans cw =
     (let c = fst cw; w = snd cw in
      case pc w of
        Entering \<Rightarrow>
          (case ans of
             SemopOk \<Rightarrow> map_option (\<lambda>c. (c, w\<lparr>pc := Selecting\<rparr>, False)) (EnterCriticalSection cs i c)
           | _ \<Rightarrow> None)
      | Selecting \<Rightarrow>
          (case ans of
             SelectFails \<Rightarrow> Some (win_lf_finally cs i cw)
           | ListenReadable \<Rightarrow> Some (c, w\<lparr>pc := Accepting\<rparr>, False)
           | _ \<Rightarrow> None)
      | Accepting \<Rightarrow>
          (case ans of
             AcceptFails \<Rightarrow> Some (win_lf_finally cs i cw)
           | Accepted s \<Rightarrow>
               (let w = lf_set_sock_opts cfg (lf_note (LfAccept s) (w\<lparr>accepted_sock := s\<rparr>))
                in Some (LeaveCriticalSection cs i c, w\<lparr>pc := Serving\<rparr>, False))
           | _ \<Rightarrow> None)
      | Serving \<Rightarrow>
          (case ans of
             TcpmainReturned nret \<Rightarrow>
               (let w = lf_served cfg nret w
                in if pc w = Finally then Some (win_lf_finally cs i (c, w)) else Some (c, w, False))
           | _ \<Rightarrow> None)
      | Gone \<Rightarrow>
          (case ans of
             Forked \<Rightarrow> Some (c, w\<lparr>pc := Entering, requests_per_process := 0, lf_trace := []\<rparr>, False)
           | _ \<Rightarrow> None)
      | _ \<Rightarrow> None)"

subsection \<open>The pool\<close>

record 'c win_lf_sys =
  accept_critical_section :: 'c
  threads :: "lf_worker list"
  freed_envs :: "nat list"

definition win_lf_init :: "'c section_ops \<Rightarrow> nat \<Rightarrow> 'c win_lf_sys" where
  "win_lf_init cs n =
     \<lparr>accept_critical_section = InitializeCriticalSection cs, threads = replicate n no_worker, freed_envs = []\<rparr>"

definition win_lf_move :: "'c section_ops \<Rightarrow> lf_cfg \<Rightarrow> nat \<times> lf_ans \<Rightarrow> 'c win_lf_sys \<Rightarrow> 'c win_lf_sys option" where
  "win_lf_move cs cfg ia s =
     (let (i, ans) = ia in
      if i < length (threads s) then
        (case win_lf_step cs cfg i ans (accept_critical_section s, threads s ! i) of
           None \<Rightarrow> None
         | Some (c, w, freed) \<Rightarrow>
             Some (s\<lparr>accept_critical_section := c, threads := (threads s)[i := w],
                     freed_envs := freed_envs s @ (if freed then [i] else [])\<rparr>))
      else None)"

fun win_lf_run :: "'c section_ops \<Rightarrow> lf_cfg \<Rightarrow> (nat \<times> lf_ans) list \<Rightarrow> 'c win_lf_sys \<Rightarrow> 'c win_lf_sys option" where
  "win_lf_run cs cfg [] s = Some s"
| "win_lf_run cs cfg (x # xs) s = (case win_lf_move cs cfg x s of None \<Rightarrow> None | Some s \<Rightarrow> win_lf_run cs cfg xs s)"

subsection \<open>The accept section\<close>

definition in_section :: "lf_worker \<Rightarrow> bool" where
  "in_section w \<longleftrightarrow> pc w = Selecting \<or> pc w = Accepting"

text \<open>The section is owned, once, exactly by the thread that is in it.\<close>

definition section_inv :: "('c \<Rightarrow> (nat \<times> nat) option option) \<Rightarrow> 'c win_lf_sys \<Rightarrow> bool" where
  "section_inv view s \<longleftrightarrow>
     (case view (accept_critical_section s) of
        None \<Rightarrow> False
      | Some None \<Rightarrow> (\<forall>i < length (threads s). \<not> in_section (threads s ! i))
      | Some (Some (j, k)) \<Rightarrow> j < length (threads s) \<and> k = 1
          \<and> (\<forall>i < length (threads s). in_section (threads s ! i) \<longleftrightarrow> i = j))"

lemma lf_opts_pc [simp]: "pc (lf_set_sock_opts cfg w) = pc w" "pc (lf_note e w) = pc w"
  by (simp_all add: lf_set_sock_opts_def lf_note_def Let_def)

lemma lf_served_pc:
  "pc (lf_served cfg r w) = Finally \<longleftrightarrow> r \<noteq> TCPMAIN_RETURN_CLOSE" "\<not> in_section (lf_served cfg r w)"
  by (simp_all add: lf_served_def in_section_def Let_def)

lemma section_inv_init: "section_lawful cs view \<Longrightarrow> section_inv view (win_lf_init cs n)"
  by (simp add: section_lawful_def section_inv_def win_lf_init_def no_worker_def in_section_def)

definition refuses :: "lf_ans \<Rightarrow> bool" where
  "refuses ans \<longleftrightarrow> (\<exists>r. ans = TcpmainReturned r \<and> r \<noteq> TCPMAIN_RETURN_CLOSE)"

text \<open>What a step does to the section, by the kind of the step.\<close>

lemma win_lf_step_cases:
  assumes "win_lf_step cs cfg i ans (c, w) = Some (c', w', f)"
  obtains
    (enter) "\<not> in_section w" "EnterCriticalSection cs i c = Some c'" "in_section w'" "\<not> refuses ans"
  | (stay) "c' = c" "in_section w' = in_section w" "\<not> refuses ans"
  | (leave) "in_section w" "c' = LeaveCriticalSection cs i c" "\<not> in_section w'" "\<not> refuses ans"
  | (refused) "\<not> in_section w" "c' = LeaveCriticalSection cs i c" "\<not> in_section w'" "refuses ans"
  using assms lf_served_pc
  by (auto simp: win_lf_step_def win_lf_finally_def in_section_def refuses_def Let_def
      split: lf_pc.splits lf_ans.splits if_splits)

lemma win_lf_moveD:
  assumes "win_lf_move cs cfg (i, ans) s = Some s'"
  obtains w' f where "i < length (threads s)" "threads s' = (threads s)[i := w']"
    "win_lf_step cs cfg i ans (accept_critical_section s, threads s ! i) = Some (accept_critical_section s', w', f)"
  using assms by (auto simp: win_lf_move_def split: if_splits option.splits)

text \<open>A thread in the section owns it, and a thread outside of it does not.\<close>

lemma section_owner:
  assumes "section_inv view s" "i < length (threads s)"
  shows "in_section (threads s ! i) \<longleftrightarrow> view (accept_critical_section s) = Some (Some (i, 1))"
    "\<not> in_section (threads s ! i) \<Longrightarrow> view (accept_critical_section s) \<noteq> Some (Some (i, k))"
  using assms by (auto simp: section_inv_def split: option.splits)

lemma win_lf_move_inv:
  assumes "section_lawful cs view" "section_inv view s" "\<not> refuses ans" "win_lf_move cs cfg (i, ans) s = Some s'"
  shows "section_inv view s'"
proof -
  let ?c = "accept_critical_section s"
  obtain w' f where i: "i < length (threads s)" and s': "threads s' = (threads s)[i := w']"
    and st: "win_lf_step cs cfg i ans (?c, threads s ! i) = Some (accept_critical_section s', w', f)"
    using win_lf_moveD [OF assms(4)] .
  show ?thesis
    using st
  proof (cases rule: win_lf_step_cases)
    case enter
    have "view ?c = Some None"
    proof (rule ccontr)
      assume "view ?c \<noteq> Some None"
      then obtain j where "view ?c = Some (Some (j, 1))" "j \<noteq> i"
        using assms(2) enter(1) i by (auto simp: section_inv_def split: option.splits)
      then show False using section_lawfulD(1) [OF assms(1), of "?c" j 1 i] enter(2) by simp
    qed
    moreover from this have "view (accept_critical_section s') = Some (Some (i, 1))"
      using section_lawfulD(2) [OF assms(1), of "?c" i] enter(2) by auto
    ultimately show ?thesis using enter assms(2) i s' by (auto simp: section_inv_def nth_list_update)
  next
    case stay
    then show ?thesis using assms(2) i s' by (auto simp: section_inv_def nth_list_update split: option.splits)
  next
    case leave
    then have o: "view ?c = Some (Some (i, 1))" using section_owner(1) [OF assms(2) i] by blast
    then have "view (accept_critical_section s') = Some None" using section_lawfulD(3) [OF assms(1) o] leave(2) by simp
    then show ?thesis using o leave(3) assms(2) i s' by (auto simp: section_inv_def nth_list_update)
  qed (use assms(3) in simp)
qed

interpretation win_lf: guarded_system "win_lf_move cs cfg" "win_lf_run cs cfg"
    "\<lambda>s. section_lawful cs view \<and> section_inv view s" "\<lambda>x. \<not> refuses (snd x)" for cs cfg view
  by unfold_locales (auto intro: win_lf_move_inv)

lemma win_lf_run_inv:
  "section_lawful cs view \<Longrightarrow> win_lf_run cs cfg es (win_lf_init cs n) = Some s \<Longrightarrow> \<forall>x \<in> set es. \<not> refuses (snd x) \<Longrightarrow>
   section_inv view s"
  using win_lf.run_keeps [of cs view "win_lf_init cs n" cfg es s] section_inv_init by (auto simp: list_all_iff)

text \<open>A thread that waits gets in as soon as nobody is in the section.\<close>

lemma section_enters:
  assumes "section_lawful cs view" "section_inv view s" "i < length (threads s)" "pc (threads s ! i) = Entering"
    "\<forall>j < length (threads s). \<not> in_section (threads s ! j)"
  shows "\<exists>t. win_lf_move cs cfg (i, SemopOk) s = Some t \<and> in_section (threads t ! i)"
proof -
  have "view (accept_critical_section s) = Some None"
    using assms(2,5) by (auto simp: section_inv_def split: option.splits)
  then obtain c where "EnterCriticalSection cs i (accept_critical_section s) = Some c"
    using section_lawfulD(2) [OF assms(1)] by blast
  then show ?thesis using assms(3,4) by (simp add: win_lf_move_def win_lf_step_def in_section_def Let_def)
qed

text \<open>Who leaves the section: in a step out of it its owner, and after a refusal another one.\<close>

lemma section_left:
  assumes "section_inv view s" "win_lf_move cs cfg (i, ans) s = Some t"
  shows "in_section (threads s ! i) \<and> \<not> in_section (threads t ! i) \<Longrightarrow>
      view (accept_critical_section s) = Some (Some (i, 1))
      \<and> accept_critical_section t = LeaveCriticalSection cs i (accept_critical_section s)"
    and "refuses ans \<Longrightarrow> (\<forall>k. view (accept_critical_section s) \<noteq> Some (Some (i, k)))
      \<and> accept_critical_section t = LeaveCriticalSection cs i (accept_critical_section s)"
proof -
  obtain w' f where i: "i < length (threads s)" and t: "threads t = (threads s)[i := w']"
    and st: "win_lf_step cs cfg i ans (accept_critical_section s, threads s ! i) = Some (accept_critical_section t, w', f)"
    using win_lf_moveD [OF assms(2)] .
  show "view (accept_critical_section s) = Some (Some (i, 1))
      \<and> accept_critical_section t = LeaveCriticalSection cs i (accept_critical_section s)"
    if "in_section (threads s ! i) \<and> \<not> in_section (threads t ! i)"
    using st that section_owner(1) [OF assms(1) i] i t by (cases rule: win_lf_step_cases) auto
  show "(\<forall>k. view (accept_critical_section s) \<noteq> Some (Some (i, k)))
      \<and> accept_critical_section t = LeaveCriticalSection cs i (accept_critical_section s)" if "refuses ans"
    using st that section_owner(2) [OF assms(1) i] by (cases rule: win_lf_step_cases) auto
qed

end
