(* ===== verification/WinService.thy ===== *)
theory WinService
  imports Consts "HOL-Library.Multiset"
begin

text \<open>
  The Windows service of \<open>tcpdaemon_lib.c\<close>: \<open>ServiceCtrlHandler\<close>, \<open>ServiceMainProc\<close>, \<open>BindDaemonServer\<close>
  for Windows, \<open>monitor\<close> and \<open>control\<close>. The service process runs two threads: the service's main
  thread, which starts the child process again and again, and the thread that the service control
  manager calls the handler on. Calls of the Windows API are entries of \<open>scalls\<close>.
\<close>

subsection \<open>Constants and state\<close>

definition SERVICE_WIN32_OWN_PROCESS :: int where "SERVICE_WIN32_OWN_PROCESS = 0x10"
definition SERVICE_ACCEPT_STOP :: int where "SERVICE_ACCEPT_STOP = 1"

datatype service_state = NOT_SET | SERVICE_STOPPED | SERVICE_START_PENDING | SERVICE_STOP_PENDING | SERVICE_RUNNING
  | SERVICE_CONTINUE_PENDING | SERVICE_PAUSE_PENDING | SERVICE_PAUSED

datatype service_control = SERVICE_CONTROL_STOP | SERVICE_CONTROL_PAUSE | SERVICE_CONTROL_CONTINUE
  | SERVICE_CONTROL_INTERROGATE | SERVICE_CONTROL_SHUTDOWN | OTHER_CONTROL int

record service_status =
  dwServiceType :: int
  dwCurrentState :: service_state
  dwControlsAccepted :: int
  dwWin32ExitCode :: int
  dwServiceSpecificExitCode :: int
  dwCheckPoint :: int
  dwWaitHint :: int

datatype svc_call =
    SRegisterHandler string
  | SSetStatus addr service_status
  | SServerMain
  | SDispatch string bool
  | SCreateProcess bool addr addr
  | SCloseHandle addr
  | SWaitProcess addr
  | SSleep int
  | STerminateProcess addr

record svc =
  gssServiceStatus :: service_status
  gsshServiceStatusHandle :: addr
  gacServerName :: string
  has_server_main :: bool
  has_control_main :: bool
  g_li_hProcess :: addr
  g_li_hThread :: addr
  scalls :: "svc_call list"

definition scall :: "svc_call \<Rightarrow> svc \<Rightarrow> svc" where
  "scall c s = s\<lparr>scalls := scalls s @ [c]\<rparr>"

text \<open>Set the state in the global structure and report the structure.\<close>

definition set_state :: "service_state \<Rightarrow> svc \<Rightarrow> svc" where
  "set_state x s =
     (let s = s\<lparr>gssServiceStatus := (gssServiceStatus s)\<lparr>dwCurrentState := x\<rparr>\<rparr>
      in scall (SSetStatus (gsshServiceStatusHandle s) (gssServiceStatus s)) s)"

subsection \<open>The handler\<close>

definition control :: "service_control \<Rightarrow> svc \<Rightarrow> svc" where
  "control control_status s =
     (if control_status = SERVICE_CONTROL_STOP \<or> control_status = SERVICE_CONTROL_SHUTDOWN
      then scall (STerminateProcess (g_li_hProcess s)) s else s)"

text \<open>
  The handler in its parts: the first report, the second one, and the control function. The
  monitor runs on between them.
\<close>

definition handler_first :: "service_control \<Rightarrow> svc \<Rightarrow> svc" where
  "handler_first dwControl s =
     (case dwControl of
        SERVICE_CONTROL_STOP \<Rightarrow> set_state SERVICE_STOP_PENDING s
      | SERVICE_CONTROL_SHUTDOWN \<Rightarrow> set_state SERVICE_STOP_PENDING s
      | SERVICE_CONTROL_PAUSE \<Rightarrow> set_state SERVICE_PAUSE_PENDING s
      | SERVICE_CONTROL_CONTINUE \<Rightarrow> set_state SERVICE_CONTINUE_PENDING s
      | SERVICE_CONTROL_INTERROGATE \<Rightarrow> set_state SERVICE_RUNNING s
      | OTHER_CONTROL _ \<Rightarrow> s)"

definition handler_second :: "service_control \<Rightarrow> svc \<Rightarrow> svc" where
  "handler_second dwControl s =
     (case dwControl of
        SERVICE_CONTROL_STOP \<Rightarrow> set_state SERVICE_STOPPED s
      | SERVICE_CONTROL_SHUTDOWN \<Rightarrow> set_state SERVICE_STOPPED s
      | SERVICE_CONTROL_PAUSE \<Rightarrow> set_state SERVICE_PAUSED s
      | SERVICE_CONTROL_CONTINUE \<Rightarrow> set_state SERVICE_RUNNING s
      | SERVICE_CONTROL_INTERROGATE \<Rightarrow> s
      | OTHER_CONTROL _ \<Rightarrow> s)"

definition handler_control :: "service_control \<Rightarrow> svc \<Rightarrow> svc" where
  "handler_control dwControl s = (if has_control_main s then control dwControl s else s)"

definition ServiceCtrlHandler :: "service_control \<Rightarrow> svc \<Rightarrow> svc" where
  "ServiceCtrlHandler dwControl s = handler_control dwControl (handler_second dwControl (handler_first dwControl s))"

subsection \<open>Starting the service\<close>

text \<open>\<open>h\<close> is the answer of \<open>RegisterServiceCtrlHandler\<close>; the result says whether the server's main runs.\<close>

definition ServiceMainProc :: "addr \<Rightarrow> svc \<Rightarrow> bool \<times> svc" where
  "ServiceMainProc h s =
     (let s = s\<lparr>gssServiceStatus :=
                \<lparr>dwServiceType = SERVICE_WIN32_OWN_PROCESS, dwCurrentState = SERVICE_START_PENDING,
                 dwControlsAccepted = SERVICE_ACCEPT_STOP, dwWin32ExitCode = 0, dwServiceSpecificExitCode = 0,
                 dwCheckPoint = 0, dwWaitHint = 0\<rparr>\<rparr>;
          s = (scall (SRegisterHandler (gacServerName s)) s)\<lparr>gsshServiceStatusHandle := h\<rparr>
      in if h = NULL then (False, s)
      else
        (let s = s\<lparr>gssServiceStatus := (gssServiceStatus s)\<lparr>dwCheckPoint := 0, dwWaitHint := 0\<rparr>\<rparr>;
             s = set_state SERVICE_RUNNING s
         in (True, scall SServerMain s)))"

text \<open>
  \<open>strncpy\<close> of 256 characters into the cleared array of 257; \<open>dispatched\<close> is the answer of
  \<open>StartServiceCtrlDispatcher\<close>, which runs the service and returns when it has stopped.
\<close>

definition BindDaemonServer_WIN :: "string option \<Rightarrow> bool \<Rightarrow> bool \<Rightarrow> bool \<Rightarrow> svc \<Rightarrow> int \<times> svc" where
  "BindDaemonServer_WIN pcServerName server_main control_main dispatched s =
     (let s = s\<lparr>gacServerName := (case pcServerName of None \<Rightarrow> [] | Some nm \<Rightarrow> take 256 nm)\<rparr>;
          s = s\<lparr>has_server_main := server_main, has_control_main := control_main\<rparr>;
          s = scall (SDispatch (gacServerName s) dispatched) s
      in if \<not> dispatched then (-1, s) else (0, s))"

subsection \<open>The monitor\<close>

text \<open>
  The loop as steps, because the handler can run at any point of it: \<open>memset\<close> clears the size of a
  pointer of \<open>g_li\<close>, which is \<open>hProcess\<close>; \<open>CreateProcess\<close> fills the structure in; the handle of the
  thread is closed, the process waited for, its handle closed; and there is a pause of ten seconds.
  A step is a call of the system, which reads the global structure when it is made.
\<close>

datatype monitor_pc = Clearing | Creating | ClosingThread | WaitingProcess | ClosingProcess | Pausing | MonitorReturned int

text \<open>The answer to a step: what \<open>CreateProcess\<close> gave, or nothing of interest.\<close>

datatype monitor_ans = Created addr addr | CreateFailed | Done

fun monitor :: "monitor_pc \<Rightarrow> monitor_ans \<Rightarrow> svc \<Rightarrow> (monitor_pc \<times> svc) option" where
  "monitor Clearing Done s = Some (Creating, s\<lparr>g_li_hProcess := NULL\<rparr>)"
| "monitor Creating (Created hp ht) s =
     Some (ClosingThread, scall (SCreateProcess True hp ht) (s\<lparr>g_li_hProcess := hp, g_li_hThread := ht\<rparr>))"
| "monitor Creating CreateFailed s = Some (MonitorReturned 1, scall (SCreateProcess False NULL NULL) s)"
| "monitor ClosingThread Done s = Some (WaitingProcess, scall (SCloseHandle (g_li_hThread s)) s)"
| "monitor WaitingProcess Done s = Some (ClosingProcess, scall (SWaitProcess (g_li_hProcess s)) s)"
| "monitor ClosingProcess Done s = Some (Pausing, scall (SCloseHandle (g_li_hProcess s)) s)"
| "monitor Pausing Done s = Some (Clearing, scall (SSleep 10000) s)"
| "monitor _ _ s = None"

subsection \<open>Both threads\<close>

text \<open>The control manager makes one call of the handler at a time.\<close>

datatype handler_pc = NoControl | Reported1 service_control | Reported2 service_control

record svc_sys =
  handler_at :: handler_pc
  monitor_at :: monitor_pc
  service :: svc

datatype svc_step = Monitors monitor_ans | Controls service_control | HandlerGoesOn

definition svc_step :: "svc_step \<Rightarrow> svc_sys \<Rightarrow> svc_sys option" where
  "svc_step x t =
     (case x of
        Monitors ans \<Rightarrow>
          map_option (\<lambda>(at, s). t\<lparr>monitor_at := at, service := s\<rparr>) (monitor (monitor_at t) ans (service t))
      | Controls c \<Rightarrow>
          (if handler_at t = NoControl then Some (t\<lparr>handler_at := Reported1 c, service := handler_first c (service t)\<rparr>)
           else None)
      | HandlerGoesOn \<Rightarrow>
          (case handler_at t of
             NoControl \<Rightarrow> None
           | Reported1 c \<Rightarrow> Some (t\<lparr>handler_at := Reported2 c, service := handler_second c (service t)\<rparr>)
           | Reported2 c \<Rightarrow> Some (t\<lparr>handler_at := NoControl, service := handler_control c (service t)\<rparr>)))"

fun svc_run :: "svc_step list \<Rightarrow> svc_sys \<Rightarrow> svc_sys option" where
  "svc_run [] t = Some t"
| "svc_run (x # xs) t = (case svc_step x t of None \<Rightarrow> None | Some t \<Rightarrow> svc_run xs t)"

text \<open>With no step of the monitor in between, the parts are the handler.\<close>

lemma handler_alone:
  "handler_at t = NoControl \<Longrightarrow>
   svc_run [Controls c, HandlerGoesOn, HandlerGoesOn] t = Some (t\<lparr>service := ServiceCtrlHandler c (service t)\<rparr>)"
  by (simp add: svc_step_def ServiceCtrlHandler_def)

definition zero_svc :: svc where
  "zero_svc = \<lparr>gssServiceStatus = \<lparr>dwServiceType = 0, dwCurrentState = NOT_SET, dwControlsAccepted = 0, dwWin32ExitCode = 0,
     dwServiceSpecificExitCode = 0, dwCheckPoint = 0, dwWaitHint = 0\<rparr>, gsshServiceStatusHandle = NULL, gacServerName = [],
     has_server_main = False, has_control_main = False, g_li_hProcess = NULL, g_li_hThread = NULL, scalls = []\<rparr>"

text \<open>The service after \<open>BindDaemonServer( "TcpDaemon" , monitor , command_line , & control )\<close> has been dispatched.\<close>

definition service_start :: "addr \<Rightarrow> bool \<times> svc" where
  "service_start h = ServiceMainProc h (snd (BindDaemonServer_WIN (Some ''TcpDaemon'') True True True zero_svc))"

subsection \<open>Handles and reports\<close>

text \<open>The handles that a call brings and gives back.\<close>

fun brings :: "svc_call \<Rightarrow> addr list" where
  "brings (SCreateProcess True hp ht) = [hp, ht]"
| "brings _ = []"

fun gives_back :: "svc_call \<Rightarrow> addr list" where
  "gives_back (SCloseHandle h) = [h]"
| "gives_back _ = []"

definition handles_opened :: "svc \<Rightarrow> addr multiset" where
  "handles_opened s = mset (concat (map brings (scalls s)))"

definition handles_closed :: "svc \<Rightarrow> addr multiset" where
  "handles_closed s = mset (concat (map gives_back (scalls s)))"

text \<open>What the service control manager was told last.\<close>

fun last_report :: "svc_call list \<Rightarrow> (addr \<times> service_status) option" where
  "last_report [] = None"
| "last_report (c # cs) =
     (case last_report cs of
        Some r \<Rightarrow> Some r
      | None \<Rightarrow> (case c of SSetStatus h st \<Rightarrow> Some (h, st) | _ \<Rightarrow> None))"

lemma last_report_append [simp]:
  "last_report (cs @ ds) = (case last_report ds of Some r \<Rightarrow> Some r | None \<Rightarrow> last_report cs)"
  by (induction cs) (auto split: option.splits)

lemma scall_simps [simp]:
  "scalls (scall c s) = scalls s @ [c]" "g_li_hProcess (scall c s) = g_li_hProcess s" "g_li_hThread (scall c s) = g_li_hThread s"
  "gssServiceStatus (scall c s) = gssServiceStatus s" "gsshServiceStatusHandle (scall c s) = gsshServiceStatusHandle s"
  "has_control_main (scall c s) = has_control_main s"
  by (simp_all add: scall_def)

lemma counts_scall [simp]:
  "handles_opened (scall c s) = handles_opened s + mset (brings c)" "handles_closed (scall c s) = handles_closed s + mset (gives_back c)"
  "handles_opened (s\<lparr>gssServiceStatus := st\<rparr>) = handles_opened s" "handles_closed (s\<lparr>gssServiceStatus := st\<rparr>) = handles_closed s"
  "handles_opened (s\<lparr>g_li_hProcess := h\<rparr>) = handles_opened s" "handles_closed (s\<lparr>g_li_hProcess := h\<rparr>) = handles_closed s"
  "handles_opened (s\<lparr>g_li_hThread := h\<rparr>) = handles_opened s" "handles_closed (s\<lparr>g_li_hThread := h\<rparr>) = handles_closed s"
  by (simp_all add: handles_opened_def handles_closed_def)

text \<open>The handles that are open: both from the creation on, the thread's until it is closed.\<close>

definition open_handles :: "svc_sys \<Rightarrow> addr multiset" where
  "open_handles t =
     (case monitor_at t of
        ClosingThread \<Rightarrow> {#g_li_hProcess (service t), g_li_hThread (service t)#}
      | WaitingProcess \<Rightarrow> {#g_li_hProcess (service t)#}
      | ClosingProcess \<Rightarrow> {#g_li_hProcess (service t)#}
      | _ \<Rightarrow> {#})"

text \<open>What a stop that comes now would terminate, where no process runs.\<close>

definition stale_ok :: "svc_sys \<Rightarrow> bool" where
  "stale_ok t \<longleftrightarrow>
     (case monitor_at t of
        Clearing \<Rightarrow> g_li_hProcess (service t) = NULL \<or> g_li_hProcess (service t) \<in># handles_closed (service t)
      | Creating \<Rightarrow> g_li_hProcess (service t) = NULL
      | Pausing \<Rightarrow> g_li_hProcess (service t) \<in># handles_closed (service t)
      | _ \<Rightarrow> True)"

definition is_stop :: "service_control \<Rightarrow> bool" where
  "is_stop c \<longleftrightarrow> c = SERVICE_CONTROL_STOP \<or> c = SERVICE_CONTROL_SHUTDOWN"

definition stop_reported :: "svc_sys \<Rightarrow> bool" where
  "stop_reported t \<longleftrightarrow> (\<forall>c. handler_at t = Reported2 c \<and> is_stop c \<longrightarrow>
     dwCurrentState (gssServiceStatus (service t)) = SERVICE_STOPPED)"

definition svc_inv :: "addr \<Rightarrow> svc_sys \<Rightarrow> bool" where
  "svc_inv h t \<longleftrightarrow> handles_opened (service t) = handles_closed (service t) + open_handles t
     \<and> last_report (scalls (service t)) = Some (h, gssServiceStatus (service t))
     \<and> gsshServiceStatusHandle (service t) = h \<and> has_control_main (service t) \<and> stale_ok t \<and> stop_reported t"

text \<open>The handler touches neither the handles nor the calls that open and close them.\<close>

definition same_handles :: "svc \<Rightarrow> svc \<Rightarrow> bool" where
  "same_handles s s' \<longleftrightarrow> handles_opened s' = handles_opened s \<and> handles_closed s' = handles_closed s
     \<and> g_li_hProcess s' = g_li_hProcess s \<and> g_li_hThread s' = g_li_hThread s
     \<and> gsshServiceStatusHandle s' = gsshServiceStatusHandle s \<and> has_control_main s' = has_control_main s"

lemma set_state_effect:
  "same_handles s (set_state x s)" "gssServiceStatus (set_state x s) = (gssServiceStatus s)\<lparr>dwCurrentState := x\<rparr>"
  "last_report (scalls (set_state x s)) = Some (gsshServiceStatusHandle s, gssServiceStatus (set_state x s))"
  by (simp_all add: set_state_def same_handles_def Let_def)

lemma handler_effect:
  assumes "last_report (scalls s) = Some (gsshServiceStatusHandle s, gssServiceStatus s)"
  shows "same_handles s (handler_first c s)" "same_handles s (handler_second c s)" "same_handles s (handler_control c s)"
    "last_report (scalls (handler_first c s)) = Some (gsshServiceStatusHandle s, gssServiceStatus (handler_first c s))"
    "last_report (scalls (handler_second c s)) = Some (gsshServiceStatusHandle s, gssServiceStatus (handler_second c s))"
    "last_report (scalls (handler_control c s)) = Some (gsshServiceStatusHandle s, gssServiceStatus (handler_control c s))"
    "is_stop c \<Longrightarrow> dwCurrentState (gssServiceStatus (handler_second c s)) = SERVICE_STOPPED"
  using assms
  by (cases c; simp add: handler_first_def handler_second_def handler_control_def control_def set_state_effect is_stop_def
      same_handles_def [of s s] same_handles_def [of s "scall x s" for x])+

lemma svc_inv_handler:
  assumes "svc_inv h t" "same_handles (service t) s'" "last_report (scalls s') = Some (h, gssServiceStatus s')"
    "stop_reported (t\<lparr>handler_at := p, service := s'\<rparr>)"
  shows "svc_inv h (t\<lparr>handler_at := p, service := s'\<rparr>)"
  using assms by (auto simp: svc_inv_def same_handles_def open_handles_def stale_ok_def split: monitor_pc.splits)

lemma monitor_keeps:
  "svc_inv h t \<Longrightarrow> monitor (monitor_at t) ans (service t) = Some (at, s) \<Longrightarrow> svc_inv h (t\<lparr>monitor_at := at, service := s\<rparr>)"
  by (cases "monitor_at t"; cases ans) (auto simp: svc_inv_def open_handles_def stale_ok_def stop_reported_def)

lemma svc_step_keeps: "svc_inv h t \<Longrightarrow> svc_step x t = Some t' \<Longrightarrow> svc_inv h t'"
proof (cases x)
  case (Monitors ans)
  assume "svc_inv h t" "svc_step x t = Some t'"
  then show ?thesis using Monitors monitor_keeps by (auto simp: svc_step_def)
next
  case (Controls c)
  assume i: "svc_inv h t" and st: "svc_step x t = Some t'"
  have "last_report (scalls (service t)) = Some (gsshServiceStatusHandle (service t), gssServiceStatus (service t))"
    using i by (simp add: svc_inv_def)
  note E = handler_effect [OF this, of c]
  have "t' = t\<lparr>handler_at := Reported1 c, service := handler_first c (service t)\<rparr>"
    using st Controls by (simp add: svc_step_def split: if_splits)
  then show ?thesis using svc_inv_handler [OF i E(1), of "Reported1 c"] E(4) i by (simp add: stop_reported_def svc_inv_def)
next
  case HandlerGoesOn
  assume i: "svc_inv h t" and st: "svc_step x t = Some t'"
  have l: "last_report (scalls (service t)) = Some (gsshServiceStatusHandle (service t), gssServiceStatus (service t))"
    "gsshServiceStatusHandle (service t) = h"
    using i by (simp_all add: svc_inv_def)
  note E = handler_effect [OF l(1)]
  consider c where "handler_at t = Reported1 c" "t' = t\<lparr>handler_at := Reported2 c, service := handler_second c (service t)\<rparr>"
    | c where "t' = t\<lparr>handler_at := NoControl, service := handler_control c (service t)\<rparr>"
    using st HandlerGoesOn by (auto simp: svc_step_def split: handler_pc.splits)
  then show ?thesis
  proof cases
    case 1
    then show ?thesis using svc_inv_handler [OF i E(2) _, of c "Reported2 c"] E(5) [of c] E(7) [of c] l(2)
      by (simp add: stop_reported_def)
  next
    case 2
    then show ?thesis using svc_inv_handler [OF i E(3) _, of c NoControl] E(6) [of c] l(2)
      by (simp add: stop_reported_def)
  qed
qed

interpretation svc_sys: guarded_system svc_step svc_run "svc_inv h" "\<lambda>_. True" for h
  by unfold_locales (auto intro: svc_step_keeps)

lemma svc_run_keeps: "svc_inv h t \<Longrightarrow> svc_run xs t = Some t' \<Longrightarrow> svc_inv h t'"
  by (rule svc_sys.run_keeps) (simp_all add: list_all_iff)

text \<open>Both threads when the server's main begins.\<close>

definition service_begins :: "svc \<Rightarrow> svc_sys" where
  "service_begins s = \<lparr>handler_at = NoControl, monitor_at = Clearing, service = s\<rparr>"

lemma service_start_inv: "service_start h = (True, s) \<Longrightarrow> svc_inv h (service_begins s)"
  by (auto simp: service_start_def ServiceMainProc_def BindDaemonServer_WIN_def set_state_def svc_inv_def open_handles_def
      handles_opened_def handles_closed_def zero_svc_def scall_def service_begins_def stale_ok_def stop_reported_def Let_def
      split: if_splits)

text \<open>The monitor looks at nothing that the handler writes.\<close>

lemma monitor_ignores_status:
  "monitor pc ans (s\<lparr>gssServiceStatus := st\<rparr>) = map_option (\<lambda>(pc, s). (pc, s\<lparr>gssServiceStatus := st\<rparr>)) (monitor pc ans s)"
  by (cases pc; cases ans) (simp_all add: scall_def)

end
