(* ===== verification/WinInstall.thy ===== *)
theory WinInstall
  imports DscInv Logc
begin

text \<open>
  Installing and removing the Windows service (\<open>tcpdaemon_main.c\<close>): the command line that \<open>main\<close>
  builds from its arguments, \<open>InstallDaemonServer\<close> and \<open>UninstallDaemonServer\<close>. A write outside a
  buffer and a string without an end are \<open>None\<close>.
\<close>

subsection \<open>\<open>_snprintf\<close>\<close>

text \<open>
  \<open>_snprintf\<close> of Windows writes at most \<open>count\<close> characters: with the terminating zero when there is
  room for it, without it when the text is as long as \<open>count\<close>, and of a longer text the first
  \<open>count\<close> characters, again without, and then it returns -1. A negative count is a huge one.
\<close>

definition snprintf_win :: "byte list \<Rightarrow> int \<Rightarrow> int \<Rightarrow> byte list \<Rightarrow> (byte list \<times> int) option" where
  "snprintf_win buf off count s =
     (let n = int (length s) in
      if count < 0 \<or> n < count then map_option (\<lambda>buf. (buf, n)) (write_at buf off (s @ [0]))
      else if n = count then map_option (\<lambda>buf. (buf, n)) (write_at buf off s)
      else map_option (\<lambda>buf. (buf, -1)) (write_at buf off (take (nat count) s)))"

subsection \<open>The command line of the service\<close>

definition COMMAND_LINE_SIZE :: nat where "COMMAND_LINE_SIZE = 257"

definition skipped :: "byte list \<Rightarrow> bool" where
  "skipped a \<longleftrightarrow> a = str ''--install-winservice'' \<or> a = str ''--uninstall-winservice''"

definition arg_text :: "byte list \<Rightarrow> byte list" where
  "arg_text a = (if 32 \<in> set a \<or> 9 \<in> set a then [32, 34] @ a @ [34] else 32 # a)"

fun build_command_line :: "byte list list \<Rightarrow> byte list \<times> int \<Rightarrow> (byte list \<times> int) option" where
  "build_command_line [] bl = Some bl"
| "build_command_line (a # as) (buf, len) =
     (if skipped a then build_command_line as (buf, len)
      else
        (case snprintf_win buf len (int COMMAND_LINE_SIZE - 1 - len) (arg_text a) of
           None \<Rightarrow> None
         | Some (buf, n) \<Rightarrow> build_command_line as (buf, len + n)))"

subsection \<open>The service control manager\<close>

datatype scm_call = OpenSCManager addr | CreateService "byte list" addr | OpenService addr | DeleteService bool
  | CloseServiceHandle addr

text \<open>The C string at the start of an array; \<open>None\<close>: it has no end.\<close>

definition c_string :: "byte list \<Rightarrow> byte list option" where
  "c_string buf = map_option (\<lambda>n. take n buf) (strlen buf)"

text \<open>
  \<open>stack\<close> is what the 256 bytes of \<open>acStartCommand\<close> hold before, \<open>path\<close> the file name of the program,
  of at most 254 characters.
\<close>

definition InstallDaemonServer ::
  "byte list \<Rightarrow> byte list \<Rightarrow> byte list \<Rightarrow> addr \<Rightarrow> addr \<Rightarrow> (int \<times> scm_call list) option" where
  "InstallDaemonServer stack path pcRunParameter scm service =
     (case snprintf_win stack 0 (256 - 1) ([34] @ path @ [34, 32] @ pcRunParameter) of
        None \<Rightarrow> None
      | Some (acStartCommand, _) \<Rightarrow>
          if scm = NULL then Some (-1, [OpenSCManager scm])
          else
            (case c_string acStartCommand of
               None \<Rightarrow> None
             | Some command \<Rightarrow>
                 if service = NULL
                 then Some (-2, [OpenSCManager scm, CreateService command service, CloseServiceHandle scm])
                 else Some (0, [OpenSCManager scm, CreateService command service, CloseServiceHandle service,
                               CloseServiceHandle scm])))"

definition UninstallDaemonServer :: "addr \<Rightarrow> addr \<Rightarrow> bool \<Rightarrow> int \<times> scm_call list" where
  "UninstallDaemonServer scm service bret =
     (if scm = NULL then (-1, [OpenSCManager scm])
      else if service = NULL then (-2, [OpenSCManager scm, OpenService service, CloseServiceHandle scm])
      else if \<not> bret
      then (-3, [OpenSCManager scm, OpenService service, DeleteService bret, CloseServiceHandle service, CloseServiceHandle scm])
      else (0, [OpenSCManager scm, OpenService service, DeleteService bret, CloseServiceHandle service, CloseServiceHandle scm]))"

text \<open>The branch of \<open>main\<close> that installs, on \<open>argv[1]\<close> and on.\<close>

definition install_winservice_branch ::
  "byte list list \<Rightarrow> byte list \<Rightarrow> byte list \<Rightarrow> addr \<Rightarrow> addr \<Rightarrow> (int \<times> scm_call list) option" where
  "install_winservice_branch args stack path scm service =
     (case build_command_line args (replicate COMMAND_LINE_SIZE 0, 0) of
        None \<Rightarrow> None
      | Some (command_line, _) \<Rightarrow>
          (case c_string command_line of
             None \<Rightarrow> None
           | Some line \<Rightarrow> InstallDaemonServer stack path line scm service))"

subsection \<open>What fits\<close>

definition kept_text :: "byte list list \<Rightarrow> byte list" where
  "kept_text args = concat (map arg_text (filter (\<lambda>a. \<not> skipped a) args))"

lemma write_at_zeros:
  assumes "length pre + length s \<le> m"
  shows "write_at (pre @ replicate (m - length pre) 0) (int (length pre)) s
    = Some (pre @ s @ replicate (m - length (pre @ s)) 0)"
  using assms by (simp add: write_at_def)

lemma zeros_end: "length s < m \<Longrightarrow> s @ [0] @ replicate (m - Suc (length s)) 0 = s @ replicate (m - length s) (0 :: byte)"
  by (cases "m - length s") (auto simp: Suc_diff_Suc)

lemma snprintf_win_fits:
  assumes "length pre + length s \<le> 256"
  shows "snprintf_win (pre @ replicate (257 - length pre) 0) (int (length pre)) (256 - int (length pre)) s
    = Some ((pre @ s) @ replicate (257 - length (pre @ s)) 0, int (length s))"
proof (cases "length pre + length s = 256")
  case True
  then show ?thesis using write_at_zeros [of pre s 257] by (simp add: snprintf_win_def)
next
  case False
  then have "write_at (pre @ replicate (257 - length pre) 0) (int (length pre)) (s @ [0])
    = Some (pre @ (s @ [0]) @ replicate (257 - length (pre @ s @ [0])) 0)"
    using assms by (intro write_at_zeros) simp
  also have "(s @ [0]) @ replicate (257 - length (pre @ s @ [0])) 0 = s @ replicate (257 - length (pre @ s)) (0 :: byte)"
    using zeros_end [of s "257 - length pre"] assms False by (simp add: diff_diff_left)
  finally show ?thesis using assms False by (simp add: snprintf_win_def)
qed

lemma build_fits:
  "length pre + length (kept_text args) \<le> 256 \<Longrightarrow>
   build_command_line args (pre @ replicate (257 - length pre) 0, int (length pre))
     = Some ((pre @ kept_text args) @ replicate (257 - length (pre @ kept_text args)) 0, int (length (pre @ kept_text args)))"
proof (induction args arbitrary: pre)
  case (Cons a as)
  show ?case
  proof (cases "skipped a")
    case True
    then show ?thesis using Cons by (simp add: kept_text_def)
  next
    case False
    have k: "kept_text (a # as) = arg_text a @ kept_text as" using False by (simp add: kept_text_def)
    have "length pre + length (arg_text a) \<le> 256" "length (pre @ arg_text a) + length (kept_text as) \<le> 256"
      using Cons.prems by (simp_all add: k)
    from snprintf_win_fits [OF this(1)] Cons.IH [OF this(2)] False show ?thesis
      by (simp add: k COMMAND_LINE_SIZE_def)
  qed
qed (simp add: kept_text_def)

text \<open>Two arguments, the first too long for the buffer: the second one is written before the buffer.\<close>

lemma build_underruns:
  assumes "\<not> skipped a" "\<not> skipped b" "256 < length (arg_text a)"
  shows "build_command_line (a # b # as) (replicate COMMAND_LINE_SIZE 0, 0) = None"
proof -
  have "snprintf_win (replicate 257 0) 0 256 (arg_text a) = Some (take 256 (arg_text a) @ [0], -1)"
    using assms(3) by (simp add: snprintf_win_def write_at_def)
  moreover have "snprintf_win buf (-1) 257 s = None" for buf s by (simp add: snprintf_win_def write_at_def Let_def)
  ultimately show ?thesis using assms(1,2) by (simp add: COMMAND_LINE_SIZE_def)
qed

lemma c_string_zeros: "0 \<notin> set s \<Longrightarrow> c_string (s @ 0 # rest) = Some s"
  by (simp add: c_string_def strlen_text)

lemma install_branch_fits:
  assumes "length (kept_text args) \<le> 256" "0 \<notin> set (kept_text args)"
  shows "install_winservice_branch args stack path scm service = InstallDaemonServer stack path (kept_text args) scm service"
proof -
  have "build_command_line args (replicate COMMAND_LINE_SIZE 0, 0)
    = Some (kept_text args @ replicate (257 - length (kept_text args)) 0, int (length (kept_text args)))"
    using build_fits [of "[]" args] assms(1) by (simp add: COMMAND_LINE_SIZE_def)
  moreover have "replicate (257 - length (kept_text args)) 0 = (0 :: byte) # replicate (256 - length (kept_text args)) 0"
    using assms(1) by (cases "257 - length (kept_text args)") auto
  ultimately show ?thesis using c_string_zeros [OF assms(2)] by (simp add: install_winservice_branch_def)
qed

subsection \<open>The service manager's line\<close>

definition start_command :: "byte list \<Rightarrow> byte list list \<Rightarrow> byte list" where
  "start_command path args = [34] @ path @ [34, 32] @ kept_text args"

lemma write_at_0: "length s \<le> length buf \<Longrightarrow> write_at buf 0 s = Some (s @ drop (length s) buf)"
  by (simp add: write_at_def)

text \<open>With room for the terminating zero the whole line is the service's, and every handle is closed.\<close>

lemma InstallDaemonServer_fits:
  assumes "length stack = 256" "0 \<notin> set path" "0 \<notin> set line" "length ([34] @ path @ [34, 32] @ line) < 255"
  shows "InstallDaemonServer stack path line scm service =
    (let command = [34] @ path @ [34, 32] @ line in
     Some (if scm = NULL then (-1, [OpenSCManager scm])
           else if service = NULL then (-2, [OpenSCManager scm, CreateService command service, CloseServiceHandle scm])
           else (0, [OpenSCManager scm, CreateService command service, CloseServiceHandle service, CloseServiceHandle scm])))"
proof -
  let ?c = "[34] @ path @ [34, 32] @ line"
  have "snprintf_win stack 0 255 ?c = Some (?c @ 0 # drop (Suc (length ?c)) stack, int (length ?c))"
    using assms(1,4) write_at_0 [of "?c @ [0]" stack] by (simp add: snprintf_win_def)
  moreover have "0 \<notin> set ?c" using assms(2,3) by simp
  note c_string_zeros [OF this]
  ultimately show ?thesis by (simp add: InstallDaemonServer_def Let_def)
qed

text \<open>Without, the last byte of the array ends the line only when it happens to be zero.\<close>

lemma snprintf_win_full:
  assumes "length stack = 256" "255 \<le> length s"
  shows "\<exists>n. snprintf_win stack 0 255 s = Some (take 255 s @ drop 255 stack, n)"
proof -
  have "write_at stack 0 (take 255 s) = Some (take 255 s @ drop 255 stack)"
    using write_at_0 [of "take 255 s" stack] assms by simp
  moreover have "take 255 s = s" if "int (length s) = 255" using that by simp
  ultimately show ?thesis using assms(2) by (auto simp: snprintf_win_def Let_def)
qed

lemma strlen_None: "0 \<notin> set s \<Longrightarrow> strlen s = None"
  by (induction s) auto

lemma InstallDaemonServer_unterminated:
  assumes "length stack = 256" "0 \<notin> set path" "0 \<notin> set line" "255 \<le> length ([34] @ path @ [34, 32] @ line)"
    "0 \<notin> set (drop 255 stack)" "scm \<noteq> NULL"
  shows "InstallDaemonServer stack path line scm service = None"
proof -
  define c where "c = [34] @ path @ [34, 32] @ line"
  obtain n where "snprintf_win stack 0 255 c = Some (take 255 c @ drop 255 stack, n)"
    using snprintf_win_full [OF assms(1,4)] by (auto simp: c_def)
  moreover have "0 \<notin> set c" using assms(2,3) by (simp add: c_def)
  then have "0 \<notin> set (take 255 c @ drop 255 stack)" using assms(5) by (auto dest: in_set_takeD)
  then have "c_string (take 255 c @ drop 255 stack) = None" by (simp add: c_string_def strlen_None)
  ultimately show ?thesis using assms(6) unfolding InstallDaemonServer_def c_def [symmetric] by simp
qed

subsection \<open>What the program gets back\<close>

text \<open>
  The arguments that a program started with a command line gets, by the documented rules of the C
  runtime of Windows. The name of the program ends at the first blank outside quotes, and
  backslashes in it are ordinary. Of the arguments after it: blanks and tabs separate them outside
  quotes, and a quote begins or ends a quoted part; \<open>n\<close> backslashes in front of a quote are half as
  many, and the quote is an ordinary character when \<open>n\<close> is odd; all other backslashes are ordinary.
  (Two quotes in a row inside a quoted part would be one; the lines built here have none.)
\<close>

fun program_name :: "bool \<Rightarrow> byte list \<Rightarrow> byte list \<times> byte list" where
  "program_name q [] = ([], [])"
| "program_name q (c # cs) =
     (if c = 34 then program_name (\<not> q) cs
      else if \<not> q \<and> (c = 32 \<or> c = 9) then ([], cs)
      else map_prod (Cons c) id (program_name q cs))"

definition so_far :: "byte list option \<Rightarrow> byte list" where
  "so_far cur = (case cur of None \<Rightarrow> [] | Some w \<Rightarrow> w)"

fun split_line :: "bool \<Rightarrow> nat \<Rightarrow> byte list option \<Rightarrow> byte list \<Rightarrow> byte list list" where
  "split_line q n cur [] = (if cur = None \<and> n = 0 then [] else [so_far cur @ replicate n 92])"
| "split_line q n cur (c # cs) =
     (if c = 92 then split_line q (Suc n) cur cs
      else if c = 34 then
        (if even n then split_line (\<not> q) 0 (Some (so_far cur @ replicate (n div 2) 92)) cs
         else split_line q 0 (Some (so_far cur @ replicate (n div 2) 92 @ [34])) cs)
      else if \<not> q \<and> (c = 32 \<or> c = 9) then
        (if cur = None \<and> n = 0 then split_line q 0 None cs
         else (so_far cur @ replicate n 92) # split_line q 0 None cs)
      else split_line q 0 (Some (so_far cur @ replicate n 92 @ [c])) cs)"

definition win_argv :: "byte list \<Rightarrow> byte list list" where
  "win_argv line = (let (name, rest) = program_name False line in name # split_line False 0 None rest)"

text \<open>
  Arguments that the code passes on as they are: it puts quotes around those with blanks, and does
  not escape anything.
\<close>

definition plain_arg :: "byte list \<Rightarrow> bool" where
  "plain_arg a \<longleftrightarrow> a \<noteq> [] \<and> 0 \<notin> set a \<and> 34 \<notin> set a \<and> (32 \<in> set a \<or> 9 \<in> set a \<longrightarrow> last a \<noteq> 92)"

text \<open>The names that files can have, with their directories.\<close>

definition file_name :: "byte list \<Rightarrow> bool" where
  "file_name path \<longleftrightarrow> 0 \<notin> set path \<and> 34 \<notin> set path"

lemma split_line_word:
  assumes "34 \<notin> set a" "q \<or> (32 \<notin> set a \<and> 9 \<notin> set a)"
  shows "\<exists>cur' n'. split_line q n cur (a @ rest) = split_line q n' cur' rest
    \<and> so_far cur' @ replicate n' 92 = so_far cur @ replicate n 92 @ a
    \<and> (cur' = None \<and> n' = 0 \<longrightarrow> cur = None \<and> n = 0 \<and> a = []) \<and> (if a = [] then n' = n else last a \<noteq> 92 \<longrightarrow> n' = 0)"
  using assms
proof (induction a arbitrary: n cur)
  case (Cons c a)
  show ?case
  proof (cases "c = 92")
    case True
    then obtain cur' n' where "split_line q (Suc n) cur (a @ rest) = split_line q n' cur' rest"
      "so_far cur' @ replicate n' 92 = so_far cur @ replicate (Suc n) 92 @ a" "\<not> (cur' = None \<and> n' = 0)"
      "if a = [] then n' = Suc n else last a \<noteq> 92 \<longrightarrow> n' = 0"
      using Cons.IH [of "Suc n" cur] Cons.prems by auto
    then show ?thesis using True by (intro exI [of _ cur'] exI [of _ n']) (auto simp: replicate_append_same [symmetric])
  next
    case False
    let ?cur = "Some (so_far cur @ replicate n 92 @ [c])"
    obtain cur' n' where "split_line q 0 ?cur (a @ rest) = split_line q n' cur' rest"
      "so_far cur' @ replicate n' 92 = so_far ?cur @ replicate 0 92 @ a" "\<not> (cur' = None \<and> n' = 0)"
      "if a = [] then n' = 0 else last a \<noteq> 92 \<longrightarrow> n' = 0"
      using Cons.IH [of 0 ?cur] Cons.prems by auto
    moreover have "split_line q n cur ((c # a) @ rest) = split_line q 0 ?cur (a @ rest)" using False Cons.prems by auto
    ultimately show ?thesis by (intro exI [of _ cur'] exI [of _ n']) (auto simp: so_far_def)
  qed
qed auto

lemma split_line_blank: "cur \<noteq> None \<or> n \<noteq> 0 \<Longrightarrow> rest = [] \<or> (\<exists>r. rest = 32 # r) \<Longrightarrow>
    split_line False n cur rest = (so_far cur @ replicate n 92) # split_line False 0 None rest"
  by (auto simp: so_far_def)

lemma split_arg:
  assumes "plain_arg a" "rest = [] \<or> (\<exists>r. rest = 32 # r)"
  shows "split_line False 0 None (arg_text a @ rest) = a # split_line False 0 None rest"
proof (cases "32 \<in> set a \<or> 9 \<in> set a")
  case True
  then have l: "last a \<noteq> 92" "34 \<notin> set a" "a \<noteq> []" using assms(1) by (simp_all add: plain_arg_def)
  have "split_line False 0 None (arg_text a @ rest) = split_line True 0 (Some []) (a @ 34 # rest)"
    using True by (simp add: arg_text_def so_far_def)
  also obtain cur' n' where "split_line True 0 (Some []) (a @ 34 # rest) = split_line True n' cur' (34 # rest)"
    "so_far cur' @ replicate n' 92 = so_far (Some []) @ replicate 0 92 @ a" "n' = 0"
    using split_line_word [of a True 0 "Some []" "34 # rest"] l by auto
  then have "split_line True 0 (Some []) (a @ 34 # rest) = split_line False 0 (Some a) rest" by (simp add: so_far_def)
  finally show ?thesis using split_line_blank [OF _ assms(2), of "Some a" 0] by (simp add: so_far_def)
next
  case False
  obtain cur' n' where w: "split_line False 0 None (a @ rest) = split_line False n' cur' rest"
    "so_far cur' @ replicate n' 92 = a" "cur' \<noteq> None \<or> n' \<noteq> 0"
    using split_line_word [of a False 0 None rest] False assms(1) by (auto simp: plain_arg_def so_far_def)
  have "split_line False 0 None (arg_text a @ rest) = split_line False 0 None (a @ rest)"
    using False by (simp add: arg_text_def)
  then show ?thesis using w split_line_blank [OF w(3) assms(2)] by simp
qed

lemma program_name_quoted: "34 \<notin> set path \<Longrightarrow> program_name True (path @ 34 # rest) = map_prod ((@) path) id (program_name False rest)"
  by (induction path) (auto simp: map_prod_def split: prod.splits)

lemma kept_text_begin: "kept_text args = [] \<or> (\<exists>r. kept_text args = 32 # r)"
  by (cases "filter (\<lambda>a. \<not> skipped a) args") (auto simp: kept_text_def arg_text_def)

lemma split_kept: "list_all plain_arg args \<Longrightarrow> split_line False 0 None (kept_text args) = filter (\<lambda>a. \<not> skipped a) args"
proof (induction args)
  case (Cons a as)
  show ?case
  proof (cases "skipped a")
    case False
    have "kept_text (a # as) = arg_text a @ kept_text as" using False by (simp add: kept_text_def)
    then show ?thesis using False Cons split_arg [OF _ kept_text_begin, of a as] by simp
  qed (use Cons in \<open>simp add: kept_text_def\<close>)
qed (simp add: kept_text_def)

lemma split_start_command:
  assumes "file_name path" "list_all plain_arg args"
  shows "win_argv (start_command path args) = path # filter (\<lambda>a. \<not> skipped a) args"
proof -
  have "program_name False (start_command path args) = (path, kept_text args)"
    using assms(1) program_name_quoted [of path "32 # kept_text args"] by (simp add: start_command_def file_name_def)
  then show ?thesis using split_kept [OF assms(2)] by (simp add: win_argv_def)
qed

lemma kept_text_no_zero: "list_all plain_arg args \<Longrightarrow> 0 \<notin> set (kept_text args)"
proof (induction args)
  case (Cons a as)
  have "0 \<notin> set (arg_text a)" using Cons.prems by (auto simp: arg_text_def plain_arg_def)
  then show ?case using Cons by (auto simp: kept_text_def)
qed (simp add: kept_text_def)

text \<open>The branch of \<open>main\<close>, when the kept arguments are \<open>args\<close> and everything fits.\<close>

lemma install_branch_correct:
  assumes "file_name path" "list_all plain_arg args" "length stack = 256" "length (start_command path args) < 255"
    "kept_text all_args = kept_text args"
  shows "install_winservice_branch all_args stack path scm service =
      Some (if scm = NULL then (-1, [OpenSCManager scm])
            else if service = NULL
            then (-2, [OpenSCManager scm, CreateService (start_command path args) service, CloseServiceHandle scm])
            else (0, [OpenSCManager scm, CreateService (start_command path args) service, CloseServiceHandle service,
                      CloseServiceHandle scm]))"
proof -
  have z: "0 \<notin> set (kept_text args)" "0 \<notin> set path"
    using kept_text_no_zero [OF assms(2)] assms(1) by (simp_all add: file_name_def)
  have "length (kept_text args) \<le> 256" using assms(4) by (simp add: start_command_def)
  note f = install_branch_fits [of all_args, unfolded assms(5), OF this z(1), of stack path scm service]
  have "length ([34] @ path @ [34, 32] @ kept_text args) < 255" using assms(4) by (simp add: start_command_def)
  note i = InstallDaemonServer_fits [OF assms(3) z(2,1) this, of scm service]
  show ?thesis using f i by (simp add: start_command_def Let_def)
qed

end
