(* ===== verification/WinMain.thy ===== *)
theory WinMain
  imports Cmdline WinInstall
begin

text \<open>
  \<open>ParseCommandParameter\<close> and \<open>main\<close> of \<open>tcpdaemon_main.c\<close> as they are compiled for Windows, up to the call of
  \<open>tcpdaemon\<close>: the options that install and remove the service.
\<close>

subsection \<open>The options\<close>

record win_para =
  the_para :: entry_para
  install_winservice :: bool
  uninstall_winservice :: bool

datatype win_parse_end = WinParsed win_para | WinParseReturns int | WinParseExits int printed

text \<open>\<open>--work-user\<close> is an option of the Linux code only.\<close>

definition set_value_WIN :: "string \<Rightarrow> string \<Rightarrow> win_para \<Rightarrow> (int + win_para) option" where
  "set_value_WIN a v p =
     (if a = ''--work-user'' then None
      else map_option (map_sum id (\<lambda>q. p\<lparr>the_para := q\<rparr>)) (set_value a v (the_para p)))"

definition set_flag_WIN :: "string \<Rightarrow> win_para \<Rightarrow> win_para option" where
  "set_flag_WIN a p =
     (if a = ''--install-winservice'' then Some (p\<lparr>install_winservice := True\<rparr>)
      else if a = ''--uninstall-winservice'' then Some (p\<lparr>uninstall_winservice := True\<rparr>)
      else map_option (\<lambda>q. p\<lparr>the_para := q\<rparr>) (set_flag a (the_para p)))"

fun ParseCommandParameter_WIN :: "string list \<Rightarrow> win_para \<Rightarrow> win_parse_end" where
  "ParseCommandParameter_WIN [] p = WinParsed p"
| "ParseCommandParameter_WIN [a] p =
     (if a = ''-v'' then WinParseExits 0 PVersion
      else (case set_flag_WIN a p of
              Some p \<Rightarrow> WinParsed p
            | None \<Rightarrow> WinParseExits 1 PUsage))"
| "ParseCommandParameter_WIN (a # v # rest) p =
     (if a = ''-v'' then WinParseExits 0 PVersion
      else (case set_value_WIN a v p of
              Some (Inl n) \<Rightarrow> WinParseReturns n
            | Some (Inr p) \<Rightarrow> ParseCommandParameter_WIN rest p
            | None \<Rightarrow>
                (case set_flag_WIN a p of
                   Some p \<Rightarrow> ParseCommandParameter_WIN (v # rest) p
                 | None \<Rightarrow> WinParseExits 1 PUsage)))"

subsection \<open>\<open>main\<close>\<close>

definition zero_win_para :: win_para where
  "zero_win_para = \<lparr>the_para = zero_para, install_winservice = False, uninstall_winservice = False\<rparr>"

datatype win_main_end =
    WinExits int
  | WinReturns int "scm_call list"
  | WinCallsTcpdaemon entry_para

text \<open>What the system answers: the stack, the file name of the program, and the service manager.\<close>

record win_main_os =
  m_stack :: "byte list"
  m_path :: "byte list"
  m_scm :: addr
  m_service :: addr
  m_delete :: bool

definition main_WIN :: "win_main_os \<Rightarrow> string list \<Rightarrow> win_main_end option" where
  "main_WIN os args =
     (if args = [] then Some (WinExits 0)
      else if args = [''--uninstall-winservice'']
      then (let (nret, cs) = UninstallDaemonServer (m_scm os) (m_service os) (m_delete os) in Some (WinReturns 0 cs))
      else
        (let para = zero_win_para\<lparr>the_para := zero_para\<lparr>log_level := LOGLEVEL_INFO\<rparr>\<rparr>
         in case ParseCommandParameter_WIN args para of
              WinParseExits n out \<Rightarrow> Some (WinExits n)
            | WinParseReturns n \<Rightarrow> Some (WinReturns n [])
            | WinParsed para \<Rightarrow>
                if install_winservice para
                then map_option (\<lambda>(nret, cs). WinReturns 0 cs)
                       (install_winservice_branch (map str args) (m_stack os) (m_path os) (m_scm os) (m_service os))
                else Some (WinCallsTcpdaemon (the_para para))))"

subsection \<open>Parsing in two parts\<close>

text \<open>No option is both: with a value and without.\<close>

lemma flag_no_value: "set_flag_WIN a p = Some q \<Longrightarrow> a \<noteq> ''-v'' \<and> set_value_WIN a v r = None"
  by (auto simp: set_flag_WIN_def set_value_WIN_def set_flag_def set_value_def split: if_splits)

lemma parse_WIN_append:
  "ParseCommandParameter_WIN as p = WinParsed q \<Longrightarrow> ParseCommandParameter_WIN (as @ bs) p = ParseCommandParameter_WIN bs q"
proof (induction as p rule: ParseCommandParameter_WIN.induct)
  case (2 a p)
  then obtain q' where q: "set_flag_WIN a p = Some q" by (auto split: if_splits option.splits)
  then show ?case using flag_no_value [OF q] by (cases bs) auto
next
  case (3 a v rest p)
  show ?case
  proof (cases "set_value_WIN a v p")
    case None
    then show ?thesis using 3 by (auto split: if_splits option.splits)
  next
    case (Some x)
    then show ?thesis using 3 by (cases x) (auto split: if_splits)
  qed
qed simp

text \<open>The two marks change nothing else.\<close>

definition mark :: "bool \<Rightarrow> win_para \<Rightarrow> win_para" where
  "mark b p = p\<lparr>install_winservice := b\<rparr>"

lemma set_mark:
  "set_value_WIN a v (mark b p) = map_option (map_sum id (mark b)) (set_value_WIN a v p)"
  "a \<noteq> ''--install-winservice'' \<Longrightarrow> set_flag_WIN a (mark b p) = map_option (mark b) (set_flag_WIN a p)"
  by (auto simp: set_value_WIN_def set_flag_WIN_def mark_def option.map_comp comp_def sum.map_comp map_sum_def
      intro!: option.map_cong0 split: sum.splits)

lemma parse_mark:
  "ParseCommandParameter_WIN as p = WinParsed q \<Longrightarrow> ''--install-winservice'' \<notin> set as \<Longrightarrow>
   ParseCommandParameter_WIN as (mark b p) = WinParsed (mark b q)"
proof (induction as p rule: ParseCommandParameter_WIN.induct)
  case (2 a p)
  then show ?case by (auto simp: set_mark split: if_splits option.splits)
next
  case (3 a v rest p)
  show ?case
  proof (cases "set_value_WIN a v p")
    case None
    then show ?thesis using 3 by (auto simp: set_mark split: if_splits option.splits)
  next
    case (Some x)
    then show ?thesis using 3 by (cases x) (auto simp: set_mark split: if_splits)
  qed
qed simp

lemma parse_install_anywhere:
  assumes "ParseCommandParameter_WIN as p = WinParsed q" "ParseCommandParameter_WIN (as @ bs) p = WinParsed r"
    "''--install-winservice'' \<notin> set bs"
  shows "ParseCommandParameter_WIN (as @ ''--install-winservice'' # bs) p = WinParsed (mark True r)"
proof -
  have r: "ParseCommandParameter_WIN bs q = WinParsed r" using parse_WIN_append [OF assms(1)] assms(2) by simp
  have f: "set_flag_WIN ''--install-winservice'' q = Some (mark True q)" by (simp add: set_flag_WIN_def mark_def)
  have "ParseCommandParameter_WIN (''--install-winservice'' # bs) q = ParseCommandParameter_WIN bs (mark True q)"
    using f flag_no_value [OF f] by (cases bs) auto
  then show ?thesis using parse_WIN_append [OF assms(1)] parse_mark [OF r assms(3)] by simp
qed

lemma parse_keeps_mark:
  "ParseCommandParameter_WIN as p = WinParsed q \<Longrightarrow> ''--install-winservice'' \<notin> set as \<Longrightarrow>
   install_winservice q = install_winservice p"
proof -
  assume a: "ParseCommandParameter_WIN as p = WinParsed q" "''--install-winservice'' \<notin> set as"
  have "mark (install_winservice p) p = p" by (simp add: mark_def)
  then have "mark (install_winservice p) q = q" using parse_mark [OF a, of "install_winservice p"] a(1) by simp
  then show ?thesis by (metis mark_def win_para.select_convs(2) win_para.surjective win_para.update_convs(2))
qed

subsection \<open>The arguments as bytes\<close>

lemma of_char_inj: "of_char c = (of_char d :: byte) \<Longrightarrow> c = d"
proof -
  assume e: "of_char c = (of_char d :: byte)"
  have "unat (of_char x :: byte) = of_char x" for x
  proof -
    have "(of_char x :: byte) = of_nat (of_char x)" by (rule of_nat_of_char [symmetric])
    moreover have "(of_char x :: nat) < 2 ^ 8" using nat_of_char_less_256 [of x] by simp
    ultimately show ?thesis by (simp only: unat_of_nat) (simp add: take_bit_nat_eq_self)
  qed
  then have "(of_char c :: nat) = of_char d" using e by metis
  then show "c = d" by simp
qed

lemma str_eq [simp]: "str s = str t \<longleftrightarrow> s = t"
  by (auto simp: str_def intro: map_injective [OF _ injI] of_char_inj)

lemma skipped_str: "skipped (str a) \<longleftrightarrow> a = ''--install-winservice'' \<or> a = ''--uninstall-winservice''"
  by (simp add: skipped_def)

lemma kept_str: "''--install-winservice'' \<notin> set as \<Longrightarrow> ''--uninstall-winservice'' \<notin> set as \<Longrightarrow>
    filter (\<lambda>a. \<not> skipped a) (map str as) = map str as"
  by (auto simp: filter_id_conv skipped_str)

end
