(* ===== verification/Props_Win.thy ===== *)
theory Props_Win
  imports WinTlf WinLf WinService WinMain Props_Daemon
begin

text \<open>
  The properties of the Windows parts: the thread pool, the service and its installation.
\<close>

subsection \<open>The thread pool\<close>

definition demo_win :: win_env where
  "demo_win = \<lparr>w_env = demo_env, thandles = None, tids = None, wcalls = []\<rparr>"

definition demo_thread :: "addr \<Rightarrow> thread_ans" where
  "demo_thread h = \<lparr>t_copy = True, t_handle = h, t_tid = 7\<rparr>"

definition demo_win_run :: "win_env flow" where
  "demo_win_run = tcpdaemon_WIN_TLF demo_para (demo_os 0) (\<lambda>_. True) [demo_thread 40, demo_thread 44]
     [(WaitFailed, demo_thread 0)] [WaitFailed] demo_win"

lemma demo_threads: "nat (process_count demo_para) = Suc (Suc 0)" "nat (process_count demo_para + 1) = Suc (Suc (Suc 0))"
  by (simp_all add: demo_para_def)

lemma demo_win_ends:
  "\<exists>e'. demo_win_run = Stop 0 e' \<and> wcalls e' = [WInitializeCriticalSection, WMalloc Thandles True, WMalloc Tids True,
     WCopyEnv True, WBeginThread (Suc 0) 40, WCopyEnv True, WBeginThread (Suc (Suc 0)) 44, WWait [0, 40] False WaitFailed,
     WWait [0, 40] True WaitFailed, WDeleteCriticalSection, WFree Thandles, WFree Tids]"
proof -
  have "\<exists>env. InitDaemonEnv demo_para ((demo_os 0)\<lparr>d_getpwnam := None\<rparr>) demo_env = (0, env)"
    by (simp add: InitDaemonEnv_def load_tcpmain_def switch_path_def switch_user_def demo_para_def demo_env_def demo_os_def Let_def)
  then obtain env where env: "InitDaemonEnv demo_para ((demo_os 0)\<lparr>d_getpwnam := None\<rparr>) demo_env = (0, env)" ..
  have "\<exists>e1. InitDaemonEnv_WIN_TLF demo_para (demo_os 0) (\<lambda>_. True) demo_win = (0, e1)
    \<and> wcalls e1 = [WInitializeCriticalSection, WMalloc Thandles True, WMalloc Tids True]
    \<and> thandles e1 = Some [0, 0, 0] \<and> tids e1 = Some [0, 0, 0]"
    using env by (simp add: InitDaemonEnv_WIN_TLF_def malloc_thandles_def malloc_tids_def demo_win_def demo_threads Let_def)
  then obtain e1 where "InitDaemonEnv_WIN_TLF demo_para (demo_os 0) (\<lambda>_. True) demo_win = (0, e1)"
    "wcalls e1 = [WInitializeCriticalSection, WMalloc Thandles True, WMalloc Tids True]"
    "thandles e1 = Some [0, 0, 0]" "tids e1 = Some [0, 0, 0]" by blast
  then show ?thesis
    by (simp add: demo_win_run_def tcpdaemon_WIN_TLF_def demo_thread_def demo_threads begin_thread_def DuplicateServerEnv_def
        Clean_WIN_calls set_index_def Let_def)
qed

text \<open>C37: What the Windows pool gives back, and that it does not watch its threads. Whatever the system
  answers, when \<open>tcpdaemon_WIN_TLF\<close> returns, on any error path (-1, -11, -12) or at the end (0), both
  arrays that were allocated are freed, a library that was loaded is unloaded and a listening socket
  that was created is passed to \<open>CLOSE\<close>, each exactly once; and each copy of the environment belongs
  to a thread that has begun, except one that is lost when the thread could not be begun (-12). And
  for a pool of at least one thread it returns 0 in one way only, if \<open>WaitForMultipleObjects\<close> fails
  whenever it is given an invalid handle, as is documented: the handles are entered from 1 on but
  waited for from 0 on, so the first wait is given a NULL handle and both waits fail at once; no
  thread is waited for or replaced and no thread's handle is closed, and the critical section, the
  arrays, the library and the socket go away after all threads have been begun.\<close>

theorem win_tlf_returns_without_waiting:
  assumes "tcpdaemon_WIN_TLF p os ok as ws rs e = Stop n e'" "fresh_win e"
  shows "acquired (w_env e') = released (w_env e')
    \<and> (\<forall>a. count_list (wcalls e') (WMalloc a True) = count_list (wcalls e') (WFree a))
    \<and> n \<in> {0, -1, -11, -12}
    \<and> count_list (wcalls e') (WCopyEnv True) = length (filter begins (wcalls e')) + (if n = -12 then 1 else 0)
    \<and> (n = 0 \<and> 0 < process_count p \<and> waits_lawful e' \<longrightarrow>
        (\<exists>hs. NULL \<in> set hs \<and> wcalls e' = [WInitializeCriticalSection, WMalloc Thandles True, WMalloc Tids True]
          @ begin_calls 1 (nat (process_count p)) as
          @ [WWait hs False WaitFailed, WWait hs True WaitFailed, WDeleteCriticalSection, WFree Thandles, WFree Tids]))"
proof -
  have c: "win_clean e'" using WIN_TLF_bal [OF assms] .
  have "count_list (wcalls e') (WMalloc a True) = count_list (wcalls e') (WFree a)" for a
    using c by (cases a) (simp_all add: win_clean_def mallocs_def frees_def)
  then show ?thesis
    using c WIN_TLF_copies [OF assms] WIN_TLF_calls [of p os ok as ws rs e e'] assms
    by (auto simp: win_clean_def copies_def begun_def)
qed

theorem win_tlf_returns_without_waiting_witness:
  "\<exists>e' hs. demo_win_run = Stop 0 e' \<and> acquired (w_env e') = released (w_env e') \<and> NULL \<in> set hs \<and> wcalls e' =
     [WInitializeCriticalSection, WMalloc Thandles True, WMalloc Tids True, WCopyEnv True, WBeginThread 1 40,
      WCopyEnv True, WBeginThread 2 44, WWait hs False WaitFailed, WWait hs True WaitFailed,
      WDeleteCriticalSection, WFree Thandles, WFree Tids]"
proof -
  obtain e' where e': "demo_win_run = Stop 0 e'"
    "wcalls e' = [WInitializeCriticalSection, WMalloc Thandles True, WMalloc Tids True, WCopyEnv True, WBeginThread 1 40,
      WCopyEnv True, WBeginThread 2 44, WWait [0, 40] False WaitFailed, WWait [0, 40] True WaitFailed,
      WDeleteCriticalSection, WFree Thandles, WFree Tids]"
    using demo_win_ends by (auto simp: numeral_2_eq_2)
  have f: "fresh_win demo_win" using demo_fresh by (simp add: fresh_win_def demo_win_def)
  have l: "waits_lawful e'" by (auto simp: waits_lawful_def e'(2))
  show ?thesis
    using win_tlf_returns_without_waiting [OF e'(1) [unfolded demo_win_run_def] f] l e' by (auto simp: demo_para_def)
qed

text \<open>C35: The accept section of the Windows threads, for any critical section that does what Windows
  documents for it. As long as every callback has answered TCPMAIN_RETURN_CLOSE: at most one thread is
  between \<open>EnterCriticalSection\<close> and \<open>accept\<close>, through failures of \<open>select\<close> and \<open>accept\<close> as well; a
  thread that waits to enter can enter whenever no thread is there; and every step out of it calls
  \<open>LeaveCriticalSection\<close> as the owner that has entered once. The first callback with another answer
  makes its thread call \<open>LeaveCriticalSection\<close> without owning the section, while another thread may
  own it; for what follows then Windows documents nothing but that others may wait without end.\<close>

theorem win_lf_accept_section:
  assumes "section_lawful cs view" "win_lf_run cs cfg es (win_lf_init cs n) = Some s" "\<forall>x \<in> set es. \<not> refuses (snd x)"
  shows "(\<forall>i < length (threads s). \<forall>j < length (threads s).
         in_section (threads s ! i) \<and> in_section (threads s ! j) \<longrightarrow> i = j)
    \<and> (\<forall>i < length (threads s). pc (threads s ! i) = Entering \<and> (\<forall>j < length (threads s). \<not> in_section (threads s ! j)) \<longrightarrow>
         (\<exists>t. win_lf_move cs cfg (i, SemopOk) s = Some t \<and> in_section (threads t ! i)))
    \<and> (\<forall>i ans t. win_lf_move cs cfg (i, ans) s = Some t \<and> in_section (threads s ! i) \<and> \<not> in_section (threads t ! i) \<longrightarrow>
         view (accept_critical_section s) = Some (Some (i, 1))
         \<and> accept_critical_section t = LeaveCriticalSection cs i (accept_critical_section s))
    \<and> (\<forall>i r t. win_lf_move cs cfg (i, TcpmainReturned r) s = Some t \<and> r \<noteq> TCPMAIN_RETURN_CLOSE \<longrightarrow>
         (\<forall>k. view (accept_critical_section s) \<noteq> Some (Some (i, k)))
         \<and> accept_critical_section t = LeaveCriticalSection cs i (accept_critical_section s))"
proof -
  have inv: "section_inv view s" using win_lf_run_inv [OF assms] .
  have "i = j" if "i < length (threads s)" "j < length (threads s)" "in_section (threads s ! i)" "in_section (threads s ! j)" for i j
    using section_owner(1) [OF inv that(1)] section_owner(1) [OF inv that(2)] that(3,4) by simp
  moreover have "refuses (TcpmainReturned r)" if "r \<noteq> TCPMAIN_RETURN_CLOSE" for r using that by (simp add: refuses_def)
  ultimately show ?thesis
    using section_enters [OF assms(1) inv] section_left [OF inv] by blast
qed

text \<open>
  A critical section that does what is documented: its owner and his count. Thread 0 serves a
  connection while thread 1 owns the section; then the callback of thread 0 answers 1.
\<close>

definition demo_section :: "(nat \<times> nat) option section_ops" where
  "demo_section =
     \<lparr>InitializeCriticalSection = None,
      EnterCriticalSection = (\<lambda>i c. case c of None \<Rightarrow> Some (Some (i, 1)) | Some (j, k) \<Rightarrow> if i = j then Some (Some (j, k + 1)) else None),
      LeaveCriticalSection = (\<lambda>i c. case c of None \<Rightarrow> None | Some (j, k) \<Rightarrow> if k = 1 then None else Some (j, k - 1))\<rparr>"

definition demo_win_lf :: "(nat \<times> lf_ans) list" where
  "demo_win_lf = [(0, Forked), (1, Forked), (0, SemopOk), (0, ListenReadable), (0, Accepted 7), (1, SemopOk)]"

theorem win_lf_accept_section_witness:
  "\<exists>s t. win_lf_run demo_section \<lparr>lf_tcp_nodelay = 1, lf_tcp_linger = 0, lf_max_requests_per_process = 0\<rparr> demo_win_lf
       (win_lf_init demo_section 3) = Some s
     \<and> pc (threads s ! 1) = Selecting \<and> accept_critical_section s = Some (1, 1)
     \<and> win_lf_move demo_section \<lparr>lf_tcp_nodelay = 1, lf_tcp_linger = 0, lf_max_requests_per_process = 0\<rparr> (0, TcpmainReturned 1) s = Some t
     \<and> accept_critical_section t = LeaveCriticalSection demo_section 0 (Some (1, 1)) \<and> freed_envs t = [0]"
proof -
  let ?cfg = "\<lparr>lf_tcp_nodelay = 1, lf_tcp_linger = 0, lf_max_requests_per_process = 0\<rparr>"
  note step = win_lf_move_def win_lf_step_def win_lf_finally_def lf_served_def lf_set_sock_opts_def lf_note_def
    TCPMAIN_RETURN_CLOSE_def Let_def
  obtain s t where s: "win_lf_run demo_section ?cfg demo_win_lf (win_lf_init demo_section 3) = Some s"
      "pc (threads s ! 1) = Selecting" "accept_critical_section s = Some (1, 1)"
    and t: "win_lf_move demo_section ?cfg (0, TcpmainReturned 1) s = Some t" "freed_envs t = [0]"
    by (simp add: demo_win_lf_def win_lf_init_def demo_section_def no_worker_def numeral_3_eq_3 step)
  have "section_lawful demo_section Some" by (auto simp: section_lawful_def demo_section_def)
  have "\<forall>x \<in> set demo_win_lf. \<not> refuses (snd x)" by (simp add: demo_win_lf_def refuses_def)
  note T = win_lf_accept_section [OF \<open>section_lawful demo_section Some\<close> s(1) this]
  have "\<forall>i r u. win_lf_move demo_section ?cfg (i, TcpmainReturned r) s = Some u \<and> r \<noteq> TCPMAIN_RETURN_CLOSE \<longrightarrow>
      accept_critical_section u = LeaveCriticalSection demo_section i (accept_critical_section s)"
    using T by blast
  then have "accept_critical_section t = LeaveCriticalSection demo_section 0 (accept_critical_section s)"
    using t(1) unfolding TCPMAIN_RETURN_CLOSE_def by (metis one_neq_zero)
  with s t show ?thesis by metis
qed

subsection \<open>The service\<close>

text \<open>C34: The service accounts for its handles and for its state, from the moment its main begins, between
  any two calls of the monitor and any two parts of the handler (a part is a new state with its
  report, or the call of the control function), whatever the processes do and
  whenever the control manager calls the handler. Of the handles that \<open>CreateProcess\<close> gave, each has
  been closed exactly once, except both handles of the process that runs now until the monitor has
  closed that of the thread, and its process handle until the wait for it is over and it is closed.
  The state reported last is the state the service holds. When a stop or shutdown comes to
  terminate the process, SERVICE_STOPPED has been reported already, and the handle it passes to
  \<open>TerminateProcess\<close> is the one in \<open>g_li\<close>: of the process that runs; but NULL between \<open>memset\<close> and
  the return of \<open>CreateProcess\<close>, and one that has been closed during the pause, and NULL or closed
  until the next \<open>memset\<close>.\<close>

theorem service_monitor_correct:
  assumes "service_start h = (True, s0)" "svc_run xs (service_begins s0) = Some t" "s = service t"
  shows "handles_opened s = handles_closed s +
      (if monitor_at t = ClosingThread then {#g_li_hProcess s, g_li_hThread s#}
       else if monitor_at t \<in> {WaitingProcess, ClosingProcess} then {#g_li_hProcess s#} else {#})
    \<and> last_report (scalls s) = Some (h, gssServiceStatus s)
    \<and> (\<forall>c. handler_at t = Reported2 c \<and> (c = SERVICE_CONTROL_STOP \<or> c = SERVICE_CONTROL_SHUTDOWN) \<longrightarrow>
        dwCurrentState (gssServiceStatus s) = SERVICE_STOPPED
        \<and> svc_step HandlerGoesOn t = Some (t\<lparr>handler_at := NoControl, service := scall (STerminateProcess (g_li_hProcess s)) s\<rparr>))
    \<and> (monitor_at t = Creating \<longrightarrow> g_li_hProcess s = NULL)
    \<and> (monitor_at t = Pausing \<longrightarrow> g_li_hProcess s \<in># handles_closed s)
    \<and> (monitor_at t = Clearing \<longrightarrow> g_li_hProcess s = NULL \<or> g_li_hProcess s \<in># handles_closed s)"
proof -
  have i: "svc_inv h t" using svc_run_keeps [OF service_start_inv [OF assms(1)] assms(2)] .
  have o: "open_handles t = (if monitor_at t = ClosingThread then {#g_li_hProcess s, g_li_hThread s#}
       else if monitor_at t \<in> {WaitingProcess, ClosingProcess} then {#g_li_hProcess s#} else {#})"
    by (simp add: open_handles_def assms(3) split: monitor_pc.splits)
  have "svc_step HandlerGoesOn t = Some (t\<lparr>handler_at := NoControl, service := scall (STerminateProcess (g_li_hProcess s)) s\<rparr>)"
    if "handler_at t = Reported2 c" "c = SERVICE_CONTROL_STOP \<or> c = SERVICE_CONTROL_SHUTDOWN" for c
    using that i by (auto simp: svc_step_def handler_control_def control_def svc_inv_def assms(3))
  then show ?thesis
    using i unfolding svc_inv_def stop_reported_def is_stop_def stale_ok_def o assms(3) by auto
qed

text \<open>
  A process starts; the service is paused while the thread's handle is still open, and asked; the
  process ends; a stop arrives while the monitor closes its handle, and terminates a closed one.
\<close>

definition demo_service :: "svc_step list" where
  "demo_service = [Monitors Done, Monitors (Created 40 44), Controls SERVICE_CONTROL_PAUSE, HandlerGoesOn, HandlerGoesOn,
     Monitors Done, Controls SERVICE_CONTROL_STOP, Monitors Done, HandlerGoesOn, Monitors Done]"

theorem service_monitor_correct_witness:
  "\<exists>t. svc_run demo_service (service_begins (snd (service_start 8))) = Some t
     \<and> monitor_at t = Pausing \<and> handles_opened (service t) = {#40, 44#} \<and> handles_closed (service t) = {#40, 44#}
     \<and> dwCurrentState (snd (the (last_report (scalls (service t))))) = SERVICE_STOPPED
     \<and> (\<exists>u. svc_step HandlerGoesOn t = Some u \<and> last (scalls (service u)) = STerminateProcess 40)"
proof -
  note e = service_start_def ServiceMainProc_def BindDaemonServer_WIN_def zero_svc_def set_state_def scall_def svc_step_def
    handler_first_def handler_second_def handler_control_def control_def demo_service_def service_begins_def Let_def
  obtain s0 where s0: "service_start 8 = (True, s0)" by (simp add: e)
  then obtain t where t: "svc_run demo_service (service_begins s0) = Some t" "monitor_at t = Pausing"
      "handler_at t = Reported2 SERVICE_CONTROL_STOP" "g_li_hProcess (service t) = 40"
      "handles_opened (service t) = {#40, 44#}"
    by (auto simp: e handles_opened_def)
  show ?thesis
    using service_monitor_correct [OF s0 t(1) refl] s0 t by auto
qed

subsection \<open>The installation\<close>

text \<open>C36: A service starts with the parameters it was installed with. When \<open>main\<close> is given
  \<open>--install-winservice\<close> between any two options that it accepts, none of them the one that
  uninstalls, no argument being empty, with quotes or zero bytes, or with blanks and a backslash at
  its end, when the file name of the program, with its directories, and the line fit into 254
  characters, and when the service manager opens and creates the service, then it registers one command and closes both
  handles of the service manager; the program that is started with that command gets, by the rules
  of the C runtime, the file name and exactly the other arguments, blanks and backslashes in them
  included, and parses them to the same parameters, without installing again.\<close>

theorem install_roundtrip:
  assumes parse: "ParseCommandParameter_WIN as (zero_win_para\<lparr>the_para := zero_para\<lparr>log_level := LOGLEVEL_INFO\<rparr>\<rparr>) = WinParsed q"
      "ParseCommandParameter_WIN (as @ bs) (zero_win_para\<lparr>the_para := zero_para\<lparr>log_level := LOGLEVEL_INFO\<rparr>\<rparr>) = WinParsed r"
    and args: "as @ bs \<noteq> []" "''--install-winservice'' \<notin> set (as @ bs)" "''--uninstall-winservice'' \<notin> set (as @ bs)"
      "list_all plain_arg (map str (as @ bs))"
    and os: "file_name (m_path os)" "length (m_stack os) = 256" "m_scm os \<noteq> NULL" "m_service os \<noteq> NULL"
    and fits: "length (start_command (m_path os) (map str (as @ bs))) < 255"
  shows "\<exists>command. main_WIN os (as @ ''--install-winservice'' # bs) = Some (WinReturns 0
        [OpenSCManager (m_scm os), CreateService command (m_service os), CloseServiceHandle (m_service os), CloseServiceHandle (m_scm os)])
    \<and> win_argv command = m_path os # map str (as @ bs)
    \<and> main_WIN os (as @ bs) = Some (WinCallsTcpdaemon (the_para r))"
proof -
  let ?inst = "as @ ''--install-winservice'' # bs" and ?p = "zero_win_para\<lparr>the_para := zero_para\<lparr>log_level := LOGLEVEL_INFO\<rparr>\<rparr>"
  have kept: "filter (\<lambda>a. \<not> skipped a) (map str ?inst) = map str (as @ bs)"
    using kept_str [of as] kept_str [of bs] args(2,3) by (simp add: skipped_str)
  then have same: "kept_text (map str ?inst) = kept_text (map str (as @ bs))"
    using kept_str [of "as @ bs"] args(2,3) by (simp add: kept_text_def)
  note branch = install_branch_correct [OF os(1) args(4) os(2) fits same, of "m_scm os" "m_service os"]
  have split: "win_argv (start_command (m_path os) (map str (as @ bs))) = m_path os # map str (as @ bs)"
    using split_start_command [OF os(1) args(4)] kept_str [of "as @ bs"] args(2,3) by simp
  have "ParseCommandParameter_WIN ?inst ?p = WinParsed (mark True r)"
    using parse_install_anywhere [OF parse] args(2) by simp
  then have registers: "main_WIN os ?inst = Some (WinReturns 0 [OpenSCManager (m_scm os),
      CreateService (start_command (m_path os) (map str (as @ bs))) (m_service os), CloseServiceHandle (m_service os),
      CloseServiceHandle (m_scm os)])"
    using branch os(3,4) by (cases as) (simp_all add: main_WIN_def mark_def)
  have "\<not> install_winservice r" using parse_keeps_mark [OF parse(2) args(2)] by (simp add: zero_win_para_def)
  moreover have "as @ bs \<noteq> [''--uninstall-winservice'']" using args(3) by force
  ultimately have "main_WIN os (as @ bs) = Some (WinCallsTcpdaemon (the_para r))"
    using parse(2) args(1) unfolding main_WIN_def by (simp only: Let_def if_False win_parse_end.case)
  then show ?thesis using registers split by blast
qed

definition demo_path :: "byte list" where
  "demo_path = str ''C:'' @ [92] @ str ''my tools'' @ [92] @ str ''t.exe''"

definition demo_main_os :: win_main_os where
  "demo_main_os = \<lparr>m_stack = replicate 256 7, m_path = demo_path, m_scm = 3, m_service = 5, m_delete = True\<rparr>"

definition demo_args :: "string list" where
  "demo_args = [''-m'', ''WIN-TLF'', ''-c'', ''2'']"

definition demo_dll :: string where
  "demo_dll = ''d'' @ [CHR 0x5C] @ ''a b.dll''"

lemma demo_args_parse:
  "ParseCommandParameter_WIN demo_args (zero_win_para\<lparr>the_para := zero_para\<lparr>log_level := LOGLEVEL_INFO\<rparr>\<rparr>) = WinParsed
     (zero_win_para\<lparr>the_para := zero_para\<lparr>log_level := LOGLEVEL_INFO, server_model := ''WIN-TLF'', process_count := atoi_str ''2''\<rparr>\<rparr>)"
  "ParseCommandParameter_WIN (demo_args @ [''-s'', demo_dll]) (zero_win_para\<lparr>the_para := zero_para\<lparr>log_level := LOGLEVEL_INFO\<rparr>\<rparr>) = WinParsed
     (zero_win_para\<lparr>the_para := zero_para\<lparr>log_level := LOGLEVEL_INFO, server_model := ''WIN-TLF'', process_count := atoi_str ''2'',
        so_pathfilename := demo_dll\<rparr>\<rparr>)"
  by (simp_all add: demo_args_def demo_dll_def zero_win_para_def zero_para_def set_value_WIN_def set_value_def strncpy_full_def)

theorem install_roundtrip_witness:
  "\<exists>command. main_WIN demo_main_os (demo_args @ [''--install-winservice'', ''-s'', demo_dll]) =
       Some (WinReturns 0 [OpenSCManager 3, CreateService command 5, CloseServiceHandle 5, CloseServiceHandle 3])
     \<and> win_argv command = demo_path # map str [''-m'', ''WIN-TLF'', ''-c'', ''2'', ''-s'', demo_dll]"
proof -
  have plain: "list_all plain_arg (map str (demo_args @ [''-s'', demo_dll]))" "file_name demo_path"
    by (simp_all add: plain_arg_def file_name_def demo_path_def demo_args_def demo_dll_def str_def)
  have "kept_text (map str (demo_args @ [''-s'', demo_dll])) = concat (map (\<lambda>a. arg_text (str a)) (demo_args @ [''-s'', demo_dll]))"
    by (simp add: kept_text_def demo_args_def demo_dll_def skipped_str)
  then have "length (start_command demo_path (map str (demo_args @ [''-s'', demo_dll]))) < 255"
    by (simp add: start_command_def arg_text_def str_def demo_args_def demo_dll_def demo_path_def)
  moreover have "demo_dll \<noteq> ''--install-winservice''" "demo_dll \<noteq> ''--uninstall-winservice''" by (simp_all add: demo_dll_def)
  ultimately show ?thesis
    using install_roundtrip [OF demo_args_parse _ _ _ plain(1), of demo_main_os] plain(2)
    by (auto simp: demo_main_os_def demo_args_def)
qed

end
