(* ===== verification/LfPool.thy ===== *)
theory LfPool
  imports LfInv DaemonInv
begin

text \<open>
  The leader-follower pool on the environment that \<open>InitDaemonEnv_LF\<close> leaves: the semaphore that the
  start created and set is the one the workers take turns on. No worker waits in vain.
\<close>

subsection \<open>The start of the pool\<close>

text \<open>The value that the calls of a process leave a semaphore with.\<close>

definition sem_value :: "int \<Rightarrow> sys_call list \<Rightarrow> int option" where
  "sem_value i cs = fold (\<lambda>c v. case c of CSemSetVal j x \<Rightarrow> if j = i then Some x else v | _ \<Rightarrow> v) cs None"

definition lf_pool_start :: "env \<Rightarrow> lf_sys" where
  "lf_pool_start e = (lf_init (length (the (pids e))))\<lparr>lf_sys.accept_mutex := the (sem_value (env.accept_mutex e) (calls e))\<rparr>"

definition lf_cfg_of :: "entry_para \<Rightarrow> lf_cfg" where
  "lf_cfg_of p = \<lparr>lf_tcp_nodelay = tcp_nodelay p, lf_tcp_linger = tcp_linger p,
     lf_max_requests_per_process = max_requests_per_process p\<rparr>"

lemma lf_pool_begins:
  assumes "InitDaemonEnv_LF p os e = (0, e')"
  shows "lf_pool_start e' = lf_init (nat (process_count p))"
proof -
  obtain n1 e1 where i: "InitDaemonEnv p os e = (n1, e1)" by fastforce
  have "pids e' = Some (replicate (nat (process_count p)) 0)" "sem_value (env.accept_mutex e') (calls e') = Some 1"
    using assms i by (auto simp: InitDaemonEnv_LF_def malloc_pids_def malloc_pipes_def sem_value_def call_def Let_def
        split: if_splits)
  then show ?thesis by (simp add: lf_pool_start_def lf_init_def)
qed

subsection \<open>No deadlock\<close>

text \<open>The steps that take a worker with the semaphore out of the accept section.\<close>

definition way_out :: "lf_pc \<Rightarrow> lf_ans list" where
  "way_out l =
     (case l of
        Selecting \<Rightarrow> [ListenReadable, Accepted 0, SemopOk]
      | Accepting \<Rightarrow> [Accepted 0, SemopOk]
      | Leaving \<Rightarrow> [SemopOk]
      | Finally \<Rightarrow> [SemopOk]
      | Returned _ \<Rightarrow> [ProcessEnds]
      | _ \<Rightarrow> [])"

lemma lf_move_of: "lf_move cfg j ans s = Some t \<longleftrightarrow> j < length (workers s) \<and>
    (\<exists>m w. lf_step cfg ans (lf_sys.accept_mutex s, workers s ! j) = Some (m, w)
       \<and> t = \<lparr>lf_sys.accept_mutex = m, workers = (workers s)[j := w]\<rparr>)"
  by (auto simp: lf_move_def)

lemma way_out_runs:
  assumes "j < length (workers s)" "semadj (workers s ! j) = 1" "lf_worker_inv cfg (workers s ! j)" "lf_sys.accept_mutex s = 0"
  shows "\<exists>t. lf_run cfg (map (Pair j) (way_out (pc (workers s ! j)))) s = Some t \<and> lf_sys.accept_mutex t = 1
    \<and> length (workers t) = length (workers s) \<and> (\<forall>i. i \<noteq> j \<longrightarrow> workers t ! i = workers s ! i)"
proof -
  have set_opts: "pc (lf_set_sock_opts cfg w) = pc w" "semadj (lf_set_sock_opts cfg w) = semadj w" for w
    by (simp_all add: lf_set_sock_opts_def lf_note_def Let_def)
  note step = lf_move_def lf_step_def semop_def lf_goto_def lf_ends_def lf_note_def set_opts Let_def
  show ?thesis
    using assms by (cases "pc (workers s ! j)") (simp_all add: lf_worker_inv_def way_out_def step)
qed

text \<open>Whenever a worker waits for the semaphore, the others can go on until it gets it.\<close>

definition cooperates :: "lf_sys \<Rightarrow> nat \<Rightarrow> nat \<times> lf_ans \<Rightarrow> bool" where
  "cooperates s i e \<longleftrightarrow> answer_ok e \<and> (snd e = ProcessEnds \<longrightarrow> (\<exists>r. pc (workers s ! fst e) = Returned r)) \<and> (fst e = i \<longrightarrow> snd e = SemopOk)"

lemma way_out_ok: "list_all (cooperates s i) (map (Pair j) (way_out (pc (workers s ! j))))" if "j \<noteq> i"
  using that by (cases "pc (workers s ! j)") (simp_all add: way_out_def cooperates_def answer_ok_def)

lemma lf_no_deadlock:
  assumes "lf_reachable cfg n s" "i < length (workers s)" "pc (workers s ! i) = Entering"
  shows "\<exists>es t. lf_run cfg es s = Some t \<and> list_all (cooperates s i) es \<and> pc (workers t ! i) = Selecting"
proof -
  have inv: "lf_inv cfg s" using lf_reachable_inv [OF assms(1)] .
  have enters: "\<exists>u. lf_run cfg [(i, SemopOk)] t = Some u \<and> pc (workers u ! i) = Selecting"
    if "lf_sys.accept_mutex t = 1" "length (workers t) = length (workers s)" "workers t ! i = workers s ! i" for t
    using that assms(2,3) by (simp add: lf_move_def lf_step_def semop_def lf_goto_def Let_def)
  have ok: "cooperates s i (i, SemopOk)" by (simp add: cooperates_def answer_ok_def)
  have "0 \<le> sum_list (map semadj (workers s))"
    using inv lf_worker_inv_semadj(1) unfolding lf_inv_def by (intro sum_list_nonneg) force
  then consider "lf_sys.accept_mutex s = 1" | "lf_sys.accept_mutex s = 0" using inv by (fastforce simp: lf_inv_def)
  then show ?thesis
  proof cases
    case 1
    then show ?thesis using enters [of s] ok by fastforce
  next
    case 2
    obtain j where j: "j < length (workers s)" "semadj (workers s ! j) = 1"
      using lf_inv_held [OF inv 2] by (metis in_set_conv_nth)
    have wj: "lf_worker_inv cfg (workers s ! j)" using inv j(1) by (simp add: lf_inv_def)
    have ij: "j \<noteq> i" using wj j(2) assms(3) by (auto simp: lf_worker_inv_def)
    obtain t where t: "lf_run cfg (map (Pair j) (way_out (pc (workers s ! j)))) s = Some t" "lf_sys.accept_mutex t = 1"
      "length (workers t) = length (workers s)" "workers t ! i = workers s ! i"
      using way_out_runs [OF j wj 2] ij by metis
    obtain u where u: "lf_run cfg [(i, SemopOk)] t = Some u" "pc (workers u ! i) = Selecting" using enters [OF t(2-4)] by blast
    have "lf_run cfg (map (Pair j) (way_out (pc (workers s ! j))) @ [(i, SemopOk)]) s = Some u"
      using t(1) u(1) by (simp only: lf_reach.run_append option.case)
    then show ?thesis using u(2) way_out_ok [OF ij] ok
      by (intro exI [of _ "map (Pair j) (way_out (pc (workers s ! j))) @ [(i, SemopOk)]"] exI [of _ u]) simp
  qed
qed

subsection \<open>The number of workers\<close>

interpretation lf_size: guarded_system "\<lambda>e. lf_move cfg (fst e) (snd e)" "lf_run cfg" "\<lambda>s. length (workers s) = n" "\<lambda>_. True" for cfg n
  by unfold_locales (auto simp: lf_move_def split: if_splits)

lemma lf_run_from_init:
  assumes "lf_run cfg es (lf_init n) = Some s" "\<not> run_leaves_unheld cfg es (lf_init n)"
  shows "lf_reachable cfg n s" "length (workers s) = n"
  using lf_run_reachable [OF lf_start assms] lf_size.run_keeps [OF _ assms(1)]
  by (simp_all add: lf_init_def list_all_iff)

end
