(* ===== verification/Props_LfPool.thy ===== *)
theory Props_LfPool
  imports LfPool Props_Daemon
begin

text \<open>
  The properties of the leader-follower pool from the start of the daemon on.
\<close>

text \<open>C24: The accept section of the leader-follower pool, from the start of the daemon on. After
  \<open>InitDaemonEnv_LF\<close> has returned 0, however the workers are forked, interleaved and killed at any
  point, whatever calls fail, leaving the semaphore included, as long as entering the semaphore
  does not fail and every callback answers \<open>TCPMAIN_RETURN_CLOSE\<close> (in these two cases a worker posts
  the semaphore without holding it): at most one worker is between entering and leaving the accept
  section, the semaphore is 0 or 1, and no worker waits in vain: from every state, whoever holds
  the semaphore can go on until the waiting worker enters, and no process need be killed for it,
  only end when its function has returned.\<close>

theorem lf_pool_live:
  assumes "InitDaemonEnv_LF p os e = (0, e')" "lf_run (lf_cfg_of p) es (lf_pool_start e') = Some s"
    "\<not> run_leaves_unheld (lf_cfg_of p) es (lf_pool_start e')"
  shows "length (workers s) = nat (process_count p) \<and> lf_sys.accept_mutex s \<in> {0, 1}
    \<and> (\<forall>i < length (workers s). \<forall>j < length (workers s).
         in_critical (workers s ! i) \<and> in_critical (workers s ! j) \<longrightarrow> i = j)
    \<and> (\<forall>i < length (workers s). pc (workers s ! i) = Entering \<longrightarrow>
         (\<exists>es' t. lf_run (lf_cfg_of p) es' s = Some t \<and> list_all (cooperates s i) es' \<and> pc (workers t ! i) = Selecting))"
proof -
  note R = lf_run_from_init [OF assms(2,3) [unfolded lf_pool_begins [OF assms(1)]]]
  have inv: "lf_inv (lf_cfg_of p) s" using lf_reachable_inv [OF R(1)] .
  have "0 \<le> sum_list (map semadj (workers s))"
    using inv lf_worker_inv_semadj(1) unfolding lf_inv_def by (intro sum_list_nonneg) force
  then have "lf_sys.accept_mutex s \<in> {0, 1}" using inv by (auto simp: lf_inv_def)
  then show ?thesis using R(2) lf_inv_exclusive [OF inv] lf_no_deadlock [OF R(1)] by blast
qed

text \<open>Two workers are forked; the first one enters, accepts a connection and fails to leave, twice, so
  that it returns with the semaphore held; the second one waits.\<close>

definition stuck_run :: "(nat \<times> lf_ans) list" where
  "stuck_run = [(0, Forked), (1, Forked), (0, SemopOk), (0, ListenReadable), (0, Accepted 7), (0, SemopFails), (0, SemopFails)]"

theorem lf_pool_live_witness:
  "\<exists>e' s es t. InitDaemonEnv_LF demo_para (demo_os 0) demo_env = (0, e')
     \<and> lf_run (lf_cfg_of demo_para) stuck_run (lf_pool_start e') = Some s
     \<and> lf_sys.accept_mutex s = 0 \<and> pc (workers s ! 0) = Returned 1 \<and> pc (workers s ! 1) = Entering
     \<and> lf_run (lf_cfg_of demo_para) es s = Some t \<and> pc (workers t ! 1) = Selecting"
proof -
  have "\<exists>env. InitDaemonEnv demo_para (demo_os 0) demo_env = (0, env)"
    by (simp add: InitDaemonEnv_def load_tcpmain_def switch_path_def switch_user_def demo_para_def demo_env_def demo_os_def Let_def)
  then obtain env where "InitDaemonEnv demo_para (demo_os 0) demo_env = (0, env)" ..
  then have "\<exists>e'. InitDaemonEnv_LF demo_para (demo_os 0) demo_env = (0, e')"
    by (simp add: InitDaemonEnv_LF_def malloc_pids_def malloc_pipes_def demo_os_def Let_def)
  then obtain e' where e': "InitDaemonEnv_LF demo_para (demo_os 0) demo_env = (0, e')" ..
  have two: "nat (process_count demo_para) = 2" by (simp add: demo_para_def)
  then have start: "lf_pool_start e' = lf_init 2" using lf_pool_begins [OF e'] by simp
  note step = lf_move_def lf_step_def semop_def lf_goto_def lf_init_def no_worker_def numeral_2_eq_2 Let_def
  have "\<exists>s. lf_run (lf_cfg_of demo_para) stuck_run (lf_init 2) = Some s
      \<and> lf_sys.accept_mutex s = 0 \<and> pc (workers s ! 0) = Returned 1 \<and> pc (workers s ! 1) = Entering"
    by (simp add: stuck_run_def step)
  then obtain s where s: "lf_run (lf_cfg_of demo_para) stuck_run (lf_pool_start e') = Some s"
    "lf_sys.accept_mutex s = 0" "pc (workers s ! 0) = Returned 1" "pc (workers s ! 1) = Entering" unfolding start by blast
  have "\<not> run_leaves_unheld (lf_cfg_of demo_para) stuck_run (lf_pool_start e')"
    unfolding start by (simp add: stuck_run_def leaves_unheld_def step)
  from lf_pool_live [OF e' s(1) this] have "\<exists>es' t. lf_run (lf_cfg_of demo_para) es' s = Some t \<and> pc (workers t ! 1) = Selecting"
    using s(4) unfolding two by (metis one_less_numeral_iff semiring_norm(76))
  then show ?thesis using e' s by blast
qed

end
