(* ===== verification/KHlistIter.thy ===== *)
theory KHlistIter
  imports KHlist
begin

text \<open>
  The iteration macros of \<open>list.h\<close> over the entries of a hash chain: the node is a member of a
  struct, at an offset that the model takes as an argument where the code takes the type and the
  member's name.
\<close>

subsection \<open>The macros\<close>

definition hlist_entry :: "addr \<Rightarrow> addr \<Rightarrow> addr" where
  "hlist_entry ptr offset = ptr - offset"

definition hlist_entry_safe :: "addr \<Rightarrow> addr \<Rightarrow> addr" where
  "hlist_entry_safe ptr offset = (if ptr = 0 then 0 else hlist_entry ptr offset)"

text \<open>The loop that three of the macros share; \<open>(pos)->member\<close> is at \<open>pos + offset\<close>.\<close>

partial_function (option) hlist_entry_loop ::
  "('s \<Rightarrow> hheap) \<Rightarrow> (addr \<Rightarrow> 's \<Rightarrow> 's) \<Rightarrow> addr \<Rightarrow> addr \<Rightarrow> 's \<Rightarrow> 's option" where
  "hlist_entry_loop hp body offset pos s =
     (if pos = 0 then Some s
      else (let s = body pos s
            in hlist_entry_loop hp body offset (hlist_entry_safe (link (hp s) (pos + offset)) offset) s))"

definition hlist_for_each_entry :: "('s \<Rightarrow> hheap) \<Rightarrow> (addr \<Rightarrow> 's \<Rightarrow> 's) \<Rightarrow> addr \<Rightarrow> addr \<Rightarrow> 's \<Rightarrow> 's option" where
  "hlist_for_each_entry hp body head offset s =
     hlist_entry_loop hp body offset (hlist_entry_safe (link (hp s) head) offset) s"

definition hlist_for_each_entry_continue :: "('s \<Rightarrow> hheap) \<Rightarrow> (addr \<Rightarrow> 's \<Rightarrow> 's) \<Rightarrow> addr \<Rightarrow> addr \<Rightarrow> 's \<Rightarrow> 's option" where
  "hlist_for_each_entry_continue hp body pos offset s =
     hlist_entry_loop hp body offset (hlist_entry_safe (link (hp s) (pos + offset)) offset) s"

definition hlist_for_each_entry_from :: "('s \<Rightarrow> hheap) \<Rightarrow> (addr \<Rightarrow> 's \<Rightarrow> 's) \<Rightarrow> addr \<Rightarrow> addr \<Rightarrow> 's \<Rightarrow> 's option" where
  "hlist_for_each_entry_from hp body pos offset s = hlist_entry_loop hp body offset pos s"

partial_function (option) hlist_entry_safe_loop ::
  "('s \<Rightarrow> hheap) \<Rightarrow> (addr \<Rightarrow> 's \<Rightarrow> 's) \<Rightarrow> addr \<Rightarrow> addr \<Rightarrow> 's \<Rightarrow> 's option" where
  "hlist_entry_safe_loop hp body offset pos s =
     (if pos = 0 then Some s
      else (let n = link (hp s) (pos + offset);
                s = body pos s
            in hlist_entry_safe_loop hp body offset (hlist_entry_safe n offset) s))"

definition hlist_for_each_entry_safe :: "('s \<Rightarrow> hheap) \<Rightarrow> (addr \<Rightarrow> 's \<Rightarrow> 's) \<Rightarrow> addr \<Rightarrow> addr \<Rightarrow> 's \<Rightarrow> 's option" where
  "hlist_for_each_entry_safe hp body head offset s =
     hlist_entry_safe_loop hp body offset (hlist_entry_safe (link (hp s) head) offset) s"

subsection \<open>What they visit\<close>

text \<open>
  A node at the address that is its offset would be in a struct at address 0, which the loops
  take for the end; the lemmas exclude it.
\<close>

definition entries :: "addr \<Rightarrow> addr list \<Rightarrow> addr list" where
  "entries offset xs = map (\<lambda>x. hlist_entry x offset) xs"

lemma entry_node [simp]: "hlist_entry x offset + offset = x" "hlist_entry x offset = 0 \<longleftrightarrow> x = offset"
  by (simp_all add: hlist_entry_def)

lemma entry_loop_visits:
  assumes "\<And>x s. link (hp (body x s)) = link (hp s)"
  shows "hseg g a xs \<Longrightarrow> offset \<notin> set xs \<Longrightarrow> link (hp t) = link g \<Longrightarrow>
    hlist_entry_loop hp body offset (hlist_entry_safe (link (hp t) a) offset) t = Some (fold body (entries offset xs) t)"
proof (induction xs arbitrary: a t)
  case Nil
  then show ?case by (simp add: hlist_entry_loop.simps hlist_entry_safe_def entries_def)
next
  case (Cons x xs)
  then have "link (hp t) a = x" "x \<noteq> 0" "x \<noteq> offset" by auto
  moreover have "hlist_entry_loop hp body offset (hlist_entry_safe (link (hp (body (hlist_entry x offset) t)) x) offset)
      (body (hlist_entry x offset) t) = Some (fold body (entries offset xs) (body (hlist_entry x offset) t))"
    using Cons by (intro Cons.IH) (simp_all add: assms)
  ultimately show ?case
    by (subst hlist_entry_loop.simps) (simp add: hlist_entry_safe_def entries_def Let_def)
qed

lemma hlist_for_each_entry_visits:
  assumes "hlist (hp s) p xs" "offset \<notin> set xs" "\<And>x s. link (hp (body x s)) = link (hp s)"
  shows "hlist_for_each_entry hp body p offset s = Some (fold body (entries offset xs) s)"
  using entry_loop_visits [of hp body "hp s" p xs offset s] assms by (simp add: hlist_for_each_entry_def hlist_def)

lemma hlist_for_each_entry_continue_visits:
  assumes "hlist (hp s) p (xs @ a # ys)" "offset \<notin> set ys" "\<And>x s. link (hp (body x s)) = link (hp s)"
  shows "hlist_for_each_entry_continue hp body (hlist_entry a offset) offset s = Some (fold body (entries offset ys) s)"
proof -
  have "hseg (hp s) a ys" using assms(1) by (simp add: hlist_def hseg_split)
  from entry_loop_visits [of hp body, OF assms(3) this assms(2)] show ?thesis by (simp add: hlist_for_each_entry_continue_def)
qed

lemma hlist_for_each_entry_from_visits:
  assumes "hlist (hp s) p (xs @ a # ys)" "offset \<notin> set (a # ys)" "\<And>x s. link (hp (body x s)) = link (hp s)"
  shows "hlist_for_each_entry_from hp body (hlist_entry a offset) offset s = Some (fold body (entries offset (a # ys)) s)"
proof -
  have seg: "hseg (hp s) (last (p # xs)) (a # ys)" using assms(1) by (simp add: hlist_def hseg_split)
  then have "hlist_entry_safe (link (hp s) (last (p # xs))) offset = hlist_entry a offset" by (simp add: hlist_entry_safe_def)
  then show ?thesis using entry_loop_visits [of hp body, OF assms(3) seg assms(2)] by (simp add: hlist_for_each_entry_from_def)
qed

text \<open>The safe variant, with a body that deletes the entry it is given.\<close>

lemma hlist_for_each_entry_safe_deletes:
  assumes "hlist (hp s) p xs" "offset \<notin> set xs" "\<And>x s. hp (body x s) = hlist_del (x + offset) (hp s)"
  shows "\<exists>s'. hlist_for_each_entry_safe hp body p offset s = Some s' \<and> s' = fold body (entries offset xs) s
    \<and> hlist (hp s') p []"
proof -
  have "hlist_entry_safe_loop hp body offset (hlist_entry_safe (link (hp t) p) offset) t = Some (fold body (entries offset xs) t)
      \<and> hlist (hp (fold body (entries offset xs) t)) p []" if "hlist (hp t) p xs" for t
    using that assms(2)
  proof (induction xs arbitrary: t)
    case Nil
    then show ?case using hlist_first [OF Nil(1)] by (simp add: hlist_entry_safe_loop.simps hlist_entry_safe_def entries_def)
  next
    case (Cons x xs)
    let ?t = "body (hlist_entry x offset) t"
    have x: "link (hp t) p = x" "x \<noteq> 0" "x \<noteq> offset" using Cons.prems by (auto simp: hlist_def)
    have d: "hlist (hp ?t) p xs" using hlist_hlist_del [of "hp t" p "[]" x xs] Cons.prems(1) by (simp add: assms(3))
    have "link (hp t) x = link (hp ?t) p"
      using Cons.prems(1) d by (cases xs) (auto simp: hlist_def)
    then show ?case using Cons.IH [OF d] Cons.prems(2) x
      by (subst hlist_entry_safe_loop.simps) (simp add: hlist_entry_safe_def entries_def Let_def)
  qed
  then show ?thesis using assms(1) by (auto simp: hlist_for_each_entry_safe_def)
qed

end
