(* ===== verification/Spec2Isabelle.thy ===== *)
theory Spec2Isabelle
  imports Props_Iomp Props_Tree Props_Tdhb Props_List Props_Lf Props_Daemon Props_Log Props_Cmd
    Props_Aug Props_Dsc Props_Pool Props_Win Props_LfPool KHlistIter
begin

text \<open>
  tcpdaemon is a daemon that accepts TCP connections and hands them to an application's callback
  (\<open>tcpmain\<close>, loaded from a shared object or given as a function pointer). This development models
  its Linux code and the parts of it for Windows, and proves what makes it correct, and where the code does something else, what
  it does.

  \<^bold>\<open>The program.\<close> \<open>main\<close> (\<open>tcpdaemon_main.c\<close>) parses the command line into the entry parameters and
  calls \<open>tcpdaemon\<close> (\<open>tcpdaemon_lib.c\<close>), which may first become a daemon and then runs one of three
  process models. The instance-fork model forks a child for each connection. The two pool models
  fork a fixed number of workers and replace each worker that ends: in the leader-follower model
  the workers take turns on a System V semaphore to accept and serve one connection each; in the
  IO-multiplexing model each worker runs an epoll loop over its sessions, which come from a pool
  of preallocated arrays, are kept on intrusive lists (\<open>list.c\<close>) and in a red-black tree by the time
  they began (\<open>rbtree.c\<close>, \<open>rbtree_tpl.h\<close>, \<open>rbtree_ins.c\<close>), and the right to accept is a one-shot
  event that a worker passes on to the next. Beside this the library has a client protocol with a
  decimal length header (TDHB) and a logging library (\<open>LOGC.c\<close>). The sample server of \<open>src/test2\<close>
  answers TDHB messages whose bodies are packed by generated code (\<open>IDL_hello_world.dsc.[ch]\<close>).

  \<^bold>\<open>The theories and what they model.\<close>
  \<^item> Prelude, Consts: addresses, shared lemmas; the constants of the headers.
  \<^item> StepSystem: the locales \<open>step_system\<close> and \<open>guarded_system\<close> of the state machines, with what holds of
    their runs; the workers, the instance-fork parent and the Windows service are interpretations.
  \<^item> KList, KListIter: \<open>list.c\<close> and the iteration macros of \<open>list.h\<close>. A heap is a function from
    addresses to \<open>list_head\<close>; each operation is the sequence of its pointer writes. \<open>dlist h head xs\<close>
    says that the ring at \<open>head\<close> holds \<open>xs\<close>. The locale \<open>intrusive_queue\<close> is what the session pool
    needs of a list.
  \<^item> KHlist, KHlistIter: the \<open>hlist\<close> part of \<open>list.c\<close>, on one flat memory, because \<open>pprev\<close> points into both
    kinds of struct, and the iteration macros over nodes and over entries.
  \<^item> Rbtree, RbRep, RbInsert, RbErase, RbIter, RbTpl, RbAugment, RbAugInv: \<open>rbtree.c\<close> with colours in the low
    bits of the parent pointer, the representation of a tree in memory (with a zipper for the place
    where a loop works), insertion, deletion, iteration, the macros of \<open>rbtree_tpl.h\<close>, and the
    augmentation functions, for a callback that changes its own data only; \<open>aug_ok\<close> says that every
    node's value is the function of its children's.
  \<^item> Sessions, Pool: \<open>struct TcpdaemonAcceptedSession\<close> and the session functions, on one memory with
    the layout of an LP64 machine; the invariant \<open>pool\<close> of arrays, free list and timer tree.
  \<^item> Iomp, IompInv: \<open>tcpdaemon_IOMP_worker\<close> by rounds of its loop; \<open>iomp_rep\<close> is the pool together
    with the account of accepted sockets. What is relied on of \<open>epoll_wait\<close> is \<open>epoll_reports\<close> (events of
    open sessions, each once); \<open>sweep_spares\<close> is the case in which the sweep of a round closes no
    session with an event of that round. The timeout sweep is proved over the locale
    \<open>deadline_queue\<close>.
  \<^item> IompPool, IompPoolInv, IompStart: the pool of IO-multiplexing workers as interleaved steps on the
    shared epoll sets. A step of a worker is the return of \<open>epoll_wait\<close>, the handling of one event,
    its end, or its fork, and \<open>worker_steps_are_rounds\<close> says that these steps together are the round of
    Iomp; \<open>armed\<close> is what the kernel keeps of the listening socket in each set.
    \<open>tokens\<close> counts the sets armed for input and the unhandled events. \<open>pool_start\<close> is the pool on
    the environment that \<open>InitDaemonEnv_IOMP\<close> leaves.
  \<^item> Lf, LfInv: \<open>tcpdaemon_LF_worker\<close> as a step function of one process on the semaphore with
    \<open>SEM_UNDO\<close>, and the pool as interleaved steps. LfPool: the pool on the environment that
    \<open>InitDaemonEnv_LF\<close> leaves, and that no worker waits in vain. Any call may fail; \<open>run_leaves_unheld\<close>
    says that a run has a worker post the semaphore it does not hold.
  \<^item> Ifork: the parent of \<open>tcpdaemon_IF\<close> as a step function, with the signal handlers and the ends of
    its children interleaved.
  \<^item> Daemon, DaemonInv, DaemonIomp: \<open>InitDaemonEnv\<close>, \<open>CleanDaemonEnv\<close> and their variants, and the
    managing processes \<open>tcpdaemon_LF\<close> and \<open>tcpdaemon_IOMP\<close>. Every call that takes or gives back
    something is an entry of \<open>calls\<close>; \<open>env_bal\<close> says that what was acquired is what was released and
    what the environment refers to. The locale \<open>pool_daemon\<close> is what a managing process needs of its
    start and cleaning functions; both daemons are interpretations of it.
  \<^item> Tdhb, TdhbInv: the TDHB functions, blocking and non-blocking, with the kernel's answers as
    scripts; an access outside a buffer is the result \<open>Fault\<close>.
  \<^item> Logc, LogLevels, LogInv, LogHex: \<open>LOGC.c\<close> and the macros of \<open>LOGC.h\<close>; \<open>holds\<close> says what has been put
    into a buffer, \<open>line_of\<close> and \<open>hex_dump\<close> say what a line and a dump are.
  \<^item> Entry, Cmdline: \<open>CheckCommandParameter\<close>, \<open>_tcpdaemon\<close> (here \<open>tcpdaemon_0\<close>), \<open>BindDaemonServer\<close>,
    \<open>tcpdaemon\<close>; \<open>ParseCommandParameter\<close> and \<open>main\<close>, which compose all of the above. Exits: what decides
    the code that \<open>main\<close> gives, for each model, by the answers of the system.
  \<^item> WinTlf: the thread pool for Windows (\<open>tcpdaemon_WIN_TLF\<close>), on the start that it shares with Linux;
    \<open>wcalls\<close> records the calls of the Windows API. WinLf: its worker threads as interleaved steps on
    the critical section, whose operations are parameters; \<open>section_lawful\<close> is what Windows documents
    of them. WinService: the control handler, the service's main function and the monitor; the
    handler in three parts and the monitor in single calls run interleaved, and a handle is
    accounted for from \<open>CreateProcess\<close> to \<open>CloseHandle\<close>. WinInstall, WinMain: \<open>main\<close> for Windows up to the call of \<open>tcpdaemon\<close>,
    with the command line that is built with \<open>_snprintf\<close> in arrays of 257 and 256 bytes;
    \<open>win_argv\<close> says what arguments a program gets from a command by the rules of the C runtime, for
    the file name and for blanks, quotes and backslashes.
  \<^item> Dsc, DscInv, Hello: the integer codecs and the message code of \<open>IDL_hello_world.dsc.[ch]\<close> on
    buffers with a moving pointer, an access outside being \<open>None\<close>; the callback of
    \<open>test_callback_tdhb_hello_nonblock.c\<close>, composed of the TDHB functions and the message code.
  \<^item> Props_Tree, Props_Aug, Props_List, Props_Iomp, Props_Pool, Props_Tdhb, Props_Lf, Props_Daemon,
    Props_Log, Props_Cmd, Props_Dsc, Props_Win, Props_LfPool: the properties, each with a witness on concrete data.

  \<^bold>\<open>What the lemmas show.\<close> The data structures refine sequences: each list or tree operation, on a
  represented structure, ends, does on the sequence what its name says, and writes nowhere else.
  The session pool keeps its invariant, no session is both free and open, and the worker closes
  every accepted socket exactly once, when no session with an event is timed out by the sweep of
  the same round. In a pool of more than one worker the right to accept is in one place,
  an epoll set or a worker, from the start on, until a worker ends while it has it; then it is gone
  for good. The leader-follower workers are never two in the accept
  section while callbacks return \<open>TCPMAIN_RETURN_CLOSE\<close> and entering the semaphore does not fail, and a
  worker that waits can always get in. The managing processes release what they acquire on every
  path, but for a semaphore with id 0, which is left, and pipe ends when a worker cannot be created. The instance-fork parent keeps to its limit of
  children. TDHB messages arrive as they were sent when neither side splits the header. Log
  lines and dumps are what they should be as long as they fit, and nothing is written outside
  the buffers. The integer codecs and the message code are lossless, and the sample server sends
  back every message that fits its struct, if \<open>writev\<close> does not split the header. The command line is
  read as written, and the code of \<open>main\<close> is given by its cause.
  The Windows service accounts for every handle between any two calls, and is installed with a
  command that is parsed to the parameters of the installation. Two threads of the Windows pool are
  never in the accept section at once until a callback answers anything but \<open>TCPMAIN_RETURN_CLOSE\<close>,
  whose thread then leaves a section it does not own.
  Properties that state what the code does where that is not what it means to do: a socket event
  served after its session was closed, the accept token dropped after an error, header pieces
  that repeat or underrun a body, the semaphore released twice, descriptor 0 closed, the
  instance-fork parent that does not end, and a message longer than the struct it is unpacked to, and the
  Windows pool that waits for a NULL handle and returns under its threads.

  \<^bold>\<open>Loops and bounds.\<close> There is no fuel. Loops of the C code are structural recursion over a script of
  answers, functions with a measure (the rows of a dump: the room left in the buffer), or
  \<open>partial_function (option)\<close>, where \<open>None\<close> is divergence and the theorems prove \<open>Some\<close>. Times are
  32-bit words where the code compares sums of them, pointers and colours 64-bit words, epoll
  masks 32-bit words; other C ints are \<open>int\<close> within the ranges the statements give. A dump is
  proved right up to 8160 bytes (510 of the 511 rows that fit), and bounded for every length.

  \<^bold>\<open>Parameters.\<close> The kernel's answers, \<open>malloc\<close>, the clock, \<open>strftime\<close>, what a printf format expands to
  (for the log path with a percent sign, perhaps nothing defined), the critical section of Windows
  and the application's callback are arguments or scripts of answers; hypotheses on them
  (blocks apart from each other, \<open>epoll_wait\<close> reporting open sessions, \<open>pipe\<close> giving descriptors,
  \<open>WaitForMultipleObjects\<close> failing for a NULL handle) are part of the statements.

  \<^bold>\<open>Not modelled.\<close> The Windows branch of \<open>tcpdaemon\<close> itself, which does not compile (it uses undeclared
  names and has a misspelt \<open>return\<close>), so the Windows models start at the functions it would call; the other
  sample servers and the test client under \<open>src/test\<close> and \<open>src/test2\<close>, and the floating-point and NATO
  macros of the message code, which nothing uses; the \<open>list.h\<close> macros that cannot be expanded;
  CPU affinity, signal
  dispositions, sleeps, and the log calls of the other components. Updates of \<open>process_count\<close> in
  the instance-fork parent are taken as indivisible with respect to its signal handler.
\<close>

end
